(* ===== verification/DaemonPrelude.thy ===== *)
theory DaemonPrelude
  imports Main "HOL-Library.AList" "HOL-Library.Sublist"
begin

text \<open>
  Shared vocabulary of the development: JavaScript \<open>Map\<close>s and \<open>Set\<close>s in insertion order, the
  JSON values a file or a request can carry, the outcome of an operation that may throw, the
  string helpers the SDK uses on targets, and the lemma collections the component theories add to.

  A \<open>Map\<close> whose iteration order the code can observe is an association list with distinct keys:
  \<open>map.set\<close> keeps the place of a key that is already there and appends a new one, which is
  what \<open>AList.update\<close> does; \<open>map.delete\<close> is \<open>AList.delete\<close>; \<open>map.get\<close> is \<open>map_of\<close>. A \<open>Set\<close> is
  a list with distinct elements. A \<open>Map\<close> keyed by Agent id, which the code never iterates, is a
  function.
\<close>

named_theorems js_simps "rewriting of Map, Set and array operations"
named_theorems wf_intros "preservation of a component's well-formedness"

subsection \<open>JSON values\<close>

text \<open>
  Values read back from a file or a request. Numbers are the integers the program itself writes;
  a hand-edited fraction, NaN or infinity is outside the model. Object keys keep their order.
\<close>

datatype json =
    JNull
  | JBool bool
  | JNum int
  | JStr string
  | JArr "json list"
  | JObj "(string \<times> json) list"

definition field :: "(string \<times> json) list \<Rightarrow> string \<Rightarrow> json option" where
  "field kvs k = map_of kvs k"

fun json_num :: "json option \<Rightarrow> int option" where
  "json_num (Some (JNum n)) = Some n"
| "json_num _ = None"

fun json_str :: "json option \<Rightarrow> string option" where
  "json_str (Some (JStr s)) = Some s"
| "json_str _ = None"

text \<open>An optional field of a written object: \<open>JSON.stringify\<close> leaves an absent field out.\<close>

definition opt_field :: "string \<Rightarrow> ('a \<Rightarrow> json) \<Rightarrow> 'a option \<Rightarrow> (string \<times> json) list" where
  "opt_field k f v = (case v of None \<Rightarrow> [] | Some x \<Rightarrow> [(k, f x)])"

lemma field_simps_obj [simp]:
  "field [] k = None"
  "field ((k', v) # kvs) k = (if k = k' then Some v else field kvs k)"
  by (auto simp: field_def)

lemma field_append: "field (xs @ ys) k = (case field xs k of None \<Rightarrow> field ys k | Some v \<Rightarrow> Some v)"
  by (simp add: field_def map_add_def split: option.splits)

lemma field_opt_field: "field (opt_field k' f v) k = (if k = k' then map_option f v else None)"
  by (simp add: opt_field_def split: option.splits)

subsection \<open>Throwing operations\<close>

text \<open>A call that may throw: \<open>Inl\<close> carries the error, \<open>Inr\<close> the value.\<close>

definition and_then :: "'e + 'a \<Rightarrow> ('a \<Rightarrow> 'e + 'b) \<Rightarrow> 'e + 'b" where
  "and_then r f = (case r of Inl e \<Rightarrow> Inl e | Inr a \<Rightarrow> f a)"

lemma and_then_simps [simp]:
  "and_then (Inl e) f = Inl e"
  "and_then (Inr a) f = f a"
  by (simp_all add: and_then_def)

lemma and_then_eq_Inr: "and_then r f = Inr b \<longleftrightarrow> (\<exists>a. r = Inr a \<and> f a = Inr b)"
  by (cases r) auto

subsection \<open>Maps in insertion order\<close>

type_synonym ('k, 'v) js_map = "('k \<times> 'v) list"

abbreviation map_get :: "('k, 'v) js_map \<Rightarrow> 'k \<Rightarrow> 'v option" where
  "map_get m k \<equiv> map_of m k"

abbreviation map_set :: "('k, 'v) js_map \<Rightarrow> 'k \<Rightarrow> 'v \<Rightarrow> ('k, 'v) js_map" where
  "map_set m k v \<equiv> AList.update k v m"

abbreviation map_delete :: "('k, 'v) js_map \<Rightarrow> 'k \<Rightarrow> ('k, 'v) js_map" where
  "map_delete m k \<equiv> AList.delete k m"

abbreviation map_keys :: "('k, 'v) js_map \<Rightarrow> 'k list" where
  "map_keys m \<equiv> map fst m"

text \<open>\<open>map.get(k) ?? d\<close>.\<close>

definition get_or :: "('k, 'v) js_map \<Rightarrow> 'k \<Rightarrow> 'v \<Rightarrow> 'v" where
  "get_or m k d = (case map_get m k of None \<Rightarrow> d | Some v \<Rightarrow> v)"

definition has :: "('k, 'v) js_map \<Rightarrow> 'k \<Rightarrow> bool" where
  "has m k \<longleftrightarrow> map_get m k \<noteq> None"

definition wf_map :: "('k, 'v) js_map \<Rightarrow> bool" where
  "wf_map m \<longleftrightarrow> distinct (map_keys m)"

lemma map_get_set [simp, js_simps]: "map_get (map_set m k v) = (map_get m)(k \<mapsto> v)"
  by (rule update_conv')

lemma map_get_delete [simp, js_simps]: "map_get (map_delete m k) = (map_get m)(k := None)"
  by (rule delete_conv')

lemma get_or_nil [simp, js_simps]: "get_or [] k d = d"
  by (simp add: get_or_def)

lemma get_or_set [simp, js_simps]:
  "get_or (map_set m k v) k' d = (if k' = k then v else get_or m k' d)"
  by (simp add: get_or_def)

lemma get_or_delete [simp, js_simps]:
  "get_or (map_delete m k) k' d = (if k' = k then d else get_or m k' d)"
  by (simp add: get_or_def)

lemma wf_map_nil [simp, wf_intros]: "wf_map []"
  by (simp add: wf_map_def)

lemma wf_map_set [simp, wf_intros]: "wf_map m \<Longrightarrow> wf_map (map_set m k v)"
  by (simp add: wf_map_def distinct_update)

lemma wf_map_delete [simp, wf_intros]: "wf_map m \<Longrightarrow> wf_map (map_delete m k)"
  by (simp add: wf_map_def distinct_delete)

lemma wf_map_filter: "wf_map m \<Longrightarrow> wf_map (filter P m)"
  by (simp add: wf_map_def distinct_map_filter)

lemma wf_map_get_mem: "wf_map m \<Longrightarrow> (k, v) \<in> set m \<longleftrightarrow> map_get m k = Some v"
  by (simp add: wf_map_def)

lemma map_get_mem: "map_get m k = Some v \<Longrightarrow> (k, v) \<in> set m"
  by (rule map_of_SomeD)

lemma map_set_same: "map_get m k = Some v \<Longrightarrow> map_set m k v = m"
  by (induction m) auto

lemma map_set_append: "k \<notin> set (map_keys m) \<Longrightarrow> map_set m k v = m @ [(k, v)]"
  by (induction m) auto

lemma map_get_map_snd: "map_get (map (\<lambda>(k, v). (k, f k v)) m) k = map_option (f k) (map_get m k)"
  by (induction m) auto

lemma wf_map_map_snd: "wf_map (map (\<lambda>(k, v). (k, f k v)) m) = wf_map m"
  by (simp add: wf_map_def comp_def case_prod_unfold)

lemma map_get_filter_keys:
  "map_get (filter (\<lambda>(k, v). P k) m) k = (if P k then map_get m k else None)"
  by (induction m) auto

lemma map_get_filter:
  assumes "wf_map m"
  shows "map_get (filter (\<lambda>(k, v). P k v) m) k =
    (case map_get m k of None \<Rightarrow> None | Some v \<Rightarrow> if P k v then Some v else None)"
  using assms
proof (induction m)
  case Nil
  then show ?case by simp
next
  case (Cons a m)
  then have "map_get (filter (\<lambda>(k, v). P k v) m) (fst a) = None"
    by (auto simp: wf_map_def map_of_eq_None_iff image_iff)
  with Cons show ?case by (cases a) (auto simp: wf_map_def split: option.splits)
qed

lemma dom_map_get: "dom (map_get m) = set (map_keys m)"
  by (rule dom_map_of_conv_image_fst [unfolded set_map [symmetric]])

subsection \<open>Sets in insertion order\<close>

definition set_add :: "'a \<Rightarrow> 'a list \<Rightarrow> 'a list" where
  "set_add x xs = (if x \<in> set xs then xs else xs @ [x])"

definition set_del :: "'a \<Rightarrow> 'a list \<Rightarrow> 'a list" where
  "set_del x xs = removeAll x xs"

lemma set_set_add [simp, js_simps]: "set (set_add x xs) = insert x (set xs)"
  by (auto simp: set_add_def)

lemma set_set_del [simp, js_simps]: "set (set_del x xs) = set xs - {x}"
  by (simp add: set_del_def)

lemma distinct_set_add [simp, wf_intros]: "distinct xs \<Longrightarrow> distinct (set_add x xs)"
  by (simp add: set_add_def)

lemma distinct_set_del [simp, wf_intros]: "distinct xs \<Longrightarrow> distinct (set_del x xs)"
  by (simp add: set_del_def distinct_removeAll)

lemma set_add_ne [simp]: "set_add x xs \<noteq> []"
  by (auto simp: set_add_def)

lemma set_add_mem: "x \<in> set xs \<Longrightarrow> set_add x xs = xs"
  by (simp add: set_add_def)

lemma length_set_add_le: "length (set_add x xs) \<le> Suc (length xs)"
  by (simp add: set_add_def)

lemma length_set_del_le: "length (set_del x xs) \<le> length xs"
  by (simp add: set_del_def)

subsection \<open>Arrays\<close>

text \<open>The newest \<open>n\<close> elements, as \<open>splice(0, length - n)\<close> leaves them when there are more.\<close>

definition keep_newest :: "nat \<Rightarrow> 'a list \<Rightarrow> 'a list" where
  "keep_newest n xs = drop (length xs - n) xs"

lemma length_keep_newest [simp]: "length (keep_newest n xs) = min n (length xs)"
  by (simp add: keep_newest_def)

lemma set_keep_newest: "set (keep_newest n xs) \<subseteq> set xs"
  by (simp add: keep_newest_def set_drop_subset)

lemma drop_same_length: "length xs - k = length xs \<Longrightarrow> drop k xs = xs"
proof -
  assume "length xs - k = length xs"
  then have "k = 0 \<or> length xs = 0" by arith
  then show ?thesis by auto
qed

lemma keep_newest_all: "length xs \<le> n \<Longrightarrow> keep_newest n xs = xs"
  by (simp add: keep_newest_def)

lemma keep_newest_snoc: "0 < n \<Longrightarrow> last (keep_newest n (xs @ [x])) = x"
  by (cases "n \<le> length xs") (simp_all add: keep_newest_def)

lemma keep_newest_snoc_mem: "0 < n \<Longrightarrow> x \<in> set (keep_newest n (xs @ [x]))"
  by (simp add: keep_newest_def)

lemma sorted_wrt_keep_newest: "sorted_wrt P xs \<Longrightarrow> sorted_wrt P (keep_newest n xs)"
  by (simp add: keep_newest_def sorted_wrt_drop)

lemma keep_newest_drops_smaller:
  assumes "sorted_wrt (<) xs" "x \<in> set xs" "x \<notin> set (keep_newest n xs)"
    and "y \<in> set (keep_newest n xs)"
  shows "(x::'a::linorder) < y"
proof -
  let ?k = "length xs - n"
  from assms(1) have "sorted_wrt (<) (take ?k xs @ drop ?k xs)" by simp
  then have lt: "\<And>a b. a \<in> set (take ?k xs) \<Longrightarrow> b \<in> set (drop ?k xs) \<Longrightarrow> a < b"
    by (simp only: sorted_wrt_append)
  from assms(2) have "x \<in> set (take ?k xs) \<union> set (drop ?k xs)"
    by (simp only: set_append [symmetric] append_take_drop_id)
  with assms(3) have "x \<in> set (take ?k xs)" by (auto simp: keep_newest_def)
  with assms(4) show ?thesis by (auto simp: keep_newest_def intro: lt)
qed

subsection \<open>Strings\<close>

definition lower_alnum :: string where
  "lower_alnum = ''abcdefghijklmnopqrstuvwxyz0123456789''"

definition hex_lower :: string where
  "hex_lower = ''0123456789abcdef''"

definition upper_letters :: string where
  "upper_letters = ''ABCDEFGHIJKLMNOPQRSTUVWXYZ''"

definition lower_letters :: string where
  "lower_letters = ''abcdefghijklmnopqrstuvwxyz''"

text \<open>\<open>toLowerCase\<close> on the ASCII strings the grammars of this development accept.\<close>

definition to_lower_char :: "char \<Rightarrow> char" where
  "to_lower_char c = (case map_of (zip upper_letters lower_letters) c of None \<Rightarrow> c | Some d \<Rightarrow> d)"

definition to_lower :: "string \<Rightarrow> string" where
  "to_lower s = map to_lower_char s"

definition starts_with :: "string \<Rightarrow> string \<Rightarrow> bool" where
  "starts_with s p = prefix p s"

lemma starts_with_self [simp]: "starts_with s s"
  by (simp add: starts_with_def)

lemma starts_with_append [simp]: "starts_with (p @ s) p"
  by (simp add: starts_with_def)

lemma starts_with_trans: "starts_with s p \<Longrightarrow> starts_with p q \<Longrightarrow> starts_with s q"
  by (auto simp: starts_with_def)

lemma starts_with_length: "starts_with s p \<Longrightarrow> length p \<le> length s"
  by (auto simp: starts_with_def dest: prefix_length_le)

lemma length_to_lower [simp]: "length (to_lower s) = length s"
  by (simp add: to_lower_def)

lemma to_lower_char_idem [simp]: "to_lower_char (to_lower_char c) = to_lower_char c"
proof (cases "map_of (zip upper_letters lower_letters) c")
  case (Some d)
  then have "d \<in> set lower_letters" by (auto dest: map_of_SomeD set_zip_rightD)
  moreover have "\<forall>d \<in> set lower_letters. to_lower_char d = d"
    by (simp add: lower_letters_def upper_letters_def to_lower_char_def)
  ultimately show ?thesis using Some by (simp add: to_lower_char_def)
qed (simp add: to_lower_char_def)

lemma to_lower_idem [simp]: "to_lower (to_lower s) = to_lower s"
  by (simp add: to_lower_def)

subsection \<open>Text\<close>

fun digits_of :: "nat \<Rightarrow> string" where
  "digits_of n = (if n < 10 then [''0123456789'' ! n]
     else digits_of (n div 10) @ [''0123456789'' ! (n mod 10)])"

declare digits_of.simps [simp del]

fun join :: "string \<Rightarrow> string list \<Rightarrow> string" where
  "join sep [] = ''''"
| "join sep [s] = s"
| "join sep (s # ss) = s @ sep @ join sep ss"

definition newline :: string where
  "newline = [CHR 0x0A]"

end
