(* ===== verification/MessageTarget.thy ===== *)
theory MessageTarget
  imports DaemonPrelude
begin

text \<open>
  The message-target grammar of \<open>packages/coforge-sdk/src/internal/index.ts\<close> (\<open>isChannelTarget\<close>,
  \<open>isChannelMessageTarget\<close>, \<open>threadParentTarget\<close>, \<open>threadRootTarget\<close>), the sender grammar of
  \<open>message-sender.ts\<close> and \<open>uuid.ts\<close>, and the thread-root comparison of the attention index. The
  anchored regular expressions are written as the recognizers they denote.
\<close>

subsection \<open>Identifiers\<close>

definition handle_chars :: string where
  "handle_chars = lower_alnum @ ''_-''"

definition is_hex :: "string \<Rightarrow> bool" where
  "is_hex s \<longleftrightarrow> list_all (\<lambda>c. c \<in> set hex_lower) s"

text \<open>\<open>UUID_LIKE_SOURCE\<close> anchored, lower case: groups of 8, 4, 4, 4 and 12 hexadecimal digits.\<close>

definition is_uuid_like :: "string \<Rightarrow> bool" where
  "is_uuid_like s \<longleftrightarrow> length s = 36 \<and>
     is_hex (take 8 s) \<and> s ! 8 = CHR ''-'' \<and>
     is_hex (take 4 (drop 9 s)) \<and> s ! 13 = CHR ''-'' \<and>
     is_hex (take 4 (drop 14 s)) \<and> s ! 18 = CHR ''-'' \<and>
     is_hex (take 4 (drop 19 s)) \<and> s ! 23 = CHR ''-'' \<and>
     is_hex (drop 24 s)"

text \<open>\<open>UUID_LIKE_PATTERN\<close> and \<open>RFC_UUID_PATTERN\<close> carry the \<open>i\<close> flag.\<close>

definition uuid_like_pattern :: "string \<Rightarrow> bool" where
  "uuid_like_pattern s = is_uuid_like (to_lower s)"

definition rfc_uuid_pattern :: "string \<Rightarrow> bool" where
  "rfc_uuid_pattern s = (let t = to_lower s in
     is_uuid_like t \<and> t ! 14 \<in> set ''12345678'' \<and> t ! 19 \<in> set ''89ab'')"

subsection \<open>Targets\<close>

definition isChannelTarget :: "string \<Rightarrow> bool" where
  "isChannelTarget target =
     (case target of
        h # c # cs \<Rightarrow> h = CHR ''#'' \<and> c \<in> set lower_alnum \<and> length cs \<le> 31 \<and>
          list_all (\<lambda>x. x \<in> set handle_chars) cs
      | _ \<Rightarrow> False)"

fun index_of :: "char \<Rightarrow> string \<Rightarrow> nat option" where
  "index_of c [] = None"
| "index_of c (x # xs) = (if x = c then Some 0 else map_option Suc (index_of c xs))"

definition splitThreadTarget :: "string \<Rightarrow> (string \<times> string) option" where
  "splitThreadTarget target =
     (case index_of (CHR '':'') target of
        None \<Rightarrow> None
      | Some i \<Rightarrow> Some (take i target, drop (i + 1) target))"

definition threadParentTarget :: "string \<Rightarrow> string option" where
  "threadParentTarget target = map_option fst (splitThreadTarget target)"

definition threadRootTarget :: "string \<Rightarrow> string option" where
  "threadRootTarget target = map_option snd (splitThreadTarget target)"

text \<open>
  The optional group is a colon and an eight-digit or UUID-shaped root. No channel name holds a
  colon, so the group starts at the first one.
\<close>

definition isChannelMessageTarget :: "string \<Rightarrow> bool" where
  "isChannelMessageTarget target =
     (case splitThreadTarget target of
        None \<Rightarrow> isChannelTarget target
      | Some (parent, root) \<Rightarrow>
          isChannelTarget parent \<and> (length root = 8 \<and> is_hex root \<or> is_uuid_like root))"

text \<open>A delivery target is a direct message or a channel message target.\<close>

definition addressable :: "string \<Rightarrow> bool" where
  "addressable target \<longleftrightarrow> starts_with target ''@'' \<or> isChannelMessageTarget target"

subsection \<open>Senders\<close>

datatype sender_kind = Human | Agent | System

definition AGENT_NAME_MAX_LENGTH :: nat where
  "AGENT_NAME_MAX_LENGTH = 64"

text \<open>\<open>MENTION_HANDLE_PATTERN\<close>.\<close>

definition mention_handle_pattern :: "string \<Rightarrow> bool" where
  "mention_handle_pattern s =
     (case s of [] \<Rightarrow> False
      | c # cs \<Rightarrow> c \<in> set lower_alnum \<and> list_all (\<lambda>x. x \<in> set handle_chars) cs)"

definition isPrintableSenderHandle :: "string \<Rightarrow> bool" where
  "isPrintableSenderHandle value \<longleftrightarrow>
     mention_handle_pattern value \<and> length value \<le> AGENT_NAME_MAX_LENGTH \<and>
     \<not> uuid_like_pattern value"

definition isValidMessageSender :: "sender_kind \<Rightarrow> string \<Rightarrow> bool" where
  "isValidMessageSender kind handle =
     (if kind = System then handle = '''' else isPrintableSenderHandle handle)"

text \<open>\<open>printableSender\<close>: a rejected pair is dropped, never printed.\<close>

definition printableSender ::
  "sender_kind option \<Rightarrow> string option \<Rightarrow> (sender_kind \<times> string) option" where
  "printableSender kind handle =
     (case kind of
        None \<Rightarrow> None
      | Some k \<Rightarrow>
          (let h = (case handle of None \<Rightarrow> '''' | Some h \<Rightarrow> h)
           in if isValidMessageSender k h then Some (k, h) else None))"

text \<open>\<open>renderMessageSender\<close> without a description, as the inbox notice calls it.\<close>

definition renderMessageSender :: "sender_kind \<Rightarrow> string \<Rightarrow> string" where
  "renderMessageSender kind handle = (if kind = System then ''system'' else CHR ''@'' # handle)"

subsection \<open>Thread roots\<close>

definition sameThreadRoot :: "string option \<Rightarrow> string \<Rightarrow> bool" where
  "sameThreadRoot left right =
     (case left of
        None \<Rightarrow> False
      | Some l \<Rightarrow>
          (let a = to_lower l; b = to_lower right
           in a = b \<or> (if length a < length b then starts_with b a else starts_with a b)))"

subsection \<open>Facts\<close>

lemma index_of_None: "index_of c s = None \<longleftrightarrow> c \<notin> set s"
  by (induction s) auto

lemma index_of_Some:
  "index_of c s = Some i \<Longrightarrow> i < length s \<and> s ! i = c \<and> c \<notin> set (take i s)"
  by (induction s arbitrary: i) (auto split: if_splits)

lemma index_of_append: "c \<notin> set p \<Longrightarrow> index_of c (p @ c # r) = Some (length p)"
  by (induction p) auto

lemma splitThreadTarget_Some_iff:
  "splitThreadTarget t = Some (p, r) \<longleftrightarrow> t = p @ '':'' @ r \<and> CHR '':'' \<notin> set p"
proof
  assume "splitThreadTarget t = Some (p, r)"
  then obtain i where i: "index_of (CHR '':'') t = Some i" "p = take i t" "r = drop (i + 1) t"
    by (auto simp: splitThreadTarget_def split: option.splits)
  from index_of_Some [OF i(1)] have "t = take i t @ t ! i # drop (Suc i) t"
    by (intro id_take_nth_drop) simp
  with index_of_Some [OF i(1)] i(2,3) show "t = p @ '':'' @ r \<and> CHR '':'' \<notin> set p"
    by simp
next
  assume "t = p @ '':'' @ r \<and> CHR '':'' \<notin> set p"
  then show "splitThreadTarget t = Some (p, r)"
    by (simp add: splitThreadTarget_def index_of_append)
qed

lemma splitThreadTarget_None_iff: "splitThreadTarget t = None \<longleftrightarrow> CHR '':'' \<notin> set t"
  by (auto simp: splitThreadTarget_def index_of_None [symmetric] split: option.splits)

lemma colon_not_handle: "CHR '':'' \<notin> set lower_alnum" "CHR '':'' \<notin> set handle_chars"
  by (simp_all add: handle_chars_def lower_alnum_def)

lemma isChannelTarget_no_colon:
  assumes "isChannelTarget t"
  shows "CHR '':'' \<notin> set t"
proof -
  from assms obtain c cs where "t = CHR ''#'' # c # cs" "c \<in> set lower_alnum"
    "list_all (\<lambda>x. x \<in> set handle_chars) cs"
    by (auto simp: isChannelTarget_def split: list.splits)
  then show ?thesis using colon_not_handle by (auto simp: list_all_iff)
qed

lemma addressable_nonempty: "addressable t \<Longrightarrow> t \<noteq> []"
  by (auto simp: addressable_def starts_with_def isChannelMessageTarget_def isChannelTarget_def
      splitThreadTarget_def split: option.splits list.splits)

lemma printableSender_valid:
  "printableSender kind handle = Some (k, h) \<Longrightarrow> isValidMessageSender k h"
  by (auto simp: printableSender_def Let_def split: option.splits if_splits)

lemma sameThreadRoot_refl: "sameThreadRoot (Some r) r"
  by (simp add: sameThreadRoot_def)

lemma sameThreadRoot_sym: "sameThreadRoot (Some a) b \<longleftrightarrow> sameThreadRoot (Some b) a"
proof -
  have "prefix x y \<Longrightarrow> length x = length y \<Longrightarrow> x = y" for x y :: string
    by (auto simp: prefix_def)
  from this [of "to_lower a" "to_lower b"] this [of "to_lower b" "to_lower a"] show ?thesis
    by (auto simp: sameThreadRoot_def Let_def starts_with_def)
qed

subsection \<open>Properties\<close>

text \<open>
  A channel thread target splits into the channel and the root it was built from, and the
  split of a target is unique: parent, colon and root give back the target.
\<close>

theorem thread_target_round_trip:
  assumes "isChannelTarget c" "length r = 8 \<and> is_hex r \<or> is_uuid_like r"
  shows "isChannelMessageTarget (c @ '':'' @ r) \<and>
    threadParentTarget (c @ '':'' @ r) = Some c \<and> threadRootTarget (c @ '':'' @ r) = Some r"
proof -
  have "splitThreadTarget (c @ '':'' @ r) = Some (c, r)"
    using isChannelTarget_no_colon [OF assms(1)] by (simp add: splitThreadTarget_Some_iff)
  with assms show ?thesis
    by (simp add: isChannelMessageTarget_def threadParentTarget_def threadRootTarget_def)
qed

theorem thread_target_round_trip_witness:
  "isChannelMessageTarget ''#general:0123abcd'' \<and>
   threadParentTarget ''#general:0123abcd'' = Some ''#general'' \<and>
   threadRootTarget ''#general:0123abcd'' = Some ''0123abcd''"
  using thread_target_round_trip [of "''#general''" "''0123abcd''"]
  by (simp add: isChannelTarget_def lower_alnum_def handle_chars_def is_hex_def hex_lower_def)

end
