(* ===== verification/Deliveries.thy ===== *)
theory Deliveries
  imports MessageTarget
begin

text \<open>
  The message delivery the cloud sends a daemon (\<open>AgentMessageDelivery\<close> and
  \<open>AgentRecoveryMessage\<close> of \<open>packages/coforge-sdk/src/internal/index.ts\<close>, the mention envelope of
  \<open>mention-delivery.ts\<close>) and the checks every component makes on one before it is used.
\<close>

record mention_envelope =
  me_messageId :: string
  me_launchId :: string
  me_sessionId :: string
  me_computerId :: string

record delivery =
  d_protocolMajor :: int
  d_requestId :: string
  d_messageId :: string
  d_deliveryId :: string
  d_sequence :: int
  d_workspaceId :: string
  d_conversationId :: string
  d_agentId :: string
  d_body :: string
  d_target :: "string option"
  d_senderKind :: "sender_kind option"
  d_senderHandle :: "string option"
  d_nonMemberMention :: bool
  d_mention :: "mention_envelope option"

record recovery_message =
  r_messageId :: string
  r_deliveryId :: string
  r_conversationId :: string
  r_sequence :: int
  r_target :: string
  r_senderKind :: sender_kind
  r_senderHandle :: string
  r_body :: string
  r_nonMemberMention :: bool

text \<open>\<open>hasDeliveryScope\<close>; an absent target fails it.\<close>

definition target_of :: "delivery \<Rightarrow> string" where
  "target_of m = (case d_target m of None \<Rightarrow> '''' | Some t \<Rightarrow> t)"

definition hasDeliveryScope :: "delivery \<Rightarrow> bool" where
  "hasDeliveryScope m \<longleftrightarrow>
     d_conversationId m \<noteq> '''' \<and> d_agentId m \<noteq> '''' \<and> d_messageId m \<noteq> '''' \<and> d_body m \<noteq> '''' \<and>
     (case d_target m of
        None \<Rightarrow> False
      | Some t \<Rightarrow> t \<noteq> '''' \<and> (starts_with t ''@'' \<or> isChannelMessageTarget t) \<and> length t \<ge> 2) \<and>
     d_sequence m \<ge> 1"

definition isTrackedMention :: "delivery \<Rightarrow> bool" where
  "isTrackedMention m \<longleftrightarrow> d_mention m \<noteq> None"

definition countDistinctMessages :: "delivery list \<Rightarrow> nat" where
  "countDistinctMessages ds = length (remdups (map d_messageId ds))"

lemma hasDeliveryScopeD:
  assumes "hasDeliveryScope m"
  shows "d_target m = Some (target_of m)" "addressable (target_of m)" "1 \<le> d_sequence m"
    "target_of m \<noteq> ''''" "d_agentId m \<noteq> ''''" "d_conversationId m \<noteq> ''''"
  using assms by (auto simp: hasDeliveryScope_def target_of_def addressable_def split: option.splits)

lemma countDistinctMessages_card: "countDistinctMessages ds = card (d_messageId ` set ds)"
  by (simp add: countDistinctMessages_def length_remdups_card_conv)

lemma countDistinctMessages_le: "countDistinctMessages ds \<le> length ds"
  by (simp add: countDistinctMessages_card card_image_le [THEN le_trans] card_length)

text \<open>A delivery for examples.\<close>

definition sample_delivery :: "string \<Rightarrow> string \<Rightarrow> int \<Rightarrow> delivery" where
  "sample_delivery did mid sq = \<lparr>d_protocolMajor = 1, d_requestId = ''req'', d_messageId = mid,
     d_deliveryId = did, d_sequence = sq, d_workspaceId = ''ws'', d_conversationId = ''conv'',
     d_agentId = ''bot'', d_body = ''hi'', d_target = Some ''#general'', d_senderKind = Some Human,
     d_senderHandle = Some ''frank'', d_nonMemberMention = False, d_mention = None\<rparr>"

lemma sample_target: "target_of (sample_delivery did mid sq) = ''#general''"
  by (simp add: target_of_def sample_delivery_def)

lemma sample_scope: "mid \<noteq> '''' \<Longrightarrow> 1 \<le> sq \<Longrightarrow> hasDeliveryScope (sample_delivery did mid sq)"
  by (simp add: hasDeliveryScope_def sample_delivery_def isChannelMessageTarget_def isChannelTarget_def
      splitThreadTarget_def starts_with_def lower_alnum_def handle_chars_def)

end
