(* ===== verification/SeenExactSeqs.thy ===== *)
theory SeenExactSeqs
  imports DaemonPrelude
begin

text \<open>
  The exact-sequence lists of \<open>packages/coforge-sdk/src/internal/freshness-decision.ts\<close> (a merge of
  two ascending lists, and the normalization of an untrusted one) and the binary search the
  attention index runs over them (\<open>agent-message-attention-index.ts\<close>, the functions at its end).
  Sequences are integers; a list never exceeds \<open>SEEN_EXACT_SEQS_LIMIT\<close> entries, so the
  unsigned shift of the search midpoint is plain halving.
\<close>

definition HELD_CONTEXT_LIMIT :: nat where
  "HELD_CONTEXT_LIMIT = 3"

definition SEEN_EXACT_SEQS_LIMIT :: nat where
  "SEEN_EXACT_SEQS_LIMIT = 2500"

definition MAX_MESSAGE_SEQUENCE :: int where
  "MAX_MESSAGE_SEQUENCE = 2147483647"

definition MAX_SAFE_INTEGER :: int where
  "MAX_SAFE_INTEGER = 2 ^ 53 - 1"

definition is_safe_integer :: "int \<Rightarrow> bool" where
  "is_safe_integer n \<longleftrightarrow> \<bar>n\<bar> \<le> MAX_SAFE_INTEGER"

subsection \<open>Normalizing an untrusted list\<close>

text \<open>The loop of \<open>normalizeSeenExactSeqs\<close>: each safe integer above \<open>after\<close> is added once.\<close>

fun keep_exact :: "int \<Rightarrow> json list \<Rightarrow> int list \<Rightarrow> int list" where
  "keep_exact after [] kept = kept"
| "keep_exact after (JNum v # vs) kept =
     keep_exact after vs (if is_safe_integer v \<and> v > after then set_add v kept else kept)"
| "keep_exact after (v # vs) kept = keep_exact after vs kept"

definition normalizeSeenExactSeqs :: "json option \<Rightarrow> int \<Rightarrow> int list" where
  "normalizeSeenExactSeqs vals after =
     (case vals of
        Some (JArr vs) \<Rightarrow>
          (let sorted = sort (keep_exact after vs [])
           in if length sorted > SEEN_EXACT_SEQS_LIMIT
              then keep_newest SEEN_EXACT_SEQS_LIMIT sorted else sorted)
      | _ \<Rightarrow> [])"

subsection \<open>Merging two ascending lists\<close>

definition push_exact :: "int \<Rightarrow> int \<Rightarrow> int list \<Rightarrow> int list" where
  "push_exact after next merged =
     (if next > after \<and> (merged = [] \<or> last merged \<noteq> next) then merged @ [next] else merged)"

fun merge_exact :: "int \<Rightarrow> int list \<Rightarrow> int list \<Rightarrow> int list \<Rightarrow> int list" where
  "merge_exact after [] [] merged = merged"
| "merge_exact after (l # ls) [] merged = merge_exact after ls [] (push_exact after l merged)"
| "merge_exact after [] (r # rs) merged = merge_exact after [] rs (push_exact after r merged)"
| "merge_exact after (l # ls) (r # rs) merged =
     (if l \<le> r then merge_exact after ls (r # rs) (push_exact after l merged)
      else merge_exact after (l # ls) rs (push_exact after r merged))"

definition mergeSeenExactSeqs :: "int \<Rightarrow> int list \<Rightarrow> int list \<Rightarrow> int list" where
  "mergeSeenExactSeqs after left right =
     keep_newest SEEN_EXACT_SEQS_LIMIT (merge_exact after left right [])"

definition isSeenExactSeqs :: "json \<Rightarrow> bool" where
  "isSeenExactSeqs value =
     (case value of
        JArr vs \<Rightarrow> length vs \<le> SEEN_EXACT_SEQS_LIMIT \<and>
          list_all (\<lambda>v. case v of JNum s \<Rightarrow> s > 0 \<and> s \<le> MAX_MESSAGE_SEQUENCE | _ \<Rightarrow> False) vs
      | _ \<Rightarrow> False)"

subsection \<open>Searching an ascending list\<close>

fun isAscending :: "int list \<Rightarrow> bool" where
  "isAscending (x # y # zs) \<longleftrightarrow> \<not> y < x \<and> isAscending (y # zs)"
| "isAscending _ \<longleftrightarrow> True"

function first_above_loop :: "int list \<Rightarrow> int \<Rightarrow> nat \<Rightarrow> nat \<Rightarrow> nat" where
  "first_above_loop vals bound low high =
     (if low < high
      then let middle = (low + high) div 2
           in if vals ! middle \<le> bound then first_above_loop vals bound (middle + 1) high
              else first_above_loop vals bound low middle
      else low)"
  by pat_completeness auto

termination
  by (relation "measure (\<lambda>(vals, bound, low, high). high - low)") auto

declare first_above_loop.simps [simp del]

definition firstAbove :: "int list \<Rightarrow> int \<Rightarrow> nat" where
  "firstAbove vals bound = first_above_loop vals bound 0 (length vals)"

text \<open>The same loop cut off after a number of rounds: \<open>None\<close> when it is not done by then.\<close>

fun first_above_within :: "nat \<Rightarrow> int list \<Rightarrow> int \<Rightarrow> nat \<Rightarrow> nat \<Rightarrow> nat option" where
  "first_above_within 0 vals bound low high = (if low < high then None else Some low)"
| "first_above_within (Suc rounds) vals bound low high =
     (if low < high
      then let middle = (low + high) div 2
           in if vals ! middle \<le> bound then first_above_within rounds vals bound (middle + 1) high
              else first_above_within rounds vals bound low middle
      else Some low)"

definition containsSorted :: "int list option \<Rightarrow> int \<Rightarrow> bool" where
  "containsSorted vals value =
     (case vals of
        None \<Rightarrow> False
      | Some vs \<Rightarrow>
          if vs = [] then False
          else let index = firstAbove vs (value - 1)
               in index < length vs \<and> vs ! index = value)"

subsection \<open>What an exact-sequence list is\<close>

text \<open>Strictly ascending, above the frontier, and at most the limit.\<close>

definition exact_ok :: "int \<Rightarrow> int list \<Rightarrow> bool" where
  "exact_ok after xs \<longleftrightarrow>
     sorted_wrt (<) xs \<and> (\<forall>x \<in> set xs. after < x) \<and> length xs \<le> SEEN_EXACT_SEQS_LIMIT"

lemma exact_ok_Nil [simp, intro]: "exact_ok after []"
  by (simp add: exact_ok_def)

lemma exact_okD:
  assumes "exact_ok after xs"
  shows "sorted_wrt (<) xs" "sorted xs" "\<And>x. x \<in> set xs \<Longrightarrow> after < x"
    "length xs \<le> SEEN_EXACT_SEQS_LIMIT" "distinct xs"
  using assms by (auto simp: exact_ok_def strict_sorted_iff)

lemma exact_ok_mono: "exact_ok after xs \<Longrightarrow> after' \<le> after \<Longrightarrow> exact_ok after' xs"
  by (auto simp: exact_ok_def)

lemma exact_ok_raise:
  "exact_ok after xs \<Longrightarrow> exact_ok after' (filter (\<lambda>x. after' < x) xs)"
  by (auto simp: exact_ok_def sorted_wrt_filter intro: le_trans [OF length_filter_le])

lemma isAscending_sorted: "isAscending xs \<longleftrightarrow> sorted xs"
  by (induction xs rule: isAscending.induct) force+

subsection \<open>The merge is the sorted union above the bound\<close>

text \<open>The accumulator holds what was taken so far, and nothing left is smaller than its last.\<close>

definition merge_acc :: "int \<Rightarrow> int list \<Rightarrow> int list \<Rightarrow> bool" where
  "merge_acc after merged rest \<longleftrightarrow>
     sorted_wrt (<) merged \<and> (\<forall>x \<in> set merged. after < x) \<and>
     (\<forall>x \<in> set merged. \<forall>y \<in> set rest. x \<le> y)"

lemma push_exact_sorted:
  assumes "sorted_wrt (<) merged" "\<forall>x \<in> set merged. x \<le> v"
  shows "sorted_wrt (<) (push_exact after v merged)"
proof (cases "v > after \<and> (merged = [] \<or> last merged \<noteq> v)")
  case True
  have "\<forall>x \<in> set merged. x < v"
  proof (cases "merged = []")
    case False
    with True have ne: "last merged \<noteq> v" by blast
    from False obtain ys y where m: "merged = ys @ [y]" by (cases merged rule: rev_cases) auto
    with assms ne show ?thesis by (fastforce simp: sorted_wrt_append)
  qed simp
  with assms(1) True show ?thesis by (simp add: push_exact_def sorted_wrt_append)
next
  case False
  with assms(1) show ?thesis by (auto simp: push_exact_def)
qed

lemma set_push_exact:
  "set (push_exact after v merged) = set merged \<union> (if v > after then {v} else {})"
  by (auto simp: push_exact_def)

lemma merge_acc_push:
  assumes "merge_acc after merged (v # rest)" "\<forall>y \<in> set rest. v \<le> y"
  shows "merge_acc after (push_exact after v merged) rest"
  using assms push_exact_sorted [of merged v after]
  by (auto simp: merge_acc_def set_push_exact)

lemma merge_acc_perm: "set rest = set rest' \<Longrightarrow> merge_acc after m rest = merge_acc after m rest'"
  by (simp add: merge_acc_def)

lemma merge_exact_acc:
  assumes "sorted ls" "sorted rs" "merge_acc after merged (ls @ rs)"
  shows "sorted_wrt (<) (merge_exact after ls rs merged) \<and>
    set (merge_exact after ls rs merged) = set merged \<union> {x \<in> set ls \<union> set rs. after < x}"
  using assms
proof (induction after ls rs merged rule: merge_exact.induct)
  case (1 after merged)
  then show ?case by (simp add: merge_acc_def)
next
  case (2 after l ls merged)
  then show ?case
    using merge_acc_push [of after merged l ls] by (auto simp: set_push_exact)
next
  case (3 after r rs merged)
  then show ?case
    using merge_acc_push [of after merged r rs] by (auto simp: set_push_exact)
next
  case (4 after l ls r rs merged)
  show ?case
  proof (cases "l \<le> r")
    case True
    with "4.prems" have "merge_acc after (push_exact after l merged) (ls @ r # rs)"
      by (intro merge_acc_push) auto
    with True 4 show ?thesis by (auto simp: set_push_exact)
  next
    case False
    with "4.prems" have "merge_acc after (push_exact after r merged) ((l # ls) @ rs)"
      by (intro merge_acc_push) (auto simp: merge_acc_def)
    with False 4 show ?thesis by (auto simp: set_push_exact)
  qed
qed

lemma merge_exact_eq:
  assumes "sorted ls" "sorted rs"
  shows "merge_exact after ls rs [] = sorted_list_of_set {x \<in> set ls \<union> set rs. after < x}"
  using merge_exact_acc [OF assms, of after "[]"]
  by (intro sorted_distinct_set_unique) (auto simp: merge_acc_def strict_sorted_iff)

lemma mergeSeenExactSeqs_ok:
  assumes "sorted ls" "sorted rs"
  shows "exact_ok after (mergeSeenExactSeqs after ls rs)"
proof -
  note m = merge_exact_acc [OF assms, of after "[]"]
  from m have "sorted_wrt (<) (merge_exact after ls rs [])" by (simp add: merge_acc_def)
  moreover from m have "\<forall>x \<in> set (merge_exact after ls rs []). after < x"
    by (simp add: merge_acc_def)
  ultimately show ?thesis
    using set_keep_newest [of SEEN_EXACT_SEQS_LIMIT "merge_exact after ls rs []"]
    by (auto simp: exact_ok_def mergeSeenExactSeqs_def sorted_wrt_keep_newest)
qed

lemma mergeSeenExactSeqs_subset:
  assumes "sorted ls" "sorted rs"
  shows "set (mergeSeenExactSeqs after ls rs) \<subseteq> {x \<in> set ls \<union> set rs. after < x}"
  using set_keep_newest [of SEEN_EXACT_SEQS_LIMIT "merge_exact after ls rs []"]
    merge_exact_acc [OF assms, of after "[]"]
  by (auto simp: mergeSeenExactSeqs_def merge_acc_def)

lemma mergeSeenExactSeqs_set:
  assumes "sorted ls" "sorted rs"
    and "card {x \<in> set ls \<union> set rs. after < x} \<le> SEEN_EXACT_SEQS_LIMIT"
  shows "set (mergeSeenExactSeqs after ls rs) = {x \<in> set ls \<union> set rs. after < x}"
  using assms by (simp add: mergeSeenExactSeqs_def merge_exact_eq keep_newest_all)

lemma mergeSeenExactSeqs_Nil_iff:
  assumes "sorted ls" "sorted rs"
  shows "mergeSeenExactSeqs after ls rs = [] \<longleftrightarrow> (\<forall>x \<in> set ls \<union> set rs. x \<le> after)"
proof -
  have "0 < SEEN_EXACT_SEQS_LIMIT" by (simp add: SEEN_EXACT_SEQS_LIMIT_def)
  then have "mergeSeenExactSeqs after ls rs = [] \<longleftrightarrow> merge_exact after ls rs [] = []"
    by (auto simp: mergeSeenExactSeqs_def min_def simp flip: length_0_conv)
  also have "\<dots> \<longleftrightarrow> {x \<in> set ls \<union> set rs. after < x} = {}"
    by (simp add: merge_exact_eq [OF assms])
  finally show ?thesis by (auto simp: not_less)
qed

lemma mergeSeenExactSeqs_keeps_newest:
  assumes "sorted ls" "sorted rs" "x \<in> set ls \<union> set rs" "after < x"
    and "x \<notin> set (mergeSeenExactSeqs after ls rs)" "y \<in> set (mergeSeenExactSeqs after ls rs)"
  shows "x < y"
  using assms merge_exact_acc [OF assms(1,2), of after "[]"]
    keep_newest_drops_smaller
      [of "merge_exact after ls rs []" x SEEN_EXACT_SEQS_LIMIT y]
  by (auto simp: mergeSeenExactSeqs_def merge_acc_def)

subsection \<open>The binary search\<close>

lemma first_above_loop_spec:
  assumes "sorted vals" "low \<le> high" "high \<le> length vals"
    and "\<forall>i < low. vals ! i \<le> bound" "\<forall>i. high \<le> i \<longrightarrow> i < length vals \<longrightarrow> bound < vals ! i"
  shows "first_above_loop vals bound low high \<le> length vals \<and>
    (\<forall>i < first_above_loop vals bound low high. vals ! i \<le> bound) \<and>
    (\<forall>i. first_above_loop vals bound low high \<le> i \<longrightarrow> i < length vals \<longrightarrow> bound < vals ! i)"
  using assms
proof (induction vals bound low high rule: first_above_loop.induct)
  case (1 vals bound low high)
  show ?case
  proof (cases "low < high")
    case False
    with "1.prems" show ?thesis
      by (subst first_above_loop.simps, subst first_above_loop.simps, subst first_above_loop.simps) auto
  next
    case True
    let ?m = "(low + high) div 2"
    have m: "low \<le> ?m" "?m < high" using True by auto
    show ?thesis
    proof (cases "vals ! ?m \<le> bound")
      case le: True
      have "\<forall>i < ?m + 1. vals ! i \<le> bound"
        using le m "1.prems"(1,3)
        by (auto simp: less_Suc_eq_le intro: order_trans [OF sorted_nth_mono, of vals _ ?m])
      with 1(1) [OF True refl le] "1.prems" m
      have "first_above_loop vals bound (?m + 1) high \<le> length vals \<and>
        (\<forall>i < first_above_loop vals bound (?m + 1) high. vals ! i \<le> bound) \<and>
        (\<forall>i. first_above_loop vals bound (?m + 1) high \<le> i \<longrightarrow> i < length vals \<longrightarrow> bound < vals ! i)"
        by simp
      moreover have "first_above_loop vals bound low high = first_above_loop vals bound (?m + 1) high"
        using True le by (simp add: first_above_loop.simps [of vals bound low high] Let_def)
      ultimately show ?thesis by simp
    next
      case gt: False
      have "\<forall>i. ?m \<le> i \<longrightarrow> i < length vals \<longrightarrow> bound < vals ! i"
        using gt m "1.prems"(1,3)
        by (auto intro: order_less_le_trans [OF _ sorted_nth_mono, of _ vals ?m])
      with 1(2) [OF True refl gt] "1.prems" m
      have "first_above_loop vals bound low ?m \<le> length vals \<and>
        (\<forall>i < first_above_loop vals bound low ?m. vals ! i \<le> bound) \<and>
        (\<forall>i. first_above_loop vals bound low ?m \<le> i \<longrightarrow> i < length vals \<longrightarrow> bound < vals ! i)"
        by simp
      moreover have "first_above_loop vals bound low high = first_above_loop vals bound low ?m"
        using True gt by (simp add: first_above_loop.simps [of vals bound low high] Let_def)
      ultimately show ?thesis by simp
    qed
  qed
qed

lemma firstAbove_spec:
  assumes "sorted vals"
  shows "firstAbove vals bound \<le> length vals"
    "\<And>i. i < firstAbove vals bound \<Longrightarrow> vals ! i \<le> bound"
    "\<And>i. firstAbove vals bound \<le> i \<Longrightarrow> i < length vals \<Longrightarrow> bound < vals ! i"
  using first_above_loop_spec [OF assms, of 0 "length vals" bound]
  by (auto simp: firstAbove_def)

lemma drop_firstAbove:
  assumes "sorted vals"
  shows "drop (firstAbove vals bound) vals = filter (\<lambda>x. bound < x) vals"
proof -
  let ?k = "firstAbove vals bound"
  have "filter (\<lambda>x. bound < x) (take ?k vals) = []"
    using firstAbove_spec(2) [OF assms, where bound = bound] firstAbove_spec(1) [OF assms, of bound]
    by (force simp: filter_empty_conv in_set_conv_nth)
  moreover have "filter (\<lambda>x. bound < x) (drop ?k vals) = drop ?k vals"
    using firstAbove_spec(3) [OF assms, where bound = bound]
    by (auto simp: filter_id_conv in_set_conv_nth)
  ultimately have "filter (\<lambda>x. bound < x) (take ?k vals @ drop ?k vals) = drop ?k vals"
    by (simp only: filter_append) simp
  then show ?thesis by simp
qed

lemma first_above_within_loop:
  "high - low < 2 ^ n \<Longrightarrow> first_above_within n vals bound low high = Some (first_above_loop vals bound low high)"
proof (induction n arbitrary: low high)
  case 0
  then show ?case by (simp add: first_above_loop.simps [of vals bound low high])
next
  case (Suc n)
  let ?m = "(low + high) div 2"
  show ?case
  proof (cases "low < high")
    case True
    then have "high - (?m + 1) < 2 ^ n" "?m - low < 2 ^ n" using Suc.prems by auto
    then show ?thesis
      using True Suc.IH by (simp add: first_above_loop.simps [of vals bound low high] Let_def)
  qed (simp add: first_above_loop.simps [of vals bound low high])
qed

text \<open>
  C35: The binary search over an ascending list of sequences ends within as many rounds as the
  length of the list has binary digits, and its result is the number of sequences at or below the
  bound.
\<close>

theorem binary_search_is_logarithmic:
  assumes "sorted vals" "length vals < 2 ^ rounds"
  shows "first_above_within rounds vals bound 0 (length vals) = Some (firstAbove vals bound) \<and>
    firstAbove vals bound = length (filter (\<lambda>x. x \<le> bound) vals)"
proof -
  have "filter (\<lambda>x. \<not> x \<le> bound) vals = drop (firstAbove vals bound) vals"
    by (simp add: drop_firstAbove [OF assms(1)] not_le)
  moreover have "length (filter (\<lambda>x. x \<le> bound) vals) + length (filter (\<lambda>x. \<not> x \<le> bound) vals) = length vals"
    by (rule sum_length_filter_compl)
  ultimately have "firstAbove vals bound = length (filter (\<lambda>x. x \<le> bound) vals)"
    using firstAbove_spec(1) [OF assms(1), of bound] by simp
  with first_above_within_loop [of "length vals" 0 rounds vals bound] assms(2) show ?thesis
    by (simp add: firstAbove_def)
qed

theorem binary_search_is_logarithmic_witness:
  "first_above_within 3 [2, 4, 4, 9, 12] 4 0 5 = Some (firstAbove [2, 4, 4, 9, 12] 4) \<and>
   firstAbove [2, 4, 4, 9, 12] 4 = 3"
  using binary_search_is_logarithmic [of "[2, 4, 4, 9, 12]" 3 4] by (simp add: eval_nat_numeral)

lemma containsSorted_iff:
  assumes "sorted vals"
  shows "containsSorted (Some vals) value \<longleftrightarrow> value \<in> set vals"
proof
  assume "containsSorted (Some vals) value"
  then show "value \<in> set vals"
    by (auto simp: containsSorted_def Let_def split: if_splits dest!: nth_mem)
next
  assume mem: "value \<in> set vals"
  let ?k = "firstAbove vals (value - 1)"
  from mem obtain i where i: "i < length vals" "vals ! i = value" by (auto simp: in_set_conv_nth)
  with firstAbove_spec(2) [OF assms, of i "value - 1"] have "?k \<le> i" by force
  with i have k: "?k < length vals" by simp
  have "value - 1 < vals ! ?k" using firstAbove_spec(3) [OF assms, of "value - 1" ?k] k by simp
  moreover have "vals ! ?k \<le> value" using sorted_nth_mono [OF assms \<open>?k \<le> i\<close>] i by simp
  ultimately have "vals ! ?k = value" by simp
  with k mem show "containsSorted (Some vals) value" by (auto simp: containsSorted_def Let_def)
qed

lemma containsSorted_None [simp]: "containsSorted None value = False"
  by (simp add: containsSorted_def)

subsection \<open>Normalization\<close>

definition json_seqs :: "json list \<Rightarrow> int set" where
  "json_seqs vs = {v. JNum v \<in> set vs \<and> is_safe_integer v}"

lemma set_keep_exact:
  "set (keep_exact after vs kept) = set kept \<union> {v \<in> json_seqs vs. after < v}"
  by (induction after vs kept rule: keep_exact.induct) (auto simp: json_seqs_def)

lemma distinct_keep_exact: "distinct kept \<Longrightarrow> distinct (keep_exact after vs kept)"
  by (induction after vs kept rule: keep_exact.induct) auto

lemma normalizeSeenExactSeqs_JArr:
  "normalizeSeenExactSeqs (Some (JArr vs)) after =
     keep_newest SEEN_EXACT_SEQS_LIMIT (sort (keep_exact after vs []))"
  by (auto simp: normalizeSeenExactSeqs_def Let_def keep_newest_all)

lemma normalizeSeenExactSeqs_ok: "exact_ok after (normalizeSeenExactSeqs vals after)"
proof (cases vals)
  case (Some v)
  then show ?thesis
  proof (cases v)
    case (JArr vs)
    have "sorted_wrt (<) (sort (keep_exact after vs []))"
      by (simp add: strict_sorted_iff distinct_keep_exact)
    with Some JArr show ?thesis
      using set_keep_newest [of SEEN_EXACT_SEQS_LIMIT "sort (keep_exact after vs [])"]
      by (auto simp: normalizeSeenExactSeqs_JArr exact_ok_def sorted_wrt_keep_newest set_keep_exact)
  qed (auto simp: normalizeSeenExactSeqs_def)
qed (simp add: normalizeSeenExactSeqs_def)

text \<open>A list that is already exact and holds safe integers comes back unchanged.\<close>

lemma normalizeSeenExactSeqs_id:
  assumes "exact_ok after xs" "\<forall>x \<in> set xs. is_safe_integer x"
  shows "normalizeSeenExactSeqs (Some (JArr (map JNum xs))) after = xs"
proof -
  have "set (keep_exact after (map JNum xs) []) = set xs"
    using assms by (auto simp: set_keep_exact json_seqs_def exact_ok_def)
  then have "sort (keep_exact after (map JNum xs) []) = xs"
    using assms(1) by (intro sorted_distinct_set_unique) (auto dest: exact_okD simp: distinct_keep_exact)
  with assms(1) show ?thesis
    by (simp add: normalizeSeenExactSeqs_JArr keep_newest_all exact_ok_def)
qed

lemma normalizeSeenExactSeqs_None [simp]: "normalizeSeenExactSeqs None after = []"
  by (simp add: normalizeSeenExactSeqs_def)

end
