(* ===== verification/ConsumedSeqStore.thy ===== *)
theory ConsumedSeqStore
  imports SeenExactSeqs
begin

text \<open>
  The durable consumed cursor, \<open>packages/daemon/src/persistence/agent-consumed-seq-store.ts\<close> with
  \<open>path-scope.ts\<close>: what a \<open>consumed-seqs.json\<close> file holds, how a file nobody in this process
  wrote is normalized, and the reads and writes of the store. A file is its parsed JSON value, or
  nothing when it is missing or does not parse. A write is best effort: its outcome is a parameter.
\<close>

subsection \<open>Data\<close>

record cursor_entry =
  ce_seq :: "int option"
  ce_readOrder :: "int option"
  ce_reviewedSeq :: "int option"
  ce_exactSeqs :: "int list option"

record cursor_state =
  cs_targets :: "(string, cursor_entry) js_map"
  cs_aliases :: "(string, string) js_map"
  cs_nextReadOrder :: int

definition empty_cursor :: cursor_state where
  "empty_cursor = \<lparr>cs_targets = [], cs_aliases = [], cs_nextReadOrder = 1\<rparr>"

definition empty_entry :: cursor_entry where
  "empty_entry = \<lparr>ce_seq = None, ce_readOrder = None, ce_reviewedSeq = None, ce_exactSeqs = None\<rparr>"

subsection \<open>Path scopes\<close>

definition upper_alnum :: string where
  "upper_alnum = upper_letters @ lower_alnum"

definition isSafePathScope :: "string \<Rightarrow> bool" where
  "isSafePathScope s =
     (case s of [] \<Rightarrow> False
      | c # cs \<Rightarrow> c \<in> set upper_alnum \<and> length cs \<le> 127 \<and>
          list_all (\<lambda>x. x \<in> set (upper_alnum @ ''_-'')) cs)"

subsection \<open>Normalizing a file\<close>

definition positiveFiniteNumber :: "json option \<Rightarrow> int option" where
  "positiveFiniteNumber v = (case json_num v of Some n \<Rightarrow> if n > 0 then Some n else None | None \<Rightarrow> None)"

definition or0 :: "int option \<Rightarrow> int" where
  "or0 v = (case v of None \<Rightarrow> 0 | Some n \<Rightarrow> n)"

text \<open>One \<open>targets\<close> entry: \<open>None\<close> where the loop of \<open>normalizeState\<close> continues.\<close>

definition normalize_entry :: "string \<Rightarrow> json \<Rightarrow> cursor_entry option" where
  "normalize_entry target entry =
     (case entry of
        JObj r \<Rightarrow>
          if target = '''' then None
          else let seq = positiveFiniteNumber (field r ''seq'');
                   readOrder = positiveFiniteNumber (field r ''readOrder'');
                   exactSeqs = normalizeSeenExactSeqs (field r ''exactSeqs'') (or0 seq)
               in if seq = None \<and> readOrder = None \<and> exactSeqs = [] then None
                  else Some \<lparr>ce_seq = seq, ce_readOrder = readOrder,
                    ce_reviewedSeq =
                      (if readOrder = None then None else positiveFiniteNumber (field r ''reviewedSeq'')),
                    ce_exactSeqs = (if exactSeqs = [] then None else Some exactSeqs)\<rparr>
      | _ \<Rightarrow> None)"

fun normalize_targets ::
  "(string \<times> json) list \<Rightarrow> (string, cursor_entry) js_map \<Rightarrow> int \<Rightarrow> (string, cursor_entry) js_map \<times> int"
where
  "normalize_targets [] targets maxObservedOrder = (targets, maxObservedOrder)"
| "normalize_targets ((target, entry) # rest) targets maxObservedOrder =
     (case normalize_entry target entry of
        None \<Rightarrow> normalize_targets rest targets maxObservedOrder
      | Some e \<Rightarrow> normalize_targets rest (map_set targets target e)
          (max maxObservedOrder (or0 (ce_readOrder e))))"

fun alias_links :: "(string \<times> json) list \<Rightarrow> (string, string) js_map \<Rightarrow> (string, string) js_map" where
  "alias_links [] links = links"
| "alias_links ((spelling, canonical) # rest) links =
     alias_links rest
       (case canonical of
          JStr c \<Rightarrow> if spelling \<noteq> '''' \<and> c \<noteq> '''' \<and> spelling \<noteq> c then map_set links spelling c else links
        | _ \<Rightarrow> links)"

text \<open>The walk along one alias chain: a cycle gives the spelling back.\<close>

function follow_alias :: "(string, string) js_map \<Rightarrow> string \<Rightarrow> string \<Rightarrow> string list \<Rightarrow> string" where
  "follow_alias links spelling canonical visited =
     (case map_get links canonical of
        None \<Rightarrow> canonical
      | Some nxt \<Rightarrow>
          if nxt \<in> set visited then spelling
          else follow_alias links spelling nxt (visited @ [nxt]))"
  by pat_completeness auto

termination
proof (relation "measure (\<lambda>(links, _, _, visited). card (snd ` set links - set visited))")
  fix links :: "(string, string) js_map" and spelling canonical nxt and visited :: "string list"
  assume "map_get links canonical = Some nxt" "nxt \<notin> set visited"
  then have "nxt \<in> snd ` set links - set visited" by (force dest: map_get_mem)
  then have "snd ` set links - set (visited @ [nxt]) \<subset> snd ` set links - set visited" by auto
  then have "card (snd ` set links - set (visited @ [nxt])) < card (snd ` set links - set visited)"
    by (rule psubset_card_mono [rotated]) simp
  then show "((links, spelling, nxt, visited @ [nxt]), (links, spelling, canonical, visited))
      \<in> measure (\<lambda>(links, _, _, visited). card (snd ` set links - set visited))"
    by simp
qed auto

declare follow_alias.simps [simp del]

definition resolve_aliases :: "(string, string) js_map \<Rightarrow> (string, string) js_map" where
  "resolve_aliases links =
     fold (\<lambda>spelling aliases.
        let canonical = follow_alias links spelling spelling [spelling]
        in if canonical \<noteq> spelling then map_set aliases spelling canonical else aliases)
       (map_keys links) []"

definition obj_entries :: "json option \<Rightarrow> (string \<times> json) list" where
  "obj_entries v = (case v of Some (JObj kvs) \<Rightarrow> kvs | _ \<Rightarrow> [])"

definition normalizeState :: "json \<Rightarrow> cursor_state" where
  "normalizeState value =
     (case value of
        JObj raw \<Rightarrow>
          (let (targets, maxObservedOrder) = normalize_targets (obj_entries (field raw ''targets'')) [] 0;
               links = alias_links (obj_entries (field raw ''aliases'')) [];
               rawNext = positiveFiniteNumber (field raw ''nextReadOrder'')
           in \<lparr>cs_targets = targets, cs_aliases = resolve_aliases links,
               cs_nextReadOrder =
                 max (case rawNext of None \<Rightarrow> 1 | Some n \<Rightarrow> n) (maxObservedOrder + 1)\<rparr>)
      | _ \<Rightarrow> empty_cursor)"

subsection \<open>The store\<close>

text \<open>What \<open>write\<close> puts into the file.\<close>

definition encode_entry :: "cursor_entry \<Rightarrow> json" where
  "encode_entry e = JObj
     (opt_field ''seq'' JNum (ce_seq e) @ opt_field ''readOrder'' JNum (ce_readOrder e) @
      opt_field ''reviewedSeq'' JNum (ce_reviewedSeq e) @
      opt_field ''exactSeqs'' (\<lambda>xs. JArr (map JNum xs)) (ce_exactSeqs e))"

definition encode_state :: "cursor_state \<Rightarrow> json" where
  "encode_state st = JObj
     [(''targets'', JObj (map (\<lambda>(t, e). (t, encode_entry e)) (cs_targets st))),
      (''aliases'', JObj (map (\<lambda>(s, c). (s, JStr c)) (cs_aliases st))),
      (''nextReadOrder'', JNum (cs_nextReadOrder st))]"

type_synonym cursor_files = "string \<Rightarrow> json option"

datatype cursor_error = InvalidConsumedSeqScope

definition read_cursor :: "cursor_files \<Rightarrow> string \<Rightarrow> cursor_error + cursor_state" where
  "read_cursor files agentId =
     (if \<not> isSafePathScope agentId then Inl InvalidConsumedSeqScope
      else case files agentId of
        None \<Rightarrow> Inr empty_cursor
      | Some parsed \<Rightarrow> Inr (normalizeState parsed))"

text \<open>\<open>stored\<close>: whether the directories and the file could be written.\<close>

definition write_cursor ::
  "bool \<Rightarrow> cursor_files \<Rightarrow> string \<Rightarrow> cursor_state \<Rightarrow> cursor_error + cursor_files" where
  "write_cursor stored files agentId st =
     (if \<not> isSafePathScope agentId then Inl InvalidConsumedSeqScope
      else if stored then Inr (files(agentId := Some (encode_state st)))
      else Inr files)"

subsection \<open>Flat aliases\<close>

text \<open>Every spelling maps straight to a canonical target, which is no spelling itself.\<close>

definition flat_aliases :: "(string, string) js_map \<Rightarrow> bool" where
  "flat_aliases m \<longleftrightarrow>
     wf_map m \<and> (\<forall>s c. map_get m s = Some c \<longrightarrow> map_get m c = None \<and> s \<noteq> '''' \<and> c \<noteq> '''')"

definition link :: "(string, string) js_map \<Rightarrow> (string \<times> string) set" where
  "link links = {(a, b). map_get links a = Some b}"

lemma single_valued_link: "single_valued (link links)"
  by (auto simp: single_valued_def link_def)

lemma link_end_no_cycle:
  assumes "(x, t) \<in> (link links)\<^sup>*" "map_get links t = None" "(x, x) \<in> (link links)\<^sup>+"
  shows False
  using assms
proof (induction rule: converse_rtrancl_induct)
  case base
  then show ?case by (auto simp: link_def dest: tranclD)
next
  case (step x y)
  from step.prems(2) obtain z where "(x, z) \<in> link links" "(z, x) \<in> (link links)\<^sup>*"
    by (auto dest: tranclD)
  with step.hyps(1) have "(y, x) \<in> (link links)\<^sup>*"
    using single_valued_link by (auto simp: single_valued_def)
  with step.hyps(1) have "(y, y) \<in> (link links)\<^sup>+" by simp
  with step show ?case by simp
qed

lemma follow_alias_end:
  assumes "(canonical, t) \<in> (link links)\<^sup>*" "map_get links t = None"
    and "\<forall>v \<in> set visited. (v, canonical) \<in> (link links)\<^sup>*"
  shows "follow_alias links spelling canonical visited = t"
  using assms
proof (induction links spelling canonical visited rule: follow_alias.induct)
  case (1 links spelling canonical visited)
  show ?case
  proof (cases "map_get links canonical")
    case None
    with "1.prems"(1) have "canonical = t" by (auto simp: link_def elim: converse_rtranclE)
    with None show ?thesis by (simp add: follow_alias.simps)
  next
    case (Some nxt)
    then have step: "(canonical, nxt) \<in> link links" by (simp add: link_def)
    from "1.prems"(1,2) Some have "(nxt, t) \<in> (link links)\<^sup>*"
      by (auto simp: link_def elim: converse_rtranclE)
    moreover have "nxt \<notin> set visited"
    proof
      assume "nxt \<in> set visited"
      with "1.prems"(3) step have "(canonical, canonical) \<in> (link links)\<^sup>+" by (auto intro: rtrancl_into_trancl2)
      with "1.prems"(1,2) show False by (rule link_end_no_cycle)
    qed
    moreover have "\<forall>v \<in> set (visited @ [nxt]). (v, nxt) \<in> (link links)\<^sup>*"
      using "1.prems"(3) step by (auto intro: rtrancl_into_rtrancl)
    ultimately show ?thesis
      using Some 1 by (subst follow_alias.simps) simp
  qed
qed

lemma follow_alias_result:
  assumes "(spelling, canonical) \<in> (link links)\<^sup>*"
    and "follow_alias links spelling canonical visited \<noteq> spelling"
  shows "(spelling, follow_alias links spelling canonical visited) \<in> (link links)\<^sup>* \<and>
    map_get links (follow_alias links spelling canonical visited) = None"
  using assms
proof (induction links spelling canonical visited rule: follow_alias.induct)
  case (1 links spelling canonical visited)
  show ?case
  proof (cases "map_get links canonical")
    case None
    with "1.prems" show ?thesis by (simp add: follow_alias.simps)
  next
    case (Some nxt)
    with "1.prems" have nv: "nxt \<notin> set visited"
      and eq: "follow_alias links spelling canonical visited =
        follow_alias links spelling nxt (visited @ [nxt])"
      by (auto simp: follow_alias.simps [of links spelling canonical visited] split: if_splits)
    from "1.prems"(1) Some have "(spelling, nxt) \<in> (link links)\<^sup>*"
      by (auto simp: link_def intro: rtrancl_into_rtrancl)
    with 1 Some nv eq show ?thesis by simp
  qed
qed

lemma fold_resolve_get:
  "map_get (fold (\<lambda>s m. let c = f s in if c \<noteq> s then map_set m s c else m) ks m) k =
     (if k \<in> set ks \<and> f k \<noteq> k then Some (f k) else map_get m k)"
  by (induction ks arbitrary: m) (auto simp: Let_def)

lemma fold_resolve_wf:
  "wf_map m \<Longrightarrow> wf_map (fold (\<lambda>s m. let c = f s in if c \<noteq> s then map_set m s c else m) ks m)"
  by (induction ks arbitrary: m) (auto simp: Let_def)

lemma resolve_aliases_get:
  "map_get (resolve_aliases links) s = Some t \<longleftrightarrow>
     (s, t) \<in> (link links)\<^sup>+ \<and> map_get links t = None"
proof -
  let ?f = "\<lambda>s. follow_alias links s s [s]"
  have get: "map_get (resolve_aliases links) s = Some t \<longleftrightarrow>
      s \<in> set (map_keys links) \<and> ?f s \<noteq> s \<and> ?f s = t"
    by (auto simp: resolve_aliases_def fold_resolve_get)
  show ?thesis
  proof
    assume "map_get (resolve_aliases links) s = Some t"
    with get have "?f s \<noteq> s" "?f s = t" by auto
    with follow_alias_result [of s s links "[s]"]
    have "(s, t) \<in> (link links)\<^sup>*" "map_get links t = None" "s \<noteq> t" by auto
    then show "(s, t) \<in> (link links)\<^sup>+ \<and> map_get links t = None" by (simp add: rtrancl_eq_or_trancl)
  next
    assume a: "(s, t) \<in> (link links)\<^sup>+ \<and> map_get links t = None"
    then have "?f s = t" by (intro follow_alias_end) (auto simp: trancl_into_rtrancl)
    moreover from a have "map_get links s \<noteq> None" by (auto simp: link_def dest: tranclD)
    ultimately show "map_get (resolve_aliases links) s = Some t"
      using a get by (auto simp: map_of_eq_None_iff)
  qed
qed

lemma alias_links_ok:
  assumes "wf_map links" "\<forall>s c. map_get links s = Some c \<longrightarrow> s \<noteq> '''' \<and> c \<noteq> ''''"
  shows "wf_map (alias_links raw links) \<and>
    (\<forall>s c. map_get (alias_links raw links) s = Some c \<longrightarrow> s \<noteq> '''' \<and> c \<noteq> '''')"
  using assms
proof (induction raw links rule: alias_links.induct)
  case (2 spelling canonical rest links)
  show ?case
    unfolding alias_links.simps by (rule 2) (use 2(2,3) in \<open>auto split: json.splits\<close>)
qed simp

lemma resolve_aliases_flat:
  assumes "\<forall>s c. map_get links s = Some c \<longrightarrow> s \<noteq> '''' \<and> c \<noteq> ''''"
  shows "flat_aliases (resolve_aliases links)"
proof -
  have "wf_map (resolve_aliases links)"
    unfolding resolve_aliases_def by (rule fold_resolve_wf) simp
  moreover have "map_get (resolve_aliases links) c = None \<and> s \<noteq> '''' \<and> c \<noteq> ''''"
    if sc: "map_get (resolve_aliases links) s = Some c" for s c
  proof -
    from sc have path: "(s, c) \<in> (link links)\<^sup>+" and c: "map_get links c = None"
      by (auto simp: resolve_aliases_get)
    from c have "map_get (resolve_aliases links) c = None"
      by (cases "map_get (resolve_aliases links) c")
        (auto simp: resolve_aliases_get link_def dest: tranclD)
    moreover from path assms have "s \<noteq> ''''" by (auto simp: link_def dest: tranclD)
    moreover from path assms have "c \<noteq> ''''" by (auto simp: link_def dest: tranclD2)
    ultimately show ?thesis by simp
  qed
  ultimately show ?thesis by (simp add: flat_aliases_def)
qed

text \<open>A flat alias map is its own resolution.\<close>

lemma flat_aliases_ne: "flat_aliases m \<Longrightarrow> map_get m s = Some c \<Longrightarrow> c \<noteq> s"
  by (metis flat_aliases_def option.distinct(1))

lemma follow_alias_flat:
  assumes "flat_aliases m" "map_get m s = Some c"
  shows "follow_alias m s s [s] = c"
  using assms
  by (intro follow_alias_end) (auto simp: flat_aliases_def link_def)

subsection \<open>Well-formed cursors\<close>

definition entry_ok :: "cursor_entry \<Rightarrow> bool" where
  "entry_ok e \<longleftrightarrow>
     (\<forall>n. ce_seq e = Some n \<longrightarrow> 0 < n) \<and> (\<forall>n. ce_readOrder e = Some n \<longrightarrow> 0 < n) \<and>
     (\<forall>n. ce_reviewedSeq e = Some n \<longrightarrow> 0 < n \<and> ce_readOrder e \<noteq> None) \<and>
     (\<forall>xs. ce_exactSeqs e = Some xs \<longrightarrow> xs \<noteq> [] \<and> exact_ok (or0 (ce_seq e)) xs) \<and>
     (ce_seq e \<noteq> None \<or> ce_readOrder e \<noteq> None \<or> ce_exactSeqs e \<noteq> None)"

text \<open>What the code relies on: positive numbers, exact sequences above their frontier, flat aliases,
  and a next read order above every order handed out.\<close>

definition cursor_wf :: "cursor_state \<Rightarrow> bool" where
  "cursor_wf st \<longleftrightarrow>
     wf_map (cs_targets st) \<and>
     (\<forall>t e. map_get (cs_targets st) t = Some e \<longrightarrow> t \<noteq> '''' \<and> entry_ok e \<and>
        or0 (ce_readOrder e) < cs_nextReadOrder st) \<and>
     flat_aliases (cs_aliases st) \<and> 0 < cs_nextReadOrder st"

definition cursor_safe :: "cursor_state \<Rightarrow> bool" where
  "cursor_safe st \<longleftrightarrow>
     (\<forall>t e xs x. map_get (cs_targets st) t = Some e \<longrightarrow> ce_exactSeqs e = Some xs \<longrightarrow> x \<in> set xs \<longrightarrow>
        is_safe_integer x)"

lemma positiveFiniteNumber_pos: "positiveFiniteNumber v = Some n \<Longrightarrow> 0 < n"
  by (auto simp: positiveFiniteNumber_def split: option.splits if_splits)

lemma normalize_entry_ok: "normalize_entry t v = Some e \<Longrightarrow> t \<noteq> '''' \<and> entry_ok e"
  using normalizeSeenExactSeqs_ok
  by (auto simp: normalize_entry_def entry_ok_def Let_def dest: positiveFiniteNumber_pos
      split: json.splits if_splits)

lemma normalize_targets_ok:
  assumes "wf_map ts" "\<forall>t e. map_get ts t = Some e \<longrightarrow> t \<noteq> '''' \<and> entry_ok e \<and> or0 (ce_readOrder e) \<le> mx"
    and "normalize_targets kvs ts mx = (ts', mx')"
  shows "wf_map ts' \<and> mx \<le> mx' \<and>
    (\<forall>t e. map_get ts' t = Some e \<longrightarrow> t \<noteq> '''' \<and> entry_ok e \<and> or0 (ce_readOrder e) \<le> mx')"
  using assms
proof (induction kvs ts mx rule: normalize_targets.induct)
  case (2 t v rest ts mx)
  show ?case
  proof (cases "normalize_entry t v")
    case None
    with 2 show ?thesis by simp
  next
    case (Some e)
    let ?ts = "map_set ts t e" and ?mx = "max mx (or0 (ce_readOrder e))"
    have "\<forall>t' e'. map_get ?ts t' = Some e' \<longrightarrow> t' \<noteq> '''' \<and> entry_ok e' \<and> or0 (ce_readOrder e') \<le> ?mx"
      using "2.prems"(2) normalize_entry_ok [OF Some] by (auto simp: le_max_iff_disj)
    with 2 Some show ?thesis by fastforce
  qed
qed simp

lemma alias_links_raw:
  "wf_map (alias_links raw [])"
  "map_get (alias_links raw []) s = Some c \<Longrightarrow> s \<noteq> '''' \<and> c \<noteq> ''''"
  using alias_links_ok [of "[]" raw] by auto

lemma empty_cursor_wf: "cursor_wf empty_cursor"
  by (simp add: cursor_wf_def empty_cursor_def flat_aliases_def)

lemma normalizeState_wf: "cursor_wf (normalizeState v)"
proof (cases v)
  case (JObj raw)
  obtain ts mx where nt: "normalize_targets (obj_entries (field raw ''targets'')) [] 0 = (ts, mx)"
    by fastforce
  from normalize_targets_ok [OF _ _ nt] have ok: "wf_map ts" "0 \<le> mx"
    "\<And>t e. map_get ts t = Some e \<Longrightarrow> t \<noteq> '''' \<and> entry_ok e \<and> or0 (ce_readOrder e) \<le> mx"
    by auto
  have "flat_aliases (resolve_aliases (alias_links (obj_entries (field raw ''aliases'')) []))"
    using alias_links_raw by (intro resolve_aliases_flat) blast
  with ok JObj nt show ?thesis by (force simp: normalizeState_def cursor_wf_def Let_def less_max_iff_disj)
qed (auto simp: normalizeState_def empty_cursor_wf)

subsection \<open>Writing and reading back\<close>

lemma positiveFiniteNumber_num:
  "positiveFiniteNumber (Some (JNum n)) = (if 0 < n then Some n else None)"
  "positiveFiniteNumber None = None"
  by (simp_all add: positiveFiniteNumber_def)

lemma positiveFiniteNumber_map:
  "(\<And>n. v = Some n \<Longrightarrow> 0 < n) \<Longrightarrow> positiveFiniteNumber (map_option JNum v) = v"
  by (cases v) (auto simp: positiveFiniteNumber_num)

lemma normalize_encode_entry:
  assumes "entry_ok e" "t \<noteq> ''''"
    and "\<And>xs x. ce_exactSeqs e = Some xs \<Longrightarrow> x \<in> set xs \<Longrightarrow> is_safe_integer x"
  shows "normalize_entry t (encode_entry e) = Some e"
proof -
  let ?r = "opt_field ''seq'' JNum (ce_seq e) @ opt_field ''readOrder'' JNum (ce_readOrder e) @
      opt_field ''reviewedSeq'' JNum (ce_reviewedSeq e) @
      opt_field ''exactSeqs'' (\<lambda>xs. JArr (map JNum xs)) (ce_exactSeqs e)"
  have f: "field ?r ''seq'' = map_option JNum (ce_seq e)"
    "field ?r ''readOrder'' = map_option JNum (ce_readOrder e)"
    "field ?r ''reviewedSeq'' = map_option JNum (ce_reviewedSeq e)"
    "field ?r ''exactSeqs'' = map_option (\<lambda>xs. JArr (map JNum xs)) (ce_exactSeqs e)"
    by (auto simp: field_append field_opt_field split: option.splits)
  have p: "positiveFiniteNumber (map_option JNum (ce_seq e)) = ce_seq e"
    "positiveFiniteNumber (map_option JNum (ce_readOrder e)) = ce_readOrder e"
    "positiveFiniteNumber (map_option JNum (ce_reviewedSeq e)) = ce_reviewedSeq e"
    using assms(1) by (auto intro!: positiveFiniteNumber_map simp: entry_ok_def)
  have x: "normalizeSeenExactSeqs (map_option (\<lambda>xs. JArr (map JNum xs)) (ce_exactSeqs e)) (or0 (ce_seq e)) =
      (case ce_exactSeqs e of None \<Rightarrow> [] | Some xs \<Rightarrow> xs)"
    using assms by (auto simp: entry_ok_def normalizeSeenExactSeqs_id split: option.splits)
  show ?thesis
    unfolding encode_entry_def normalize_entry_def json.case Let_def f p x
    using assms(1,2) by (cases e) (auto simp: entry_ok_def Let_def split: option.splits)
qed

lemma normalize_targets_encode:
  assumes "wf_map (acc @ ts)"
    and "\<And>t e. (t, e) \<in> set ts \<Longrightarrow> normalize_entry t (encode_entry e) = Some e"
  shows "normalize_targets (map (\<lambda>(t, e). (t, encode_entry e)) ts) acc mx =
    (acc @ ts, fold (\<lambda>(t, e) m. max m (or0 (ce_readOrder e))) ts mx)"
  using assms
proof (induction ts arbitrary: acc mx)
  case (Cons a ts)
  obtain t e where a: "a = (t, e)" by (cases a)
  with Cons.prems have "map_set acc t e = acc @ [(t, e)]"
    by (intro map_set_append) (auto simp: wf_map_def)
  with Cons.prems a show ?case
    using Cons.IH [of "acc @ [(t, e)]" "max mx (or0 (ce_readOrder e))"] by simp
qed simp

lemma alias_links_encode:
  assumes "wf_map (acc @ m)" "\<And>s c. (s, c) \<in> set m \<Longrightarrow> s \<noteq> '''' \<and> c \<noteq> '''' \<and> s \<noteq> c"
  shows "alias_links (map (\<lambda>(s, c). (s, JStr c)) m) acc = acc @ m"
  using assms
proof (induction m arbitrary: acc)
  case (Cons a m)
  obtain s c where a: "a = (s, c)" by (cases a)
  with Cons.prems have "map_set acc s c = acc @ [(s, c)]"
    by (intro map_set_append) (auto simp: wf_map_def)
  with Cons.prems a show ?case using Cons.IH [of "acc @ [(s, c)]"] by auto
qed simp

lemma resolve_aliases_flat_id:
  assumes "flat_aliases m"
  shows "resolve_aliases m = m"
proof -
  have "fold (\<lambda>s a. let c = follow_alias m s s [s] in if c \<noteq> s then map_set a s c else a) (map_keys xs) acc =
      acc @ xs" if "wf_map (acc @ xs)" "set xs \<subseteq> set m" for acc xs
    using that
  proof (induction xs arbitrary: acc)
    case (Cons a xs)
    obtain s c where a: "a = (s, c)" by (cases a)
    with Cons.prems(2) assms have sc: "map_get m s = Some c"
      by (auto simp: flat_aliases_def simp flip: wf_map_get_mem)
    with assms have "follow_alias m s s [s] = c" "c \<noteq> s"
      by (auto simp: follow_alias_flat dest: flat_aliases_ne)
    moreover from Cons.prems a have "map_set acc s c = acc @ [(s, c)]"
      by (intro map_set_append) (auto simp: wf_map_def)
    ultimately show ?case using Cons.IH [of "acc @ [(s, c)]"] Cons.prems a by simp
  qed simp
  from this [of "[]" m] assms show ?thesis by (simp add: resolve_aliases_def flat_aliases_def)
qed

lemma fold_max_le:
  "\<forall>p \<in> set ts. or0 (ce_readOrder (snd p)) < n \<Longrightarrow> mx < n \<Longrightarrow>
   fold (\<lambda>(t, e) m. max m (or0 (ce_readOrder e))) ts mx < n"
  by (induction ts arbitrary: mx) auto

lemma normalize_encode_state:
  assumes "cursor_wf st" "cursor_safe st"
  shows "normalizeState (encode_state st) = st"
proof -
  from assms have wf: "wf_map (cs_targets st)" "flat_aliases (cs_aliases st)" "0 < cs_nextReadOrder st"
    by (auto simp: cursor_wf_def)
  have ent: "t \<noteq> '''' \<and> entry_ok e \<and> or0 (ce_readOrder e) < cs_nextReadOrder st \<and>
      (\<forall>xs x. ce_exactSeqs e = Some xs \<longrightarrow> x \<in> set xs \<longrightarrow> is_safe_integer x)"
    if "(t, e) \<in> set (cs_targets st)" for t e
  proof -
    from that wf(1) have "map_get (cs_targets st) t = Some e" by (simp add: wf_map_get_mem)
    with assms show ?thesis unfolding cursor_wf_def cursor_safe_def by blast
  qed
  have t: "normalize_targets (map (\<lambda>(t, e). (t, encode_entry e)) (cs_targets st)) [] 0 =
      (cs_targets st, fold (\<lambda>(t, e) m. max m (or0 (ce_readOrder e))) (cs_targets st) 0)"
    using normalize_targets_encode [of "[]" "cs_targets st" 0] wf(1) ent
    by (simp add: normalize_encode_entry)
  have "fold (\<lambda>(t, e) m. max m (or0 (ce_readOrder e))) (cs_targets st) 0 < cs_nextReadOrder st"
    using ent wf(3) by (intro fold_max_le) auto
  moreover have "alias_links (map (\<lambda>(s, c). (s, JStr c)) (cs_aliases st)) [] = cs_aliases st"
    using alias_links_encode [of "[]" "cs_aliases st"] wf(2) flat_aliases_ne [OF wf(2)]
    by (fastforce simp: flat_aliases_def wf_map_get_mem)
  ultimately show ?thesis
    using t wf by (simp add: normalizeState_def encode_state_def obj_entries_def Let_def
        resolve_aliases_flat_id positiveFiniteNumber_num)
qed

subsection \<open>The cursor port\<close>

text \<open>
  What the attention index relies on (\<open>AgentConsumedSeqPort\<close>): a read always gives a well-formed
  state, a state written is the state read back, and other Agents' states are untouched.
\<close>

locale cursor_port =
  fixes rd :: "'f \<Rightarrow> string \<Rightarrow> cursor_state"
    and wr :: "'f \<Rightarrow> string \<Rightarrow> cursor_state \<Rightarrow> 'f"
    and scope :: "string \<Rightarrow> bool"
  assumes rd_wf: "cursor_wf (rd f a)"
    and rd_wr_same: "scope a \<Longrightarrow> cursor_wf st \<Longrightarrow> cursor_safe st \<Longrightarrow> rd (wr f a st) a = st"
    and rd_wr_other: "b \<noteq> a \<Longrightarrow> rd (wr f a st) b = rd f b"
begin

lemma rd_wr: "scope a \<Longrightarrow> cursor_wf st \<Longrightarrow> cursor_safe st \<Longrightarrow> rd (wr f a st) b = (if b = a then st else rd f b)"
  by (simp add: rd_wr_same rd_wr_other)

text \<open>The last write wins.\<close>

lemma rd_wr_wr:
  "scope a \<Longrightarrow> cursor_wf st \<Longrightarrow> cursor_safe st \<Longrightarrow> rd (wr (wr f a st') a st) b = rd (wr f a st) b"
  by (cases "b = a") (simp_all add: rd_wr_same rd_wr_other)

end

text \<open>The file store behind the port, for an Agent id that may be a path segment.\<close>

definition port_read :: "cursor_files \<Rightarrow> string \<Rightarrow> cursor_state" where
  "port_read files agentId =
     (case read_cursor files agentId of Inl _ \<Rightarrow> empty_cursor | Inr st \<Rightarrow> st)"

definition port_write :: "cursor_files \<Rightarrow> string \<Rightarrow> cursor_state \<Rightarrow> cursor_files" where
  "port_write files agentId st =
     (case write_cursor True files agentId st of Inl _ \<Rightarrow> files | Inr files' \<Rightarrow> files')"

interpretation cursor_file: cursor_port port_read port_write isSafePathScope
proof unfold_locales
  show "cursor_wf (port_read f a)" for f a
    by (simp add: port_read_def read_cursor_def empty_cursor_wf normalizeState_wf split: option.splits)
  show "port_read (port_write f a st) a = st" if "isSafePathScope a" "cursor_wf st" "cursor_safe st" for f a st
    using that by (simp add: port_read_def port_write_def read_cursor_def write_cursor_def
        normalize_encode_state)
  show "port_read (port_write f a st) b = port_read f b" if "b \<noteq> a" for b a f st
    using that by (simp add: port_read_def port_write_def read_cursor_def write_cursor_def)
qed

subsection \<open>Properties\<close>

text \<open>
  Reading a cursor throws exactly for an id that cannot be a path segment, and otherwise gives a
  well-formed state whatever the file holds: every frontier, order and exact list is valid, the
  next read order is above every order in the file, and aliases are flat.
\<close>

theorem cursor_read_well_formed:
  "case read_cursor files a of
     Inl e \<Rightarrow> \<not> isSafePathScope a
   | Inr st \<Rightarrow> isSafePathScope a \<and> cursor_wf st"
  by (auto simp: read_cursor_def empty_cursor_wf normalizeState_wf split: option.splits)

text \<open>
  After normalization a spelling has a canonical target exactly when following the file's links
  from it ends, and then it is the target where they end: chains are compressed, cycles dropped.
\<close>

theorem alias_resolution_correct:
  "map_get (cs_aliases (normalizeState (JObj raw))) s = Some t \<longleftrightarrow>
     (s, t) \<in> (link (alias_links (obj_entries (field raw ''aliases'')) []))\<^sup>+ \<and>
     map_get (alias_links (obj_entries (field raw ''aliases'')) []) t = None"
  by (simp add: normalizeState_def Let_def resolve_aliases_get split: prod.splits)

text \<open>
  A well-formed cursor written to the store is read back unchanged, for every Agent whose id is a
  safe path segment, and the other Agents' cursors are untouched.
\<close>

theorem cursor_write_read_round_trip:
  assumes "isSafePathScope a" "cursor_wf st" "cursor_safe st"
    and "write_cursor True files a st = Inr files'"
  shows "read_cursor files' a = Inr st \<and> (b \<noteq> a \<longrightarrow> read_cursor files' b = read_cursor files b)"
proof -
  have "files' = port_write files a st" using assms(4) by (simp add: port_write_def)
  with cursor_file.rd_wr_same [OF assms(1-3), of files] assms(1) have "read_cursor files' a = Inr st"
    by (auto simp: port_read_def read_cursor_def split: option.splits)
  moreover have "b \<noteq> a \<longrightarrow> read_cursor files' b = read_cursor files b"
    using assms(1,4) by (auto simp: write_cursor_def read_cursor_def)
  ultimately show ?thesis by simp
qed

theorem cursor_write_read_round_trip_witness:
  "read_cursor [''a'' \<mapsto> encode_state empty_cursor] ''a'' = Inr empty_cursor"
  using cursor_write_read_round_trip
    [of "''a''" empty_cursor "Map.empty" "[''a'' \<mapsto> encode_state empty_cursor]" "''a''"]
  by (simp add: isSafePathScope_def upper_alnum_def upper_letters_def lower_alnum_def empty_cursor_wf
      cursor_safe_def write_cursor_def) (simp add: empty_cursor_def)

end
