(* ===== verification/AttentionIndex.thy ===== *)
theory AttentionIndex
  imports Deliveries ConsumedSeqStore
begin

text \<open>
  The bookkeeping of \<open>AgentMessageAttentionIndex\<close>
  (\<open>packages/daemon/src/daemon-runtime/agent-message-attention-index.ts\<close>) for one Agent: the
  consumed frontier and the sequences shown one by one, target aliases, review order, pending
  sequences, attention and the pending window, and how every operation settles them and writes
  the durable cursor. The class keeps one \<open>Map\<close> per field, keyed by Agent id, and no operation
  reads another Agent's entry, so the state here is one Agent's entry of every map; an absent
  entry is the empty one. The store is optional, as in the code. The notices and the
  acknowledgements are in the theory on deliveries.
\<close>

subsection \<open>State\<close>

record message_attention =
  ma_target :: string
  ma_pendingCount :: nat
  ma_firstPendingSequence :: int
  ma_latestSequence :: int
  ma_latestSender :: "(sender_kind \<times> string) option"
  ma_flags :: "string list"

record window_entry =
  we_delivery :: delivery
  we_receivedAt :: int

record agent_index =
  ai_hydrated :: bool
  ai_attention :: "(string, message_attention) js_map"
  ai_modelSeen :: "(string, int) js_map"
  ai_exactSeen :: "(string, int list) js_map"
  ai_aliases :: "(string, string) js_map"
  ai_conversationTargets :: "(string, string list) js_map"
  ai_attentionConversation :: "(string, string) js_map"
  ai_pendingSequences :: "(string, int list) js_map"
  ai_pendingWindow :: "(string, window_entry list) js_map"
  ai_readContext :: "(string, int) js_map"
  ai_reviewedSequence :: "(string, int) js_map"
  ai_readContextCounter :: int
  ai_memoryReminder :: "string option"

text \<open>\<open>clearAgent\<close> leaves every entry absent.\<close>

definition clearAgent :: agent_index where
  "clearAgent = \<lparr>ai_hydrated = False, ai_attention = [], ai_modelSeen = [], ai_exactSeen = [],
     ai_aliases = [], ai_conversationTargets = [], ai_attentionConversation = [],
     ai_pendingSequences = [], ai_pendingWindow = [], ai_readContext = [], ai_reviewedSequence = [],
     ai_readContextCounter = 0, ai_memoryReminder = None\<rparr>"

definition PENDING_WINDOW_LIMIT :: nat where
  "PENDING_WINDOW_LIMIT = HELD_CONTEXT_LIMIT"

subsection \<open>Pending attention\<close>

definition recordConversation :: "string \<Rightarrow> string \<Rightarrow> agent_index \<Rightarrow> agent_index" where
  "recordConversation target conversationId ix =
     (if map_get (ai_attentionConversation ix) target = Some conversationId then ix
      else ix\<lparr>ai_attentionConversation := map_set (ai_attentionConversation ix) target conversationId,
        ai_conversationTargets := map_set (ai_conversationTargets ix) conversationId
          (set_add target (get_or (ai_conversationTargets ix) conversationId []))\<rparr>)"

definition forgetConversation :: "string \<Rightarrow> agent_index \<Rightarrow> agent_index" where
  "forgetConversation target ix =
     (case map_get (ai_attentionConversation ix) target of
        None \<Rightarrow> ix
      | Some conversationId \<Rightarrow>
          (let targets = map_option (set_del target) (map_get (ai_conversationTargets ix) conversationId)
           in ix\<lparr>ai_attentionConversation := map_delete (ai_attentionConversation ix) target,
             ai_conversationTargets :=
               (case targets of
                  None \<Rightarrow> ai_conversationTargets ix
                | Some ts \<Rightarrow> if ts = [] then map_delete (ai_conversationTargets ix) conversationId
                            else map_set (ai_conversationTargets ix) conversationId ts)\<rparr>))"

definition clear_target :: "string \<Rightarrow> agent_index \<Rightarrow> agent_index" where
  "clear_target target ix0 =
     (let ix = forgetConversation target ix0
      in ix\<lparr>ai_pendingSequences := map_delete (ai_pendingSequences ix) target,
        ai_pendingWindow := map_delete (ai_pendingWindow ix) target,
        ai_attention := map_delete (ai_attention ix) target\<rparr>)"

definition clearThrough :: "string \<Rightarrow> int \<Rightarrow> agent_index \<Rightarrow> agent_index" where
  "clearThrough target sequence ix =
     (case map_get (ai_attention ix) target of
        None \<Rightarrow> clear_target target ix
      | Some attention \<Rightarrow>
          if ma_latestSequence attention \<le> sequence then clear_target target ix else ix)"

text \<open>The targets lost with a channel are the channel and every thread under it.\<close>

definition lost_with :: "string list \<Rightarrow> string \<Rightarrow> bool" where
  "lost_with channels target \<longleftrightarrow>
     list_ex (\<lambda>channel. target = channel \<or> starts_with target (channel @ '':'')) channels"

definition clearTargets :: "string list \<Rightarrow> agent_index \<Rightarrow> agent_index" where
  "clearTargets channels ix =
     fold (\<lambda>target ix. if lost_with channels target then clear_target target ix else ix)
       (remdups (map_keys (ai_attention ix) @ map_keys (ai_pendingSequences ix) @
          map_keys (ai_pendingWindow ix))) ix"

definition recordPendingWindow :: "string \<Rightarrow> delivery \<Rightarrow> int \<Rightarrow> agent_index \<Rightarrow> agent_index" where
  "recordPendingWindow target m receivedAt ix =
     (let entries = get_or (ai_pendingWindow ix) target [] @ [\<lparr>we_delivery = m, we_receivedAt = receivedAt\<rparr>]
      in ix\<lparr>ai_pendingWindow := map_set (ai_pendingWindow ix) target
        (if length entries > PENDING_WINDOW_LIMIT then keep_newest PENDING_WINDOW_LIMIT entries
         else entries)\<rparr>)"

text \<open>The flags of a target: its kind, and \<open>non_member_mention\<close> once any delivery carried it.\<close>

definition attention_flags :: "string \<Rightarrow> bool \<Rightarrow> message_attention option \<Rightarrow> string list" where
  "attention_flags target nonMember previous =
     [if isChannelMessageTarget target then ''channel''
      else if CHR '':'' \<in> set target then ''thread'' else ''dm''] @
     (if nonMember \<or> (case previous of None \<Rightarrow> False | Some p \<Rightarrow> ''non_member_mention'' \<in> set (ma_flags p))
      then [''non_member_mention''] else [])"

definition next_attention :: "message_attention option \<Rightarrow> delivery \<Rightarrow> message_attention" where
  "next_attention previous m =
     \<lparr>ma_target = target_of m,
      ma_pendingCount = (case previous of None \<Rightarrow> 0 | Some p \<Rightarrow> ma_pendingCount p) + 1,
      ma_firstPendingSequence =
        (case previous of None \<Rightarrow> d_sequence m | Some p \<Rightarrow> ma_firstPendingSequence p),
      ma_latestSequence = max (case previous of None \<Rightarrow> 0 | Some p \<Rightarrow> ma_latestSequence p) (d_sequence m),
      ma_latestSender = printableSender (d_senderKind m) (d_senderHandle m),
      ma_flags = attention_flags (target_of m) (d_nonMemberMention m) previous\<rparr>"

definition recordAttention :: "delivery \<Rightarrow> int \<Rightarrow> agent_index \<Rightarrow> agent_index" where
  "recordAttention m receivedAt ix =
     (let target = target_of m;
          current = next_attention (map_get (ai_attention ix) target) m;
          ix1 = ix\<lparr>ai_pendingSequences := map_set (ai_pendingSequences ix) target
                    (set_add (d_sequence m) (get_or (ai_pendingSequences ix) target [])),
                  ai_attention := map_set (ai_attention ix) target current\<rparr>
      in recordPendingWindow target m receivedAt (recordConversation target (d_conversationId m) ix1))"

text \<open>
  \<open>settlePending\<close>: the pending sequences a predicate covers leave the target's set and window, and
  the attention goes once nothing is pending. The least pending sequence starts at infinity in the
  code; it is only taken of a set that is not empty.
\<close>

definition settle_sequences :: "string \<Rightarrow> (int \<Rightarrow> bool) \<Rightarrow> agent_index \<Rightarrow> agent_index" where
  "settle_sequences target settled ix =
     (case map_get (ai_pendingSequences ix) target of
        None \<Rightarrow> ix
      | Some pending \<Rightarrow> ix\<lparr>ai_pendingSequences :=
          map_set (ai_pendingSequences ix) target (filter (\<lambda>s. \<not> settled s) pending)\<rparr>)"

definition settle_window :: "string \<Rightarrow> (int \<Rightarrow> bool) \<Rightarrow> agent_index \<Rightarrow> agent_index" where
  "settle_window target settled ix =
     (case map_get (ai_pendingWindow ix) target of
        None \<Rightarrow> ix
      | Some entries \<Rightarrow>
          (let kept = filter (\<lambda>e. \<not> settled (d_sequence (we_delivery e))) entries
           in if kept = [] then ix\<lparr>ai_pendingWindow := map_delete (ai_pendingWindow ix) target\<rparr>
              else if length kept \<noteq> length entries
              then ix\<lparr>ai_pendingWindow := map_set (ai_pendingWindow ix) target kept\<rparr>
              else ix))"

definition settle_attention :: "string \<Rightarrow> agent_index \<Rightarrow> agent_index" where
  "settle_attention target ix =
     (case map_get (ai_attention ix) target of
        None \<Rightarrow> ix
      | Some attention \<Rightarrow>
          (case get_or (ai_pendingSequences ix) target [] of
             [] \<Rightarrow> clear_target target ix
           | p # ps \<Rightarrow>
               if length (p # ps) = ma_pendingCount attention then ix
               else ix\<lparr>ai_attention := map_set (ai_attention ix) target
                 (attention\<lparr>ma_pendingCount := length (p # ps),
                   ma_firstPendingSequence := fold min ps p\<rparr>)\<rparr>))"

definition settlePending :: "string \<Rightarrow> (int \<Rightarrow> bool) \<Rightarrow> agent_index \<Rightarrow> agent_index" where
  "settlePending target settled ix =
     settle_attention target (settle_window target settled (settle_sequences target settled ix))"

subsection \<open>The consumed cursor\<close>

definition frontier :: "agent_index \<Rightarrow> string \<Rightarrow> int" where
  "frontier ix target = get_or (ai_modelSeen ix) target 0"

definition advanceFrontier :: "string \<Rightarrow> int \<Rightarrow> agent_index \<Rightarrow> bool \<times> agent_index" where
  "advanceFrontier target sequence ix =
     (if sequence \<le> frontier ix target then (False, ix)
      else let ix1 = ix\<lparr>ai_modelSeen := map_set (ai_modelSeen ix) target sequence\<rparr>;
               exact = get_or (ai_exactSeen ix1) target [];
               kept = drop (firstAbove exact sequence) exact;
               ix2 = (if exact = [] then ix1
                 else if kept = [] then ix1\<lparr>ai_exactSeen := map_delete (ai_exactSeen ix1) target\<rparr>
                 else if length kept \<noteq> length exact
                 then ix1\<lparr>ai_exactSeen := map_set (ai_exactSeen ix1) target kept\<rparr>
                 else ix1)
           in (True, settlePending target (\<lambda>s. s \<le> sequence) ix2))"

definition addExact :: "string \<Rightarrow> int list \<Rightarrow> agent_index \<Rightarrow> bool \<times> agent_index" where
  "addExact target sequences ix =
     (if sequences = [] then (False, ix)
      else let existing = get_or (ai_exactSeen ix) target [];
               incoming = (if isAscending sequences then sequences else sort sequences);
               merged = mergeSeenExactSeqs (frontier ix target) existing incoming
           in if merged = existing then (False, ix)
              else (True, ix\<lparr>ai_exactSeen := map_set (ai_exactSeen ix) target merged\<rparr>))"

definition settleSeen :: "string \<Rightarrow> agent_index \<Rightarrow> agent_index" where
  "settleSeen target ix =
     settlePending target
       (\<lambda>s. s \<le> frontier ix target \<or> containsSorted (map_get (ai_exactSeen ix) target) s) ix"

datatype channel_type = Dm | Thread

record consumption_scope =
  sc_conversationId :: string
  sc_channelType :: channel_type
  sc_target :: string

text \<open>Whether the scope settles another spelling \<open>target\<close> of its conversation.\<close>

definition scope_covers :: "consumption_scope \<Rightarrow> string \<Rightarrow> bool" where
  "scope_covers sc target =
     (let root = threadRootTarget target; scopeRoot = threadRootTarget (sc_target sc)
      in if sc_channelType sc = Dm then root = None
         else (case scopeRoot of None \<Rightarrow> False | Some r \<Rightarrow> sameThreadRoot root r))"

definition settleScope ::
  "consumption_scope \<Rightarrow> int list \<Rightarrow> string \<Rightarrow> agent_index \<Rightarrow> agent_index" where
  "settleScope sc shown settled ix =
     (if shown = [] then ix
      else case map_get (ai_conversationTargets ix) (sc_conversationId sc) of
        None \<Rightarrow> ix
      | Some targets \<Rightarrow>
          if sc_channelType sc = Thread \<and> threadRootTarget (sc_target sc) = None then ix
          else fold (\<lambda>target ix.
              if target = settled \<or> \<not> scope_covers sc target then ix
              else settlePending target (\<lambda>s. containsSorted (Some shown) s) ix) targets ix)"

definition setAlias :: "string \<Rightarrow> string \<Rightarrow> agent_index \<Rightarrow> bool \<times> agent_index" where
  "setAlias spelling canonical ix =
     (if spelling = '''' \<or> canonical = '''' \<or> spelling = canonical then (False, ix)
      else let target0 = get_or (ai_aliases ix) canonical canonical;
               (aliases, target) = (if target0 = spelling
                 then (map_delete (ai_aliases ix) canonical, canonical)
                 else (ai_aliases ix, target0))
           in if map_get aliases spelling = Some target then (False, ix\<lparr>ai_aliases := aliases\<rparr>)
              else (True, ix\<lparr>ai_aliases :=
                map (\<lambda>(other, named). (other, if named = spelling then target else named))
                  (map_set aliases spelling target)\<rparr>))"

definition takeReadOrder :: "string \<Rightarrow> int \<Rightarrow> agent_index \<Rightarrow> agent_index" where
  "takeReadOrder target sequence ix =
     (let order = ai_readContextCounter ix + 1
      in ix\<lparr>ai_reviewedSequence :=
           (if sequence > 0
            then map_set (ai_reviewedSequence ix) target
              (max (get_or (ai_reviewedSequence ix) target 0) sequence)
            else ai_reviewedSequence ix),
         ai_readContextCounter := order,
         ai_readContext := map_set (ai_readContext ix) target order\<rparr>)"

subsection \<open>The durable copy\<close>

type_synonym ix_state = "cursor_files option \<times> agent_index"

type_synonym 'a act = "ix_state \<Rightarrow> (cursor_error + 'a) \<times> ix_state"

text \<open>A \<open>Map\<close> filled from the entries that carry a field.\<close>

fun pick :: "(cursor_entry \<Rightarrow> 'a option) \<Rightarrow> (string, cursor_entry) js_map \<Rightarrow> (string, 'a) js_map" where
  "pick f [] = []"
| "pick f ((target, entry) # rest) =
     (case f entry of None \<Rightarrow> pick f rest | Some v \<Rightarrow> (target, v) # pick f rest)"

definition load_cursor :: "cursor_state \<Rightarrow> agent_index \<Rightarrow> agent_index" where
  "load_cursor st ix =
     ix\<lparr>ai_modelSeen := pick ce_seq (cs_targets st),
        ai_readContext := pick ce_readOrder (cs_targets st),
        ai_reviewedSequence := pick ce_reviewedSeq (cs_targets st),
        ai_exactSeen := pick (\<lambda>e. case ce_exactSeqs e of
             Some xs \<Rightarrow> if xs = [] then None else Some xs | None \<Rightarrow> None) (cs_targets st),
        ai_aliases := cs_aliases st,
        ai_readContextCounter := cs_nextReadOrder st - 1\<rparr>"

text \<open>\<open>#hydrate\<close>: the mark is set before the read, so it stays when the read throws.\<close>

fun hydrate :: "string \<Rightarrow> unit act" where
  "hydrate agentId (store, ix) =
     (case store of
        None \<Rightarrow> (Inr (), store, ix)
      | Some files \<Rightarrow>
          if ai_hydrated ix then (Inr (), store, ix)
          else let ix1 = ix\<lparr>ai_hydrated := True\<rparr>
               in (case read_cursor files agentId of
                     Inl e \<Rightarrow> (Inl e, store, ix1)
                   | Inr st \<Rightarrow> (Inr (), store, load_cursor st ix1)))"

definition entry_set ::
  "(cursor_entry \<Rightarrow> cursor_entry) \<Rightarrow> string \<Rightarrow> (string, cursor_entry) js_map \<Rightarrow> (string, cursor_entry) js_map"
where
  "entry_set f target targets = map_set targets target (f (get_or targets target empty_entry))"

definition snapshot :: "agent_index \<Rightarrow> cursor_state" where
  "snapshot ix =
     (let t1 = fold (\<lambda>(target, seq). entry_set (\<lambda>e. e\<lparr>ce_seq := Some seq\<rparr>) target) (ai_modelSeen ix) [];
          t2 = fold (\<lambda>(target, readOrder). entry_set (\<lambda>e. e\<lparr>ce_readOrder := Some readOrder,
                 ce_reviewedSeq := (case map_get (ai_reviewedSequence ix) target of
                    None \<Rightarrow> ce_reviewedSeq e | Some s \<Rightarrow> Some s)\<rparr>) target) (ai_readContext ix) t1;
          t3 = fold (\<lambda>(target, exactSeqs). if exactSeqs = [] then id
                 else entry_set (\<lambda>e. e\<lparr>ce_exactSeqs := Some exactSeqs\<rparr>) target) (ai_exactSeen ix) t2
      in \<lparr>cs_targets = t3, cs_aliases = ai_aliases ix, cs_nextReadOrder = ai_readContextCounter ix + 1\<rparr>)"

text \<open>\<open>stored\<close>: whether the one write of the operation reached the file.\<close>

fun persist :: "bool \<Rightarrow> string \<Rightarrow> unit act" where
  "persist stored agentId (store, ix) =
     (case store of
        None \<Rightarrow> (Inr (), store, ix)
      | Some files \<Rightarrow>
          (case write_cursor stored files agentId (snapshot ix) of
             Inl e \<Rightarrow> (Inl e, store, ix)
           | Inr files' \<Rightarrow> (Inr (), Some files', ix)))"

definition hydrated :: "string \<Rightarrow> 'a act \<Rightarrow> 'a act" where
  "hydrated agentId body s =
     (case hydrate agentId s of (Inl e, s') \<Rightarrow> (Inl e, s') | (Inr u, s') \<Rightarrow> body s')"

text \<open>An operation that changes the index and writes it once when something changed.\<close>

definition update_index :: "bool \<Rightarrow> string \<Rightarrow> (agent_index \<Rightarrow> bool \<times> agent_index) \<Rightarrow> unit act" where
  "update_index stored agentId f =
     hydrated agentId (\<lambda>(store, ix). let (changed, ix') = f ix
        in if changed then persist stored agentId (store, ix') else (Inr (), store, ix'))"

definition read_index :: "string \<Rightarrow> (agent_index \<Rightarrow> 'a) \<Rightarrow> 'a act" where
  "read_index agentId f = hydrated agentId (\<lambda>(store, ix). (Inr (f ix), store, ix))"

subsection \<open>Operations\<close>

definition exact_seen_step :: "string \<times> int list \<Rightarrow> bool \<times> agent_index \<Rightarrow> bool \<times> agent_index" where
  "exact_seen_step = (\<lambda>(target, sequences) (changed, ix).
     if target = '''' then (changed, ix)
     else let (added, ix1) = addExact target sequences ix
          in if added then (True, settleSeen target ix1) else (changed, ix1))"

definition recordExactSeen :: "bool \<Rightarrow> string \<Rightarrow> (string \<times> int list) list \<Rightarrow> unit act" where
  "recordExactSeen stored agentId shown =
     update_index stored agentId (\<lambda>ix. fold exact_seen_step shown (False, ix))"

record history_read =
  hr_spelling :: string
  hr_target :: string
  hr_shown :: "int list"
  hr_through :: int
  hr_review :: "int option"
  hr_scope :: "consumption_scope option"

definition history_read_update :: "history_read \<Rightarrow> agent_index \<Rightarrow> bool \<times> agent_index" where
  "history_read_update r ix =
     (let target = hr_target r;
          (c1, ix1) = setAlias (hr_spelling r) target ix;
          (c2, ix2) = (if hr_through r > 0 then advanceFrontier target (hr_through r) ix1 else (False, ix1));
          (c3, ix3) = addExact target (hr_shown r) ix2;
          ix4 = settleSeen target ix3;
          (c4, ix5) = (case hr_review r of None \<Rightarrow> (False, ix4)
            | Some sequence \<Rightarrow> (True, takeReadOrder target sequence ix4));
          ix6 = (case hr_scope r of None \<Rightarrow> ix5 | Some sc \<Rightarrow> settleScope sc (hr_shown r) target ix5)
      in (c1 \<or> c2 \<or> c3 \<or> c4, ix6))"

definition recordHistoryRead :: "bool \<Rightarrow> string \<Rightarrow> history_read \<Rightarrow> unit act" where
  "recordHistoryRead stored agentId r = update_index stored agentId (history_read_update r)"

definition send_context_update :: "string \<Rightarrow> int \<Rightarrow> int option \<Rightarrow> agent_index \<Rightarrow> bool \<times> agent_index" where
  "send_context_update target through review ix =
     (let (changed, ix1) = advanceFrontier target through ix
      in case review of None \<Rightarrow> (changed, ix1)
       | Some sequence \<Rightarrow> (True, takeReadOrder target sequence ix1))"

definition recordSendContext :: "bool \<Rightarrow> string \<Rightarrow> string \<Rightarrow> int \<Rightarrow> int option \<Rightarrow> unit act" where
  "recordSendContext stored agentId target through review =
     (if through < 1 then Pair (Inr ())
      else update_index stored agentId (send_context_update target through review))"

definition recordModelSeen :: "bool \<Rightarrow> string \<Rightarrow> string \<Rightarrow> int \<Rightarrow> unit act" where
  "recordModelSeen stored agentId target sequence =
     (if sequence < 1 then Pair (Inr ())
      else update_index stored agentId (advanceFrontier target sequence))"

definition recordReadContext :: "bool \<Rightarrow> string \<Rightarrow> string \<Rightarrow> int \<Rightarrow> unit act" where
  "recordReadContext stored agentId target sequence =
     update_index stored agentId (\<lambda>ix. (True, takeReadOrder target sequence ix))"

definition recordTargetAlias :: "bool \<Rightarrow> string \<Rightarrow> string \<Rightarrow> string \<Rightarrow> unit act" where
  "recordTargetAlias stored agentId spelling canonical =
     update_index stored agentId (setAlias spelling canonical)"

definition seenExactSequences :: "string \<Rightarrow> string \<Rightarrow> int list act" where
  "seenExactSequences agentId target = read_index agentId (\<lambda>ix. get_or (ai_exactSeen ix) target [])"

definition hasExactSeen :: "string \<Rightarrow> string \<Rightarrow> bool act" where
  "hasExactSeen agentId target = read_index agentId (\<lambda>ix. length (get_or (ai_exactSeen ix) target []) > 0)"

definition resolveTarget :: "string \<Rightarrow> string \<Rightarrow> string act" where
  "resolveTarget agentId target = read_index agentId (\<lambda>ix. get_or (ai_aliases ix) target target)"

definition modelSeenSequence :: "string \<Rightarrow> string \<Rightarrow> int act" where
  "modelSeenSequence agentId target = read_index agentId (\<lambda>ix. frontier ix target)"

definition seen_by :: "agent_index \<Rightarrow> string \<Rightarrow> int \<Rightarrow> bool" where
  "seen_by ix target sequence \<longleftrightarrow>
     frontier ix target \<ge> sequence \<or> containsSorted (map_get (ai_exactSeen ix) target) sequence"

definition hasSeen :: "string \<Rightarrow> string \<Rightarrow> int \<Rightarrow> bool act" where
  "hasSeen agentId target sequence = read_index agentId (\<lambda>ix. seen_by ix target sequence)"

definition hasConsumed :: "delivery \<Rightarrow> bool act" where
  "hasConsumed m =
     (if hasDeliveryScope m then hasSeen (d_agentId m) (target_of m) (d_sequence m)
      else Pair (Inr False))"

definition readOrder :: "string \<Rightarrow> string \<Rightarrow> int option act" where
  "readOrder agentId target = read_index agentId (\<lambda>ix. map_get (ai_readContext ix) target)"

definition latest_thread :: "agent_index \<Rightarrow> string \<Rightarrow> (string \<times> int) option" where
  "latest_thread ix parent =
     fold (\<lambda>(target, order) latest.
        if starts_with target (parent @ '':'') \<and> get_or (ai_reviewedSequence ix) target 0 > 0 \<and>
           (case latest of None \<Rightarrow> True | Some (_, o') \<Rightarrow> order > o')
        then Some (target, order) else latest) (ai_readContext ix) None"

definition latestThreadReadUnderParent :: "string \<Rightarrow> string \<Rightarrow> (string \<times> int) option act" where
  "latestThreadReadUnderParent agentId parent = read_index agentId (\<lambda>ix. latest_thread ix parent)"

definition pendingMessageCount :: "agent_index \<Rightarrow> string \<Rightarrow> nat" where
  "pendingMessageCount ix target =
     (case map_get (ai_attention ix) target of None \<Rightarrow> 0 | Some a \<Rightarrow> ma_pendingCount a)"

definition pendingMaxSequence :: "agent_index \<Rightarrow> string \<Rightarrow> int" where
  "pendingMaxSequence ix target = fold max (get_or (ai_pendingSequences ix) target []) 0"

definition pendingWindow :: "agent_index \<Rightarrow> string \<Rightarrow> nat \<Rightarrow> window_entry list" where
  "pendingWindow ix target limit =
     (let entries = get_or (ai_pendingWindow ix) target []
      in if limit = 0 then entries else keep_newest limit entries)"

definition check :: "agent_index \<Rightarrow> message_attention list" where
  "check ix = map snd (ai_attention ix)"

definition setMemoryReminder :: "string \<Rightarrow> agent_index \<Rightarrow> agent_index" where
  "setMemoryReminder reminder ix = ix\<lparr>ai_memoryReminder := Some reminder\<rparr>"

end
