(* ===== verification/AttentionPending.thy ===== *)
theory AttentionPending
  imports AttentionIndex
begin

text \<open>
  The pending side of the attention index: the attention, pending sequences, window and
  conversation of a target always agree, and what settling and clearing leave.
\<close>

subsection \<open>The invariant\<close>

text \<open>
  One target: attention without pending sequences does not exist, nor the other way round; the
  window holds the newest unreviewed deliveries among them.
\<close>

definition attention_at ::
  "string \<Rightarrow> message_attention option \<Rightarrow> int list option \<Rightarrow> window_entry list option \<Rightarrow> string option \<Rightarrow> bool"
where
  "attention_at t a p w c \<longleftrightarrow>
     (case a of
        None \<Rightarrow> p = None \<and> w = None \<and> c = None
      | Some att \<Rightarrow> ma_target att = t \<and> c \<noteq> None \<and>
          (case p of None \<Rightarrow> False | Some ps \<Rightarrow>
             ps \<noteq> [] \<and> distinct ps \<and> length ps \<le> ma_pendingCount att \<and>
             ma_firstPendingSequence att \<in> set ps \<and> (\<forall>s \<in> set ps. s \<le> ma_latestSequence att) \<and>
             (case w of None \<Rightarrow> True | Some es \<Rightarrow>
                es \<noteq> [] \<and> length es \<le> PENDING_WINDOW_LIMIT \<and>
                (\<forall>e \<in> set es. target_of (we_delivery e) = t \<and> d_sequence (we_delivery e) \<in> set ps))))"

definition conv_ok :: "(string, string) js_map \<Rightarrow> (string, string list) js_map \<Rightarrow> bool" where
  "conv_ok ac ct \<longleftrightarrow> wf_map ac \<and> wf_map ct \<and>
     (\<forall>t c. map_get ac t = Some c \<longrightarrow> t \<in> set (get_or ct c [])) \<and>
     (\<forall>c. map_get ct c \<noteq> Some [] \<and> distinct (get_or ct c []))"

definition pend_ok :: "agent_index \<Rightarrow> bool" where
  "pend_ok ix \<longleftrightarrow>
     wf_map (ai_attention ix) \<and> wf_map (ai_pendingSequences ix) \<and> wf_map (ai_pendingWindow ix) \<and>
     conv_ok (ai_attentionConversation ix) (ai_conversationTargets ix) \<and>
     (\<forall>t. attention_at t (map_get (ai_attention ix) t) (map_get (ai_pendingSequences ix) t)
        (map_get (ai_pendingWindow ix) t) (map_get (ai_attentionConversation ix) t))"

lemma pend_okD:
  assumes "pend_ok ix"
  shows "wf_map (ai_attention ix)" "wf_map (ai_pendingSequences ix)" "wf_map (ai_pendingWindow ix)"
    "conv_ok (ai_attentionConversation ix) (ai_conversationTargets ix)"
    "attention_at t (map_get (ai_attention ix) t) (map_get (ai_pendingSequences ix) t)
        (map_get (ai_pendingWindow ix) t) (map_get (ai_attentionConversation ix) t)"
  using assms by (auto simp: pend_ok_def)

lemma pend_ok_clearAgent [simp]: "pend_ok clearAgent"
  by (simp add: pend_ok_def clearAgent_def conv_ok_def attention_at_def)

text \<open>The operations on the cursor leave the pending side alone.\<close>

lemma pend_ok_cong:
  assumes "ai_attention ix' = ai_attention ix" "ai_pendingSequences ix' = ai_pendingSequences ix"
    "ai_pendingWindow ix' = ai_pendingWindow ix" "ai_attentionConversation ix' = ai_attentionConversation ix"
    "ai_conversationTargets ix' = ai_conversationTargets ix"
  shows "pend_ok ix' = pend_ok ix"
  using assms by (simp add: pend_ok_def)

subsection \<open>Conversations\<close>

lemma conv_ok_record:
  assumes "conv_ok ac ct"
  shows "conv_ok (map_set ac t c) (map_set ct c (set_add t (get_or ct c [])))"
  using assms by (auto simp: conv_ok_def)

lemma recordConversation_fields [simp]:
  "ai_attention (recordConversation t c ix) = ai_attention ix"
  "ai_pendingSequences (recordConversation t c ix) = ai_pendingSequences ix"
  "ai_pendingWindow (recordConversation t c ix) = ai_pendingWindow ix"
  "ai_modelSeen (recordConversation t c ix) = ai_modelSeen ix"
  "ai_exactSeen (recordConversation t c ix) = ai_exactSeen ix"
  "map_get (ai_attentionConversation (recordConversation t c ix)) = (map_get (ai_attentionConversation ix))(t \<mapsto> c)"
  by (auto simp: recordConversation_def fun_eq_iff)

lemma conv_ok_recordConversation:
  "conv_ok (ai_attentionConversation ix) (ai_conversationTargets ix) \<Longrightarrow>
   conv_ok (ai_attentionConversation (recordConversation t c ix)) (ai_conversationTargets (recordConversation t c ix))"
  by (simp add: recordConversation_def conv_ok_record)

lemma forgetConversation_fields [simp]:
  "ai_attention (forgetConversation t ix) = ai_attention ix"
  "ai_pendingSequences (forgetConversation t ix) = ai_pendingSequences ix"
  "ai_pendingWindow (forgetConversation t ix) = ai_pendingWindow ix"
  "map_get (ai_attentionConversation (forgetConversation t ix)) = (map_get (ai_attentionConversation ix))(t := None)"
  by (auto simp: forgetConversation_def fun_eq_iff Let_def split: option.splits)



lemma conv_ok_forgetConversation:
  assumes "conv_ok (ai_attentionConversation ix) (ai_conversationTargets ix)"
  shows "conv_ok (ai_attentionConversation (forgetConversation t ix))
    (ai_conversationTargets (forgetConversation t ix))"
proof (cases "map_get (ai_attentionConversation ix) t")
  case None
  with assms show ?thesis by (simp add: forgetConversation_def)
next
  case (Some c)
  let ?ct = "ai_conversationTargets ix" and ?ac = "ai_attentionConversation ix"
  from assms Some have "t \<in> set (get_or ?ct c [])" by (auto simp: conv_ok_def)
  then obtain ts where ts: "map_get ?ct c = Some ts" "get_or ?ct c [] = ts"
    by (cases "map_get ?ct c") (auto simp: get_or_def)
  have mem: "u \<in> set (get_or ?ct d [])" if "map_get ?ac u = Some d" for u d
    using assms that by (simp add: conv_ok_def)
  show ?thesis
  proof (cases "set_del t ts = []")
    case True
    have "d \<noteq> c" if "map_get ?ac u = Some d" "u \<noteq> t" for u d
    proof
      assume "d = c"
      with mem [OF that(1)] ts(2) that(2) have "u \<in> set (set_del t ts)" by simp
      with True show False by simp
    qed
    with assms Some ts(1) True mem show ?thesis
      by (simp add: forgetConversation_def conv_ok_def)
  next
    case False
    have "u \<in> set (set_del t ts)" if "map_get ?ac u = Some c" "u \<noteq> t" for u
      using mem [OF that(1)] ts(2) that(2) by simp
    moreover have "distinct ts" using assms ts(2) by (auto simp: conv_ok_def)
    ultimately show ?thesis using assms Some ts False mem
      by (auto simp: forgetConversation_def conv_ok_def)
  qed
qed

subsection \<open>Clearing\<close>

lemma clear_target_fields [simp]:
  "map_get (ai_attention (clear_target t ix)) = (map_get (ai_attention ix))(t := None)"
  "map_get (ai_pendingSequences (clear_target t ix)) = (map_get (ai_pendingSequences ix))(t := None)"
  "map_get (ai_pendingWindow (clear_target t ix)) = (map_get (ai_pendingWindow ix))(t := None)"
  "map_get (ai_attentionConversation (clear_target t ix)) = (map_get (ai_attentionConversation ix))(t := None)"
  by (simp_all add: clear_target_def Let_def fun_eq_iff)

lemma forgetConversation_cursor [simp]:
  "ai_modelSeen (forgetConversation t ix) = ai_modelSeen ix"
  "ai_exactSeen (forgetConversation t ix) = ai_exactSeen ix"
  "ai_aliases (forgetConversation t ix) = ai_aliases ix"
  "ai_readContext (forgetConversation t ix) = ai_readContext ix"
  "ai_reviewedSequence (forgetConversation t ix) = ai_reviewedSequence ix"
  "ai_readContextCounter (forgetConversation t ix) = ai_readContextCounter ix"
  "ai_hydrated (forgetConversation t ix) = ai_hydrated ix"
  by (simp_all add: forgetConversation_def Let_def split: option.splits)

lemma clear_target_cursor [simp]:
  "ai_modelSeen (clear_target t ix) = ai_modelSeen ix"
  "ai_exactSeen (clear_target t ix) = ai_exactSeen ix"
  "ai_aliases (clear_target t ix) = ai_aliases ix"
  "ai_readContext (clear_target t ix) = ai_readContext ix"
  "ai_reviewedSequence (clear_target t ix) = ai_reviewedSequence ix"
  "ai_readContextCounter (clear_target t ix) = ai_readContextCounter ix"
  "ai_hydrated (clear_target t ix) = ai_hydrated ix"
  by (simp_all add: clear_target_def Let_def)

lemma pend_ok_clear_target [simp, wf_intros]: "pend_ok ix \<Longrightarrow> pend_ok (clear_target t ix)"
  using conv_ok_forgetConversation [of ix t]
  by (auto simp: pend_ok_def clear_target_def Let_def attention_at_def)

subsection \<open>Settling\<close>

definition settled_attention :: "message_attention \<Rightarrow> int list \<Rightarrow> message_attention" where
  "settled_attention att ps =
     (if length ps = ma_pendingCount att then att
      else att\<lparr>ma_pendingCount := length ps, ma_firstPendingSequence := fold min (tl ps) (hd ps)\<rparr>)"

lemma fold_min_mem: "fold min ps (x::int) \<in> insert x (set ps)"
proof (induction ps arbitrary: x)
  case (Cons a ps)
  then show ?case using Cons.IH [of "min a x"] by (auto simp: min_def split: if_splits)
qed simp

lemma fold_min_hd_mem: "ps \<noteq> [] \<Longrightarrow> fold min (tl ps) (hd ps) \<in> set (ps::int list)"
  using fold_min_mem [of "tl ps" "hd ps"] by (cases ps) auto

lemma filter_length_same: "length (filter P xs) = length xs \<Longrightarrow> filter P xs = xs"
  by (metis filter_True length_filter_less less_irrefl)

lemma settle_sequences_fields [simp]:
  "map_get (ai_pendingSequences (settle_sequences t P ix)) u =
     (if u = t then map_option (filter (\<lambda>s. \<not> P s)) (map_get (ai_pendingSequences ix) t)
      else map_get (ai_pendingSequences ix) u)"
  "ai_attention (settle_sequences t P ix) = ai_attention ix"
  "ai_pendingWindow (settle_sequences t P ix) = ai_pendingWindow ix"
  "ai_attentionConversation (settle_sequences t P ix) = ai_attentionConversation ix"
  "ai_conversationTargets (settle_sequences t P ix) = ai_conversationTargets ix"
  by (auto simp: settle_sequences_def split: option.splits)

definition kept_window :: "(int \<Rightarrow> bool) \<Rightarrow> window_entry list option \<Rightarrow> window_entry list option" where
  "kept_window P w =
     (case w of None \<Rightarrow> None
      | Some es \<Rightarrow> (let kept = filter (\<lambda>e. \<not> P (d_sequence (we_delivery e))) es
                   in if kept = [] then None else Some kept))"

lemma settle_window_fields [simp]:
  "map_get (ai_pendingWindow (settle_window t P ix)) u =
     (if u = t then kept_window P (map_get (ai_pendingWindow ix) t) else map_get (ai_pendingWindow ix) u)"
  "ai_attention (settle_window t P ix) = ai_attention ix"
  "ai_pendingSequences (settle_window t P ix) = ai_pendingSequences ix"
  "ai_attentionConversation (settle_window t P ix) = ai_attentionConversation ix"
  "ai_conversationTargets (settle_window t P ix) = ai_conversationTargets ix"
  by (auto simp: settle_window_def kept_window_def Let_def dest: filter_length_same split: option.splits)

lemma settle_attention_other:
  assumes "u \<noteq> t"
  shows "map_get (ai_attention (settle_attention t ix)) u = map_get (ai_attention ix) u"
    "map_get (ai_pendingSequences (settle_attention t ix)) u = map_get (ai_pendingSequences ix) u"
    "map_get (ai_pendingWindow (settle_attention t ix)) u = map_get (ai_pendingWindow ix) u"
    "map_get (ai_attentionConversation (settle_attention t ix)) u = map_get (ai_attentionConversation ix) u"
  using assms by (auto simp: settle_attention_def split: option.splits list.splits)

lemmas settle_defs = settlePending_def settle_attention_def settle_window_def settle_sequences_def

lemma settlePending_cursor [simp]:
  "ai_modelSeen (settlePending t P ix) = ai_modelSeen ix"
  "ai_exactSeen (settlePending t P ix) = ai_exactSeen ix"
  "ai_aliases (settlePending t P ix) = ai_aliases ix"
  "ai_readContext (settlePending t P ix) = ai_readContext ix"
  "ai_reviewedSequence (settlePending t P ix) = ai_reviewedSequence ix"
  "ai_readContextCounter (settlePending t P ix) = ai_readContextCounter ix"
  "ai_hydrated (settlePending t P ix) = ai_hydrated ix"
  by (simp_all add: settle_defs Let_def split: option.split list.split)

lemma settlePending_other:
  assumes "u \<noteq> t"
  shows "map_get (ai_attention (settlePending t P ix)) u = map_get (ai_attention ix) u"
    "map_get (ai_pendingSequences (settlePending t P ix)) u = map_get (ai_pendingSequences ix) u"
    "map_get (ai_pendingWindow (settlePending t P ix)) u = map_get (ai_pendingWindow ix) u"
    "map_get (ai_attentionConversation (settlePending t P ix)) u = map_get (ai_attentionConversation ix) u"
  using assms by (simp_all add: settlePending_def settle_attention_other)

text \<open>What settling leaves of its own target.\<close>

lemma settlePending_empty:
  assumes "map_get (ai_pendingSequences ix) t = Some ps" "map_get (ai_attention ix) t = Some att"
    and "filter (\<lambda>s. \<not> P s) ps = []"
  shows "map_get (ai_attention (settlePending t P ix)) t = None"
    "map_get (ai_pendingSequences (settlePending t P ix)) t = None"
    "map_get (ai_pendingWindow (settlePending t P ix)) t = None"
    "map_get (ai_attentionConversation (settlePending t P ix)) t = None"
  using assms by (simp_all add: settlePending_def settle_attention_def get_or_def)

lemma settlePending_left:
  assumes "map_get (ai_pendingSequences ix) t = Some ps" "map_get (ai_attention ix) t = Some att"
    and "filter (\<lambda>s. \<not> P s) ps \<noteq> []"
  shows "map_get (ai_attention (settlePending t P ix)) t = Some (settled_attention att (filter (\<lambda>s. \<not> P s) ps))"
    "map_get (ai_pendingSequences (settlePending t P ix)) t = Some (filter (\<lambda>s. \<not> P s) ps)"
    "map_get (ai_pendingWindow (settlePending t P ix)) t = kept_window P (map_get (ai_pendingWindow ix) t)"
    "map_get (ai_attentionConversation (settlePending t P ix)) t = map_get (ai_attentionConversation ix) t"
proof -
  from assms(3) obtain q qs where "filter (\<lambda>s. \<not> P s) ps = q # qs" by (cases "filter (\<lambda>s. \<not> P s) ps") auto
  with assms(1,2) show "map_get (ai_attention (settlePending t P ix)) t =
      Some (settled_attention att (filter (\<lambda>s. \<not> P s) ps))"
    "map_get (ai_pendingSequences (settlePending t P ix)) t = Some (filter (\<lambda>s. \<not> P s) ps)"
    "map_get (ai_pendingWindow (settlePending t P ix)) t = kept_window P (map_get (ai_pendingWindow ix) t)"
    "map_get (ai_attentionConversation (settlePending t P ix)) t = map_get (ai_attentionConversation ix) t"
    by (simp_all add: settlePending_def settle_attention_def get_or_def settled_attention_def)
qed

lemma settlePending_none:
  assumes "pend_ok ix" "map_get (ai_attention ix) t = None"
  shows "settlePending t P ix = ix"
proof -
  from pend_okD(5) [OF assms(1), of t] assms(2)
  have "map_get (ai_pendingSequences ix) t = None" "map_get (ai_pendingWindow ix) t = None"
    by (auto simp: attention_at_def)
  with assms(2) show ?thesis by (simp add: settle_defs)
qed

lemma attention_at_settled:
  assumes "attention_at t (Some att) (Some ps) w c" "ps' = filter (\<lambda>s. \<not> P s) ps" "ps' \<noteq> []"
    and "w' = kept_window P w"
  shows "attention_at t (Some (settled_attention att ps')) (Some ps') w' c"
proof -
  have len: "length ps' \<le> length ps" and sub: "set ps' \<subseteq> set ps" and dist: "distinct ps'"
    using assms(1,2) by (auto simp: attention_at_def)
  have "ma_firstPendingSequence (settled_attention att ps') \<in> set ps'"
  proof (cases "length ps' = ma_pendingCount att")
    case True
    with len assms(1) have "length ps' = length ps" by (auto simp: attention_at_def)
    with assms(2) have "ps' = ps" by (simp add: filter_length_same)
    with assms(1) True show ?thesis by (auto simp: attention_at_def settled_attention_def)
  next
    case False
    with fold_min_hd_mem [OF assms(3)] show ?thesis by (simp add: settled_attention_def)
  qed
  moreover have "length ps' \<le> ma_pendingCount (settled_attention att ps')"
    "ma_target (settled_attention att ps') = t"
    "\<forall>s \<in> set ps'. s \<le> ma_latestSequence (settled_attention att ps')"
    using assms(1) sub by (auto simp: settled_attention_def attention_at_def)
  moreover have "case w' of None \<Rightarrow> True | Some es \<Rightarrow> es \<noteq> [] \<and> length es \<le> PENDING_WINDOW_LIMIT \<and>
      (\<forall>e \<in> set es. target_of (we_delivery e) = t \<and> d_sequence (we_delivery e) \<in> set ps')"
    using assms(1,2,4)
    by (auto simp: attention_at_def kept_window_def Let_def intro: le_trans [OF length_filter_le] split: option.splits if_splits)
  ultimately show ?thesis using assms(1,3) dist by (auto simp: attention_at_def split: option.splits)
qed

lemma settlePending_wf:
  assumes "pend_ok ix"
  shows "wf_map (ai_attention (settlePending t P ix))" "wf_map (ai_pendingSequences (settlePending t P ix))"
    "wf_map (ai_pendingWindow (settlePending t P ix))"
    "conv_ok (ai_attentionConversation (settlePending t P ix)) (ai_conversationTargets (settlePending t P ix))"
  using pend_okD(1-4) [OF assms] conv_ok_forgetConversation
  by (simp_all add: settle_defs clear_target_def Let_def split: option.split list.split)

lemma pend_ok_settlePending [simp, wf_intros]:
  assumes "pend_ok ix"
  shows "pend_ok (settlePending t P ix)"
proof (cases "map_get (ai_attention ix) t")
  case None
  with assms show ?thesis by (simp add: settlePending_none)
next
  case (Some att)
  from pend_okD(5) [OF assms, of t] Some
  obtain ps where ps: "map_get (ai_pendingSequences ix) t = Some ps"
    by (auto simp: attention_at_def split: option.splits)
  let ?ix = "settlePending t P ix" and ?ps = "filter (\<lambda>s. \<not> P s) ps"
  have "attention_at u (map_get (ai_attention ?ix) u) (map_get (ai_pendingSequences ?ix) u)
      (map_get (ai_pendingWindow ?ix) u) (map_get (ai_attentionConversation ?ix) u)" for u
  proof (cases "u = t")
    case False
    with pend_okD(5) [OF assms, of u] show ?thesis by (simp add: settlePending_other)
  next
    case True
    show ?thesis
    proof (cases "?ps = []")
      case empty: True
      with settlePending_empty [OF ps Some, of P] True show ?thesis
        by (simp add: attention_at_def)
    next
      case False
      with settlePending_left [OF ps Some, of P] True pend_okD(5) [OF assms, of t] Some ps
      show ?thesis by (auto intro: attention_at_settled [of t att ps])
    qed
  qed
  with settlePending_wf [OF assms] show ?thesis by (simp add: pend_ok_def)
qed

subsection \<open>Recording a delivery\<close>

lemma recordPendingWindow_fields [simp]:
  "ai_attention (recordPendingWindow t m r ix) = ai_attention ix"
  "ai_pendingSequences (recordPendingWindow t m r ix) = ai_pendingSequences ix"
  "ai_attentionConversation (recordPendingWindow t m r ix) = ai_attentionConversation ix"
  "ai_conversationTargets (recordPendingWindow t m r ix) = ai_conversationTargets ix"
  "ai_pendingWindow (recordPendingWindow t m r ix) = map_set (ai_pendingWindow ix) t
     (keep_newest PENDING_WINDOW_LIMIT
       (get_or (ai_pendingWindow ix) t [] @ [\<lparr>we_delivery = m, we_receivedAt = r\<rparr>]))"
  by (simp_all add: recordPendingWindow_def Let_def keep_newest_all)

lemma recordAttention_fields:
  "map_get (ai_attention (recordAttention m r ix)) =
     (map_get (ai_attention ix))(target_of m \<mapsto> next_attention (map_get (ai_attention ix) (target_of m)) m)"
  "map_get (ai_pendingSequences (recordAttention m r ix)) =
     (map_get (ai_pendingSequences ix))
       (target_of m \<mapsto> set_add (d_sequence m) (get_or (ai_pendingSequences ix) (target_of m) []))"
  "map_get (ai_pendingWindow (recordAttention m r ix)) =
     (map_get (ai_pendingWindow ix))(target_of m \<mapsto> keep_newest PENDING_WINDOW_LIMIT
       (get_or (ai_pendingWindow ix) (target_of m) [] @ [\<lparr>we_delivery = m, we_receivedAt = r\<rparr>]))"
  "map_get (ai_attentionConversation (recordAttention m r ix)) =
     (map_get (ai_attentionConversation ix))(target_of m \<mapsto> d_conversationId m)"
  by (simp_all add: recordAttention_def Let_def fun_eq_iff)

lemma recordAttention_cursor [simp]:
  "ai_modelSeen (recordAttention m r ix) = ai_modelSeen ix"
  "ai_exactSeen (recordAttention m r ix) = ai_exactSeen ix"
  "ai_aliases (recordAttention m r ix) = ai_aliases ix"
  "ai_readContext (recordAttention m r ix) = ai_readContext ix"
  "ai_reviewedSequence (recordAttention m r ix) = ai_reviewedSequence ix"
  "ai_readContextCounter (recordAttention m r ix) = ai_readContextCounter ix"
  "ai_hydrated (recordAttention m r ix) = ai_hydrated ix"
  by (simp_all add: recordAttention_def recordPendingWindow_def recordConversation_def Let_def)

lemma recordAttention_wf:
  assumes "pend_ok ix"
  shows "wf_map (ai_attention (recordAttention m r ix))"
    "wf_map (ai_pendingSequences (recordAttention m r ix))"
    "wf_map (ai_pendingWindow (recordAttention m r ix))"
    "conv_ok (ai_attentionConversation (recordAttention m r ix)) (ai_conversationTargets (recordAttention m r ix))"
proof -
  show "wf_map (ai_attention (recordAttention m r ix))"
    "wf_map (ai_pendingSequences (recordAttention m r ix))"
    "wf_map (ai_pendingWindow (recordAttention m r ix))"
    using pend_okD(1-3) [OF assms] by (simp_all add: recordAttention_def Let_def)
  show "conv_ok (ai_attentionConversation (recordAttention m r ix)) (ai_conversationTargets (recordAttention m r ix))"
    using pend_okD(4) [OF assms] unfolding recordAttention_def Let_def
    by (simp add: conv_ok_recordConversation)
qed

lemma PENDING_WINDOW_LIMIT_pos: "0 < PENDING_WINDOW_LIMIT"
  by (simp add: PENDING_WINDOW_LIMIT_def HELD_CONTEXT_LIMIT_def)

lemma attention_at_record:
  assumes "attention_at t a p w c" "target_of m = t"
  shows "attention_at t (Some (next_attention a m))
    (Some (set_add (d_sequence m) (case p of None \<Rightarrow> [] | Some ps \<Rightarrow> ps)))
    (Some (keep_newest PENDING_WINDOW_LIMIT ((case w of None \<Rightarrow> [] | Some es \<Rightarrow> es) @ [\<lparr>we_delivery = m, we_receivedAt = r\<rparr>])))
    (Some conv)"
proof -
  let ?es = "(case w of None \<Rightarrow> [] | Some es \<Rightarrow> es) @ [\<lparr>we_delivery = m, we_receivedAt = r\<rparr>]"
  have "keep_newest PENDING_WINDOW_LIMIT ?es \<noteq> []"
    using keep_newest_snoc_mem [OF PENDING_WINDOW_LIMIT_pos] by (metis empty_iff empty_set)
  moreover have "\<forall>e \<in> set ?es. target_of (we_delivery e) = t \<and>
      d_sequence (we_delivery e) \<in> insert (d_sequence m) (set (case p of None \<Rightarrow> [] | Some ps \<Rightarrow> ps))"
    using assms by (auto simp: attention_at_def split: option.splits)
  then have "\<forall>e \<in> set (keep_newest PENDING_WINDOW_LIMIT ?es). target_of (we_delivery e) = t \<and>
      d_sequence (we_delivery e) \<in> insert (d_sequence m) (set (case p of None \<Rightarrow> [] | Some ps \<Rightarrow> ps))"
    using set_keep_newest [of PENDING_WINDOW_LIMIT ?es] by blast
  moreover have "distinct (set_add (d_sequence m) (case p of None \<Rightarrow> [] | Some ps \<Rightarrow> ps))"
    "length (set_add (d_sequence m) (case p of None \<Rightarrow> [] | Some ps \<Rightarrow> ps)) \<le> ma_pendingCount (next_attention a m)"
    "ma_firstPendingSequence (next_attention a m) \<in> insert (d_sequence m) (set (case p of None \<Rightarrow> [] | Some ps \<Rightarrow> ps))"
    "\<forall>s \<in> insert (d_sequence m) (set (case p of None \<Rightarrow> [] | Some ps \<Rightarrow> ps)). s \<le> ma_latestSequence (next_attention a m)"
    using assms length_set_add_le [of "d_sequence m" "case p of None \<Rightarrow> [] | Some ps \<Rightarrow> ps"]
    by (auto simp: attention_at_def next_attention_def set_add_def split: option.splits)
  ultimately show ?thesis using assms(2)
    by (simp add: attention_at_def next_attention_def)
qed

lemma pend_ok_recordAttention [simp, wf_intros]:
  assumes "pend_ok ix"
  shows "pend_ok (recordAttention m r ix)"
proof -
  have "attention_at u (map_get (ai_attention (recordAttention m r ix)) u)
      (map_get (ai_pendingSequences (recordAttention m r ix)) u)
      (map_get (ai_pendingWindow (recordAttention m r ix)) u)
      (map_get (ai_attentionConversation (recordAttention m r ix)) u)" for u
    using pend_okD(5) [OF assms, of u] attention_at_record [OF _ refl, of m _ _ _ _ r "d_conversationId m"]
    by (cases "u = target_of m") (auto simp: recordAttention_fields get_or_def)
  with recordAttention_wf [OF assms] show ?thesis by (simp add: pend_ok_def)
qed

subsection \<open>Every other operation\<close>

lemma pend_ok_fold:
  assumes "\<And>x ix. pend_ok ix \<Longrightarrow> pend_ok (f x ix)" "pend_ok ix"
  shows "pend_ok (fold f xs ix)"
  using assms(2) by (induction xs arbitrary: ix) (auto intro: assms(1))

lemma pend_ok_clearTargets [simp, wf_intros]: "pend_ok ix \<Longrightarrow> pend_ok (clearTargets cs ix)"
  unfolding clearTargets_def by (rule pend_ok_fold) auto

lemma pend_ok_clearThrough [simp, wf_intros]: "pend_ok ix \<Longrightarrow> pend_ok (clearThrough t s ix)"
  by (simp add: clearThrough_def split: option.split)

lemma pend_ok_settleSeen [simp, wf_intros]: "pend_ok ix \<Longrightarrow> pend_ok (settleSeen t ix)"
  by (simp add: settleSeen_def)

lemma pend_ok_settleScope [simp, wf_intros]: "pend_ok ix \<Longrightarrow> pend_ok (settleScope sc shown t ix)"
  unfolding settleScope_def by (auto split: option.split intro!: pend_ok_fold)

lemma pend_ok_setAlias [simp, wf_intros]: "pend_ok ix \<Longrightarrow> pend_ok (snd (setAlias s c ix))"
  by (subst pend_ok_cong [of _ ix]) (simp_all add: setAlias_def Let_def)

lemma pend_ok_takeReadOrder [simp, wf_intros]: "pend_ok ix \<Longrightarrow> pend_ok (takeReadOrder t s ix)"
  by (subst pend_ok_cong [of _ ix]) (simp_all add: takeReadOrder_def Let_def)

lemma pend_ok_addExact [simp, wf_intros]: "pend_ok ix \<Longrightarrow> pend_ok (snd (addExact t xs ix))"
  by (subst pend_ok_cong [of _ ix]) (simp_all add: addExact_def Let_def)

lemma pend_ok_advanceFrontier [simp, wf_intros]:
  assumes "pend_ok ix"
  shows "pend_ok (snd (advanceFrontier t s ix))"
proof -
  have "pend_ok (ix\<lparr>ai_modelSeen := ms, ai_exactSeen := es\<rparr>)"
    and "pend_ok (ix\<lparr>ai_modelSeen := ms\<rparr>)" for ms es
    using assms by (simp_all add: pend_ok_def)
  then show ?thesis using assms by (simp add: advanceFrontier_def Let_def)
qed

lemma pend_ok_load_cursor [simp, wf_intros]: "pend_ok ix \<Longrightarrow> pend_ok (load_cursor st ix)"
  by (subst pend_ok_cong [of _ ix]) (simp_all add: load_cursor_def)

lemma pend_ok_exact_seen_step:
  "pend_ok (snd p) \<Longrightarrow> pend_ok (snd (exact_seen_step x p))"
  using pend_ok_addExact [of "snd p" "fst x" "snd x"]
  by (simp add: exact_seen_step_def case_prod_unfold Let_def)

lemma pend_ok_exact_seen [simp, wf_intros]:
  "pend_ok (snd p) \<Longrightarrow> pend_ok (snd (fold exact_seen_step xs p))"
  by (induction xs arbitrary: p) (simp_all add: pend_ok_exact_seen_step)

lemma pend_ok_history_read [simp, wf_intros]:
  assumes "pend_ok ix"
  shows "pend_ok (snd (history_read_update r ix))"
proof -
  obtain c1 ix1 where 1: "setAlias (hr_spelling r) (hr_target r) ix = (c1, ix1)" by fastforce
  obtain c2 ix2 where 2: "(if hr_through r > 0 then advanceFrontier (hr_target r) (hr_through r) ix1
      else (False, ix1)) = (c2, ix2)" by fastforce
  obtain c3 ix3 where 3: "addExact (hr_target r) (hr_shown r) ix2 = (c3, ix3)" by fastforce
  from assms 1 have "pend_ok ix1" by (metis pend_ok_setAlias snd_conv)
  with 2 have "pend_ok ix2" by (metis pend_ok_advanceFrontier snd_conv)
  with 3 have "pend_ok ix3" by (metis pend_ok_addExact snd_conv)
  then show ?thesis using 1 2 3 by (simp add: history_read_update_def Let_def split: option.split)
qed

lemma pend_ok_send_context [simp, wf_intros]:
  assumes "pend_ok ix"
  shows "pend_ok (snd (send_context_update t through review ix))"
proof -
  obtain c ix1 where "advanceFrontier t through ix = (c, ix1)" by fastforce
  moreover with assms have "pend_ok ix1" by (metis pend_ok_advanceFrontier snd_conv)
  ultimately show ?thesis by (simp add: send_context_update_def split: option.split)
qed

subsection \<open>What is pending\<close>

definition pending_of :: "agent_index \<Rightarrow> string \<Rightarrow> int set" where
  "pending_of ix t = set (get_or (ai_pendingSequences ix) t [])"

lemma pending_of_settlePending:
  assumes "pend_ok ix"
  shows "pending_of (settlePending t P ix) u =
    (if u = t then {s \<in> pending_of ix t. \<not> P s} else pending_of ix u)"
proof (cases "u = t")
  case False
  then show ?thesis by (simp add: pending_of_def get_or_def settlePending_other)
next
  case True
  show ?thesis
  proof (cases "map_get (ai_attention ix) t")
    case None
    with assms pend_okD(5) [OF assms, of t] have "map_get (ai_pendingSequences ix) t = None"
      by (simp add: attention_at_def)
    with None assms True show ?thesis by (simp add: settlePending_none pending_of_def get_or_def)
  next
    case (Some att)
    with pend_okD(5) [OF assms, of t] obtain ps where ps: "map_get (ai_pendingSequences ix) t = Some ps"
      by (auto simp: attention_at_def split: option.splits)
    show ?thesis
    proof (cases "filter (\<lambda>s. \<not> P s) ps = []")
      case empty: True
      then have "\<forall>s \<in> set ps. P s" by (simp add: filter_empty_conv)
      with settlePending_empty(2) [OF ps Some empty] ps True show ?thesis
        by (simp add: pending_of_def get_or_def)
    next
      case False
      from settlePending_left(2) [OF ps Some False] ps True show ?thesis
        by (simp add: pending_of_def get_or_def)
    qed
  qed
qed

lemma pending_of_clear_target: "pending_of (clear_target t ix) u = (if u = t then {} else pending_of ix u)"
  by (simp add: pending_of_def get_or_def)

lemma pending_of_recordAttention:
  "pending_of (recordAttention m r ix) u =
     (if u = target_of m then insert (d_sequence m) (pending_of ix u) else pending_of ix u)"
  by (auto simp: pending_of_def get_or_def recordAttention_fields)

lemma pendingMessageCount_zero_iff:
  assumes "pend_ok ix"
  shows "pendingMessageCount ix t = 0 \<longleftrightarrow> pending_of ix t = {}"
  using pend_okD(5) [OF assms, of t]
  by (auto simp: pendingMessageCount_def pending_of_def attention_at_def get_or_def neq_Nil_conv
      split: option.splits)

lemma pendingMessageCount_ge:
  assumes "pend_ok ix"
  shows "card (pending_of ix t) \<le> pendingMessageCount ix t"
  using pend_okD(5) [OF assms, of t]
  by (auto simp: pendingMessageCount_def pending_of_def attention_at_def get_or_def distinct_card
      split: option.splits)

lemma fold_max_ge: "(\<forall>s \<in> set ps. s \<le> fold max ps (x::int)) \<and> x \<le> fold max ps x"
proof (induction ps arbitrary: x)
  case (Cons a ps)
  from Cons.IH [of "max a x"] show ?case by simp
qed simp

lemma fold_max_in: "fold max ps (x::int) \<in> insert x (set ps)"
proof (induction ps arbitrary: x)
  case (Cons a ps)
  then show ?case using Cons.IH [of "max a x"] by (auto simp: max_def split: if_splits)
qed simp

lemma pendingMaxSequence_ge: "s \<in> pending_of ix t \<Longrightarrow> s \<le> pendingMaxSequence ix t"
  using fold_max_ge by (auto simp: pending_of_def pendingMaxSequence_def)

lemma pending_of_other_fields [simp]:
  "pending_of (snd (setAlias sp c ix)) t = pending_of ix t"
  "pending_of (takeReadOrder t' s ix) t = pending_of ix t"
  "pending_of (snd (addExact t' xs ix)) t = pending_of ix t"
  "pending_of (load_cursor st ix) t = pending_of ix t"
  by (simp_all add: pending_of_def setAlias_def takeReadOrder_def addExact_def load_cursor_def Let_def)

lemma pending_of_advanceFrontier:
  assumes "pend_ok ix"
  shows "pending_of (snd (advanceFrontier t n ix)) u =
    (if u = t \<and> frontier ix t < n then {s \<in> pending_of ix t. n < s} else pending_of ix u)"
proof -
  have ok: "pend_ok (ix\<lparr>ai_modelSeen := ms, ai_exactSeen := es\<rparr>)" "pend_ok (ix\<lparr>ai_modelSeen := ms\<rparr>)"
    and p: "pending_of (ix\<lparr>ai_modelSeen := ms, ai_exactSeen := es\<rparr>) v = pending_of ix v"
      "pending_of (ix\<lparr>ai_modelSeen := ms\<rparr>) v = pending_of ix v" for ms es v
    using assms by (simp_all add: pend_ok_def pending_of_def)
  show ?thesis
    by (auto simp: advanceFrontier_def Let_def pending_of_settlePending [OF ok(1)]
        pending_of_settlePending [OF ok(2)] p split: if_splits)
qed

end
