(* ===== verification/AttentionCursor.thy ===== *)
theory AttentionCursor
  imports AttentionPending
begin

text \<open>
  The consumed side of the attention index: the frontier, the exact sequences above it, the aliases
  and the review order of one Agent are well formed after every operation, what the Agent was shown
  is never shown as new again, and the durable copy is the cursor itself.
\<close>

subsection \<open>The invariant\<close>

definition seen_maps_ok :: "(string, int) js_map \<Rightarrow> (string, int list) js_map \<Rightarrow> bool" where
  "seen_maps_ok ms es \<longleftrightarrow> wf_map ms \<and> wf_map es \<and>
     (\<forall>t s. map_get ms t = Some s \<longrightarrow> t \<noteq> '''' \<and> 0 < s) \<and>
     (\<forall>t xs. map_get es t = Some xs \<longrightarrow> t \<noteq> '''' \<and> xs \<noteq> [] \<and> exact_ok (get_or ms t 0) xs)"

definition order_maps_ok :: "(string, int) js_map \<Rightarrow> (string, int) js_map \<Rightarrow> int \<Rightarrow> bool" where
  "order_maps_ok rc rv n \<longleftrightarrow> wf_map rc \<and> wf_map rv \<and> 0 \<le> n \<and>
     (\<forall>t k. map_get rc t = Some k \<longrightarrow> t \<noteq> '''' \<and> 0 < k \<and> k \<le> n) \<and>
     (\<forall>t r. map_get rv t = Some r \<longrightarrow> 0 < r \<and> map_get rc t \<noteq> None)"

definition cur_ok :: "agent_index \<Rightarrow> bool" where
  "cur_ok ix \<longleftrightarrow> seen_maps_ok (ai_modelSeen ix) (ai_exactSeen ix) \<and>
     order_maps_ok (ai_readContext ix) (ai_reviewedSequence ix) (ai_readContextCounter ix) \<and>
     flat_aliases (ai_aliases ix)"

lemma cur_ok_cong:
  assumes "ai_modelSeen ix' = ai_modelSeen ix" "ai_exactSeen ix' = ai_exactSeen ix"
    "ai_readContext ix' = ai_readContext ix" "ai_reviewedSequence ix' = ai_reviewedSequence ix"
    "ai_readContextCounter ix' = ai_readContextCounter ix" "ai_aliases ix' = ai_aliases ix"
  shows "cur_ok ix' = cur_ok ix"
  using assms by (simp add: cur_ok_def)

lemma cur_ok_clearAgent [simp]: "cur_ok clearAgent"
  by (simp add: cur_ok_def clearAgent_def seen_maps_ok_def order_maps_ok_def flat_aliases_def)

lemma cur_okD:
  assumes "cur_ok ix"
  shows "seen_maps_ok (ai_modelSeen ix) (ai_exactSeen ix)"
    "order_maps_ok (ai_readContext ix) (ai_reviewedSequence ix) (ai_readContextCounter ix)"
    "flat_aliases (ai_aliases ix)"
  using assms by (simp_all add: cur_ok_def)

lemma exact_ok_of:
  assumes "cur_ok ix"
  shows "exact_ok (frontier ix t) (get_or (ai_exactSeen ix) t [])"
  using assms by (auto simp: cur_ok_def seen_maps_ok_def frontier_def get_or_def split: option.splits)

lemma frontier_nonneg: "cur_ok ix \<Longrightarrow> 0 \<le> frontier ix t"
  by (force simp: cur_ok_def seen_maps_ok_def frontier_def get_or_def split: option.splits)

text \<open>What the Agent has been shown of a target, as a set above the frontier.\<close>

lemma seen_by_iff:
  assumes "cur_ok ix"
  shows "seen_by ix t s \<longleftrightarrow> s \<le> frontier ix t \<or> s \<in> set (get_or (ai_exactSeen ix) t [])"
  using exact_okD(2) [OF exact_ok_of [OF assms, of t]]
  by (auto simp: seen_by_def get_or_def containsSorted_iff split: option.splits)

subsection \<open>Operations keep it\<close>

lemma cur_ok_settlePending [simp, wf_intros]: "cur_ok ix \<Longrightarrow> cur_ok (settlePending t P ix)"
  by (subst cur_ok_cong [of _ ix]) simp_all

lemma cur_ok_clear_target [simp, wf_intros]: "cur_ok ix \<Longrightarrow> cur_ok (clear_target t ix)"
  by (subst cur_ok_cong [of _ ix]) simp_all

lemma cur_ok_recordAttention [simp, wf_intros]: "cur_ok ix \<Longrightarrow> cur_ok (recordAttention m r ix)"
  by (subst cur_ok_cong [of _ ix]) simp_all

lemma cur_ok_fold:
  assumes "\<And>x ix. cur_ok ix \<Longrightarrow> cur_ok (f x ix)" "cur_ok ix"
  shows "cur_ok (fold f xs ix)"
  using assms(2) by (induction xs arbitrary: ix) (auto intro: assms(1))

lemma cur_ok_clearTargets [simp, wf_intros]: "cur_ok ix \<Longrightarrow> cur_ok (clearTargets cs ix)"
  unfolding clearTargets_def by (rule cur_ok_fold) auto

lemma cur_ok_settleSeen [simp, wf_intros]: "cur_ok ix \<Longrightarrow> cur_ok (settleSeen t ix)"
  by (simp add: settleSeen_def)

lemma cur_ok_settleScope [simp, wf_intros]: "cur_ok ix \<Longrightarrow> cur_ok (settleScope sc shown t ix)"
  unfolding settleScope_def by (auto split: option.split intro!: cur_ok_fold)

lemma cur_ok_takeReadOrder [wf_intros]:
  assumes "cur_ok ix" "t \<noteq> ''''"
  shows "cur_ok (takeReadOrder t s ix)"
proof -
  have "order_maps_ok (map_set rc t (n + 1)) (if s > 0 then map_set rv t (max (get_or rv t 0) s) else rv) (n + 1)"
    if "order_maps_ok rc rv n" for rc rv n
    using that assms(2) by (auto simp: order_maps_ok_def) force+
  with assms(1) show ?thesis by (simp add: cur_ok_def takeReadOrder_def Let_def split del: if_split)
qed

lemma cur_ok_addExact [wf_intros]:
  assumes "cur_ok ix" "t \<noteq> ''''"
  shows "cur_ok (snd (addExact t xs ix))"
proof -
  let ?f = "frontier ix t" and ?old = "get_or (ai_exactSeen ix) t []"
  let ?inc = "if isAscending xs then xs else sort xs"
  let ?new = "mergeSeenExactSeqs ?f ?old ?inc"
  have inc: "sorted ?inc" by (simp add: isAscending_sorted)
  note old = exact_ok_of [OF assms(1), of t]
  have ok: "exact_ok ?f ?new"
    using old inc by (intro mergeSeenExactSeqs_ok) (auto dest: exact_okD(2))
  have "?new = ?old" if "?new = []"
  proof -
    from that mergeSeenExactSeqs_Nil_iff [OF exact_okD(2) [OF old] inc]
    have "\<forall>x \<in> set ?old. x \<le> ?f" by simp
    with exact_okD(3) [OF old] have "?old = []" by (metis linorder_not_less list.set_intros(1) neq_Nil_conv)
    with that show ?thesis by simp
  qed
  then have "seen_maps_ok (ai_modelSeen ix) (map_set (ai_exactSeen ix) t ?new)" if "?new \<noteq> ?old"
    using that cur_okD(1) [OF assms(1)] assms(2) ok by (auto simp: seen_maps_ok_def frontier_def)
  with assms(1) show ?thesis by (simp add: addExact_def Let_def cur_ok_def)
qed

lemma cur_ok_advanceFrontier [wf_intros]:
  assumes "cur_ok ix" "t \<noteq> ''''"
  shows "cur_ok (snd (advanceFrontier t n ix))"
proof (cases "n \<le> frontier ix t")
  case True
  with assms show ?thesis by (simp add: advanceFrontier_def)
next
  case False
  let ?ms = "map_set (ai_modelSeen ix) t n" and ?es = "ai_exactSeen ix"
  let ?old = "get_or ?es t []"
  let ?kept = "drop (firstAbove ?old n) ?old"
  note old = exact_ok_of [OF assms(1), of t]
  have kept: "?kept = filter (\<lambda>x. n < x) ?old"
    by (rule drop_firstAbove [OF exact_okD(2) [OF old]])
  have n: "0 < n" using frontier_nonneg [OF assms(1), of t] False by linarith
  note ok = cur_okD(1) [OF assms(1)]
  have "seen_maps_ok ?ms ?es" if "?old = [] \<or> length ?old - firstAbove ?old n = length ?old"
  proof -
    from that have "?kept = ?old" by (auto intro: drop_same_length)
    then have "filter (\<lambda>x. n < x) ?old = ?old" by (simp add: kept)
    with exact_ok_raise [OF old, of n] have "exact_ok n ?old" by simp
    then show ?thesis using ok assms(2) n by (auto simp: seen_maps_ok_def get_or_def split: option.splits)
  qed
  moreover have "seen_maps_ok ?ms (map_delete ?es t)"
    using ok assms(2) n by (auto simp: seen_maps_ok_def)
  moreover have "seen_maps_ok ?ms (map_set ?es t ?kept)" if "?kept \<noteq> []"
    using ok assms(2) n that exact_ok_raise [OF old, of n] by (auto simp: seen_maps_ok_def kept)
  ultimately show ?thesis using False cur_okD(2,3) [OF assms(1)]
    by (simp add: advanceFrontier_def Let_def cur_ok_def)
qed

lemma map_get_repoint:
  "map_get (map (\<lambda>(other, named). (other, if named = s then t else named)) m) k =
     map_option (\<lambda>named. if named = s then t else named) (map_get m k)"
  using map_get_map_snd [of "\<lambda>_ named. if named = s then t else named" m k] by simp

lemma wf_map_repoint: "wf_map (map (\<lambda>(other, named). (other, f named)) m) = wf_map m"
  by (simp add: wf_map_def comp_def case_prod_unfold)

text \<open>Both branches of \<open>setAlias\<close> record \<open>spelling\<close> under a target that is no spelling.\<close>

lemma flat_aliases_repoint:
  assumes "flat_aliases m" "map_get m t = None" "s \<noteq> t" "s \<noteq> ''''" "t \<noteq> ''''"
  shows "flat_aliases (map (\<lambda>(other, named). (other, if named = s then t else named)) (map_set m s t))"
proof -
  let ?m = "map (\<lambda>(other, named). (other, if named = s then t else named)) (map_set m s t)"
  have "map_get ?m c = None \<and> k \<noteq> '''' \<and> c \<noteq> ''''" if "map_get ?m k = Some c" for k c
  proof -
    from that obtain d where d: "map_get (map_set m s t) k = Some d" "c = (if d = s then t else d)"
      by (auto simp: map_get_repoint)
    show ?thesis
    proof (cases "k = s")
      case True
      with d assms show ?thesis by (auto simp: map_get_repoint)
    next
      case False
      with d have k: "map_get m k = Some d" by simp
      with assms(1) have "map_get m d = None" "k \<noteq> ''''" "d \<noteq> ''''" by (auto simp: flat_aliases_def)
      with d(2) assms show ?thesis by (auto simp: map_get_repoint)
    qed
  qed
  moreover have "wf_map ?m" using assms(1) by (simp add: wf_map_repoint flat_aliases_def)
  ultimately show ?thesis by (simp add: flat_aliases_def)
qed

lemma flat_aliases_delete: "flat_aliases m \<Longrightarrow> flat_aliases (map_delete m k)"
  by (auto simp: flat_aliases_def)

lemma setAlias_flat:
  assumes "flat_aliases (ai_aliases ix)"
  shows "flat_aliases (ai_aliases (snd (setAlias s c ix)))"
proof -
  let ?m = "ai_aliases ix"
  have "map_get ?m (get_or ?m c c) = None" if "get_or ?m c c \<noteq> s"
    using assms by (auto simp: flat_aliases_def get_or_def split: option.split)
  moreover have "get_or ?m c c \<noteq> ''''" if "c \<noteq> ''''"
    using assms that by (auto simp: flat_aliases_def get_or_def split: option.split)
  ultimately show ?thesis using assms
    by (auto simp: setAlias_def Let_def flat_aliases_delete intro!: flat_aliases_repoint)
qed

lemma setAlias_fields [simp]:
  "ai_modelSeen (snd (setAlias s c ix)) = ai_modelSeen ix"
  "ai_exactSeen (snd (setAlias s c ix)) = ai_exactSeen ix"
  "ai_readContext (snd (setAlias s c ix)) = ai_readContext ix"
  "ai_reviewedSequence (snd (setAlias s c ix)) = ai_reviewedSequence ix"
  "ai_readContextCounter (snd (setAlias s c ix)) = ai_readContextCounter ix"
  by (simp_all add: setAlias_def Let_def)

lemma cur_ok_setAlias [simp, wf_intros]:
  assumes "cur_ok ix"
  shows "cur_ok (snd (setAlias s c ix))"
  using setAlias_flat [OF cur_okD(3) [OF assms], of s c] cur_okD(1,2) [OF assms]
  by (simp add: cur_ok_def)

lemma cur_ok_exact_seen [simp, wf_intros]:
  assumes "cur_ok (snd p)"
  shows "cur_ok (snd (fold exact_seen_step xs p))"
  using assms
proof (induction xs arbitrary: p)
  case (Cons x xs)
  have "cur_ok (snd (exact_seen_step x p))"
    using cur_ok_addExact [OF Cons.prems, of "fst x" "snd x"] Cons.prems
    by (simp add: exact_seen_step_def case_prod_unfold Let_def)
  then show ?case using Cons.IH by simp
qed simp

lemma cur_ok_history_read [wf_intros]:
  assumes "cur_ok ix" "hr_target r \<noteq> ''''"
  shows "cur_ok (snd (history_read_update r ix))"
proof -
  obtain c1 ix1 where 1: "setAlias (hr_spelling r) (hr_target r) ix = (c1, ix1)" by fastforce
  obtain c2 ix2 where 2: "(if hr_through r > 0 then advanceFrontier (hr_target r) (hr_through r) ix1
      else (False, ix1)) = (c2, ix2)" by fastforce
  obtain c3 ix3 where 3: "addExact (hr_target r) (hr_shown r) ix2 = (c3, ix3)" by fastforce
  from assms 1 have "cur_ok ix1" by (metis cur_ok_setAlias snd_conv)
  with 2 assms(2) have "cur_ok ix2" by (metis cur_ok_advanceFrontier snd_conv)
  with 3 assms(2) have "cur_ok ix3" by (metis cur_ok_addExact snd_conv)
  then show ?thesis using 1 2 3 assms(2) cur_ok_takeReadOrder
    by (simp add: history_read_update_def Let_def split: option.split)
qed

lemma cur_ok_send_context [wf_intros]:
  assumes "cur_ok ix" "t \<noteq> ''''"
  shows "cur_ok (snd (send_context_update t through review ix))"
proof -
  obtain c ix1 where "advanceFrontier t through ix = (c, ix1)" by fastforce
  moreover with cur_ok_advanceFrontier [OF assms, of through] have "cur_ok ix1" by simp
  ultimately show ?thesis using assms(2) cur_ok_takeReadOrder
    by (simp add: send_context_update_def split: option.split)
qed

subsection \<open>What an operation shows stays shown\<close>

lemma frontier_advance:
  "frontier (snd (advanceFrontier t n ix)) u = (if u = t then max n (frontier ix t) else frontier ix u)"
  by (simp add: advanceFrontier_def frontier_def Let_def)

lemma frontier_other_fields [simp]:
  "frontier (snd (setAlias sp c ix)) t = frontier ix t"
  "frontier (takeReadOrder t' s ix) t = frontier ix t"
  "frontier (snd (addExact t' xs ix)) t = frontier ix t"
  "frontier (settlePending t' P ix) t = frontier ix t"
  "frontier (recordAttention m r ix) t = frontier ix t"
  by (simp_all add: frontier_def takeReadOrder_def addExact_def Let_def)

lemma exact_after_advance:
  assumes "cur_ok ix"
  shows "set (get_or (ai_exactSeen (snd (advanceFrontier t n ix))) u []) =
    (if u = t then {x \<in> set (get_or (ai_exactSeen ix) t []). n < x}
     else set (get_or (ai_exactSeen ix) u []))"
proof (cases "u = t \<and> \<not> n \<le> frontier ix t")
  case False
  show ?thesis
  proof (cases "u = t")
    case True
    with False have "n \<le> frontier ix t" by simp
    with True exact_okD(3) [OF exact_ok_of [OF assms, of t]] show ?thesis
      by (force simp: advanceFrontier_def)
  qed (auto simp: advanceFrontier_def Let_def)
next
  case True
  let ?old = "get_or (ai_exactSeen ix) t []"
  have kept: "drop (firstAbove ?old n) ?old = filter (\<lambda>x. n < x) ?old"
    by (rule drop_firstAbove [OF exact_okD(2) [OF exact_ok_of [OF assms]]])
  have "set (get_or (ai_exactSeen (snd (advanceFrontier t n ix))) t []) = set (drop (firstAbove ?old n) ?old)"
    using True drop_same_length [of ?old "firstAbove ?old n"] by (auto simp: advanceFrontier_def Let_def)
  with True show ?thesis by (simp add: kept)
qed

lemma seen_by_advance:
  assumes "cur_ok ix" "t \<noteq> ''''"
  shows "seen_by (snd (advanceFrontier t n ix)) u s \<longleftrightarrow> seen_by ix u s \<or> (u = t \<and> s \<le> n)"
proof (cases "u = t")
  case True
  show ?thesis unfolding seen_by_iff [OF assms(1)] seen_by_iff [OF cur_ok_advanceFrontier [OF assms]]
      exact_after_advance [OF assms(1)] frontier_advance
    using True by auto
next
  case False
  then show ?thesis unfolding seen_by_iff [OF assms(1)] seen_by_iff [OF cur_ok_advanceFrontier [OF assms]]
      exact_after_advance [OF assms(1)] frontier_advance
    by simp
qed

lemma ascending_sort: "(if isAscending xs then xs else sort xs) = sort xs"
  by (simp add: isAscending_sorted sorted_sort_id)

lemma addExact_exact:
  "get_or (ai_exactSeen (snd (addExact t xs ix))) u [] =
     (if u = t \<and> xs \<noteq> [] then mergeSeenExactSeqs (frontier ix t) (get_or (ai_exactSeen ix) t []) (sort xs)
      else get_or (ai_exactSeen ix) u [])"
  by (simp add: addExact_def Let_def ascending_sort)

lemma addExact_set:
  assumes "cur_ok ix"
    and "card {x \<in> set (get_or (ai_exactSeen ix) t []) \<union> set xs. frontier ix t < x} \<le> SEEN_EXACT_SEQS_LIMIT"
  shows "set (get_or (ai_exactSeen (snd (addExact t xs ix))) t []) =
    {x \<in> set (get_or (ai_exactSeen ix) t []) \<union> set xs. frontier ix t < x}"
proof (cases "xs = []")
  case True
  with exact_okD(3) [OF exact_ok_of [OF assms(1), of t]] show ?thesis by (auto simp: addExact_exact)
next
  case False
  with assms mergeSeenExactSeqs_set [OF exact_okD(2) [OF exact_ok_of [OF assms(1), of t]], of "sort xs" "frontier ix t"]
  show ?thesis by (simp add: addExact_exact)
qed

lemma addExact_subset:
  assumes "cur_ok ix"
  shows "set (get_or (ai_exactSeen (snd (addExact t xs ix))) t []) \<subseteq>
    set (get_or (ai_exactSeen ix) t []) \<union> set xs"
  using mergeSeenExactSeqs_subset [OF exact_okD(2) [OF exact_ok_of [OF assms, of t]], of "sort xs" "frontier ix t"]
  by (auto simp: addExact_exact)

lemma seen_by_addExact:
  assumes "cur_ok ix" "t \<noteq> ''''"
    and "card {x \<in> set (get_or (ai_exactSeen ix) t []) \<union> set xs. frontier ix t < x} \<le> SEEN_EXACT_SEQS_LIMIT"
  shows "seen_by (snd (addExact t xs ix)) u s \<longleftrightarrow> seen_by ix u s \<or> (u = t \<and> s \<in> set xs)"
proof (cases "u = t")
  case True
  show ?thesis unfolding seen_by_iff [OF assms(1)] seen_by_iff [OF cur_ok_addExact [OF assms(1,2)]]
      True addExact_set [OF assms(1,3)] frontier_other_fields
    by auto
next
  case False
  then show ?thesis unfolding seen_by_iff [OF assms(1)] seen_by_iff [OF cur_ok_addExact [OF assms(1,2)]]
    by (simp add: addExact_exact)
qed

subsection \<open>The durable copy\<close>

lemma wf_entry_set: "wf_map m \<Longrightarrow> wf_map (entry_set f t m)"
  by (simp add: entry_set_def)

lemma map_get_entry_set:
  "map_get (entry_set f t m) u = (if u = t then Some (f (get_or m t empty_entry)) else map_get m u)"
  by (simp add: entry_set_def)

text \<open>A pass over a map sets each of its targets once.\<close>

lemma fold_entry_set:
  assumes "wf_map kvs" "wf_map m"
  shows "wf_map (fold (\<lambda>(t, v). if p v then id else entry_set (f t v) t) kvs m) \<and>
    map_get (fold (\<lambda>(t, v). if p v then id else entry_set (f t v) t) kvs m) u =
      (case map_get kvs u of
         None \<Rightarrow> map_get m u
       | Some v \<Rightarrow> if p v then map_get m u else Some (f u v (get_or m u empty_entry)))"
  using assms
proof (induction kvs arbitrary: m)
  case (Cons a kvs)
  obtain t v where a: "a = (t, v)" by (cases a)
  define m' where "m' = (if p v then m else entry_set (f t v) t m)"
  from Cons.prems a have wf: "wf_map kvs" "wf_map m'" and t: "map_get kvs t = None"
    by (auto simp: wf_map_def m'_def wf_entry_set [unfolded wf_map_def] map_of_eq_None_iff)
  have step: "fold (\<lambda>(t, v). if p v then id else entry_set (f t v) t) (a # kvs) m =
      fold (\<lambda>(t, v). if p v then id else entry_set (f t v) t) kvs m'"
    by (simp add: a m'_def)
  show ?case
  proof (cases "u = t")
    case True
    with Cons.IH [OF wf] t a show ?thesis unfolding step by (simp add: m'_def map_get_entry_set)
  next
    case False
    with Cons.IH [OF wf] a show ?thesis unfolding step
      by (simp add: m'_def map_get_entry_set get_or_def split: option.split)
  qed
qed simp

lemmas fold_entry_set_all = fold_entry_set [where p = "\<lambda>_. False", simplified]

definition entry_of :: "agent_index \<Rightarrow> string \<Rightarrow> cursor_entry option" where
  "entry_of ix t =
     (if map_get (ai_modelSeen ix) t = None \<and> map_get (ai_readContext ix) t = None \<and>
         map_get (ai_exactSeen ix) t = None then None
      else Some \<lparr>ce_seq = map_get (ai_modelSeen ix) t, ce_readOrder = map_get (ai_readContext ix) t,
        ce_reviewedSeq = map_get (ai_reviewedSequence ix) t, ce_exactSeqs = map_get (ai_exactSeen ix) t\<rparr>)"

lemma snapshot_targets:
  assumes "cur_ok ix"
  shows "wf_map (cs_targets (snapshot ix)) \<and> map_get (cs_targets (snapshot ix)) t = entry_of ix t"
proof -
  have wf: "wf_map (ai_modelSeen ix)" "wf_map (ai_readContext ix)" "wf_map (ai_exactSeen ix)"
    using cur_okD(1,2) [OF assms] by (auto simp: seen_maps_ok_def order_maps_ok_def)
  let ?f1 = "\<lambda>_ sq e. e\<lparr>ce_seq := Some sq\<rparr>"
    and ?f2 = "\<lambda>target (k::int) e. e\<lparr>ce_readOrder := Some k,
      ce_reviewedSeq := (case map_get (ai_reviewedSequence ix) target of
         None \<Rightarrow> ce_reviewedSeq e | Some s \<Rightarrow> Some s)\<rparr>"
    and ?f3 = "\<lambda>_ xs e. e\<lparr>ce_exactSeqs := Some xs\<rparr>"
  note s1 = fold_entry_set_all [OF wf(1) wf_map_nil, of ?f1]
  note s2 = fold_entry_set_all [OF wf(2) conjunct1 [OF s1], of ?f2]
  note s3 = fold_entry_set [OF wf(3) conjunct1 [OF s2], of "\<lambda>xs. xs = []" ?f3]
  have ex: "map_get (ai_exactSeen ix) t \<noteq> Some []"
    using cur_okD(1) [OF assms] by (auto simp: seen_maps_ok_def)
  have rv: "map_get (ai_readContext ix) t = None \<Longrightarrow> map_get (ai_reviewedSequence ix) t = None"
    using cur_okD(2) [OF assms] unfolding order_maps_ok_def by (metis not_None_eq)
  show ?thesis using s1 [of t] s2 [of t] s3 [of t] ex rv
    unfolding snapshot_def Let_def cursor_state.simps
    by (auto simp: entry_of_def get_or_def empty_entry_def split: option.split)
qed

lemma entry_of_ok:
  assumes "cur_ok ix" "entry_of ix t = Some e"
  shows "t \<noteq> '''' \<and> entry_ok e \<and> or0 (ce_readOrder e) < ai_readContextCounter ix + 1"
proof -
  have e: "e = \<lparr>ce_seq = map_get (ai_modelSeen ix) t, ce_readOrder = map_get (ai_readContext ix) t,
      ce_reviewedSeq = map_get (ai_reviewedSequence ix) t, ce_exactSeqs = map_get (ai_exactSeen ix) t\<rparr>"
    and some: "map_get (ai_modelSeen ix) t \<noteq> None \<or> map_get (ai_readContext ix) t \<noteq> None \<or>
      map_get (ai_exactSeen ix) t \<noteq> None"
    using assms(2) by (auto simp: entry_of_def split: if_splits)
  have "get_or (ai_modelSeen ix) t 0 = or0 (map_get (ai_modelSeen ix) t)"
    by (simp add: get_or_def or0_def)
  then show ?thesis
    using some cur_okD(1,2) [OF assms(1)] unfolding e entry_ok_def seen_maps_ok_def order_maps_ok_def
    by (fastforce simp: or0_def split: option.split)
qed

lemma snapshot_wf: "cur_ok ix \<Longrightarrow> cursor_wf (snapshot ix)"
  using snapshot_targets [of ix] entry_of_ok [of ix] cur_okD(2,3) [of ix]
  by (auto simp: cursor_wf_def snapshot_def Let_def order_maps_ok_def)

definition exact_safe :: "agent_index \<Rightarrow> bool" where
  "exact_safe ix \<longleftrightarrow> (\<forall>t xs x. map_get (ai_exactSeen ix) t = Some xs \<longrightarrow> x \<in> set xs \<longrightarrow> is_safe_integer x)"

lemma snapshot_safe: "cur_ok ix \<Longrightarrow> exact_safe ix \<Longrightarrow> cursor_safe (snapshot ix)"
  using snapshot_targets [of ix]
  by (auto simp: cursor_safe_def exact_safe_def entry_of_def split: if_splits)

lemma map_get_pick:
  "wf_map ts \<Longrightarrow> map_get (pick f ts) u = (case map_get ts u of None \<Rightarrow> None | Some e \<Rightarrow> f e)"
proof (induction f ts rule: pick.induct)
  case (2 f t e ts)
  then have "map_get ts t = None" "wf_map ts" by (auto simp: wf_map_def map_of_eq_None_iff)
  with 2 show ?case by (auto split: option.split)
qed simp

lemma pick_keys: "set (map_keys (pick f ts)) \<subseteq> set (map_keys ts)"
  by (induction f ts rule: pick.induct) (auto split: option.split)

lemma wf_map_pick: "wf_map ts \<Longrightarrow> wf_map (pick f ts)"
proof (induction f ts rule: pick.induct)
  case (2 f t e ts)
  with pick_keys [of f ts] show ?case by (auto simp: wf_map_def split: option.split)
qed simp

definition same_cursor :: "agent_index \<Rightarrow> agent_index \<Rightarrow> bool" where
  "same_cursor ix ix' \<longleftrightarrow>
     (\<forall>t. map_get (ai_modelSeen ix') t = map_get (ai_modelSeen ix) t \<and>
        map_get (ai_exactSeen ix') t = map_get (ai_exactSeen ix) t \<and>
        map_get (ai_readContext ix') t = map_get (ai_readContext ix) t \<and>
        map_get (ai_reviewedSequence ix') t = map_get (ai_reviewedSequence ix) t) \<and>
     ai_aliases ix' = ai_aliases ix \<and> ai_readContextCounter ix' = ai_readContextCounter ix"

text \<open>Loading the snapshot gives the cursor back.\<close>

lemma load_snapshot:
  assumes "cur_ok ix"
  shows "same_cursor ix (load_cursor (snapshot ix) ix0)"
proof -
  have wf: "wf_map (cs_targets (snapshot ix))"
    and get: "\<And>t. map_get (cs_targets (snapshot ix)) t = entry_of ix t"
    using snapshot_targets [OF assms] by auto
  have ex: "map_get (ai_exactSeen ix) t \<noteq> Some []" for t
    using cur_okD(1) [OF assms] by (auto simp: seen_maps_ok_def)
  have rv: "map_get (ai_readContext ix) t = None \<Longrightarrow> map_get (ai_reviewedSequence ix) t = None" for t
    using cur_okD(2) [OF assms] unfolding order_maps_ok_def by (metis not_None_eq)
  have "ai_aliases (load_cursor (snapshot ix) ix0) = ai_aliases ix"
    "ai_readContextCounter (load_cursor (snapshot ix) ix0) = ai_readContextCounter ix"
    by (simp_all add: load_cursor_def snapshot_def Let_def)
  with ex rv show ?thesis
    by (auto simp: same_cursor_def load_cursor_def map_get_pick [OF wf] get entry_of_def split: option.split)
qed

lemma load_cursor_ok:
  assumes "cursor_wf st"
  shows "cur_ok (load_cursor st ix)"
proof -
  let ?ix = "load_cursor st ix" and ?ts = "cs_targets st"
  have wf: "wf_map ?ts" using assms by (simp add: cursor_wf_def)
  have ent: "t \<noteq> '''' \<and> entry_ok e \<and> or0 (ce_readOrder e) < cs_nextReadOrder st" if "map_get ?ts t = Some e" for t e
    using assms that by (auto simp: cursor_wf_def)
  have seen: "seen_maps_ok (ai_modelSeen ?ix) (ai_exactSeen ?ix)"
    using ent by (auto simp: seen_maps_ok_def load_cursor_def wf_map_pick [OF wf] map_get_pick [OF wf] entry_ok_def
        get_or_def or0_def split: option.splits if_splits)
  have "order_maps_ok (ai_readContext ?ix) (ai_reviewedSequence ?ix) (ai_readContextCounter ?ix)"
    using ent assms by (fastforce simp: order_maps_ok_def load_cursor_def wf_map_pick [OF wf] map_get_pick [OF wf]
        entry_ok_def or0_def cursor_wf_def split: option.splits)
  with seen assms show ?thesis by (simp add: cur_ok_def cursor_wf_def load_cursor_def)
qed

lemma same_cursor_seen:
  assumes "same_cursor ix ix'"
  shows "frontier ix' t = frontier ix t" "seen_by ix' t s = seen_by ix t s"
  using assms by (simp_all add: same_cursor_def frontier_def seen_by_def get_or_def)

end
