(* ===== verification/AttentionProperties.thy ===== *)
theory AttentionProperties
  imports AttentionCursor
begin

text \<open>
  Runs of the attention index's operations for one Agent, over any durable file, and what they
  guarantee: well-formedness, a frontier that never falls back, settlement of exactly what was
  shown, aliases, review order, and a restart that loses nothing.
\<close>

subsection \<open>Runs\<close>

datatype index_op =
    Attend delivery int
  | ShownOneByOne "(string \<times> int list) list"
  | HistoryRead history_read
  | SendContext string int "int option"
  | ModelSeen string int
  | ReadContext string int
  | TargetAlias string string
  | LoseTargets "string list"
  | ThroughSequence string int
  | ForgetAgent

text \<open>The flag says whether the operation's write reached the file.\<close>

fun index_step :: "string \<Rightarrow> bool \<times> index_op \<Rightarrow> ix_state \<Rightarrow> ix_state" where
  "index_step a (ok, Attend m r) (store, ix) = (store, recordAttention m r ix)"
| "index_step a (ok, ShownOneByOne shown) s = snd (recordExactSeen ok a shown s)"
| "index_step a (ok, HistoryRead r) s = snd (recordHistoryRead ok a r s)"
| "index_step a (ok, SendContext t through review) s = snd (recordSendContext ok a t through review s)"
| "index_step a (ok, ModelSeen t n) s = snd (recordModelSeen ok a t n s)"
| "index_step a (ok, ReadContext t n) s = snd (recordReadContext ok a t n s)"
| "index_step a (ok, TargetAlias sp c) s = snd (recordTargetAlias ok a sp c s)"
| "index_step a (ok, LoseTargets cs) (store, ix) = (store, clearTargets cs ix)"
| "index_step a (ok, ThroughSequence t n) (store, ix) = (store, clearThrough t n ix)"
| "index_step a (ok, ForgetAgent) (store, ix) = (store, clearAgent)"

text \<open>Every recorded target is one the code can name.\<close>

fun op_targets_ok :: "index_op \<Rightarrow> bool" where
  "op_targets_ok (HistoryRead r) \<longleftrightarrow> hr_target r \<noteq> ''''"
| "op_targets_ok (SendContext t through review) \<longleftrightarrow> t \<noteq> ''''"
| "op_targets_ok (ModelSeen t n) \<longleftrightarrow> t \<noteq> ''''"
| "op_targets_ok (ReadContext t n) \<longleftrightarrow> t \<noteq> ''''"
| "op_targets_ok _ \<longleftrightarrow> True"

definition index_ok :: "ix_state \<Rightarrow> bool" where
  "index_ok s \<longleftrightarrow> pend_ok (snd s) \<and> cur_ok (snd s)"

lemma index_okI: "pend_ok ix \<Longrightarrow> cur_ok ix \<Longrightarrow> index_ok (store, ix)"
  by (simp add: index_ok_def)

text \<open>A read gives the state, or the loaded one, or throws and leaves the mark.\<close>

lemma hydrate_cases:
  obtains (kept) "hydrate a (store, ix) = (Inr (), store, ix)" "store = None \<or> ai_hydrated ix"
  | (loaded) files where "store = Some files" "\<not> ai_hydrated ix" "isSafePathScope a"
      "hydrate a (store, ix) = (Inr (), store, load_cursor (port_read files a) (ix\<lparr>ai_hydrated := True\<rparr>))"
  | (threw) e where "hydrate a (store, ix) = (Inl e, store, ix\<lparr>ai_hydrated := True\<rparr>)" "\<not> isSafePathScope a"
proof (cases "store = None \<or> ai_hydrated ix")
  case True
  then have "hydrate a (store, ix) = (Inr (), store, ix)" by (auto split: option.split)
  then show ?thesis using True by (rule kept)
next
  case False
  then obtain files where f: "store = Some files" "\<not> ai_hydrated ix" by auto
  show ?thesis
  proof (cases "read_cursor files a")
    case (Inl e)
    then have "\<not> isSafePathScope a" using cursor_file.rd_wf by (auto simp: read_cursor_def split: if_splits option.splits)
    with f Inl show ?thesis by (intro threw [of e]) simp_all
  next
    case (Inr st)
    then have "isSafePathScope a" "port_read files a = st"
      by (auto simp: read_cursor_def port_read_def split: if_splits option.splits)
    with f Inr show ?thesis by (intro loaded [of files]) simp_all
  qed
qed

lemma index_ok_hydrated_mark: "pend_ok ix \<and> cur_ok ix \<Longrightarrow> pend_ok (ix\<lparr>ai_hydrated := b\<rparr>) \<and> cur_ok (ix\<lparr>ai_hydrated := b\<rparr>)"
  by (simp add: pend_ok_def cur_ok_def)

lemma index_ok_hydrate:
  assumes "index_ok s"
  shows "index_ok (snd (hydrate a s))"
proof -
  obtain store ix where s: "s = (store, ix)" by (cases s)
  with assms have ok: "pend_ok ix \<and> cur_ok ix" by (simp add: index_ok_def)
  show ?thesis
  proof (cases a store ix rule: hydrate_cases)
    case (loaded files)
    with ok index_ok_hydrated_mark [OF ok] cursor_file.rd_wf show ?thesis
      by (simp add: s index_ok_def load_cursor_ok del: hydrate.simps)
  qed (use ok index_ok_hydrated_mark in \<open>simp_all add: s index_ok_def del: hydrate.simps\<close>)
qed

lemma persist_index: "snd (snd (persist ok a (store, ix))) = ix"
  by (simp split: option.split sum.split)

lemma index_ok_persist: "index_ok s \<Longrightarrow> index_ok (snd (persist ok a s))"
  by (cases s) (simp add: index_ok_def persist_index del: persist.simps)

lemma index_ok_update:
  assumes "index_ok s" "\<And>ix. pend_ok ix \<Longrightarrow> cur_ok ix \<Longrightarrow> pend_ok (snd (f ix)) \<and> cur_ok (snd (f ix))"
  shows "index_ok (snd (update_index ok a f s))"
proof -
  obtain r store ix where h: "hydrate a s = (r, store, ix)" by (metis prod.exhaust)
  with index_ok_hydrate [OF assms(1), of a] have "pend_ok ix" "cur_ok ix" by (simp_all add: index_ok_def)
  then have "index_ok (store, ix)" "index_ok (store, snd (f ix))" using assms(2) by (simp_all add: index_ok_def)
  then show ?thesis using h index_ok_persist [of "(store, snd (f ix))"]
    by (auto simp: update_index_def hydrated_def Let_def case_prod_unfold simp del: persist.simps
        split: sum.split)
qed

lemma index_ok_step:
  assumes "index_ok s" "op_targets_ok oper"
  shows "index_ok (index_step a (ok, oper) s)"
proof -
  obtain store ix where s: "s = (store, ix)" by (cases s)
  show ?thesis using assms unfolding s
    by (cases oper)
      (auto simp: recordExactSeen_def recordHistoryRead_def recordSendContext_def recordModelSeen_def
        recordReadContext_def recordTargetAlias_def index_ok_def clearThrough_def
        intro!: index_ok_update [unfolded index_ok_def] wf_intros split: option.split)
qed

text \<open>The cursor side alone, for states whose pending side a recovery replaced.\<close>

lemma cur_ok_hydrate:
  assumes "cur_ok (snd s)"
  shows "cur_ok (snd (snd (hydrate a s)))"
proof -
  obtain store ix where s: "s = (store, ix)" by (cases s)
  with assms have ok: "cur_ok ix" "cur_ok (ix\<lparr>ai_hydrated := True\<rparr>)" by (simp_all add: cur_ok_def)
  show ?thesis
  proof (cases a store ix rule: hydrate_cases)
    case (loaded files)
    with load_cursor_ok [OF cursor_file.rd_wf] show ?thesis by (simp add: s del: hydrate.simps)
  qed (use ok in \<open>simp_all add: s del: hydrate.simps\<close>)
qed

lemma cur_ok_update:
  assumes "cur_ok (snd s)" "\<And>ix. cur_ok ix \<Longrightarrow> cur_ok (snd (f ix))"
  shows "cur_ok (snd (snd (update_index ok a f s)))"
proof -
  obtain r store ix where h: "hydrate a s = (r, store, ix)" by (metis prod.exhaust)
  with cur_ok_hydrate [OF assms(1), of a] have "cur_ok ix" by simp
  with assms(2) have "cur_ok ix" "cur_ok (snd (f ix))" by simp_all
  then show ?thesis using h
    by (auto simp: update_index_def hydrated_def Let_def case_prod_unfold persist_index
        simp del: persist.simps split: sum.split)
qed

lemma cur_ok_step:
  assumes "cur_ok ix" "op_targets_ok oper"
  shows "cur_ok (snd (index_step a (ok, oper) (store, ix)))"
  using assms
  by (cases oper)
    (auto simp: recordExactSeen_def recordHistoryRead_def recordSendContext_def recordModelSeen_def
      recordReadContext_def recordTargetAlias_def clearThrough_def
      intro!: cur_ok_update wf_intros split: option.split)

definition index_run :: "string \<Rightarrow> (bool \<times> index_op) list \<Rightarrow> ix_state \<Rightarrow> ix_state" where
  "index_run a ops s = fold (index_step a) ops s"

lemma index_ok_run:
  assumes "index_ok s" "\<forall>p \<in> set ops. op_targets_ok (snd p)"
  shows "index_ok (index_run a ops s)"
  using assms unfolding index_run_def
proof (induction ops arbitrary: s)
  case (Cons p ops)
  obtain ok oper where "p = (ok, oper)" by (cases p)
  with Cons index_ok_step [of s oper a ok] show ?case by simp
qed simp

subsection \<open>The frontier only moves up\<close>

lemma frontier_nonneg_load: "0 \<le> frontier (load_cursor (port_read files a) ix) t"
  using load_cursor_ok [OF cursor_file.rd_wf] by (rule frontier_nonneg)

lemma frontier_update:
  assumes "store = None \<or> ai_hydrated ix" "\<And>ix. frontier ix t \<le> frontier (snd (f ix)) t"
  shows "frontier ix t \<le> frontier (snd (snd (update_index ok a f (store, ix)))) t"
proof -
  have h: "hydrate a (store, ix) = (Inr (), store, ix)" using assms(1) by (auto split: option.split)
  obtain c ix' where "f ix = (c, ix')" by fastforce
  with assms(2) [of ix] show ?thesis
    by (simp add: update_index_def hydrated_def h persist_index del: hydrate.simps persist.simps)
qed

lemma hydrated_update:
  assumes "store = None \<or> ai_hydrated ix" "\<And>ix. ai_hydrated (snd (f ix)) = ai_hydrated ix"
  shows "(fst (snd (update_index ok a f (store, ix))) = None \<longleftrightarrow> store = None) \<and>
    ai_hydrated (snd (snd (update_index ok a f (store, ix)))) = ai_hydrated ix"
proof -
  have h: "hydrate a (store, ix) = (Inr (), store, ix)" using assms(1) by (auto split: option.split)
  obtain c ix' where "f ix = (c, ix')" by fastforce
  with assms(2) [of ix] show ?thesis
    by (auto simp: update_index_def hydrated_def h simp del: hydrate.simps split: option.split sum.split)
qed

lemma frontier_settle_fields [simp]:
  "frontier (settleSeen u ix) t = frontier ix t" "frontier (clear_target u ix) t = frontier ix t"
  "ai_hydrated (settleSeen u ix) = ai_hydrated ix"
  by (simp_all add: settleSeen_def) (simp add: frontier_def)

lemma settle_fold_keeps:
  assumes "\<And>x ix. frontier (g x ix) t = frontier ix t \<and> ai_hydrated (g x ix) = ai_hydrated ix"
  shows "frontier (fold g xs ix) t = frontier ix t \<and> ai_hydrated (fold g xs ix) = ai_hydrated ix"
  using assms by (induction xs arbitrary: ix) simp_all

lemma settleScope_keeps [simp]:
  "frontier (settleScope sc shown u ix) t = frontier ix t"
  "ai_hydrated (settleScope sc shown u ix) = ai_hydrated ix"
  unfolding settleScope_def by (auto simp: settle_fold_keeps split: option.split)

lemma clearTargets_keeps [simp]:
  "frontier (clearTargets cs ix) t = frontier ix t" "ai_hydrated (clearTargets cs ix) = ai_hydrated ix"
  unfolding clearTargets_def by (simp_all add: settle_fold_keeps)

lemma hydrated_fields [simp]:
  "ai_hydrated (snd (setAlias sp c ix)) = ai_hydrated ix"
  "ai_hydrated (snd (addExact u xs ix)) = ai_hydrated ix"
  "ai_hydrated (snd (advanceFrontier u n ix)) = ai_hydrated ix"
  "ai_hydrated (takeReadOrder u n ix) = ai_hydrated ix"
  by (simp_all add: setAlias_def addExact_def advanceFrontier_def takeReadOrder_def Let_def)

lemma frontier_advance_le: "frontier ix t \<le> frontier (snd (advanceFrontier u n ix)) t"
  by (simp add: frontier_advance)

lemma history_read_frontier:
  "frontier ix t \<le> frontier (snd (history_read_update r ix)) t \<and>
   ai_hydrated (snd (history_read_update r ix)) = ai_hydrated ix"
proof -
  obtain c1 ix1 where 1: "setAlias (hr_spelling r) (hr_target r) ix = (c1, ix1)" by fastforce
  obtain c2 ix2 where 2: "(if hr_through r > 0 then advanceFrontier (hr_target r) (hr_through r) ix1
      else (False, ix1)) = (c2, ix2)" by fastforce
  obtain c3 ix3 where 3: "addExact (hr_target r) (hr_shown r) ix2 = (c3, ix3)" by fastforce
  have "frontier ix1 t = frontier ix t" "ai_hydrated ix1 = ai_hydrated ix"
    using frontier_other_fields(1) [of "hr_spelling r" "hr_target r" ix t] hydrated_fields(1) [of "hr_spelling r" "hr_target r" ix]
    by (simp_all add: 1)
  moreover have "frontier ix1 t \<le> frontier ix2 t" "ai_hydrated ix2 = ai_hydrated ix1"
    using 2 frontier_advance_le [of ix1 t "hr_target r" "hr_through r"]
      hydrated_fields(3) [of "hr_target r" "hr_through r" ix1] by (cases "hr_through r > 0"; simp)+
  moreover have "frontier ix3 t = frontier ix2 t" "ai_hydrated ix3 = ai_hydrated ix2"
    using frontier_other_fields(3) [of "hr_target r" "hr_shown r" ix2 t] hydrated_fields(2) [of "hr_target r" "hr_shown r" ix2]
    by (simp_all add: 3)
  ultimately show ?thesis using 1 2 3 by (simp add: history_read_update_def Let_def split: option.split)
qed

lemma send_context_frontier:
  "frontier ix t \<le> frontier (snd (send_context_update u through review ix)) t \<and>
   ai_hydrated (snd (send_context_update u through review ix)) = ai_hydrated ix"
proof -
  obtain c ix1 where "advanceFrontier u through ix = (c, ix1)" by fastforce
  then show ?thesis using frontier_advance_le [of ix t u through] hydrated_fields(3) [of u through ix]
    by (simp add: send_context_update_def split: option.split)
qed

lemma exact_seen_frontier:
  "frontier (snd (fold exact_seen_step xs p)) t = frontier (snd p) t \<and>
   ai_hydrated (snd (fold exact_seen_step xs p)) = ai_hydrated (snd p)"
proof (induction xs arbitrary: p)
  case (Cons x xs)
  have "frontier (snd (exact_seen_step x p)) t = frontier (snd p) t \<and>
      ai_hydrated (snd (exact_seen_step x p)) = ai_hydrated (snd p)"
    by (simp add: exact_seen_step_def case_prod_unfold Let_def)
  with Cons show ?case by simp
qed simp

lemma index_step_frontier:
  assumes "store = None \<or> ai_hydrated ix" "oper \<noteq> ForgetAgent"
  shows "frontier ix t \<le> frontier (snd (index_step a (ok, oper) (store, ix))) t"
proof -
  note up = frontier_update [OF assms(1)]
  show ?thesis using assms(2)
    by (cases oper)
      (auto simp: recordExactSeen_def recordHistoryRead_def recordSendContext_def recordModelSeen_def
        recordReadContext_def recordTargetAlias_def clearThrough_def history_read_frontier
        send_context_frontier frontier_advance_le exact_seen_frontier intro!: up split: option.split)
qed

lemma index_step_hydrated:
  assumes "store = None \<or> ai_hydrated ix" "oper \<noteq> ForgetAgent"
  shows "fst (index_step a (ok, oper) (store, ix)) = None \<or> ai_hydrated (snd (index_step a (ok, oper) (store, ix)))"
proof -
  have up: "fst (snd (update_index ok a f (store, ix))) = None \<or> ai_hydrated (snd (snd (update_index ok a f (store, ix))))"
    if "\<And>ix. ai_hydrated (snd (f ix)) = ai_hydrated ix" for f
    using hydrated_update [where ok = ok and a = a, OF assms(1) that] assms(1) by auto
  show ?thesis using assms
    by (cases oper)
      (auto simp: recordExactSeen_def recordHistoryRead_def recordSendContext_def recordModelSeen_def
        recordReadContext_def recordTargetAlias_def clearThrough_def history_read_frontier
        send_context_frontier exact_seen_frontier intro!: up [simplified] split: option.split)
qed

subsection \<open>Settlement\<close>

lemma mem_forgetConversation:
  "u \<noteq> t \<Longrightarrow> u \<in> set (get_or (ai_conversationTargets (forgetConversation t ix)) c []) \<longleftrightarrow>
     u \<in> set (get_or (ai_conversationTargets ix) c [])"
  by (cases "map_get (ai_attentionConversation ix) t")
    (force simp: forgetConversation_def get_or_def Let_def set_del_def filter_empty_conv removeAll_filter_not_eq split: option.split)+

lemma conversationTargets_settlePending:
  "u \<noteq> t \<Longrightarrow> u \<in> set (get_or (ai_conversationTargets (settlePending t P ix)) c []) \<longleftrightarrow>
     u \<in> set (get_or (ai_conversationTargets ix) c [])"
  by (auto simp: settlePending_def settle_attention_def clear_target_def Let_def mem_forgetConversation
      split: option.split list.split)

lemma pending_of_fold_settle:
  assumes "pend_ok ix"
  shows "pending_of (fold (\<lambda>t ix. if skip t then ix else settlePending t P ix) ts ix) u =
    (if u \<in> set ts \<and> \<not> skip u then {s \<in> pending_of ix u. \<not> P s} else pending_of ix u)"
  using assms
proof (induction ts arbitrary: ix)
  case (Cons t ts)
  have ok: "pend_ok (if skip t then ix else settlePending t P ix)" using Cons.prems by simp
  show ?case using Cons.IH [OF ok] Cons.prems by (auto simp: pending_of_settlePending)
qed simp

lemma pending_of_settleScope:
  assumes "pend_ok ix" "sorted shown"
  shows "pending_of (settleScope sc shown t ix) u =
    (if u \<noteq> t \<and> u \<in> set (get_or (ai_conversationTargets ix) (sc_conversationId sc) []) \<and> scope_covers sc u
     then pending_of ix u - set shown else pending_of ix u)"
proof -
  have none: "\<not> scope_covers sc u" if "sc_channelType sc = Thread \<and> threadRootTarget (sc_target sc) = None"
    using that by (simp add: scope_covers_def)
  have "{s \<in> pending_of ix u. \<not> containsSorted (Some shown) s} = pending_of ix u - set shown"
    using assms(2) by (auto simp: containsSorted_iff)
  then show ?thesis using none
    by (auto simp: settleScope_def pending_of_fold_settle [OF assms(1)] get_or_def split: option.split)
qed

text \<open>The steps of one history read, named.\<close>

definition read_frontier_step :: "history_read \<Rightarrow> agent_index \<Rightarrow> agent_index" where
  "read_frontier_step r ix =
     (let ix1 = snd (setAlias (hr_spelling r) (hr_target r) ix)
      in if hr_through r > 0 then snd (advanceFrontier (hr_target r) (hr_through r) ix1) else ix1)"

definition read_shown_step :: "history_read \<Rightarrow> agent_index \<Rightarrow> agent_index" where
  "read_shown_step r ix = snd (addExact (hr_target r) (hr_shown r) (read_frontier_step r ix))"

definition read_review_step :: "history_read \<Rightarrow> agent_index \<Rightarrow> agent_index" where
  "read_review_step r ix =
     (case hr_review r of None \<Rightarrow> settleSeen (hr_target r) (read_shown_step r ix)
      | Some n \<Rightarrow> takeReadOrder (hr_target r) n (settleSeen (hr_target r) (read_shown_step r ix)))"

lemma history_read_steps:
  "snd (history_read_update r ix) =
     (case hr_scope r of None \<Rightarrow> read_review_step r ix
      | Some sc \<Rightarrow> settleScope sc (hr_shown r) (hr_target r) (read_review_step r ix))"
  by (simp add: history_read_update_def read_frontier_step_def read_shown_step_def read_review_step_def
      Let_def case_prod_unfold split: option.split)

lemma read_steps_ok:
  assumes "pend_ok ix" "cur_ok ix" "hr_target r \<noteq> ''''"
  shows "pend_ok (read_frontier_step r ix)" "cur_ok (read_frontier_step r ix)"
    "pend_ok (read_shown_step r ix)" "cur_ok (read_shown_step r ix)" "pend_ok (read_review_step r ix)"
    "cur_ok (read_review_step r ix)"
proof -
  show 1: "pend_ok (read_frontier_step r ix)" "cur_ok (read_frontier_step r ix)"
    using assms by (simp_all add: read_frontier_step_def Let_def cur_ok_advanceFrontier)
  then show 2: "pend_ok (read_shown_step r ix)" "cur_ok (read_shown_step r ix)"
    using assms(3) by (simp_all add: read_shown_step_def cur_ok_addExact)
  then show "pend_ok (read_review_step r ix)" "cur_ok (read_review_step r ix)"
    using assms(3) by (simp_all add: read_review_step_def cur_ok_takeReadOrder split: option.split)
qed

lemma seen_by_settle [simp]:
  "seen_by (settlePending t' P ix) t s = seen_by ix t s" "seen_by (settleSeen t' ix) t s = seen_by ix t s"
  "seen_by (takeReadOrder t' n ix) t s = seen_by ix t s" "seen_by (snd (setAlias sp c ix)) t s = seen_by ix t s"
  by (simp_all add: seen_by_def settleSeen_def) (simp add: takeReadOrder_def Let_def)

lemma seen_by_settleScope [simp]: "seen_by (settleScope sc shown t' ix) t s = seen_by ix t s"
proof -
  have "seen_by (fold (\<lambda>t ix. if skip t then ix else settlePending t P ix) ts ix) t s = seen_by ix t s" for skip P ts
    by (induction ts arbitrary: ix) simp_all
  then show ?thesis by (simp add: settleScope_def split: option.split)
qed

lemma pending_of_settleSeen:
  assumes "pend_ok ix"
  shows "pending_of (settleSeen t ix) u =
    (if u = t then {s \<in> pending_of ix t. \<not> seen_by ix t s} else pending_of ix u)"
  using assms by (simp add: settleSeen_def pending_of_settlePending seen_by_def)

subsection \<open>Aliases and review order\<close>

definition canonical_of :: "agent_index \<Rightarrow> string \<Rightarrow> string" where
  "canonical_of ix t = get_or (ai_aliases ix) t t"

lemma latest_thread_fold:
  fixes rv :: "string \<Rightarrow> bool" and rc :: "(string \<times> int) list"
  defines "f \<equiv> (\<lambda>(t, k) latest. if rv t \<and> (case latest of None \<Rightarrow> True | Some (_, k') \<Rightarrow> k > k')
      then Some (t, k) else latest)"
  shows "case fold f rc acc of
      None \<Rightarrow> acc = None \<and> (\<forall>(t, k) \<in> set rc. \<not> rv t)
    | Some (t, k) \<Rightarrow> (acc = Some (t, k) \<or> (t, k) \<in> set rc \<and> rv t) \<and>
        (\<forall>(t', k') \<in> set rc. rv t' \<longrightarrow> k' \<le> k) \<and> (\<forall>t' k'. acc = Some (t', k') \<longrightarrow> k' \<le> k)"
proof (induction rc arbitrary: acc)
  case Nil
  then show ?case by (auto split: option.split)
next
  case (Cons a rc)
  obtain t k where a: "a = (t, k)" by (cases a)
  show ?case
  proof (cases "rv t \<and> (case acc of None \<Rightarrow> True | Some (_, k') \<Rightarrow> k > k')")
    case True
    then have "f a acc = Some (t, k)" by (simp add: a f_def)
    then have step: "fold f (a # rc) acc = fold f rc (Some (t, k))" by simp
    show ?thesis unfolding step using Cons.IH [of "Some (t, k)"] True a
      by (auto split: option.splits)
  next
    case False
    then have "f a acc = acc" unfolding a f_def prod.case by (rule if_not_P)
    then have step: "fold f (a # rc) acc = fold f rc acc" by simp
    show ?thesis unfolding step using Cons.IH [of acc] False a
      by (fastforce split: option.splits)
  qed
qed

definition sample_read :: history_read where
  "sample_read = \<lparr>hr_spelling = ''#general'', hr_target = ''#general'', hr_shown = [5],
     hr_through = 0, hr_review = None, hr_scope = None\<rparr>"

lemma clearTargets_get:
  assumes "\<And>t ix v. sel (clear_target t ix) v = (if v = t then None else sel ix v)"
  shows "sel (fold (\<lambda>t ix. if P t then clear_target t ix else ix) ts ix) u =
    (if u \<in> set ts \<and> P u then None else sel ix u)"
  by (induction ts arbitrary: ix) (auto simp: assms)

lemma not_key_None: "u \<notin> set (map_keys m) \<Longrightarrow> map_get m u = None"
  by (simp add: map_of_eq_None_iff)

subsection \<open>Properties\<close>



text \<open>
  C17: once the durable cursor is loaded, no operation but forgetting the Agent ever lowers a target's
  consumed frontier.
\<close>

theorem frontier_never_falls:
  assumes "ForgetAgent \<notin> snd ` set ops" "store = None \<or> ai_hydrated ix"
  shows "frontier ix t \<le> frontier (snd (index_run a ops (store, ix))) t"
  using assms
proof (induction ops arbitrary: store ix)
  case (Cons p ops)
  obtain ok oper where p: "p = (ok, oper)" by (cases p)
  obtain store' ix' where s: "index_step a (ok, oper) (store, ix) = (store', ix')"
    by (cases "index_step a (ok, oper) (store, ix)")
  from Cons.prems p have oper: "oper \<noteq> ForgetAgent" "ForgetAgent \<notin> snd ` set ops" by auto
  from index_step_hydrated [OF Cons.prems(2) oper(1), of a ok] s have "store' = None \<or> ai_hydrated ix'" by simp
  from Cons.IH [OF oper(2) this] have "frontier ix' t \<le> frontier (snd (index_run a ops (store', ix'))) t" .
  moreover from index_step_frontier [OF Cons.prems(2) oper(1), of t a ok] s have "frontier ix t \<le> frontier ix' t"
    by simp
  ultimately show ?case using p s by (simp add: index_run_def)
qed (simp add: index_run_def)

theorem frontier_never_falls_witness:
  "5 \<le> frontier (snd (index_run ''bot'' [(True, ModelSeen ''#general'' 3)]
     (None, snd (advanceFrontier ''#general'' 5 clearAgent)))) ''#general''"
  using frontier_never_falls [of "[(True, ModelSeen ''#general'' 3)]" None
    "snd (advanceFrontier ''#general'' 5 clearAgent)" "''#general''" "''bot''"]
  by (simp add: frontier_advance)

lemma read_review_targets:
  assumes "v \<noteq> hr_target r"
  shows "v \<in> set (get_or (ai_conversationTargets (read_review_step r ix)) c []) \<longleftrightarrow>
    v \<in> set (get_or (ai_conversationTargets ix) c [])"
proof -
  have "ai_conversationTargets (snd (setAlias sp cn ix)) = ai_conversationTargets ix" for sp cn
    by (simp add: setAlias_def Let_def)
  then have "v \<in> set (get_or (ai_conversationTargets (read_frontier_step r ix)) c []) \<longleftrightarrow>
      v \<in> set (get_or (ai_conversationTargets ix) c [])"
    using assms by (simp add: read_frontier_step_def Let_def advanceFrontier_def conversationTargets_settlePending)
  moreover have "ai_conversationTargets (read_shown_step r ix) = ai_conversationTargets (read_frontier_step r ix)"
    by (simp add: read_shown_step_def addExact_def Let_def)
  ultimately show ?thesis using assms
    by (simp add: read_review_step_def settleSeen_def conversationTargets_settlePending takeReadOrder_def Let_def
        split: option.split)
qed



text \<open>
  C15: a restart keeps the consumed cursor. After a write that reached the file, forgetting the Agent
  and loading its cursor again gives the same frontiers, exact sequences, aliases, review orders
  and counter, so exactly the same messages count as seen.
\<close>

theorem restart_keeps_cursor:
  assumes "cur_ok ix" "exact_safe ix" "isSafePathScope a"
    and "persist True a (Some files, ix) = (Inr (), Some files', ix)"
  shows "\<exists>ix'. hydrate a (Some files', clearAgent) = (Inr (), Some files', ix') \<and>
    same_cursor ix ix' \<and> (\<forall>t s. seen_by ix' t s = seen_by ix t s)"
proof -
  have files': "files' = port_write files a (snapshot ix)"
    using assms(3,4) by (simp add: port_write_def write_cursor_def)
  have rd: "port_read files' a = snapshot ix"
    unfolding files' by (rule cursor_file.rd_wr_same [OF assms(3) snapshot_wf [OF assms(1)] snapshot_safe [OF assms(1,2)]])
  have "hydrate a (Some files', clearAgent) =
      (Inr (), Some files', load_cursor (snapshot ix) (clearAgent\<lparr>ai_hydrated := True\<rparr>))"
    using assms(3) rd by (auto simp: clearAgent_def read_cursor_def port_read_def split: option.splits)
  with load_snapshot [OF assms(1)] same_cursor_seen(2) show ?thesis by blast
qed

theorem restart_keeps_cursor_witness:
  "\<exists>ix'. hydrate ''bot'' (Some [''bot'' \<mapsto> encode_state (snapshot clearAgent)], clearAgent) =
      (Inr (), Some [''bot'' \<mapsto> encode_state (snapshot clearAgent)], ix') \<and> same_cursor clearAgent ix'"
proof -
  have id: "isSafePathScope ''bot''"
    by (simp add: isSafePathScope_def upper_alnum_def upper_letters_def lower_alnum_def)
  then have "persist True ''bot'' (Some Map.empty, clearAgent) =
      (Inr (), Some [''bot'' \<mapsto> encode_state (snapshot clearAgent)], clearAgent)"
    by (simp add: write_cursor_def)
  moreover have "exact_safe clearAgent" by (simp add: exact_safe_def clearAgent_def)
  ultimately show ?thesis using restart_keeps_cursor [OF cur_ok_clearAgent _ id] by blast
qed

text \<open>
  After an alias is recorded, the new spelling, the canonical target and every spelling that named
  the new one share one consumed state, and that state's own spelling names itself.
\<close>

theorem alias_shares_state:
  assumes "cur_ok ix" "sp \<noteq> ''''" "c \<noteq> ''''" "sp \<noteq> c"
  shows "canonical_of (snd (setAlias sp c ix)) sp = canonical_of (snd (setAlias sp c ix)) c \<and>
    (\<forall>x. canonical_of ix x = sp \<longrightarrow>
       canonical_of (snd (setAlias sp c ix)) x = canonical_of (snd (setAlias sp c ix)) c) \<and>
    (\<forall>x. canonical_of (snd (setAlias sp c ix)) (canonical_of (snd (setAlias sp c ix)) x) =
       canonical_of (snd (setAlias sp c ix)) x)"
proof -
  let ?m = "ai_aliases ix" and ?ix = "snd (setAlias sp c ix)"
  have flat: "flat_aliases ?m" "flat_aliases (ai_aliases ?ix)"
    using cur_okD(3) [OF assms(1)] setAlias_flat by blast+
  have idem: "canonical_of ?ix (canonical_of ?ix x) = canonical_of ?ix x" for x
    using flat(2) by (auto simp: canonical_of_def flat_aliases_def get_or_def split: option.splits)
  have end_free: "map_get ?m y = None" if "map_get ?m x = Some y" for x y
    using flat(1) that by (auto simp: flat_aliases_def)
  have "canonical_of ?ix sp = canonical_of ?ix c \<and>
      (canonical_of ix x = sp \<longrightarrow> canonical_of ?ix x = canonical_of ?ix c)" for x
  proof (cases "map_get ?m c = Some sp")
    case True
    then have "map_get (ai_aliases ?ix) y = (if y = sp then Some c else if y = c then None else
        map_option (\<lambda>d. if d = sp then c else d) (map_get ?m y))" for y
      using assms(2-4) end_free [OF True] by (simp add: setAlias_def get_or_def map_get_repoint)
    then show ?thesis using assms(4) by (auto simp: canonical_of_def get_or_def split: option.splits)
  next
    case False
    then have t: "get_or ?m c c \<noteq> sp" using assms(4) by (auto simp: get_or_def split: option.splits)
    show ?thesis
    proof (cases "map_get ?m sp = Some (get_or ?m c c)")
      case True
      then have "ai_aliases ?ix = ?m" using assms(2-4) t by (simp add: setAlias_def)
      then show ?thesis using True end_free t
        by (auto simp: canonical_of_def get_or_def split: option.splits)
    next
      case other: False
      have get: "map_get (ai_aliases ?ix) y = (if y = sp then Some (get_or ?m c c) else
          map_option (\<lambda>d. if d = sp then get_or ?m c c else d) (map_get ?m y))" for y
        using assms(2-4) t other by (simp add: setAlias_def map_get_repoint Let_def)
      have "canonical_of ?ix c = get_or ?m c c" "canonical_of ?ix sp = get_or ?m c c"
        using get t assms(4) False by (auto simp: canonical_of_def get_or_def split: option.splits)
      moreover have "canonical_of ?ix x = get_or ?m c c" if "canonical_of ix x = sp"
        using that get by (auto simp: canonical_of_def get_or_def [of _ x] split: option.splits)
      ultimately show ?thesis by simp
    qed
  qed
  with idem show ?thesis by blast
qed

theorem alias_shares_state_witness:
  "canonical_of (snd (setAlias ''#a:1'' ''#a:12'' clearAgent)) ''#a:1'' =
   canonical_of (snd (setAlias ''#a:1'' ''#a:12'' clearAgent)) ''#a:12''"
  using alias_shares_state [of clearAgent "''#a:1''" "''#a:12''"] by simp

text \<open>
  \<open>latestThreadReadUnderParent\<close> answers the most recently reviewed thread under the parent among
  those a review has shown anything of, and nothing exactly when there is none.
\<close>

theorem newest_thread_read:
  "case latest_thread ix parent of
     None \<Rightarrow> \<not> (\<exists>(t, k) \<in> set (ai_readContext ix).
       starts_with t (parent @ '':'') \<and> 0 < get_or (ai_reviewedSequence ix) t 0)
   | Some (t, k) \<Rightarrow> (t, k) \<in> set (ai_readContext ix) \<and> starts_with t (parent @ '':'') \<and>
       0 < get_or (ai_reviewedSequence ix) t 0 \<and>
       \<not> (\<exists>(t', k') \<in> set (ai_readContext ix). starts_with t' (parent @ '':'') \<and>
            0 < get_or (ai_reviewedSequence ix) t' 0 \<and> k < k')"
  using latest_thread_fold [where rv = "\<lambda>t. starts_with t (parent @ '':'') \<and> 0 < get_or (ai_reviewedSequence ix) t 0"
      and rc = "ai_readContext ix" and acc = None]
  by (force simp: latest_thread_def conj_assoc split: option.splits)

text \<open>
  Losing channels forgets the pending attention, sequences and window of each of them and of every
  thread under them, and of no other target; the consumed cursor stays.
\<close>



theorem lost_targets_cleared:
  "map_get (ai_attention (clearTargets cs ix)) u = (if lost_with cs u then None else map_get (ai_attention ix) u) \<and>
   map_get (ai_pendingSequences (clearTargets cs ix)) u =
     (if lost_with cs u then None else map_get (ai_pendingSequences ix) u) \<and>
   map_get (ai_pendingWindow (clearTargets cs ix)) u =
     (if lost_with cs u then None else map_get (ai_pendingWindow ix) u) \<and>
   (\<forall>s. seen_by (clearTargets cs ix) u s = seen_by ix u s)"
proof (intro conjI allI)
  let ?ks = "remdups (map_keys (ai_attention ix) @ map_keys (ai_pendingSequences ix) @ map_keys (ai_pendingWindow ix))"
  show "map_get (ai_attention (clearTargets cs ix)) u = (if lost_with cs u then None else map_get (ai_attention ix) u)"
    using clearTargets_get [of "\<lambda>ix. map_get (ai_attention ix)" "lost_with cs" ?ks ix u] not_key_None [of u "ai_attention ix"]
    by (auto simp: clearTargets_def)
  show "map_get (ai_pendingSequences (clearTargets cs ix)) u =
      (if lost_with cs u then None else map_get (ai_pendingSequences ix) u)"
    using clearTargets_get [of "\<lambda>ix. map_get (ai_pendingSequences ix)" "lost_with cs" ?ks ix u]
      not_key_None [of u "ai_pendingSequences ix"] by (auto simp: clearTargets_def)
  show "map_get (ai_pendingWindow (clearTargets cs ix)) u =
      (if lost_with cs u then None else map_get (ai_pendingWindow ix) u)"
    using clearTargets_get [of "\<lambda>ix. map_get (ai_pendingWindow ix)" "lost_with cs" ?ks ix u]
      not_key_None [of u "ai_pendingWindow ix"] by (auto simp: clearTargets_def)
  have "seen_by (fold (\<lambda>t ix. if P t then clear_target t ix else ix) ts ix) u s = seen_by ix u s" for P ts s
    by (induction ts arbitrary: ix) (simp_all add: seen_by_def frontier_def)
  then show "seen_by (clearTargets cs ix) u s = seen_by ix u s" for s by (simp add: clearTargets_def)
qed

end
