(* ===== verification/DeliveryQueue.thy ===== *)
theory DeliveryQueue
  imports Deliveries "HOL-Library.Multiset"
begin

text \<open>
  The daemon-owned per-Agent delivery queue,
  \<open>packages/daemon/src/daemon-runtime/agent-delivery-queue.ts\<close>: the busy flag, the explicit holds, the
  held deliveries, App items and fallback notices, and every operation on them. The maps keyed by
  Agent id are functions; an absent list is the empty one.
\<close>

subsection \<open>State and operations\<close>

datatype delivery_mode = Steer | QueueUntilIdle

datatype hold_reason = RateLimitBackoff | RuntimeErrorBackoff | FingerprintFence

datatype runtime_provider =
  Coforge | Pi | Codex | ClaudeCode | Cursor | Kiro | Opencode | Grok | Antigravity

record fallback_notice =
  fn_text :: string
  fn_deliveryIds :: "string list option"

record delivery_queue =
  q_mode :: "string \<Rightarrow> delivery_mode option"
  q_busy :: "string \<Rightarrow> bool"
  q_held :: "string \<Rightarrow> delivery list"
  q_heldAppItems :: "string \<Rightarrow> string list"
  q_heldFallbackNotices :: "string \<Rightarrow> fallback_notice list"
  q_explicitHolds :: "string \<Rightarrow> hold_reason option"

definition empty_queue :: delivery_queue where
  "empty_queue = \<lparr>q_mode = (\<lambda>_. None), q_busy = (\<lambda>_. False), q_held = (\<lambda>_. []),
     q_heldAppItems = (\<lambda>_. []), q_heldFallbackNotices = (\<lambda>_. []), q_explicitHolds = (\<lambda>_. None)\<rparr>"

fun AGENT_DELIVERY_MODE :: "runtime_provider \<Rightarrow> delivery_mode" where
  "AGENT_DELIVERY_MODE Coforge = Steer"
| "AGENT_DELIVERY_MODE Pi = Steer"
| "AGENT_DELIVERY_MODE Codex = Steer"
| "AGENT_DELIVERY_MODE ClaudeCode = Steer"
| "AGENT_DELIVERY_MODE Cursor = Steer"
| "AGENT_DELIVERY_MODE Kiro = Steer"
| "AGENT_DELIVERY_MODE Opencode = Steer"
| "AGENT_DELIVERY_MODE Grok = Steer"
| "AGENT_DELIVERY_MODE Antigravity = Steer"

definition q_setMode :: "delivery_queue \<Rightarrow> string \<Rightarrow> delivery_mode \<Rightarrow> delivery_queue" where
  "q_setMode q a mode = q\<lparr>q_mode := (q_mode q)(a \<mapsto> mode)\<rparr>"

definition q_setProvider :: "delivery_queue \<Rightarrow> string \<Rightarrow> runtime_provider \<Rightarrow> delivery_queue" where
  "q_setProvider q a provider = q_setMode q a (AGENT_DELIVERY_MODE provider)"

definition q_markBusy :: "delivery_queue \<Rightarrow> string \<Rightarrow> delivery_queue" where
  "q_markBusy q a = q\<lparr>q_busy := (q_busy q)(a := True)\<rparr>"

definition q_drain :: "delivery_queue \<Rightarrow> string \<Rightarrow> delivery_queue \<times> delivery list" where
  "q_drain q a = (q\<lparr>q_held := (q_held q)(a := [])\<rparr>, q_held q a)"

definition q_idle :: "delivery_queue \<Rightarrow> string \<Rightarrow> delivery_queue \<times> delivery list" where
  "q_idle q a =
     (let q' = q\<lparr>q_busy := (q_busy q)(a := False)\<rparr>
      in if q_explicitHolds q' a \<noteq> None then (q', []) else q_drain q' a)"

definition q_isBusy :: "delivery_queue \<Rightarrow> string \<Rightarrow> bool" where
  "q_isBusy q a = q_busy q a"

definition q_explicitHold :: "delivery_queue \<Rightarrow> string \<Rightarrow> hold_reason option" where
  "q_explicitHold q a = q_explicitHolds q a"

definition q_shouldHold :: "delivery_queue \<Rightarrow> string \<Rightarrow> bool" where
  "q_shouldHold q a =
     (if q_explicitHolds q a \<noteq> None then True else q_mode q a = Some QueueUntilIdle \<and> q_busy q a)"

definition q_enqueue :: "delivery_queue \<Rightarrow> string \<Rightarrow> delivery \<Rightarrow> delivery_queue" where
  "q_enqueue q a m = q\<lparr>q_held := (q_held q)(a := q_held q a @ [m])\<rparr>"

definition q_pending :: "delivery_queue \<Rightarrow> string \<Rightarrow> delivery list" where
  "q_pending q a = q_held q a"

definition q_hasQueued :: "delivery_queue \<Rightarrow> string \<Rightarrow> bool" where
  "q_hasQueued q a \<longleftrightarrow> length (q_held q a) > 0"

definition q_discardPending :: "delivery_queue \<Rightarrow> string \<Rightarrow> delivery_queue \<times> delivery list" where
  "q_discardPending q a = q_drain q a"

definition q_discardConversations ::
  "delivery_queue \<Rightarrow> string \<Rightarrow> string list \<Rightarrow> delivery_queue \<times> delivery list" where
  "q_discardConversations q a convs =
     (q\<lparr>q_held := (q_held q)(a := filter (\<lambda>m. d_conversationId m \<notin> set convs) (q_held q a))\<rparr>,
      filter (\<lambda>m. d_conversationId m \<in> set convs) (q_held q a))"

definition q_holdAppItem :: "delivery_queue \<Rightarrow> string \<Rightarrow> string \<Rightarrow> delivery_queue" where
  "q_holdAppItem q a item = q\<lparr>q_heldAppItems := (q_heldAppItems q)(a := set_add item (q_heldAppItems q a))\<rparr>"

definition q_releaseAppItems :: "delivery_queue \<Rightarrow> string \<Rightarrow> delivery_queue \<times> string list" where
  "q_releaseAppItems q a = (q\<lparr>q_heldAppItems := (q_heldAppItems q)(a := [])\<rparr>, q_heldAppItems q a)"

definition q_holdFallbackNotice :: "delivery_queue \<Rightarrow> string \<Rightarrow> fallback_notice \<Rightarrow> delivery_queue" where
  "q_holdFallbackNotice q a n =
     q\<lparr>q_heldFallbackNotices := (q_heldFallbackNotices q)(a := q_heldFallbackNotices q a @ [n])\<rparr>"

definition q_releaseFallbackNotices ::
  "delivery_queue \<Rightarrow> string \<Rightarrow> delivery_queue \<times> fallback_notice list" where
  "q_releaseFallbackNotices q a =
     (q\<lparr>q_heldFallbackNotices := (q_heldFallbackNotices q)(a := [])\<rparr>, q_heldFallbackNotices q a)"

definition q_hold :: "delivery_queue \<Rightarrow> string \<Rightarrow> hold_reason \<Rightarrow> delivery_queue" where
  "q_hold q a reason = q\<lparr>q_explicitHolds := (q_explicitHolds q)(a \<mapsto> reason)\<rparr>"

definition q_release :: "delivery_queue \<Rightarrow> string \<Rightarrow> delivery_queue \<times> delivery list" where
  "q_release q a =
     (let q' = q\<lparr>q_explicitHolds := (q_explicitHolds q)(a := None)\<rparr>
      in if q_busy q' a then (q', []) else q_drain q' a)"

definition q_onProcessExit :: "delivery_queue \<Rightarrow> string \<Rightarrow> delivery_queue" where
  "q_onProcessExit q a = q\<lparr>q_busy := (q_busy q)(a := False)\<rparr>"

definition q_clearAgent :: "delivery_queue \<Rightarrow> string \<Rightarrow> delivery_queue" where
  "q_clearAgent q a = q\<lparr>q_mode := (q_mode q)(a := None), q_busy := (q_busy q)(a := False),
     q_held := (q_held q)(a := []), q_heldAppItems := (q_heldAppItems q)(a := []),
     q_heldFallbackNotices := (q_heldFallbackNotices q)(a := []),
     q_explicitHolds := (q_explicitHolds q)(a := None)\<rparr>"

lemmas queue_defs =
  q_setMode_def q_setProvider_def q_markBusy_def q_drain_def q_idle_def q_enqueue_def
  q_discardPending_def q_discardConversations_def q_holdAppItem_def q_releaseAppItems_def
  q_holdFallbackNotice_def q_releaseFallbackNotices_def q_hold_def q_release_def
  q_onProcessExit_def q_clearAgent_def

subsection \<open>The seam the attention index is built on\<close>

text \<open>
  The \<open>hold\<close> argument of the attention index: it decides whether a delivery waits, records a waiting
  one, marks the Agent busy and lists what waits. Laws: recording appends, and neither recording
  nor marking busy loses a delivery or lifts a hold.
\<close>

locale hold_port =
  fixes shouldHold :: "'q \<Rightarrow> string \<Rightarrow> bool"
    and enqueue :: "'q \<Rightarrow> string \<Rightarrow> delivery \<Rightarrow> 'q"
    and busy :: "'q \<Rightarrow> string \<Rightarrow> 'q"
    and queued :: "'q \<Rightarrow> string \<Rightarrow> delivery list"
  assumes queued_enqueue: "queued (enqueue q a m) b = (if b = a then queued q a @ [m] else queued q b)"
    and hold_enqueue: "shouldHold (enqueue q a m) b = shouldHold q b"
    and queued_busy: "queued (busy q a) b = queued q b"
    and hold_busy: "shouldHold q b \<Longrightarrow> shouldHold (busy q a) b"
begin

lemma enqueue_kept: "m \<in> set (queued (enqueue q a m) a)"
  by (simp add: queued_enqueue)

lemma queued_mono_enqueue: "set (queued q b) \<subseteq> set (queued (enqueue q a m) b)"
  by (auto simp: queued_enqueue)

lemma queued_fold_enqueue: "queued (fold (\<lambda>m q. enqueue q a m) ms q) a = queued q a @ ms"
  by (induction ms arbitrary: q) (simp_all add: queued_enqueue)

lemma hold_fold_enqueue: "shouldHold (fold (\<lambda>m q. enqueue q a m) ms q) b = shouldHold q b"
  by (induction ms arbitrary: q) (simp_all add: hold_enqueue)

end

interpretation dq: hold_port q_shouldHold q_enqueue q_markBusy q_pending
  by unfold_locales (auto simp: q_shouldHold_def q_enqueue_def q_markBusy_def q_pending_def)

subsection \<open>Runs\<close>

datatype queue_op =
    SetProvider runtime_provider
  | SetMode delivery_mode
  | MarkBusy
  | MarkIdle
  | Enqueue delivery
  | DiscardPending
  | DiscardConversations "string list"
  | HoldAppItem string
  | ReleaseAppItems
  | HoldFallback fallback_notice
  | ReleaseFallback
  | Hold hold_reason
  | Release
  | ProcessExit
  | ClearAgent

text \<open>One operation on one Agent and the deliveries it hands back.\<close>

fun queue_step :: "delivery_queue \<Rightarrow> string \<Rightarrow> queue_op \<Rightarrow> delivery_queue \<times> delivery list" where
  "queue_step q a (SetProvider p) = (q_setProvider q a p, [])"
| "queue_step q a (SetMode md) = (q_setMode q a md, [])"
| "queue_step q a MarkBusy = (q_markBusy q a, [])"
| "queue_step q a MarkIdle = q_idle q a"
| "queue_step q a (Enqueue m) = (q_enqueue q a m, [])"
| "queue_step q a DiscardPending = q_discardPending q a"
| "queue_step q a (DiscardConversations cs) = q_discardConversations q a cs"
| "queue_step q a (HoldAppItem i) = (q_holdAppItem q a i, [])"
| "queue_step q a ReleaseAppItems = (fst (q_releaseAppItems q a), [])"
| "queue_step q a (HoldFallback n) = (q_holdFallbackNotice q a n, [])"
| "queue_step q a ReleaseFallback = (fst (q_releaseFallbackNotices q a), [])"
| "queue_step q a (Hold r) = (q_hold q a r, [])"
| "queue_step q a Release = q_release q a"
| "queue_step q a ProcessExit = (q_onProcessExit q a, [])"
| "queue_step q a ClearAgent = (q_clearAgent q a, [])"

fun queue_run ::
  "delivery_queue \<Rightarrow> (string \<times> queue_op) list \<Rightarrow> delivery_queue \<times> (string \<times> delivery) list" where
  "queue_run q [] = (q, [])"
| "queue_run q ((a, oper) # ops) =
     (let (q', ms) = queue_step q a oper; (q'', rest) = queue_run q' ops
      in (q'', map (Pair a) ms @ rest))"

definition enqueued_for :: "string \<Rightarrow> (string \<times> queue_op) list \<Rightarrow> delivery list" where
  "enqueued_for a ops = List.map_filter (\<lambda>(b, oper). if b = a then (case oper of Enqueue m \<Rightarrow> Some m | _ \<Rightarrow> None) else None) ops"

definition returned_for :: "string \<Rightarrow> (string \<times> delivery) list \<Rightarrow> delivery list" where
  "returned_for a rs = map snd (filter (\<lambda>(b, _). b = a) rs)"

lemma returned_for_simps [simp]:
  "returned_for a [] = []"
  "returned_for a (map (Pair b) ms @ rs) = (if b = a then ms else []) @ returned_for a rs"
  by (auto simp: returned_for_def comp_def)

lemma enqueued_for_simps [simp]:
  "enqueued_for a [] = []"
  "enqueued_for a ((b, oper) # ops) =
     (if b = a then (case oper of Enqueue m \<Rightarrow> [m] | _ \<Rightarrow> []) else []) @ enqueued_for a ops"
  by (auto simp: enqueued_for_def List.map_filter_def split: queue_op.splits)

lemma queue_step_other: "b \<noteq> a \<Longrightarrow> q_held (fst (queue_step q b oper)) a = q_held q a"
  by (cases oper) (auto simp: queue_defs Let_def)

lemma mset_split_filter: "mset (filter P xs) + mset (filter (\<lambda>x. \<not> P x) xs) = mset xs"
  by (induction xs) auto

lemma queue_step_conserves:
  assumes "oper \<noteq> ClearAgent"
  shows "mset (q_held q a) + mset (case oper of Enqueue m \<Rightarrow> [m] | _ \<Rightarrow> []) =
    mset (snd (queue_step q a oper)) + mset (q_held (fst (queue_step q a oper)) a)"
proof (cases "\<exists>cs. oper = DiscardConversations cs")
  case True
  then obtain cs where "oper = DiscardConversations cs" ..
  then show ?thesis
    using mset_split_filter [of "\<lambda>m. d_conversationId m \<in> set cs" "q_held q a"]
    by (simp add: queue_defs del: mset_filter)
next
  case False
  with assms show ?thesis by (cases oper) (auto simp: queue_defs Let_def)
qed

lemma queue_step_fifo:
  assumes "oper \<noteq> ClearAgent" "\<forall>cs. oper \<noteq> DiscardConversations cs"
  shows "q_held q a @ (case oper of Enqueue m \<Rightarrow> [m] | _ \<Rightarrow> []) =
    snd (queue_step q a oper) @ q_held (fst (queue_step q a oper)) a"
  using assms by (cases oper) (auto simp: queue_defs Let_def)

subsection \<open>Properties\<close>

text \<open>
  C18: no delivery is lost or duplicated by the queue. Over any sequence of operations on any Agents
  that does not clear Agent \<open>a\<close>, what was held for \<open>a\<close> and what was enqueued for it is
  exactly what the operations handed back and what is still held.
\<close>

theorem queue_conserves_deliveries:
  assumes "(a, ClearAgent) \<notin> set ops" "queue_run q ops = (q', rs)"
  shows "mset (q_held q a) + mset (enqueued_for a ops) =
    mset (returned_for a rs) + mset (q_held q' a)"
  using assms
proof (induction ops arbitrary: q q' rs)
  case Nil
  then show ?case by simp
next
  case (Cons x ops)
  obtain b oper where x: "x = (b, oper)" by (cases x)
  obtain q1 ms where s: "queue_step q b oper = (q1, ms)" by (cases "queue_step q b oper")
  obtain q2 rest where r: "queue_run q1 ops = (q2, rest)" by (cases "queue_run q1 ops")
  from Cons.prems x s r have eqs: "q' = q2" "rs = map (Pair b) ms @ rest" by auto
  have ih: "mset (q_held q1 a) + mset (enqueued_for a ops) =
      mset (returned_for a rest) + mset (q_held q2 a)"
    using Cons.IH [OF _ r] Cons.prems(1) by simp
  show ?case
  proof (cases "b = a")
    case True
    with Cons.prems(1) x have "oper \<noteq> ClearAgent" by auto
    from queue_step_conserves [OF this, of q a] have
      "mset (q_held q a) + mset (case oper of Enqueue m \<Rightarrow> [m] | _ \<Rightarrow> []) = mset ms + mset (q_held q1 a)"
      using s True by simp
    then have "mset (q_held q a) + mset (case oper of Enqueue m \<Rightarrow> [m] | _ \<Rightarrow> []) + mset (enqueued_for a ops) =
        mset ms + mset (q_held q1 a) + mset (enqueued_for a ops)" by simp
    with eqs ih x True show ?thesis by (simp add: add.assoc)
  next
    case False
    with eqs ih x s queue_step_other [of b a q oper] show ?thesis by simp
  qed
qed

theorem queue_conserves_deliveries_witness:
  "mset [sample_delivery ''d1'' ''m1'' 1] = mset (returned_for ''bot'' (snd (queue_run empty_queue
     [(''bot'', Hold FingerprintFence), (''bot'', Enqueue (sample_delivery ''d1'' ''m1'' 1)),
      (''bot'', MarkIdle), (''bot'', Release)])))"
  using queue_conserves_deliveries
    [of "''bot''" "[(''bot'', Hold FingerprintFence), (''bot'', Enqueue (sample_delivery ''d1'' ''m1'' 1)),
      (''bot'', MarkIdle), (''bot'', Release)]" empty_queue, OF _ surjective_pairing]
  by (simp add: queue_defs Let_def empty_queue_def)

text \<open>
  The queue is first in, first out: without a clear or a conversation purge, the deliveries held
  for an Agent and those enqueued after them are handed back in that order.
\<close>

theorem queue_is_fifo:
  assumes "(a, ClearAgent) \<notin> set ops" "\<forall>cs. (a, DiscardConversations cs) \<notin> set ops"
    and "queue_run q ops = (q', rs)"
  shows "q_held q a @ enqueued_for a ops = returned_for a rs @ q_held q' a"
  using assms
proof (induction ops arbitrary: q q' rs)
  case Nil
  then show ?case by simp
next
  case (Cons x ops)
  obtain b oper where x: "x = (b, oper)" by (cases x)
  obtain q1 ms where s: "queue_step q b oper = (q1, ms)" by (cases "queue_step q b oper")
  obtain q2 rest where r: "queue_run q1 ops = (q2, rest)" by (cases "queue_run q1 ops")
  from Cons.prems x s r have eqs: "q' = q2" "rs = map (Pair b) ms @ rest" by auto
  have ih: "q_held q1 a @ enqueued_for a ops = returned_for a rest @ q_held q2 a"
    using Cons.IH [OF _ _ r] Cons.prems(1,2) by simp
  show ?case
  proof (cases "b = a")
    case True
    with Cons.prems(1,2) x have "oper \<noteq> ClearAgent" "\<forall>cs. oper \<noteq> DiscardConversations cs" by auto
    from queue_step_fifo [OF this, of q a] have
      "q_held q a @ (case oper of Enqueue m \<Rightarrow> [m] | _ \<Rightarrow> []) = ms @ q_held q1 a"
      using s True by simp
    then have "(q_held q a @ (case oper of Enqueue m \<Rightarrow> [m] | _ \<Rightarrow> [])) @ enqueued_for a ops =
        (ms @ q_held q1 a) @ enqueued_for a ops" by (rule arg_cong)
    with eqs ih x True show ?thesis by simp
  next
    case False
    with eqs ih x s queue_step_other [of b a q oper] show ?thesis by simp
  qed
qed

theorem queue_is_fifo_witness:
  "returned_for ''bot'' (snd (queue_run empty_queue
     [(''bot'', Enqueue (sample_delivery ''d1'' ''m1'' 1)), (''bot'', Enqueue (sample_delivery ''d2'' ''m2'' 2)),
      (''bot'', MarkIdle)])) = [sample_delivery ''d1'' ''m1'' 1, sample_delivery ''d2'' ''m2'' 2]"
  using queue_is_fifo
    [of "''bot''" "[(''bot'', Enqueue (sample_delivery ''d1'' ''m1'' 1)),
      (''bot'', Enqueue (sample_delivery ''d2'' ''m2'' 2)), (''bot'', MarkIdle)]" empty_queue,
      OF _ _ surjective_pairing]
  by (simp add: queue_defs Let_def empty_queue_def returned_for_def)

text \<open>
  While an explicit hold is in force, an Agent's deliveries wait: every delivery must be held, the
  end of a turn hands nothing back and keeps everything, and a process exit keeps both the hold
  and what is held.
\<close>

theorem explicit_hold_keeps_everything:
  assumes "q_explicitHold q a = Some r"
  shows "q_shouldHold q a \<and> snd (q_idle q a) = [] \<and>
    q_held (fst (q_idle q a)) = q_held q \<and> q_explicitHold (fst (q_idle q a)) a = Some r \<and>
    q_held (q_onProcessExit q a) = q_held q \<and> q_explicitHold (q_onProcessExit q a) a = Some r"
  using assms by (auto simp: q_explicitHold_def q_shouldHold_def queue_defs Let_def)

theorem explicit_hold_keeps_everything_witness:
  "q_shouldHold (q_hold empty_queue ''bot'' RateLimitBackoff) ''bot''"
  using explicit_hold_keeps_everything [of "q_hold empty_queue ''bot'' RateLimitBackoff" "''bot''" RateLimitBackoff]
  by (simp add: q_explicitHold_def q_hold_def)

end
