(* ===== verification/InboxNotice.thy ===== *)
theory InboxNotice
  imports Deliveries
begin

text \<open>
  The inbox notice an Agent's session is given: the rows per target and the text, as
  \<open>#localViewRows\<close>, \<open>#renderLocalViewRows\<close>, \<open>#withMemoryReminder\<close>, \<open>#notify\<close> and \<open>recover\<close> of
  \<open>packages/daemon/src/daemon-runtime/agent-message-attention-index.ts\<close> compose them. The middle
  dot of a row is the character of code point 183.
\<close>

subsection \<open>Rows\<close>

record view_item =
  vi_target :: "string option"
  vi_messageId :: string
  vi_senderKind :: "sender_kind option"
  vi_senderHandle :: "string option"

record view_row =
  vr_target :: string
  vr_newIds :: "string list"
  vr_heldIds :: "string list"
  vr_latestSender :: "(sender_kind \<times> string) option"

definition item_of_delivery :: "delivery \<Rightarrow> view_item" where
  "item_of_delivery m = \<lparr>vi_target = d_target m, vi_messageId = d_messageId m,
     vi_senderKind = d_senderKind m, vi_senderHandle = d_senderHandle m\<rparr>"

definition item_of_recovery :: "recovery_message \<Rightarrow> view_item" where
  "item_of_recovery m = \<lparr>vi_target = Some (r_target m), vi_messageId = r_messageId m,
     vi_senderKind = Some (r_senderKind m), vi_senderHandle = Some (r_senderHandle m)\<rparr>"

definition row_for :: "string \<Rightarrow> (string, view_row) js_map \<Rightarrow> view_row" where
  "row_for target rows = get_or rows target
     \<lparr>vr_target = target, vr_newIds = [], vr_heldIds = [], vr_latestSender = None\<rparr>"

definition note_sender :: "view_item \<Rightarrow> view_row \<Rightarrow> view_row" where
  "note_sender i row =
     (case printableSender (vi_senderKind i) (vi_senderHandle i) of
        None \<Rightarrow> row
      | Some sender \<Rightarrow> row\<lparr>vr_latestSender := Some sender\<rparr>)"

text \<open>The target of an item's line: an absent or empty one has no line.\<close>

definition line_target :: "view_item \<Rightarrow> string option" where
  "line_target i = (case vi_target i of None \<Rightarrow> None | Some t \<Rightarrow> if t = '''' then None else Some t)"

definition add_new :: "view_item \<Rightarrow> (string, view_row) js_map \<times> string list \<Rightarrow> (string, view_row) js_map \<times> string list" where
  "add_new i = (\<lambda>(rows, counted).
     case line_target i of None \<Rightarrow> (rows, counted)
     | Some t \<Rightarrow>
         (let row = row_for t rows
          in (map_set rows t (note_sender i (row\<lparr>vr_newIds := set_add (vi_messageId i) (vr_newIds row)\<rparr>)),
              set_add (vi_messageId i) counted)))"

definition add_held ::
  "string list \<Rightarrow> view_item \<Rightarrow> (string, view_row) js_map \<times> string list \<Rightarrow> (string, view_row) js_map \<times> string list"
where
  "add_held announcedIds i = (\<lambda>(rows, counted).
     case line_target i of None \<Rightarrow> (rows, counted)
     | Some t \<Rightarrow>
         if vi_messageId i \<in> set announcedIds then (rows, counted)
         else (let row = row_for t rows
           in (map_set rows t (note_sender i (row\<lparr>vr_heldIds := set_add (vi_messageId i) (vr_heldIds row)\<rparr>)),
               set_add (vi_messageId i) counted)))"

definition localViewRows :: "view_item list \<Rightarrow> view_item list \<Rightarrow> view_row list \<times> string list" where
  "localViewRows announced queued =
     (let (rows, counted) = fold (add_held (map vi_messageId announced)) queued
        (fold add_new announced ([], []))
      in (map snd rows, counted))"

subsection \<open>Text\<close>

definition message_count :: "nat \<Rightarrow> string" where
  "message_count n = digits_of n @ '' message'' @ (if n = 1 then '''' else ''s'')"

definition renderLocalViewRow :: "view_row \<Rightarrow> string" where
  "renderLocalViewRow row =
     vr_target row @ ''  '' @ join ('' '' @ [CHR 0xB7] @ '' '')
       ((if vr_newIds row \<noteq> [] then [''new: '' @ message_count (length (vr_newIds row))] else []) @
        (if vr_heldIds row \<noteq> [] then [''held: '' @ message_count (length (vr_heldIds row))] else []) @
        (case vr_latestSender row of None \<Rightarrow> []
         | Some (kind, handle) \<Rightarrow> [''latest sender '' @ renderMessageSender kind handle]))"

definition renderLocalViewRows :: "view_row list \<Rightarrow> string list" where
  "renderLocalViewRows rows = map renderLocalViewRow rows"

definition INBOX_DRAIN_HINT :: string where
  "INBOX_DRAIN_HINT = ''Drain each listed target with `coforge message check --target <target>`, or inspect with `coforge message read --target <target>`. Either may return nothing, because a message can already have been read.''"

definition withMemoryReminder :: "string option \<Rightarrow> string \<Rightarrow> string" where
  "withMemoryReminder reminder notice =
     (case reminder of None \<Rightarrow> notice
      | Some r \<Rightarrow> if r = '''' then notice else notice @ newline @ newline @ r)"

definition inbox_notice :: "string \<Rightarrow> nat \<Rightarrow> string list \<Rightarrow> string" where
  "inbox_notice title n rows =
     ''['' @ title @ '':'' @ newline @ ''Inbox update: '' @ message_count n @
     '' delivered or held for you'' @ newline @ join newline rows @ newline @ INBOX_DRAIN_HINT @ '']''"

text \<open>The notice \<open>#notify\<close> writes for a batch while these deliveries are queued.\<close>

definition live_notice :: "delivery list \<Rightarrow> delivery list \<Rightarrow> string" where
  "live_notice announced queued =
     inbox_notice ''CoForge inbox notice'' (countDistinctMessages (announced @ queued))
       (renderLocalViewRows (fst (localViewRows (map item_of_delivery announced) (map item_of_delivery queued))))"

subsection \<open>The headline is the sum of the lines\<close>

definition row_total :: "view_row \<Rightarrow> nat" where
  "row_total row = length (vr_newIds row) + length (vr_heldIds row)"

definition ids_at :: "view_item list \<Rightarrow> string \<Rightarrow> string set" where
  "ids_at items t = {vi_messageId i | i. i \<in> set items \<and> line_target i = Some t}"

definition rows_ok :: "(string, view_row) js_map \<Rightarrow> bool" where
  "rows_ok rows \<longleftrightarrow> wf_map rows \<and>
     (\<forall>t row. map_get rows t = Some row \<longrightarrow> distinct (vr_newIds row) \<and> distinct (vr_heldIds row))"

lemma row_for_get: "map_get rows t = Some row \<Longrightarrow> row_for t rows = row"
  by (simp add: row_for_def get_or_def)

lemma row_for_none: "map_get rows t = None \<Longrightarrow> vr_newIds (row_for t rows) = [] \<and> vr_heldIds (row_for t rows) = []"
  by (simp add: row_for_def get_or_def)

lemma note_sender_ids [simp]:
  "vr_newIds (note_sender i row) = vr_newIds row" "vr_heldIds (note_sender i row) = vr_heldIds row"
  by (simp_all add: note_sender_def split: option.split)

lemma row_for_set: "row_for u (map_set rows t row) = (if u = t then row else row_for u rows)"
  by (simp add: row_for_def)

lemma rows_ok_distinct:
  assumes "rows_ok rows"
  shows "distinct (vr_newIds (row_for t rows))" "distinct (vr_heldIds (row_for t rows))"
proof -
  show "distinct (vr_newIds (row_for t rows))" using assms row_for_none [of rows t]
    by (cases "map_get rows t") (auto simp: rows_ok_def row_for_get)
  show "distinct (vr_heldIds (row_for t rows))" using assms row_for_none [of rows t]
    by (cases "map_get rows t") (auto simp: rows_ok_def row_for_get)
qed

lemma rows_ok_set:
  assumes "rows_ok rows" "distinct (vr_newIds row)" "distinct (vr_heldIds row)"
  shows "rows_ok (map_set rows t row)"
  using assms by (auto simp: rows_ok_def)

lemma add_new_step:
  assumes "rows_ok (fst p)"
  shows "rows_ok (fst (add_new i p))"
    "set (vr_newIds (row_for t (fst (add_new i p)))) = set (vr_newIds (row_for t (fst p))) \<union> ids_at [i] t"
    "vr_heldIds (row_for t (fst (add_new i p))) = vr_heldIds (row_for t (fst p))"
    "t \<in> set (map_keys (fst (add_new i p))) \<longleftrightarrow> t \<in> set (map_keys (fst p)) \<or> ids_at [i] t \<noteq> {}"
  using rows_ok_distinct [OF assms] assms
  by (auto simp: add_new_def case_prod_unfold Let_def ids_at_def row_for_set rows_ok_set dom_update
      simp flip: dom_map_get split: option.split)

lemma ids_at_Cons: "ids_at (i # is) t = ids_at [i] t \<union> ids_at is t"
  by (auto simp: ids_at_def)

lemma add_new_fold:
  assumes "rows_ok (fst p)"
  shows "rows_ok (fst (fold add_new is p)) \<and>
    set (vr_newIds (row_for t (fst (fold add_new is p)))) = set (vr_newIds (row_for t (fst p))) \<union> ids_at is t \<and>
    vr_heldIds (row_for t (fst (fold add_new is p))) = vr_heldIds (row_for t (fst p)) \<and>
    (t \<in> set (map_keys (fst (fold add_new is p))) \<longleftrightarrow> t \<in> set (map_keys (fst p)) \<or> ids_at is t \<noteq> {})"
  using assms
proof (induction "is" arbitrary: p)
  case Nil
  then show ?case by (simp add: ids_at_def)
next
  case (Cons i "is")
  note step = add_new_step [OF Cons.prems, where i = i]
  show ?case using Cons.IH [OF step(1)] step(2-4) [where t = t] unfolding ids_at_Cons [of i "is"] by auto
qed

lemma add_held_step:
  assumes "rows_ok (fst p)"
  shows "rows_ok (fst (add_held as i p))"
    "set (vr_heldIds (row_for t (fst (add_held as i p)))) =
       set (vr_heldIds (row_for t (fst p))) \<union> (ids_at [i] t - set as)"
    "vr_newIds (row_for t (fst (add_held as i p))) = vr_newIds (row_for t (fst p))"
    "t \<in> set (map_keys (fst (add_held as i p))) \<longleftrightarrow> t \<in> set (map_keys (fst p)) \<or> ids_at [i] t - set as \<noteq> {}"
  using rows_ok_distinct [OF assms] assms
  by (auto simp: add_held_def case_prod_unfold Let_def ids_at_def row_for_set rows_ok_set dom_update
      simp flip: dom_map_get split: option.split)

lemma add_held_fold:
  assumes "rows_ok (fst p)"
  shows "rows_ok (fst (fold (add_held as) is p)) \<and>
    set (vr_heldIds (row_for t (fst (fold (add_held as) is p)))) =
      set (vr_heldIds (row_for t (fst p))) \<union> (ids_at is t - set as) \<and>
    vr_newIds (row_for t (fst (fold (add_held as) is p))) = vr_newIds (row_for t (fst p)) \<and>
    (t \<in> set (map_keys (fst (fold (add_held as) is p))) \<longleftrightarrow>
       t \<in> set (map_keys (fst p)) \<or> ids_at is t - set as \<noteq> {})"
  using assms
proof (induction "is" arbitrary: p)
  case Nil
  then show ?case by (simp add: ids_at_def)
next
  case (Cons i "is")
  note step = add_held_step [OF Cons.prems, where as = as and i = i]
  show ?case using Cons.IH [OF step(1)] step(2-4) [where t = t] unfolding ids_at_Cons [of i "is"] by auto
qed

text \<open>The lines of a notice, target by target.\<close>

lemma localViewRows_lines:
  obtains rows where "fst (localViewRows announced queued) = map snd rows" "rows_ok rows"
    "\<And>t. set (vr_newIds (row_for t rows)) = ids_at announced t"
    "\<And>t. set (vr_heldIds (row_for t rows)) = ids_at queued t - set (map vi_messageId announced)"
    "\<And>t. t \<in> set (map_keys rows) \<longleftrightarrow>
       ids_at announced t \<noteq> {} \<or> ids_at queued t - set (map vi_messageId announced) \<noteq> {}"
proof
  let ?p = "fold add_new announced ([], [])" and ?as = "map vi_messageId announced"
  let ?rows = "fst (fold (add_held ?as) queued ?p)"
  have "rows_ok (fst ([], []) :: (string, view_row) js_map)" by (simp add: rows_ok_def)
  note new = add_new_fold [OF this, of announced]
  note held = add_held_fold [OF conjunct1 [OF new], of ?as queued]
  show "fst (localViewRows announced queued) = map snd ?rows"
    by (simp add: localViewRows_def case_prod_unfold Let_def)
  show "rows_ok ?rows" using held by blast
  show "set (vr_newIds (row_for t ?rows)) = ids_at announced t" for t
    using new [of t] held [of t] by (simp add: row_for_def get_or_def)
  show "set (vr_heldIds (row_for t ?rows)) = ids_at queued t - set ?as" for t
    using new [of t] held [of t] by (simp add: row_for_def get_or_def)
  show "t \<in> set (map_keys ?rows) \<longleftrightarrow> ids_at announced t \<noteq> {} \<or> ids_at queued t - set ?as \<noteq> {}" for t
    using new [of t] held [of t] by simp
qed

lemma sum_rows:
  assumes "wf_map rows"
  shows "sum_list (map row_total (map snd rows)) = (\<Sum>t \<in> set (map_keys rows). row_total (row_for t rows))"
proof -
  have "map row_total (map snd rows) = map (\<lambda>t. row_total (row_for t rows)) (map_keys rows)"
    using assms by (auto simp: wf_map_def row_for_def get_or_def)
  then show ?thesis using assms by (simp only: wf_map_def sum_list_distinct_conv_sum_set)
qed

text \<open>A message has one target.\<close>

definition one_target :: "delivery list \<Rightarrow> bool" where
  "one_target ds \<longleftrightarrow> (\<forall>m \<in> set ds. \<forall>m' \<in> set ds. d_messageId m = d_messageId m' \<longrightarrow> d_target m = d_target m') \<and>
     (\<forall>m \<in> set ds. d_target m \<noteq> None \<and> d_target m \<noteq> Some '''')"

lemma one_targetD:
  "one_target ds \<Longrightarrow> m \<in> set ds \<Longrightarrow> m' \<in> set ds \<Longrightarrow> d_messageId m = d_messageId m' \<Longrightarrow> d_target m = d_target m'"
  unfolding one_target_def by blast

lemma ids_at_deliveries:
  "x \<in> ids_at (map item_of_delivery ds) t \<longleftrightarrow>
     (\<exists>m \<in> set ds. d_messageId m = x \<and> d_target m = Some t \<and> t \<noteq> '''')"
proof -
  have "line_target (item_of_delivery m) = Some t \<longleftrightarrow> d_target m = Some t \<and> t \<noteq> ''''" for m
    by (auto simp: line_target_def item_of_delivery_def split: option.splits if_splits)
  moreover have "vi_messageId (item_of_delivery m) = d_messageId m" for m by (simp add: item_of_delivery_def)
  moreover have "ids_at (map item_of_delivery ds) t =
      {vi_messageId (item_of_delivery m) | m. m \<in> set ds \<and> line_target (item_of_delivery m) = Some t}"
    unfolding ids_at_def set_map by blast
  ultimately show ?thesis by auto
qed

lemma ids_at_disjoint:
  assumes "one_target ds" "t \<noteq> u"
  shows "ids_at (map item_of_delivery ds) t \<inter> ids_at (map item_of_delivery ds) u = {}"
proof -
  have False if "x \<in> ids_at (map item_of_delivery ds) t" "x \<in> ids_at (map item_of_delivery ds) u" for x
  proof -
    from that obtain m m' where "m \<in> set ds" "m' \<in> set ds" "d_messageId m = x" "d_messageId m' = x"
      "d_target m = Some t" "d_target m' = Some u" unfolding ids_at_deliveries by blast
    with assms show False unfolding one_target_def by (metis option.inject)
  qed
  then show ?thesis by blast
qed

lemma finite_ids_at [simp]: "finite (ids_at items t)"
proof -
  have "ids_at items t \<subseteq> vi_messageId ` set items" by (auto simp: ids_at_def)
  then show ?thesis by (rule finite_subset) simp
qed

lemma ids_at_append: "ids_at (xs @ ys) t = ids_at xs t \<union> ids_at ys t"
  by (auto simp: ids_at_def)

text \<open>A target's messages are the announced ones and the held ones no notice announces.\<close>

lemma ids_at_split:
  assumes "one_target (announced @ queued)"
  shows "ids_at (map item_of_delivery (announced @ queued)) t = ids_at (map item_of_delivery announced) t \<union>
    (ids_at (map item_of_delivery queued) t - set (map vi_messageId (map item_of_delivery announced)))"
proof -
  have as: "set (map vi_messageId (map item_of_delivery announced)) = d_messageId ` set announced"
    by (auto simp: item_of_delivery_def)
  have "x \<in> ids_at (map item_of_delivery announced) t"
    if x: "x \<in> ids_at (map item_of_delivery queued) t" "x \<in> d_messageId ` set announced" for x
  proof -
    from x(2) obtain m where m: "m \<in> set announced" "d_messageId m = x" by auto
    from x(1) obtain m' where m': "m' \<in> set queued" "d_messageId m' = x" "d_target m' = Some t" "t \<noteq> ''''"
      unfolding ids_at_deliveries by blast
    from m m' have "d_target m = d_target m'" by (intro one_targetD [OF assms]) simp_all
    with m m'(3,4) show ?thesis unfolding ids_at_deliveries by metis
  qed
  then show ?thesis unfolding as map_append ids_at_append by blast
qed

lemma ids_at_all:
  assumes "one_target ds"
  shows "(\<Union>t. ids_at (map item_of_delivery ds) t) = d_messageId ` set ds"
proof -
  have "d_messageId m \<in> (\<Union>t. ids_at (map item_of_delivery ds) t)" if "m \<in> set ds" for m
  proof -
    from assms that obtain t where "d_target m = Some t" "t \<noteq> ''''" unfolding one_target_def by blast
    with that have "d_messageId m \<in> ids_at (map item_of_delivery ds) t" unfolding ids_at_deliveries by blast
    then show ?thesis by blast
  qed
  moreover have "ids_at (map item_of_delivery ds) t \<subseteq> d_messageId ` set ds" for t
    by (auto simp: ids_at_deliveries simp del: set_map)
  ultimately show ?thesis by blast
qed

subsection \<open>Properties\<close>

text \<open>
  The headline of a notice is the sum of its lines: the number of distinct messages announced or
  held is the number of new messages plus the number of held ones, over all the lines, when every
  delivery has its message's one target.
\<close>

theorem headline_is_sum_of_lines:
  assumes "one_target (announced @ queued)"
  shows "countDistinctMessages (announced @ queued) =
    sum_list (map row_total (fst (localViewRows (map item_of_delivery announced) (map item_of_delivery queued))))"
proof -
  let ?A = "map item_of_delivery announced" and ?Q = "map item_of_delivery queued"
  let ?held = "\<lambda>t. ids_at ?Q t - set (map vi_messageId ?A)"
  let ?ids = "ids_at (map item_of_delivery (announced @ queued))"
  obtain rows where rows: "fst (localViewRows ?A ?Q) = map snd rows" "rows_ok rows"
    "\<And>t. set (vr_newIds (row_for t rows)) = ids_at ?A t"
    "\<And>t. set (vr_heldIds (row_for t rows)) = ?held t"
    "\<And>t. t \<in> set (map_keys rows) \<longleftrightarrow> ids_at ?A t \<noteq> {} \<or> ?held t \<noteq> {}"
    using localViewRows_lines [of ?A ?Q] by blast
  note split = ids_at_split [OF assms]
  have row: "row_total (row_for t rows) = card (?ids t)" for t
  proof -
    have "ids_at ?A t \<inter> ?held t = {}" by (auto simp: ids_at_def)
    then have "card (?ids t) = card (ids_at ?A t) + card (?held t)"
      unfolding split by (rule card_Un_disjoint [OF finite_ids_at finite_Diff [OF finite_ids_at]])
    then have "card (?ids t) = card (set (vr_newIds (row_for t rows))) + card (set (vr_heldIds (row_for t rows)))"
      by (simp only: rows(3,4))
    then show ?thesis using rows_ok_distinct [OF rows(2)] by (simp add: row_total_def distinct_card)
  qed
  have "sum_list (map row_total (map snd rows)) = (\<Sum>t \<in> set (map_keys rows). card (?ids t))"
    using sum_rows rows(2) row by (simp add: rows_ok_def)
  also have "\<dots> = card (\<Union>t \<in> set (map_keys rows). ?ids t)"
    using ids_at_disjoint [OF assms] by (intro card_UN_disjoint [symmetric]) auto
  also have "(\<Union>t \<in> set (map_keys rows). ?ids t) = (\<Union>t. ?ids t)"
    unfolding split using rows(5) by blast
  also have "\<dots> = d_messageId ` set (announced @ queued)"
    by (rule ids_at_all [OF assms])
  finally show ?thesis using rows(1) by (simp add: countDistinctMessages_card)
qed

theorem headline_is_sum_of_lines_witness:
  "countDistinctMessages ([sample_delivery ''d1'' ''m1'' 1] @ [sample_delivery ''d2'' ''m2'' 2]) =
   sum_list (map row_total (fst (localViewRows (map item_of_delivery [sample_delivery ''d1'' ''m1'' 1])
     (map item_of_delivery [sample_delivery ''d2'' ''m2'' 2]))))"
  by (rule headline_is_sum_of_lines) (simp add: one_target_def sample_delivery_def)

end
