(* ===== verification/AttentionDelivery.thy ===== *)
theory AttentionDelivery
  imports AttentionProperties DeliveryQueue InboxNotice
begin

text \<open>
  How one Agent's deliveries become notices and acknowledgements: \<open>receive\<close>, \<open>announce\<close>, \<open>flush\<close>,
  \<open>recover\<close>, \<open>#notify\<close>, \<open>#remember\<close> and \<open>#generation\<close> of
  \<open>packages/daemon/src/daemon-runtime/agent-message-attention-index.ts\<close>, as handlers split where
  the code awaits. The state is one Agent's part of the index with the delivery queue, the durable
  store, the notices handed to the session whose promise has not settled, and the continuations
  that wait for one. Settling a notice runs its \<open>then\<close> and \<open>finally\<close> callbacks as one step; the
  continuations of the handlers run afterwards, in any order, with anything in between. A rejected
  notice rejects its handlers, which then do nothing more. \<open>hb_acks\<close>, \<open>hb_notices\<close>, \<open>hb_accepted\<close>
  and \<open>hb_skipped\<close> are history: the acknowledgements and notices sent, the delivery ids of the
  notices the session accepted, and those a flush found consumed.
\<close>

subsection \<open>State\<close>

definition REMEMBERED_DELIVERIES :: nat where
  "REMEMBERED_DELIVERIES = 4096"

text \<open>\<open>g_id\<close> stands for the identity of the generation object.\<close>

record generation =
  g_id :: nat
  g_seenDeliveryIds :: "string list"
  g_seenMessageIds :: "string list"
  g_notified :: "string list"
  g_attempts :: "(string, nat) js_map"

record attempt =
  at_deliveryId :: "string option"
  at_generation :: nat
  at_announced :: "string list"

datatype continuation =
    AfterReceive delivery nat
  | AfterAnnounce nat
  | AfterFlush "delivery list" nat
  | AfterRecover "(string, message_attention) js_map" "recovery_message list" nat

record hub =
  hb_workspaceId :: string
  hb_agentId :: string
  hb_index :: agent_index
  hb_store :: "cursor_files option"
  hb_generation :: "generation option"
  hb_queue :: delivery_queue
  hb_session :: bool
  hb_nextId :: nat
  hb_inflight :: "(nat, attempt) js_map"
  hb_waiting :: "(nat \<times> continuation) list"
  hb_runnable :: "continuation list"
  hb_acks :: "delivery list"
  hb_notices :: "(string \<times> string list) list"
  hb_accepted :: "string list"
  hb_skipped :: "string list"
  hb_received :: nat

datatype handler_error =
    OtherWorkspace
  | InvalidScope
  | InvalidRecoveryMessage
  | CursorFailed cursor_error
  | NoSession
  | TargetMissing

datatype handler_result =
    Failed handler_error
  | Acked
  | InCustody
  | Awaiting nat
  | Told
  | Gone
  | Nothing

subsection \<open>Generations\<close>

definition fresh_generation :: "nat \<Rightarrow> generation" where
  "fresh_generation n = \<lparr>g_id = n, g_seenDeliveryIds = [], g_seenMessageIds = [], g_notified = [], g_attempts = []\<rparr>"

definition generation_of :: "hub \<Rightarrow> generation \<times> hub" where
  "generation_of h =
     (case hb_generation h of
        Some g \<Rightarrow> (g, h)
      | None \<Rightarrow> (let g = fresh_generation (hb_nextId h)
                in (g, h\<lparr>hb_generation := Some g, hb_nextId := Suc (hb_nextId h)\<rparr>)))"

definition is_current :: "hub \<Rightarrow> nat \<Rightarrow> bool" where
  "is_current h n = (case hb_generation h of None \<Rightarrow> False | Some g \<Rightarrow> g_id g = n)"

definition on_generation :: "(generation \<Rightarrow> generation) \<Rightarrow> hub \<Rightarrow> hub" where
  "on_generation f h = h\<lparr>hb_generation := map_option f (hb_generation h)\<rparr>"

definition remember :: "string \<Rightarrow> string option \<Rightarrow> generation \<Rightarrow> generation" where
  "remember deliveryId messageId g =
     (let g1 = (case g_seenDeliveryIds g of
          oldest # rest \<Rightarrow>
            if length (g_seenDeliveryIds g) \<ge> REMEMBERED_DELIVERIES
            then g\<lparr>g_seenDeliveryIds := rest, g_notified := set_del oldest (g_notified g),
              g_attempts := map_delete (g_attempts g) oldest\<rparr>
            else g
        | [] \<Rightarrow> g);
          g2 = g1\<lparr>g_seenDeliveryIds := set_add deliveryId (g_seenDeliveryIds g1)\<rparr>
      in case messageId of
          None \<Rightarrow> g2
        | Some mid \<Rightarrow> g2\<lparr>g_seenMessageIds := set_add mid
            (if length (g_seenMessageIds g2) \<ge> REMEMBERED_DELIVERIES then tl (g_seenMessageIds g2)
             else g_seenMessageIds g2)\<rparr>)"

subsection \<open>Acknowledging\<close>

definition send_ack :: "delivery \<Rightarrow> hub \<Rightarrow> hub" where
  "send_ack m h = h\<lparr>hb_acks := hb_acks h @ [m]\<rparr>"

definition acknowledgeCustody :: "delivery \<Rightarrow> hub \<Rightarrow> hub" where
  "acknowledgeCustody m h = send_ack m h"

definition take_custody :: "delivery \<Rightarrow> hub \<Rightarrow> hub" where
  "take_custody m h = acknowledgeCustody m (h\<lparr>hb_queue := q_enqueue (hb_queue h) (d_agentId m) m\<rparr>)"

subsection \<open>Notices\<close>

definition tracked_ids :: "delivery list \<Rightarrow> string list" where
  "tracked_ids ds = map d_deliveryId (filter isTrackedMention ds)"

text \<open>\<open>#notify\<close>: the promise is registered under the message's delivery id.\<close>

definition notify :: "delivery \<Rightarrow> delivery list \<Rightarrow> hub \<Rightarrow> (handler_error + nat) \<times> hub" where
  "notify m announced h0 =
     (let (g, h) = generation_of h0
      in if \<not> hb_session h then (Inl NoSession, h)
         else if target_of m = '''' then (Inl TargetMissing, h)
         else let busy = q_markBusy (hb_queue h) (d_agentId m);
                  notice = withMemoryReminder (ai_memoryReminder (hb_index h))
                    (live_notice announced (q_pending busy (d_agentId m)));
                  n = hb_nextId h
              in (Inr n, on_generation (\<lambda>g. g\<lparr>g_attempts := map_set (g_attempts g) (d_deliveryId m) n\<rparr>)
                   (h\<lparr>hb_queue := busy,
                      hb_index := (hb_index h)\<lparr>ai_memoryReminder := None\<rparr>,
                      hb_nextId := Suc n,
                      hb_inflight := map_set (hb_inflight h) n
                        \<lparr>at_deliveryId = Some (d_deliveryId m), at_generation = g_id g,
                         at_announced = map d_deliveryId announced\<rparr>,
                      hb_notices := hb_notices h @ [(notice, tracked_ids announced)]\<rparr>)))"

definition wait_for :: "nat \<Rightarrow> continuation \<Rightarrow> hub \<Rightarrow> hub" where
  "wait_for n c h = h\<lparr>hb_waiting := hb_waiting h @ [(n, c)]\<rparr>"

text \<open>Start a notice and wait for it, or fail at once.\<close>

definition notify_then ::
  "delivery \<Rightarrow> delivery list \<Rightarrow> (nat \<Rightarrow> continuation) \<Rightarrow> hub \<Rightarrow> handler_result \<times> hub"
where
  "notify_then m announced k h0 =
     (let (g, h) = generation_of h0
      in case notify m announced h of
          (Inl e, h') \<Rightarrow> (Failed e, h')
        | (Inr n, h') \<Rightarrow> (Awaiting n, wait_for n (k (g_id g)) h'))"

text \<open>An attempt's promise settles: \<open>then\<close> when the session accepted it, \<open>finally\<close> in any case.\<close>

definition settle_attempt :: "nat \<Rightarrow> bool \<Rightarrow> hub \<Rightarrow> hub" where
  "settle_attempt n accepted h =
     (case map_get (hb_inflight h) n of
        None \<Rightarrow> h
      | Some att \<Rightarrow>
          (let h1 = h\<lparr>hb_inflight := map_delete (hb_inflight h) n,
                 hb_accepted := hb_accepted h @ (if accepted then at_announced att else [])\<rparr>;
               h2 = (case at_deliveryId att of
                   None \<Rightarrow> h1
                 | Some did \<Rightarrow>
                     if is_current h1 (at_generation att)
                     then on_generation (\<lambda>g. g\<lparr>g_notified :=
                              (if accepted then set_add did (g_notified g) else g_notified g),
                            g_attempts := map_delete (g_attempts g) did\<rparr>)
                          (h1\<lparr>hb_received := hb_received h1 + (if accepted then 1 else 0)\<rparr>)
                     else h1)
           in h2\<lparr>hb_runnable := hb_runnable h2 @
                 (if accepted then map snd (filter (\<lambda>(k, c). k = n) (hb_waiting h2)) else []),
               hb_waiting := filter (\<lambda>(k, c). k \<noteq> n) (hb_waiting h2)\<rparr>))"

subsection \<open>Receiving\<close>

definition consumed :: "delivery \<Rightarrow> hub \<Rightarrow> (cursor_error + bool) \<times> hub" where
  "consumed m h =
     (let (r, store, ix) = hasSeen (d_agentId m) (target_of m) (d_sequence m) (hb_store h, hb_index h)
      in (r, h\<lparr>hb_store := store, hb_index := ix\<rparr>))"

definition attend :: "delivery \<Rightarrow> int \<Rightarrow> hub \<Rightarrow> hub" where
  "attend m now h = h\<lparr>hb_index := recordAttention m now (hb_index h)\<rparr>"

definition receive :: "delivery \<Rightarrow> int \<Rightarrow> hub \<Rightarrow> handler_result \<times> hub" where
  "receive m now h0 =
     (if d_workspaceId m \<noteq> hb_workspaceId h0 then (Failed OtherWorkspace, h0)
      else if \<not> hasDeliveryScope m then (Failed InvalidScope, h0)
      else let (g, h) = generation_of h0
      in if d_deliveryId m \<in> set (g_seenDeliveryIds g)
         then if d_deliveryId m \<in> set (g_notified g) then (Acked, send_ack m h)
              else if q_shouldHold (hb_queue h) (d_agentId m) then (InCustody, take_custody m h)
              else (case map_get (g_attempts g) (d_deliveryId m) of
                      Some n \<Rightarrow> (Awaiting n, wait_for n (AfterReceive m (g_id g)) h)
                    | None \<Rightarrow> notify_then m [m] (AfterReceive m) h)
         else let h1 = on_generation (remember (d_deliveryId m) None) h
              in (case consumed m h1 of
                    (Inl e, h2) \<Rightarrow> (Failed (CursorFailed e), h2)
                  | (Inr True, h2) \<Rightarrow> (Acked, send_ack m h2)
                  | (Inr False, h2) \<Rightarrow>
                      (let h3 = attend m now h2
                       in if q_shouldHold (hb_queue h3) (d_agentId m) then (InCustody, take_custody m h3)
                          else notify_then m [m] (AfterReceive m) h3)))"

definition announce :: "delivery \<Rightarrow> int \<Rightarrow> hub \<Rightarrow> handler_result \<times> hub" where
  "announce m now h0 =
     (if d_workspaceId m \<noteq> hb_workspaceId h0 then (Failed OtherWorkspace, h0)
      else if \<not> hasDeliveryScope m then (Failed InvalidScope, h0)
      else let (g, h) = generation_of h0
      in if d_deliveryId m \<notin> set (g_seenDeliveryIds g)
         then notify_then m [m] AfterAnnounce (attend m now (on_generation (remember (d_deliveryId m) None) h))
         else if d_deliveryId m \<notin> set (g_notified g)
         then (case map_get (g_attempts g) (d_deliveryId m) of
                 Some n \<Rightarrow> (Awaiting n, wait_for n (AfterAnnounce (g_id g)) h)
               | None \<Rightarrow> notify_then m [m] AfterAnnounce h)
         else (Told, h))"

definition wasNotified :: "delivery \<Rightarrow> hub \<Rightarrow> bool" where
  "wasNotified m h =
     (case hb_generation h of None \<Rightarrow> False | Some g \<Rightarrow> d_deliveryId m \<in> set (g_notified g))"

subsection \<open>Flushing\<close>

text \<open>The loop of \<open>flush\<close>: what is settled and what is announced.\<close>

fun flush_scan ::
  "int \<Rightarrow> delivery list \<Rightarrow> delivery list \<Rightarrow> delivery list \<Rightarrow> hub \<Rightarrow>
   (handler_error + delivery list \<times> delivery list) \<times> hub"
where
  "flush_scan now [] settled announced h = (Inr (settled, announced), h)"
| "flush_scan now (m # held) settled announced h =
     (if \<not> hasDeliveryScope m then flush_scan now held settled announced h
      else if (case hb_generation h of None \<Rightarrow> False | Some g \<Rightarrow> d_deliveryId m \<in> set (g_seenDeliveryIds g))
      then flush_scan now held (settled @ [m]) (announced @ [m]) h
      else let h1 = on_generation (remember (d_deliveryId m) None) h
           in (case consumed m h1 of
                 (Inl e, h2) \<Rightarrow> (Inl (CursorFailed e), h2)
               | (Inr True, h2) \<Rightarrow>
                   flush_scan now held (settled @ [m]) announced
                     (h2\<lparr>hb_skipped := hb_skipped h2 @ [d_deliveryId m]\<rparr>)
               | (Inr False, h2) \<Rightarrow>
                   flush_scan now held (settled @ [m]) (announced @ [m]) (attend m now h2)))"

definition mark_notified :: "delivery list \<Rightarrow> hub \<Rightarrow> hub" where
  "mark_notified settled =
     on_generation (\<lambda>g. g\<lparr>g_notified := fold (\<lambda>m. set_add (d_deliveryId m)) settled (g_notified g)\<rparr>)"

definition flush :: "delivery list \<Rightarrow> int \<Rightarrow> hub \<Rightarrow> handler_result \<times> hub" where
  "flush held now h0 =
     (if held = [] then (Nothing, h0)
      else let (g, h) = generation_of h0
      in case flush_scan now held [] [] h of
          (Inl e, h1) \<Rightarrow> (Failed e, h1)
        | (Inr (settled, announced), h1) \<Rightarrow>
            if announced = [] then (Nothing, mark_notified settled h1)
            else notify_then (last announced) announced (AfterFlush settled) h1)"

subsection \<open>Recovery after a restart\<close>

definition recovery_valid :: "recovery_message \<Rightarrow> bool" where
  "recovery_valid m \<longleftrightarrow>
     r_messageId m \<noteq> '''' \<and> r_deliveryId m \<noteq> '''' \<and> r_conversationId m \<noteq> '''' \<and> r_body m \<noteq> '''' \<and>
     addressable (r_target m) \<and> r_sequence m \<ge> 1 \<and> isValidMessageSender (r_senderKind m) (r_senderHandle m)"

definition recovered_attention :: "message_attention option \<Rightarrow> recovery_message \<Rightarrow> message_attention" where
  "recovered_attention previous m =
     \<lparr>ma_target = r_target m,
      ma_pendingCount = (case previous of None \<Rightarrow> 0 | Some p \<Rightarrow> ma_pendingCount p) + 1,
      ma_firstPendingSequence =
        min (case previous of None \<Rightarrow> r_sequence m | Some p \<Rightarrow> ma_firstPendingSequence p) (r_sequence m),
      ma_latestSequence = max (case previous of None \<Rightarrow> 0 | Some p \<Rightarrow> ma_latestSequence p) (r_sequence m),
      ma_latestSender = Some (r_senderKind m, r_senderHandle m),
      ma_flags = attention_flags (r_target m) (r_nonMemberMention m) previous\<rparr>"

record recovery_scan =
  rs_byTarget :: "(string, message_attention) js_map"
  rs_supplied :: "string list"
  rs_recovered :: "recovery_message list"

fun recover_scan :: "generation \<Rightarrow> recovery_message list \<Rightarrow> recovery_scan \<Rightarrow> recovery_scan option" where
  "recover_scan g [] s = Some s"
| "recover_scan g (m # ms) s =
     (if \<not> recovery_valid m then None
      else let s1 = s\<lparr>rs_supplied := set_add (r_target m) (rs_supplied s)\<rparr>
           in if r_deliveryId m \<in> set (g_seenDeliveryIds g) \<or> r_messageId m \<in> set (g_seenMessageIds g)
              then recover_scan g ms s1
              else recover_scan g ms (s1\<lparr>rs_recovered := rs_recovered s @ [m],
                rs_byTarget := map_set (rs_byTarget s) (r_target m)
                  (recovered_attention (map_get (rs_byTarget s) (r_target m)) m)\<rparr>))"

fun insert_by :: "('a \<Rightarrow> 'a \<Rightarrow> bool) \<Rightarrow> 'a \<Rightarrow> 'a list \<Rightarrow> 'a list" where
  "insert_by le x [] = [x]"
| "insert_by le x (y # ys) = (if le x y then x # y # ys else y # insert_by le x ys)"

text \<open>
  The messages in the order of their conversations and sequences; \<open>before\<close> stands for
  \<open>localeCompare\<close> on conversation ids.
\<close>

definition recovery_order ::
  "(string \<Rightarrow> string \<Rightarrow> int) \<Rightarrow> recovery_message list \<Rightarrow> recovery_message list"
where
  "recovery_order compare ms =
     foldr (insert_by (\<lambda>l r. let c = compare (r_conversationId l) (r_conversationId r)
        in if c \<noteq> 0 then c \<le> 0 else r_sequence l \<le> r_sequence r)) ms []"

definition recovery_rows :: "recovery_message list \<Rightarrow> (string \<times> nat) list \<Rightarrow> string list" where
  "recovery_rows recovered summaryOnly =
     renderLocalViewRows (fst (localViewRows (map item_of_recovery recovered) [])) @
     map (\<lambda>(target, count). target @ ''  new: '' @ message_count count) summaryOnly"

definition recovery_notice :: "recovery_message list \<Rightarrow> (string \<times> nat) list \<Rightarrow> string" where
  "recovery_notice recovered summaryOnly =
     inbox_notice ''CoForge inbox notice (restart recovery)''
       (length recovered + sum_list (map snd summaryOnly)) (recovery_rows recovered summaryOnly)"

definition recover ::
  "(string \<Rightarrow> string \<Rightarrow> int) \<Rightarrow> recovery_message list \<Rightarrow> (string \<times> nat) list \<Rightarrow> hub \<Rightarrow> handler_result \<times> hub"
where
  "recover compare ms unreadSummary h0 =
     (let (g, h) = generation_of h0
      in if \<not> hb_session h then (Failed NoSession, h)
         else case recover_scan g (recovery_order compare ms)
             \<lparr>rs_byTarget = ai_attention (hb_index h), rs_supplied = [], rs_recovered = []\<rparr> of
           None \<Rightarrow> (Failed InvalidRecoveryMessage, h)
         | Some s \<Rightarrow>
             (let summaryOnly = filter (\<lambda>(t, c). t \<notin> set (rs_supplied s) \<and> addressable t \<and> c > 0) unreadSummary
              in if rs_recovered s = [] \<and> summaryOnly = [] then (Nothing, h)
                 else let notice = withMemoryReminder (ai_memoryReminder (hb_index h))
                        (recovery_notice (rs_recovered s) summaryOnly);
                      n = hb_nextId h
                  in (Awaiting n, wait_for n (AfterRecover (rs_byTarget s) (rs_recovered s) (g_id g))
                       (h\<lparr>hb_queue := q_markBusy (hb_queue h) (hb_agentId h),
                          hb_index := (hb_index h)\<lparr>ai_memoryReminder := None\<rparr>,
                          hb_nextId := Suc n,
                          hb_inflight := map_set (hb_inflight h) n
                            \<lparr>at_deliveryId = None, at_generation = g_id g,
                             at_announced = map r_deliveryId (rs_recovered s)\<rparr>,
                          hb_notices := hb_notices h @ [(notice, [])]\<rparr>))))"

text \<open>One recovered message after the notice was accepted.\<close>

definition settle_recovered :: "recovery_message \<Rightarrow> hub \<Rightarrow> hub" where
  "settle_recovered m h =
     (let ix = recordConversation (r_target m) (r_conversationId m) (hb_index h)
      in on_generation (\<lambda>g. let g' = remember (r_deliveryId m) (Some (r_messageId m)) g
           in g'\<lparr>g_notified := set_add (r_deliveryId m) (g_notified g')\<rparr>)
         (h\<lparr>hb_index := ix\<lparr>ai_pendingSequences := map_set (ai_pendingSequences ix) (r_target m)
           (set_add (r_sequence m) (get_or (ai_pendingSequences ix) (r_target m) []))\<rparr>\<rparr>))"

text \<open>What runs after the awaited notice was accepted.\<close>

fun resume :: "continuation \<Rightarrow> hub \<Rightarrow> handler_result \<times> hub" where
  "resume (AfterReceive m n) h = (if is_current h n then (Acked, send_ack m h) else (Nothing, h))"
| "resume (AfterAnnounce n) h = (if is_current h n then (Told, h) else (Gone, h))"
| "resume (AfterFlush settled n) h =
     (if is_current h n then (Nothing, mark_notified settled h) else (Nothing, h))"
| "resume (AfterRecover byTarget ms n) h =
     (if is_current h n
      then let h1 = fold settle_recovered ms (h\<lparr>hb_index := (hb_index h)\<lparr>ai_attention := byTarget\<rparr>\<rparr>)
           in (Nothing, h1\<lparr>hb_received := hb_received h1 + (if ms = [] then 0 else 1)\<rparr>)
      else (Nothing, h))"

definition forget_agent :: "hub \<Rightarrow> hub" where
  "forget_agent h = h\<lparr>hb_index := clearAgent, hb_generation := None\<rparr>"

subsection \<open>Steps\<close>

definition initial_hub :: "string \<Rightarrow> string \<Rightarrow> cursor_files option \<Rightarrow> hub" where
  "initial_hub workspaceId agentId store = \<lparr>hb_workspaceId = workspaceId, hb_agentId = agentId,
     hb_index = clearAgent, hb_store = store, hb_generation = None, hb_queue = empty_queue,
     hb_session = False, hb_nextId = 0, hb_inflight = [], hb_waiting = [], hb_runnable = [],
     hb_acks = [], hb_notices = [], hb_accepted = [], hb_skipped = [], hb_received = 0\<rparr>"

text \<open>\<open>Attend\<close> is part of a handler, and forgetting an Agent is a step of its own.\<close>

fun public_op :: "index_op \<Rightarrow> bool" where
  "public_op (Attend m r) \<longleftrightarrow> False"
| "public_op ForgetAgent \<longleftrightarrow> False"
| "public_op _ \<longleftrightarrow> True"

inductive hub_step :: "hub \<Rightarrow> hub \<Rightarrow> bool" where
  receive: "hub_step h (snd (receive m now h))" if "d_agentId m = hb_agentId h"
| announce: "hub_step h (snd (announce m now h))" if "d_agentId m = hb_agentId h"
| flush: "hub_step h (snd (flush held now h))" if "\<forall>m \<in> set held. d_agentId m = hb_agentId h"
| recover: "hub_step h (snd (recover compare ms summary h))"
| settle: "hub_step h (settle_attempt n accepted h)"
| resume: "hub_step h (snd (resume c (h\<lparr>hb_runnable := pre @ post\<rparr>)))" if "hb_runnable h = pre @ c # post"
| forget: "hub_step h (forget_agent h)"
| session: "hub_step h (h\<lparr>hb_session := up\<rparr>)"
| index: "hub_step h (h\<lparr>hb_store := store, hb_index := ix\<rparr>)"
    if "public_op oper" "op_targets_ok oper" "index_step (hb_agentId h) (ok, oper) (hb_store h, hb_index h) = (store, ix)"
| queue: "hub_step h (h\<lparr>hb_queue := fst (queue_step (hb_queue h) (hb_agentId h) oper)\<rparr>)"

inductive reachable :: "hub \<Rightarrow> bool" where
  start: "reachable (initial_hub workspaceId agentId store)"
| step: "reachable h \<Longrightarrow> hub_step h h' \<Longrightarrow> reachable h'"

end
