(* ===== verification/DeliveryProperties.thy ===== *)
theory DeliveryProperties
  imports AttentionDelivery
begin

text \<open>
  What the delivery handlers guarantee over every interleaving: an invariant of the generation, the
  notices in flight and the continuations, and the properties of acknowledgements, duplicates,
  custody and forgotten Agents.
\<close>

subsection \<open>The invariant\<close>

definition evidence :: "hub \<Rightarrow> string set" where
  "evidence h = set (hb_accepted h) \<union> set (hb_skipped h)"

lemma evidence_simps [simp]:
  "evidence (h\<lparr>hb_index := ix\<rparr>) = evidence h" "evidence (h\<lparr>hb_store := st\<rparr>) = evidence h"
  "evidence (h\<lparr>hb_generation := g\<rparr>) = evidence h" "evidence (h\<lparr>hb_queue := q\<rparr>) = evidence h"
  "evidence (h\<lparr>hb_session := b\<rparr>) = evidence h" "evidence (h\<lparr>hb_nextId := n\<rparr>) = evidence h"
  "evidence (h\<lparr>hb_inflight := fl\<rparr>) = evidence h" "evidence (h\<lparr>hb_waiting := w\<rparr>) = evidence h"
  "evidence (h\<lparr>hb_runnable := r\<rparr>) = evidence h" "evidence (h\<lparr>hb_acks := acks\<rparr>) = evidence h"
  "evidence (h\<lparr>hb_notices := ns\<rparr>) = evidence h" "evidence (h\<lparr>hb_received := k\<rparr>) = evidence h"
  "evidence (h\<lparr>hb_accepted := hb_accepted h @ xs\<rparr>) = evidence h \<union> set xs"
  "evidence (h\<lparr>hb_skipped := hb_skipped h @ xs\<rparr>) = evidence h \<union> set xs"
  by (auto simp: evidence_def)

fun cont_ids :: "continuation \<Rightarrow> string set" where
  "cont_ids (AfterReceive m n) = {d_deliveryId m}"
| "cont_ids (AfterAnnounce n) = {}"
| "cont_ids (AfterFlush settled n) = d_deliveryId ` set settled"
| "cont_ids (AfterRecover byTarget ms n) = r_deliveryId ` set ms"

definition attempt_for :: "(nat, attempt) js_map \<Rightarrow> generation \<Rightarrow> string \<Rightarrow> nat \<Rightarrow> bool" where
  "attempt_for inflight g did n \<longleftrightarrow>
     (\<exists>att. map_get inflight n = Some att \<and> at_deliveryId att = Some did \<and> at_generation att = g_id g \<and>
        did \<in> set (at_announced att))"

lemma attempt_for_fields [simp]:
  "attempt_for fl (g\<lparr>g_notified := x\<rparr>) d k = attempt_for fl g d k"
  "attempt_for fl (g\<lparr>g_attempts := y\<rparr>) d k = attempt_for fl g d k"
  "attempt_for fl (g\<lparr>g_seenDeliveryIds := x\<rparr>) d k = attempt_for fl g d k"
  "attempt_for fl (g\<lparr>g_seenMessageIds := x\<rparr>) d k = attempt_for fl g d k"
  by (simp_all add: attempt_for_def)

definition gen_ok :: "string set \<Rightarrow> (nat, attempt) js_map \<Rightarrow> nat \<Rightarrow> generation \<Rightarrow> bool" where
  "gen_ok ev inflight nextId g \<longleftrightarrow>
     g_id g < nextId \<and> set (g_notified g) \<subseteq> ev \<and>
     (\<forall>did n. map_get (g_attempts g) did = Some n \<longrightarrow> attempt_for inflight g did n) \<and>
     distinct (g_seenDeliveryIds g) \<and> length (g_seenDeliveryIds g) \<le> REMEMBERED_DELIVERIES \<and>
     length (g_seenMessageIds g) \<le> REMEMBERED_DELIVERIES"

definition inflight_ok :: "(nat, attempt) js_map \<Rightarrow> nat \<Rightarrow> bool" where
  "inflight_ok inflight nextId \<longleftrightarrow>
     (\<forall>n att. map_get inflight n = Some att \<longrightarrow> n < nextId \<and> at_generation att < nextId \<and>
        (\<forall>did. at_deliveryId att = Some did \<longrightarrow> did \<in> set (at_announced att)))"

definition waits_ok :: "string set \<Rightarrow> (nat, attempt) js_map \<Rightarrow> (nat \<times> continuation) list \<Rightarrow> bool" where
  "waits_ok ev inflight waiting \<longleftrightarrow>
     (\<forall>(n, c) \<in> set waiting. \<exists>att. map_get inflight n = Some att \<and> cont_ids c \<subseteq> set (at_announced att) \<union> ev)"

definition hub_inv :: "hub \<Rightarrow> bool" where
  "hub_inv h \<longleftrightarrow>
     (\<forall>g. hb_generation h = Some g \<longrightarrow> gen_ok (evidence h) (hb_inflight h) (hb_nextId h) g) \<and>
     inflight_ok (hb_inflight h) (hb_nextId h) \<and>
     waits_ok (evidence h) (hb_inflight h) (hb_waiting h) \<and>
     (\<forall>c \<in> set (hb_runnable h). cont_ids c \<subseteq> evidence h) \<and> cur_ok (hb_index h)"

named_theorems hub_intros "steps that keep the hub's invariant"

lemma hub_inv_cong:
  assumes "hb_generation h' = hb_generation h" "hb_inflight h' = hb_inflight h" "hb_nextId h' = hb_nextId h"
    "hb_waiting h' = hb_waiting h" "set (hb_runnable h') \<subseteq> set (hb_runnable h)"
    "evidence h' = evidence h" "cur_ok (hb_index h')"
  shows "hub_inv h \<Longrightarrow> hub_inv h'"
  using assms by (auto simp: hub_inv_def)

lemma hub_inv_initial [simp]: "hub_inv (initial_hub w a store)"
  by (simp add: hub_inv_def initial_hub_def inflight_ok_def waits_ok_def)

lemma REMEMBERED_pos: "0 < REMEMBERED_DELIVERIES"
  by (simp add: REMEMBERED_DELIVERIES_def)

lemma gen_ok_mono:
  assumes "gen_ok ev inflight n g" "ev \<subseteq> ev'" "n \<le> n'"
    and "\<And>did k. attempt_for inflight g did k \<Longrightarrow> attempt_for inflight' g did k"
  shows "gen_ok ev' inflight' n' g"
  using assms by (auto simp: gen_ok_def)

lemma generation_of_fields [simp]:
  "hb_index (snd (generation_of h)) = hb_index h" "hb_store (snd (generation_of h)) = hb_store h"
  "hb_queue (snd (generation_of h)) = hb_queue h" "hb_acks (snd (generation_of h)) = hb_acks h"
  "hb_notices (snd (generation_of h)) = hb_notices h" "hb_session (snd (generation_of h)) = hb_session h"
  "hb_inflight (snd (generation_of h)) = hb_inflight h" "hb_waiting (snd (generation_of h)) = hb_waiting h"
  "hb_runnable (snd (generation_of h)) = hb_runnable h" "evidence (snd (generation_of h)) = evidence h"
  "hb_generation (snd (generation_of h)) = Some (fst (generation_of h))"
  "hb_agentId (snd (generation_of h)) = hb_agentId h"
  by (simp_all add: generation_of_def evidence_def Let_def split: option.split)

lemma hub_inv_generation_of [hub_intros]:
  assumes "hub_inv h"
  shows "hub_inv (snd (generation_of h))"
proof (cases "hb_generation h")
  case (Some g)
  with assms show ?thesis by (simp add: generation_of_def)
next
  case None
  have "gen_ok (evidence h) (hb_inflight h) (Suc (hb_nextId h)) (fresh_generation (hb_nextId h))"
    by (simp add: gen_ok_def fresh_generation_def)
  with None assms show ?thesis
    by (auto simp: hub_inv_def generation_of_def Let_def evidence_def inflight_ok_def intro: less_SucI)
qed

lemma on_generation_fields [simp]:
  "hb_index (on_generation f h) = hb_index h" "hb_store (on_generation f h) = hb_store h"
  "hb_queue (on_generation f h) = hb_queue h" "hb_acks (on_generation f h) = hb_acks h"
  "hb_inflight (on_generation f h) = hb_inflight h" "hb_waiting (on_generation f h) = hb_waiting h"
  "hb_runnable (on_generation f h) = hb_runnable h" "hb_nextId (on_generation f h) = hb_nextId h"
  "evidence (on_generation f h) = evidence h" "hb_notices (on_generation f h) = hb_notices h"
  "hb_generation (on_generation f h) = map_option f (hb_generation h)" "hb_agentId (on_generation f h) = hb_agentId h"
  by (simp_all add: on_generation_def evidence_def)

lemma hub_inv_on_generation:
  assumes "hub_inv h"
    and "\<And>g. hb_generation h = Some g \<Longrightarrow> gen_ok (evidence h) (hb_inflight h) (hb_nextId h) g \<Longrightarrow>
      gen_ok (evidence h) (hb_inflight h) (hb_nextId h) (f g)"
  shows "hub_inv (on_generation f h)"
  using assms by (auto simp: hub_inv_def)

lemma gen_ok_remember:
  assumes "gen_ok ev inflight n g"
  shows "gen_ok ev inflight n (remember did mid g)"
proof -
  define g1 where "g1 = (case g_seenDeliveryIds g of
      oldest # rest \<Rightarrow>
        if length (g_seenDeliveryIds g) \<ge> REMEMBERED_DELIVERIES
        then g\<lparr>g_seenDeliveryIds := rest, g_notified := set_del oldest (g_notified g),
          g_attempts := map_delete (g_attempts g) oldest\<rparr> else g
    | [] \<Rightarrow> g)"
  have g1: "gen_ok ev inflight n g1" "length (g_seenDeliveryIds g1) < REMEMBERED_DELIVERIES"
    using assms REMEMBERED_pos
    by (auto simp: g1_def gen_ok_def attempt_for_def split: list.split)
  define g2 where "g2 = g1\<lparr>g_seenDeliveryIds := set_add did (g_seenDeliveryIds g1)\<rparr>"
  have g2: "gen_ok ev inflight n g2"
    using g1 length_set_add_le [of did "g_seenDeliveryIds g1"] by (auto simp: g2_def gen_ok_def attempt_for_def)
  have len: "length (set_add m (if length xs \<ge> REMEMBERED_DELIVERIES then tl xs else xs)) \<le> REMEMBERED_DELIVERIES"
    if "length xs \<le> REMEMBERED_DELIVERIES" for m and xs :: "string list"
    using that REMEMBERED_pos length_set_add_le [of m "tl xs"] length_set_add_le [of m xs] by auto
  have "remember did mid g = (case mid of None \<Rightarrow> g2 | Some m \<Rightarrow> g2\<lparr>g_seenMessageIds :=
      set_add m (if length (g_seenMessageIds g2) \<ge> REMEMBERED_DELIVERIES then tl (g_seenMessageIds g2)
        else g_seenMessageIds g2)\<rparr>)"
    by (simp add: remember_def g1_def [symmetric] g2_def Let_def split: option.split)
  with g2 len [of "g_seenMessageIds g2"] show ?thesis
    by (auto simp: gen_ok_def attempt_for_def split: option.split)
qed

lemma hub_inv_remember [hub_intros]: "hub_inv h \<Longrightarrow> hub_inv (on_generation (remember did mid) h)"
  by (rule hub_inv_on_generation) (auto intro: gen_ok_remember)

subsection \<open>Steps that keep it\<close>

lemma hub_inv_send_ack [hub_intros]: "hub_inv h \<Longrightarrow> hub_inv (send_ack m h)"
  by (rule hub_inv_cong) (simp_all add: send_ack_def evidence_def hub_inv_def)

lemma hub_inv_take_custody [hub_intros]: "hub_inv h \<Longrightarrow> hub_inv (take_custody m h)"
  unfolding take_custody_def acknowledgeCustody_def
  by (rule hub_inv_send_ack, rule hub_inv_cong) (simp_all add: evidence_def hub_inv_def)

lemma hub_inv_attend [hub_intros]: "hub_inv h \<Longrightarrow> hub_inv (attend m now h)"
  by (rule hub_inv_cong) (simp_all add: attend_def evidence_def hub_inv_def)

text \<open>Reading the cursor.\<close>

lemma read_index_cases:
  "cur_ok ix \<Longrightarrow> cur_ok (snd (snd (read_index a f (store, ix))))"
  using index_ok_hydrate
proof -
  assume ok: "cur_ok ix"
  show ?thesis
  proof (cases a store ix rule: hydrate_cases)
    case (loaded files)
    with load_cursor_ok [OF cursor_file.rd_wf] show ?thesis
      by (simp add: read_index_def hydrated_def del: hydrate.simps)
  next
    case (threw e)
    with ok cur_ok_cong [of "ix\<lparr>ai_hydrated := True\<rparr>" ix] show ?thesis
      by (simp add: read_index_def hydrated_def del: hydrate.simps)
  qed (use ok in \<open>simp add: read_index_def hydrated_def del: hydrate.simps\<close>)
qed

lemma consumed_fields [simp]:
  "hb_generation (snd (consumed m h)) = hb_generation h" "hb_inflight (snd (consumed m h)) = hb_inflight h"
  "hb_waiting (snd (consumed m h)) = hb_waiting h" "hb_runnable (snd (consumed m h)) = hb_runnable h"
  "hb_nextId (snd (consumed m h)) = hb_nextId h" "hb_acks (snd (consumed m h)) = hb_acks h"
  "hb_queue (snd (consumed m h)) = hb_queue h" "hb_notices (snd (consumed m h)) = hb_notices h"
  "evidence (snd (consumed m h)) = evidence h" "hb_agentId (snd (consumed m h)) = hb_agentId h"
  by (simp_all add: consumed_def case_prod_unfold evidence_def Let_def)

lemma hub_inv_consumed [hub_intros]:
  assumes "hub_inv h"
  shows "hub_inv (snd (consumed m h))"
proof -
  have "cur_ok (hb_index (snd (consumed m h)))"
    using assms read_index_cases [of "hb_index h"]
    by (simp add: consumed_def case_prod_unfold Let_def hasSeen_def hub_inv_def)
  then show ?thesis using assms by (intro hub_inv_cong [of "snd (consumed m h)" h]) simp_all
qed

text \<open>A delivery the cursor covers is seen.\<close>

lemma read_index_value:
  assumes "fst (read_index a f s) = Inr v"
  shows "v = f (snd (snd (read_index a f s)))"
  using assms by (auto simp: read_index_def hydrated_def case_prod_unfold split: sum.splits)

lemma consumed_seen:
  assumes "consumed m h = (Inr b, h')"
  shows "b = seen_by (hb_index h') (target_of m) (d_sequence m)"
  using assms read_index_value [of "d_agentId m" "\<lambda>ix. seen_by ix (target_of m) (d_sequence m)" "(hb_store h, hb_index h)" b]
  by (auto simp: consumed_def hasSeen_def case_prod_unfold Let_def)

text \<open>Starting a notice.\<close>

lemma notify_cases:
  obtains (failed) e where "notify m announced h = (Inl e, snd (generation_of h))"
  | (started) g h1 where "generation_of h = (g, h1)"
      "fst (notify m announced h) = Inr (hb_nextId h1)"
      "hb_inflight (snd (notify m announced h)) = map_set (hb_inflight h1) (hb_nextId h1)
         \<lparr>at_deliveryId = Some (d_deliveryId m), at_generation = g_id g, at_announced = map d_deliveryId announced\<rparr>"
      "hb_generation (snd (notify m announced h)) =
         Some (g\<lparr>g_attempts := map_set (g_attempts g) (d_deliveryId m) (hb_nextId h1)\<rparr>)"
      "hb_nextId (snd (notify m announced h)) = Suc (hb_nextId h1)"
      "hb_waiting (snd (notify m announced h)) = hb_waiting h"
      "hb_runnable (snd (notify m announced h)) = hb_runnable h"
      "evidence (snd (notify m announced h)) = evidence h" "hb_acks (snd (notify m announced h)) = hb_acks h"
      "hb_index (snd (notify m announced h)) = (hb_index h)\<lparr>ai_memoryReminder := None\<rparr>"
proof (cases "\<not> hb_session h \<or> target_of m = ''''")
  case True
  then show ?thesis by (intro failed [of "if hb_session h then TargetMissing else NoSession"])
    (auto simp: notify_def case_prod_unfold Let_def)
next
  case False
  obtain g h1 where g: "generation_of h = (g, h1)" by fastforce
  then have h1: "h1 = snd (generation_of h)" "g = fst (generation_of h)" by simp_all
  show ?thesis
    by (rule started [OF g])
      (use False in \<open>simp_all add: notify_def h1 case_prod_unfold Let_def on_generation_def\<close>)
qed

lemma waits_ok_mono:
  assumes "waits_ok ev inflight ws" "ev \<subseteq> ev'"
    and "\<And>n att. map_get inflight n = Some att \<Longrightarrow> map_get inflight' n = Some att"
  shows "waits_ok ev' inflight' ws"
  using assms by (fastforce simp: waits_ok_def)

text \<open>A fresh attempt under the current generation, and what waits for it.\<close>

lemma hub_inv_notify_then:
  assumes "hub_inv h" "d_deliveryId m \<in> set (map d_deliveryId announced)"
    and "\<And>n. cont_ids (k n) \<subseteq> set (map d_deliveryId announced) \<union> evidence h"
  shows "hub_inv (snd (notify_then m announced k h))"
proof -
  let ?h = "snd (generation_of h)" and ?g = "fst (generation_of h)"
  have inv: "hub_inv ?h" using assms(1) by (rule hub_inv_generation_of)
  have twice: "generation_of ?h = (?g, ?h)" by (simp add: generation_of_def Let_def split: option.split)
  show ?thesis
  proof (cases m announced ?h rule: notify_cases)
    case (failed e)
    with inv show ?thesis by (simp add: notify_then_def case_prod_unfold Let_def twice)
  next
    case (started g h1)
    then have gh: "g = ?g" "h1 = ?h" by (simp_all add: twice)
    let ?n = "hb_nextId ?h"
    let ?att = "\<lparr>at_deliveryId = Some (d_deliveryId m), at_generation = g_id ?g, at_announced = map d_deliveryId announced\<rparr>"
    let ?fl = "map_set (hb_inflight ?h) ?n ?att"
    have fresh: "map_get (hb_inflight ?h) ?n = None"
      using inv by (auto simp: hub_inv_def inflight_ok_def)
        (metis less_irrefl not_None_eq)
    have keep: "map_get ?fl j = Some a" if "map_get (hb_inflight ?h) j = Some a" for j a
      using that fresh by auto
    have gen: "gen_ok (evidence h) (hb_inflight ?h) ?n ?g" using inv by (simp add: hub_inv_def)
    then have "gen_ok (evidence h) ?fl (Suc ?n) ?g"
      by (rule gen_ok_mono [OF _ subset_refl]) (simp, unfold attempt_for_def, use keep in blast)
    then have "gen_ok (evidence h) ?fl (Suc ?n) (?g\<lparr>g_attempts := map_set (g_attempts ?g) (d_deliveryId m) ?n\<rparr>)"
      using assms(2) by (auto simp: gen_ok_def attempt_for_def)
    moreover have "inflight_ok ?fl (Suc ?n)"
      using inv gen assms(2) by (auto simp: hub_inv_def inflight_ok_def gen_ok_def intro: less_SucI)
    moreover have "waits_ok (evidence h) ?fl (hb_waiting h @ [(?n, k (g_id ?g))])"
      using inv waits_ok_mono [of "evidence h" "hb_inflight ?h" "hb_waiting h" "evidence h" ?fl] keep assms(3)
      by (auto simp: hub_inv_def waits_ok_def)
    moreover have "cur_ok ((hb_index h)\<lparr>ai_memoryReminder := None\<rparr>)"
      using assms(1) cur_ok_cong [of "(hb_index h)\<lparr>ai_memoryReminder := None\<rparr>" "hb_index h"] by (simp add: hub_inv_def)
    moreover have "\<forall>c \<in> set (hb_runnable h). cont_ids c \<subseteq> evidence h" using assms(1) by (simp add: hub_inv_def)
    moreover have "snd (notify_then m announced k h) =
        wait_for ?n (k (g_id ?g)) (snd (notify m announced ?h))"
      using started(2) by (simp add: notify_then_def case_prod_unfold Let_def gh(2))
    ultimately show ?thesis using started(3-10) unfolding gh
      by (simp add: hub_inv_def wait_for_def)
  qed
qed

lemma hub_inv_wait_for:
  assumes "hub_inv h" "map_get (hb_inflight h) n = Some att" "cont_ids c \<subseteq> set (at_announced att) \<union> evidence h"
  shows "hub_inv (wait_for n c h)"
  using assms by (auto simp: hub_inv_def wait_for_def waits_ok_def)

lemma hub_inv_attempt:
  assumes "hub_inv h" "hb_generation h = Some g" "map_get (g_attempts g) did = Some n"
  obtains att where "map_get (hb_inflight h) n = Some att" "did \<in> set (at_announced att)"
proof -
  from assms have "attempt_for (hb_inflight h) g did n" by (simp add: hub_inv_def gen_ok_def)
  then show ?thesis using that by (auto simp: attempt_for_def)
qed

lemma generation_of_Some: "generation_of h = (g, h') \<Longrightarrow> hb_generation h' = Some g"
  using generation_of_fields(11) [of h] by simp

lemma hub_inv_join:
  assumes "hub_inv h" "generation_of h = (g, h')" "map_get (g_attempts g) did = Some n" "cont_ids c \<subseteq> {did}"
  shows "hub_inv (wait_for n c h')"
proof -
  have inv: "hub_inv h'" using hub_inv_generation_of [OF assms(1)] assms(2) by simp
  from hub_inv_attempt [OF inv generation_of_Some [OF assms(2)] assms(3)]
  obtain att where "map_get (hb_inflight h') n = Some att" "did \<in> set (at_announced att)" by blast
  with inv assms(4) show ?thesis by (intro hub_inv_wait_for) auto
qed

lemma hub_inv_receive [hub_intros]:
  assumes "hub_inv h"
  shows "hub_inv (snd (receive m now h))"
proof -
  obtain g h1 where g: "generation_of h = (g, h1)" by fastforce
  have inv: "hub_inv h1" using hub_inv_generation_of [OF assms] g by simp
  have told: "hub_inv (snd (notify_then m [m] (AfterReceive m) h'))" if "hub_inv h'" for h'
    using that by (intro hub_inv_notify_then) auto
  obtain r h2 where c: "consumed m (on_generation (remember (d_deliveryId m) None) h1) = (r, h2)" by fastforce
  have inv2: "hub_inv h2"
    using hub_inv_consumed [OF hub_inv_remember [OF inv], of m "d_deliveryId m" None] c by simp
  have new: "hub_inv (snd (case (r, h2) of
      (Inl e, h2) \<Rightarrow> (Failed (CursorFailed e), h2)
    | (Inr True, h2) \<Rightarrow> (Acked, send_ack m h2)
    | (Inr False, h2) \<Rightarrow>
        (let h3 = attend m now h2
         in if q_shouldHold (hb_queue h3) (d_agentId m) then (InCustody, take_custody m h3)
            else notify_then m [m] (AfterReceive m) h3)))"
    using inv2 told by (auto simp: Let_def hub_intros split: sum.split bool.split)
  have old: "hub_inv (snd (if d_deliveryId m \<in> set (g_notified g) then (Acked, send_ack m h1)
      else if q_shouldHold (hb_queue h1) (d_agentId m) then (InCustody, take_custody m h1)
      else (case map_get (g_attempts g) (d_deliveryId m) of
          Some n \<Rightarrow> (Awaiting n, wait_for n (AfterReceive m (g_id g)) h1)
        | None \<Rightarrow> notify_then m [m] (AfterReceive m) h1)))"
    using inv told hub_inv_join [OF assms g] by (auto simp: hub_intros split: option.split)
  show ?thesis using assms new old by (simp add: receive_def g c Let_def)
qed

lemma hub_inv_announce [hub_intros]:
  assumes "hub_inv h"
  shows "hub_inv (snd (announce m now h))"
proof -
  obtain g h1 where g: "generation_of h = (g, h1)" by fastforce
  have inv: "hub_inv h1" using hub_inv_generation_of [OF assms] g by simp
  have told: "hub_inv (snd (notify_then m [m] AfterAnnounce h'))" if "hub_inv h'" for h'
    using that by (intro hub_inv_notify_then) auto
  show ?thesis using assms inv told hub_inv_join [OF assms g]
    by (auto simp: announce_def g Let_def hub_intros split: option.split)
qed

lemma hub_inv_skipped: "hub_inv h \<Longrightarrow> hub_inv (h\<lparr>hb_skipped := hb_skipped h @ xs\<rparr>)"
  by (auto simp: hub_inv_def evidence_simps intro: gen_ok_mono waits_ok_mono)

text \<open>A scan settles what it announces or skips.\<close>

lemma flush_scan_inv:
  assumes "hub_inv h" "d_deliveryId ` set settled \<subseteq> d_deliveryId ` set announced \<union> evidence h"
  shows "hub_inv (snd (flush_scan now held settled announced h)) \<and>
    (\<forall>s a. fst (flush_scan now held settled announced h) = Inr (s, a) \<longrightarrow>
       d_deliveryId ` set s \<subseteq> d_deliveryId ` set a \<union> evidence (snd (flush_scan now held settled announced h)))"
  using assms
proof (induction held arbitrary: settled announced h)
  case (Cons m held)
  let ?h1 = "on_generation (remember (d_deliveryId m) None) h"
  obtain r h2 where c: "consumed m ?h1 = (r, h2)" by fastforce
  have inv2: "hub_inv h2" "evidence h2 = evidence h"
    using hub_inv_consumed [OF hub_inv_remember [OF Cons.prems(1)], of m "d_deliveryId m" None] c
      consumed_fields(9) [of m ?h1] by simp_all
  let ?h3 = "h2\<lparr>hb_skipped := hb_skipped h2 @ [d_deliveryId m]\<rparr>"
  have "hub_inv ?h3" using inv2(1) by (rule hub_inv_skipped)
  note skip = Cons.IH [OF this, of "settled @ [m]" announced]
  note tell = Cons.IH [OF hub_inv_attend [OF inv2(1)], of "settled @ [m]" "announced @ [m]" m now]
  note seen = Cons.IH [OF Cons.prems(1), of "settled @ [m]" "announced @ [m]"]
  have ev: "evidence (attend m now h2) = evidence h2" by (simp add: attend_def)
  let ?seen = "case hb_generation h of None \<Rightarrow> False | Some g \<Rightarrow> d_deliveryId m \<in> set (g_seenDeliveryIds g)"
  consider "\<not> hasDeliveryScope m" | "hasDeliveryScope m" ?seen | e where "hasDeliveryScope m" "\<not> ?seen" "r = Inl e"
    | "hasDeliveryScope m" "\<not> ?seen" "r = Inr True" | "hasDeliveryScope m" "\<not> ?seen" "r = Inr False"
    by (cases r) auto
  then show ?case
  proof cases
    case 1
    with Cons.IH [OF Cons.prems] show ?thesis by simp
  next
    case 2
    with seen Cons.prems(2) show ?thesis by auto
  next
    case 3
    with c inv2(1) show ?thesis by simp
  next
    case 4
    have "d_deliveryId ` set (settled @ [m]) \<subseteq> d_deliveryId ` set announced \<union> evidence ?h3"
      using Cons.prems(2) inv2(2) by auto
    from skip [OF this] 4 c show ?thesis by simp
  next
    case 5
    have "d_deliveryId ` set (settled @ [m]) \<subseteq> d_deliveryId ` set (announced @ [m]) \<union> evidence (attend m now h2)"
      using Cons.prems(2) inv2(2) ev by auto
    from tell [OF this] 5 c show ?thesis by simp
  qed
qed simp

lemma set_fold_set_add: "set (fold (\<lambda>m. set_add (f m)) ms xs) = f ` set ms \<union> set xs"
  by (induction ms arbitrary: xs) auto

lemma hub_inv_mark_notified:
  assumes "hub_inv h" "d_deliveryId ` set settled \<subseteq> evidence h"
  shows "hub_inv (mark_notified settled h)"
  unfolding mark_notified_def
  by (rule hub_inv_on_generation [OF assms(1)])
    (use assms(2) in \<open>auto simp: gen_ok_def attempt_for_def set_fold_set_add\<close>)

lemma hub_inv_flush [hub_intros]:
  assumes "hub_inv h"
  shows "hub_inv (snd (flush held now h))"
proof -
  obtain g h1 where g: "generation_of h = (g, h1)" by fastforce
  have inv: "hub_inv h1" using hub_inv_generation_of [OF assms] g by simp
  obtain r h2 where scan: "flush_scan now held [] [] h1 = (r, h2)" by fastforce
  from flush_scan_inv [OF inv, of "[]" "[]" now held] scan have inv2: "hub_inv h2"
    and ids: "\<And>s a. r = Inr (s, a) \<Longrightarrow> d_deliveryId ` set s \<subseteq> d_deliveryId ` set a \<union> evidence h2" by auto
  show ?thesis
  proof (cases "held = []")
    case True
    with assms show ?thesis by (simp add: flush_def)
  next
    case False
    show ?thesis
    proof (cases r)
      case (Inl e)
      with False g scan inv2 show ?thesis by (simp add: flush_def)
    next
      case (Inr p)
      obtain s a where p: "r = Inr (s, a)" using Inr by (cases p) auto
      show ?thesis
      proof (cases "a = []")
        case True
        with False g scan p ids [OF p] inv2 show ?thesis
          by (simp add: flush_def hub_inv_mark_notified)
      next
        case some: False
        then have "hub_inv (snd (notify_then (last a) a (AfterFlush s) h2))"
          using ids [OF p] by (intro hub_inv_notify_then [OF inv2]) auto
        with False some g scan p show ?thesis by (simp add: flush_def)
      qed
    qed
  qed
qed

lemma hub_inv_recover [hub_intros]:
  assumes "hub_inv h"
  shows "hub_inv (snd (recover compare ms summary h))"
proof -
  obtain g h1 where g: "generation_of h = (g, h1)" by fastforce
  have inv: "hub_inv h1" using hub_inv_generation_of [OF assms] g by simp
  have gen: "gen_ok (evidence h1) (hb_inflight h1) (hb_nextId h1) g"
    using inv generation_of_Some [OF g] by (simp add: hub_inv_def)
  have "map_get (hb_inflight h1) (hb_nextId h1) = None"
    using inv by (auto simp: hub_inv_def inflight_ok_def) (metis less_irrefl not_None_eq)
  then have keep: "map_get (map_set (hb_inflight h1) (hb_nextId h1) att) j = Some a"
    if "map_get (hb_inflight h1) j = Some a" for j a att using that by auto
  have new: "hub_inv (wait_for (hb_nextId h1) (AfterRecover bt rec (g_id g))
      (h1\<lparr>hb_queue := q, hb_index := (hb_index h1)\<lparr>ai_memoryReminder := None\<rparr>, hb_nextId := Suc (hb_nextId h1),
        hb_inflight := map_set (hb_inflight h1) (hb_nextId h1)
          \<lparr>at_deliveryId = None, at_generation = g_id g, at_announced = map r_deliveryId rec\<rparr>,
        hb_notices := ns\<rparr>))" for bt rec q ns
  proof -
    let ?fl = "map_set (hb_inflight h1) (hb_nextId h1)
        \<lparr>at_deliveryId = None, at_generation = g_id g, at_announced = map r_deliveryId rec\<rparr>"
    have "gen_ok (evidence h1) ?fl (Suc (hb_nextId h1)) g'" if "hb_generation h1 = Some g'" for g'
    proof -
      have "gen_ok (evidence h1) (hb_inflight h1) (hb_nextId h1) g'" using inv that by (simp add: hub_inv_def)
      then show ?thesis
        by (rule gen_ok_mono [OF _ subset_refl]) (simp, unfold attempt_for_def, use keep in blast)
    qed
    moreover have "inflight_ok ?fl (Suc (hb_nextId h1))"
      using inv gen by (auto simp: hub_inv_def inflight_ok_def gen_ok_def intro: less_SucI)
    moreover have "waits_ok (evidence h1) ?fl (hb_waiting h1)"
      using inv keep by (auto simp: hub_inv_def intro: waits_ok_mono)
    moreover have "cur_ok ((hb_index h1)\<lparr>ai_memoryReminder := None\<rparr>)"
      using inv cur_ok_cong [of "(hb_index h1)\<lparr>ai_memoryReminder := None\<rparr>" "hb_index h1"] by (simp add: hub_inv_def)
    moreover have "\<forall>c \<in> set (hb_runnable h1). cont_ids c \<subseteq> evidence h1" using inv by (simp add: hub_inv_def)
    ultimately show ?thesis by (auto simp: hub_inv_def wait_for_def waits_ok_def)
  qed
  show ?thesis using inv new by (auto simp: recover_def g Let_def split: option.split)
qed

lemma hub_inv_settle [hub_intros]:
  assumes "hub_inv h"
  shows "hub_inv (settle_attempt n accepted h)"
proof (cases "map_get (hb_inflight h) n")
  case None
  with assms show ?thesis by (simp add: settle_attempt_def)
next
  case (Some att)
  let ?ev = "evidence h \<union> (if accepted then set (at_announced att) else {})"
  let ?fl = "map_delete (hb_inflight h) n"
  define h1 where "h1 = h\<lparr>hb_inflight := ?fl, hb_accepted := hb_accepted h @ (if accepted then at_announced att else [])\<rparr>"
  define h2 where "h2 = (case at_deliveryId att of
      None \<Rightarrow> h1
    | Some did \<Rightarrow>
        if is_current h1 (at_generation att)
        then on_generation (\<lambda>g. g\<lparr>g_notified := (if accepted then set_add did (g_notified g) else g_notified g),
               g_attempts := map_delete (g_attempts g) did\<rparr>)
             (h1\<lparr>hb_received := hb_received h1 + (if accepted then 1 else 0)\<rparr>)
        else h1)"
  have fields: "hb_inflight h2 = ?fl" "hb_nextId h2 = hb_nextId h" "hb_waiting h2 = hb_waiting h"
    "hb_runnable h2 = hb_runnable h" "hb_index h2 = hb_index h" "evidence h2 = ?ev"
    by (auto simp: h2_def h1_def on_generation_def evidence_def split: option.split)
  have gen: "gen_ok ?ev ?fl (hb_nextId h) g2" if g2: "hb_generation h2 = Some g2" for g2
  proof -
    obtain g where g: "hb_generation h = Some g" using g2
      by (cases "hb_generation h") (auto simp: h2_def h1_def on_generation_def split: option.splits if_splits)
    with assms have ok: "gen_ok (evidence h) (hb_inflight h) (hb_nextId h) g" by (simp add: hub_inv_def)
    have left: "attempt_for ?fl g d k" if "attempt_for (hb_inflight h) g d k" "k \<noteq> n" for d k
      using that by (auto simp: attempt_for_def)
    show ?thesis
    proof (cases "\<exists>did. at_deliveryId att = Some did \<and> at_generation att = g_id g")
      case True
      then obtain did where did: "at_deliveryId att = Some did" "at_generation att = g_id g" by blast
      then have eq: "g2 = g\<lparr>g_notified := (if accepted then set_add did (g_notified g) else g_notified g),
          g_attempts := map_delete (g_attempts g) did\<rparr>"
        using g g2 by (simp add: h2_def h1_def is_current_def)
      have "did \<in> set (at_announced att)" using assms Some did(1) by (auto simp: hub_inv_def inflight_ok_def)
      moreover have "attempt_for ?fl g d k" if "attempt_for (hb_inflight h) g d k" "d \<noteq> did" for d k
        using that left [OF that(1)] Some did(1) by (cases "k = n") (auto simp: attempt_for_def)
      ultimately show ?thesis using ok unfolding eq by (auto simp: gen_ok_def)
    next
      case False
      then have "g2 = g"
        using g g2 by (auto simp: h2_def h1_def is_current_def split: option.splits if_splits)
      moreover have "k \<noteq> n" if "attempt_for (hb_inflight h) g d k" for d k
        using that Some False by (auto simp: attempt_for_def)
      ultimately show ?thesis using ok left by (auto simp: gen_ok_def)
    qed
  qed
  have wait: "waits_ok ?ev ?fl (filter (\<lambda>(k, c). k \<noteq> n) (hb_waiting h))"
    using assms by (fastforce simp: hub_inv_def waits_ok_def)
  have run: "cont_ids c \<subseteq> ?ev" if "c \<in> set (hb_runnable h) \<or> accepted \<and> (n, c) \<in> set (hb_waiting h)" for c
    using assms that Some by (fastforce simp: hub_inv_def waits_ok_def)
  have "inflight_ok ?fl (hb_nextId h)" "cur_ok (hb_index h)" using assms by (auto simp: hub_inv_def inflight_ok_def)
  moreover have "\<forall>c \<in> set (hb_runnable h @ (if accepted then map snd (filter (\<lambda>(k, c). k = n) (hb_waiting h)) else [])).
      cont_ids c \<subseteq> ?ev"
    using run by (cases accepted) fastforce+
  moreover have "settle_attempt n accepted h = h2\<lparr>hb_runnable := hb_runnable h2 @
        (if accepted then map snd (filter (\<lambda>(k, c). k = n) (hb_waiting h2)) else []),
      hb_waiting := filter (\<lambda>(k, c). k \<noteq> n) (hb_waiting h2)\<rparr>"
    unfolding settle_attempt_def Some option.case Let_def h2_def h1_def ..
  ultimately show ?thesis using gen wait by (simp add: hub_inv_def fields)
qed

lemma gen_ok_notify:
  "gen_ok ev fl n g \<Longrightarrow> d \<in> ev \<Longrightarrow> gen_ok ev fl n (g\<lparr>g_notified := set_add d (g_notified g)\<rparr>)"
  by (simp add: gen_ok_def)

lemma cur_ok_recordConversation [simp]: "cur_ok ix \<Longrightarrow> cur_ok (recordConversation t c ix)"
  by (subst cur_ok_cong [of _ ix]) (simp_all add: recordConversation_def)

lemma hub_inv_settle_recovered:
  assumes "hub_inv h" "r_deliveryId m \<in> evidence h"
  shows "hub_inv (settle_recovered m h)" "evidence (settle_recovered m h) = evidence h"
proof -
  let ?ix = "recordConversation (r_target m) (r_conversationId m) (hb_index h)"
  let ?h = "h\<lparr>hb_index := ?ix\<lparr>ai_pendingSequences := map_set (ai_pendingSequences ?ix) (r_target m)
      (set_add (r_sequence m) (get_or (ai_pendingSequences ?ix) (r_target m) []))\<rparr>\<rparr>"
  have "cur_ok (?ix\<lparr>ai_pendingSequences := p\<rparr>)" for p
    using assms(1) cur_ok_recordConversation cur_ok_cong [of "?ix\<lparr>ai_pendingSequences := p\<rparr>" ?ix]
    by (simp add: hub_inv_def)
  then have inv: "hub_inv ?h" using assms(1) by (intro hub_inv_cong [of ?h h]) simp_all
  show "hub_inv (settle_recovered m h)" unfolding settle_recovered_def Let_def
    by (rule hub_inv_on_generation [OF inv])
      (simp add: gen_ok_notify gen_ok_remember assms(2))
  show "evidence (settle_recovered m h) = evidence h" by (simp add: settle_recovered_def Let_def)
qed

lemma hub_inv_fold_recovered:
  "hub_inv h \<Longrightarrow> r_deliveryId ` set ms \<subseteq> evidence h \<Longrightarrow> hub_inv (fold settle_recovered ms h)"
proof (induction ms arbitrary: h)
  case (Cons m ms)
  then show ?case using hub_inv_settle_recovered [of h m] by simp
qed simp

lemma hub_inv_resume:
  assumes "hub_inv h" "cont_ids c \<subseteq> evidence h"
  shows "hub_inv (snd (resume c h))"
proof (cases c)
  case (AfterRecover bt ms n)
  let ?h = "h\<lparr>hb_index := (hb_index h)\<lparr>ai_attention := bt\<rparr>\<rparr>"
  have "cur_ok ((hb_index h)\<lparr>ai_attention := bt\<rparr>)"
    using assms(1) cur_ok_cong [of "(hb_index h)\<lparr>ai_attention := bt\<rparr>" "hb_index h"] by (simp add: hub_inv_def)
  then have "hub_inv ?h" using assms(1) by (intro hub_inv_cong [of ?h h]) simp_all
  then have "hub_inv (fold settle_recovered ms ?h)"
    using assms(2) AfterRecover by (intro hub_inv_fold_recovered) auto
  moreover have "hub_inv (h'\<lparr>hb_received := k\<rparr>)" if "hub_inv h'" for h' k
    using that by (intro hub_inv_cong [of "h'\<lparr>hb_received := k\<rparr>" h']) (simp_all add: hub_inv_def)
  ultimately show ?thesis using assms(1) AfterRecover by (simp add: Let_def)
qed (use assms in \<open>simp_all add: hub_inv_send_ack hub_inv_mark_notified\<close>)

lemma hub_inv_step:
  assumes "hub_step h h'" "hub_inv h"
  shows "hub_inv h'"
  using assms
proof (induction rule: hub_step.induct)
  case (resume h pre c post)
  then have "hub_inv (h\<lparr>hb_runnable := pre @ post\<rparr>)" "cont_ids c \<subseteq> evidence (h\<lparr>hb_runnable := pre @ post\<rparr>)"
    by (auto simp: hub_inv_def)
  then show ?case by (rule hub_inv_resume)
next
  case (index oper h ok store ix)
  then have "cur_ok ix"
    using cur_ok_step [of "hb_index h" oper "hb_agentId h" ok "hb_store h"]
    by (simp add: hub_inv_def del: index_step.simps)
  with index show ?case by (intro hub_inv_cong [of "h\<lparr>hb_store := store, hb_index := ix\<rparr>" h]) simp_all
next
  case (forget h)
  then show ?case by (auto simp: forget_agent_def hub_inv_def)
next
  case (session h up)
  then show ?case by (intro hub_inv_cong [of "h\<lparr>hb_session := up\<rparr>" h]) (simp_all add: hub_inv_def)
next
  case (queue h oper)
  then show ?case
    by (intro hub_inv_cong [of "h\<lparr>hb_queue := fst (queue_step (hb_queue h) (hb_agentId h) oper)\<rparr>" h]) (simp_all add: hub_inv_def)
qed (simp_all add: hub_intros)

lemma hub_inv_reachable: "reachable h \<Longrightarrow> hub_inv h"
  by (induction rule: reachable.induct) (auto intro: hub_inv_step)

subsection \<open>Acknowledgements\<close>

definition ack_reason :: "delivery \<Rightarrow> hub \<Rightarrow> bool" where
  "ack_reason m h \<longleftrightarrow>
     seen_by (hb_index h) (target_of m) (d_sequence m) \<or>
     m \<in> set (q_pending (hb_queue h) (d_agentId m)) \<or>
     d_deliveryId m \<in> evidence h"

definition acks_ok :: "hub \<Rightarrow> hub \<Rightarrow> bool" where
  "acks_ok h h' \<longleftrightarrow> hb_acks h' = hb_acks h \<or> (\<exists>m. hb_acks h' = hb_acks h @ [m] \<and> ack_reason m h')"

lemma acks_ok_same: "hb_acks h' = hb_acks h \<Longrightarrow> acks_ok h h'"
  by (simp add: acks_ok_def)

lemma acks_ok_send: "hb_acks h1 = hb_acks h \<Longrightarrow> ack_reason m (send_ack m h1) \<Longrightarrow> acks_ok h (send_ack m h1)"
  by (auto simp: acks_ok_def send_ack_def)

lemma acks_ok_custody: "hb_acks h1 = hb_acks h \<Longrightarrow> acks_ok h (take_custody m h1)"
  unfolding take_custody_def acknowledgeCustody_def
  by (rule acks_ok_send) (simp_all add: ack_reason_def send_ack_def dq.enqueue_kept)

lemma acks_notify_then: "hb_acks (snd (notify_then m announced k h)) = hb_acks h"
proof -
  obtain g h1 where g: "generation_of h = (g, h1)" by fastforce
  then have "hb_acks h1 = hb_acks h" using generation_of_fields(4) [of h] by simp
  moreover have "hb_acks (snd (notify m announced h1)) = hb_acks h1"
    by (cases m announced h1 rule: notify_cases) simp_all
  ultimately show ?thesis
    by (simp add: notify_then_def g Let_def case_prod_unfold wait_for_def split: sum.split)
qed

lemma acks_attend [simp]: "hb_acks (attend m now h) = hb_acks h"
  by (simp add: attend_def)

lemma acks_ok_receive:
  assumes "hub_inv h"
  shows "acks_ok h (snd (receive m now h))"
proof -
  obtain g h1 where g: "generation_of h = (g, h1)" by fastforce
  have acks: "hb_acks h1 = hb_acks h" using generation_of_fields(4) [of h] g by simp
  have inv: "hub_inv h1" using hub_inv_generation_of [OF assms] g by simp
  then have "set (g_notified g) \<subseteq> evidence h1"
    using generation_of_Some [OF g] by (simp add: hub_inv_def gen_ok_def)
  then have old: "acks_ok h (send_ack m h1)" if "d_deliveryId m \<in> set (g_notified g)"
    using that acks by (intro acks_ok_send) (auto simp: ack_reason_def send_ack_def)
  obtain r h2 where c: "consumed m (on_generation (remember (d_deliveryId m) None) h1) = (r, h2)" by fastforce
  have acks2: "hb_acks h2 = hb_acks h"
    using consumed_fields(6) [of m "on_generation (remember (d_deliveryId m) None) h1"] c acks by simp
  have seen: "acks_ok h (send_ack m h2)" if "r = Inr True"
    using that c consumed_seen acks2 by (intro acks_ok_send) (auto simp: ack_reason_def send_ack_def)
  show ?thesis using acks acks2 old seen
    by (auto simp: receive_def g c Let_def wait_for_def acks_notify_then intro: acks_ok_same acks_ok_custody
        split: option.split sum.split bool.split)
qed

lemma acks_flush_scan: "hb_acks (snd (flush_scan now held settled announced h)) = hb_acks h"
proof (induction held arbitrary: settled announced h)
  case (Cons m held)
  obtain r h2 where c: "consumed m (on_generation (remember (d_deliveryId m) None) h) = (r, h2)" by fastforce
  then have "hb_acks h2 = hb_acks h"
    using consumed_fields(6) [of m "on_generation (remember (d_deliveryId m) None) h"] by simp
  with Cons.IH c show ?case by (simp split: sum.split bool.split option.split)
qed simp

lemma acks_handlers:
  "hb_acks (snd (announce m now h)) = hb_acks h"
  "hb_acks (snd (flush held now h)) = hb_acks h"
  "hb_acks (snd (recover compare ms summary h)) = hb_acks h"
  "hb_acks (settle_attempt n accepted h) = hb_acks h"
proof -
  obtain g h1 where g: "generation_of h = (g, h1)" by fastforce
  have acks: "hb_acks h1 = hb_acks h" using generation_of_fields(4) [of h] g by simp
  show "hb_acks (snd (announce m now h)) = hb_acks h"
    using acks by (simp add: announce_def g Let_def wait_for_def acks_notify_then split: option.split)
  show "hb_acks (snd (recover compare ms summary h)) = hb_acks h"
    using acks by (simp add: recover_def g Let_def wait_for_def split: option.split)
  obtain r h2 where s: "flush_scan now held [] [] h1 = (r, h2)" by fastforce
  then have "hb_acks h2 = hb_acks h" using acks_flush_scan [of now held "[]" "[]" h1] acks by simp
  then show "hb_acks (snd (flush held now h)) = hb_acks h"
    by (simp add: flush_def g s Let_def acks_notify_then mark_notified_def split: sum.split prod.split)
  show "hb_acks (settle_attempt n accepted h) = hb_acks h"
    by (simp add: settle_attempt_def Let_def split: option.split)
qed

lemma acks_settle_recovered: "hb_acks (fold settle_recovered ms h) = hb_acks h"
  by (induction ms arbitrary: h) (simp_all add: settle_recovered_def Let_def)

lemma acks_ok_resume:
  assumes "cont_ids c \<subseteq> evidence h"
  shows "acks_ok h (snd (resume c h))"
proof (cases c)
  case (AfterReceive m n)
  with assms have "acks_ok h (send_ack m h)" by (intro acks_ok_send) (simp_all add: ack_reason_def send_ack_def)
  with AfterReceive show ?thesis by (simp add: acks_ok_same)
qed (auto simp: acks_settle_recovered mark_notified_def Let_def intro: acks_ok_same)

definition sample_hub :: hub where
  "sample_hub = (initial_hub ''ws'' ''bot'' None)\<lparr>hb_generation := Some \<lparr>g_id = 0,
     g_seenDeliveryIds = [''d1''], g_seenMessageIds = [], g_notified = [''d1''], g_attempts = []\<rparr>\<rparr>"

definition held_hub :: hub where
  "held_hub = (initial_hub ''ws'' ''bot'' None)\<lparr>hb_queue := q_hold empty_queue ''bot'' RateLimitBackoff\<rparr>"

subsection \<open>Properties\<close>

text \<open>
  C1: a delivery is acknowledged only with reason, in every interleaving: each step acknowledges at most
  one delivery, and then the Agent's consumed cursor covers it, or the daemon's queue holds it, or the
  Agent's session has accepted a notice that announced it (or a flush found it already consumed).
\<close>

theorem acknowledged_with_reason:
  assumes "reachable h" "hub_step h h'"
  shows "acks_ok h h'"
proof -
  have inv: "hub_inv h" using assms(1) by (rule hub_inv_reachable)
  from assms(2) inv show ?thesis
  proof (induction rule: hub_step.induct)
    case (resume h pre c post)
    then have "cont_ids c \<subseteq> evidence (h\<lparr>hb_runnable := pre @ post\<rparr>)" by (auto simp: hub_inv_def)
    then have "acks_ok (h\<lparr>hb_runnable := pre @ post\<rparr>) (snd (resume c (h\<lparr>hb_runnable := pre @ post\<rparr>)))"
      by (rule acks_ok_resume)
    then show ?case by (simp add: acks_ok_def)
  qed (auto simp: acks_ok_receive acks_handlers forget_agent_def intro: acks_ok_same)
qed

theorem acknowledged_with_reason_witness:
  "acks_ok (initial_hub ''ws'' ''bot'' None)
     (snd (receive (sample_delivery ''d1'' ''m1'' 1) 0 (initial_hub ''ws'' ''bot'' None)))"
  by (rule acknowledged_with_reason [OF reachable.start hub_step.receive])
    (simp add: sample_delivery_def initial_hub_def)

text \<open>
  A redelivery does not notify twice. While a delivery is remembered and a notice of it is in flight
  or was accepted, receiving or announcing it again hands no notice to the session and leaves the
  attention index alone.
\<close>

theorem redelivery_is_not_announced_again:
  assumes "hb_generation h = Some g" "d_deliveryId m \<in> set (g_seenDeliveryIds g)"
    and "d_deliveryId m \<in> set (g_notified g) \<or> map_get (g_attempts g) (d_deliveryId m) \<noteq> None"
  shows "hb_notices (snd (receive m now h)) = hb_notices h \<and> hb_index (snd (receive m now h)) = hb_index h \<and>
    hb_notices (snd (announce m now h)) = hb_notices h \<and> hb_index (snd (announce m now h)) = hb_index h"
proof -
  have g: "generation_of h = (g, h)" using assms(1) by (simp add: generation_of_def)
  show ?thesis using assms(2,3)
    by (auto simp: receive_def announce_def g Let_def wait_for_def send_ack_def take_custody_def
        acknowledgeCustody_def)
qed

theorem redelivery_is_not_announced_again_witness:
  "hb_notices (snd (receive (sample_delivery ''d1'' ''m1'' 1) 7 sample_hub)) = []"
  using redelivery_is_not_announced_again
    [of sample_hub "\<lparr>g_id = 0, g_seenDeliveryIds = [''d1''], g_seenMessageIds = [], g_notified = [''d1''], g_attempts = []\<rparr>"
      "sample_delivery ''d1'' ''m1'' 1" 7]
  by (simp add: sample_hub_def sample_delivery_def initial_hub_def)

text \<open>
  A delivery that must wait is kept before it is acknowledged: while the queue holds the Agent, a
  valid delivery the cursor does not cover goes to the end of the queue, its acknowledgement follows,
  and no notice is written.
\<close>

theorem held_delivery_is_kept_and_acknowledged:
  assumes "d_workspaceId m = hb_workspaceId h" "hasDeliveryScope m" "q_shouldHold (hb_queue h) (d_agentId m)"
    and "\<not> wasNotified m h"
    and "fst (consumed m (on_generation (remember (d_deliveryId m) None) (snd (generation_of h)))) = Inr False"
  shows "fst (receive m now h) = InCustody \<and>
    q_pending (hb_queue (snd (receive m now h))) (d_agentId m) = q_pending (hb_queue h) (d_agentId m) @ [m] \<and>
    hb_acks (snd (receive m now h)) = hb_acks h @ [m] \<and> hb_notices (snd (receive m now h)) = hb_notices h"
proof -
  obtain g h1 where g: "generation_of h = (g, h1)" by fastforce
  have h1: "hb_queue h1 = hb_queue h" "hb_acks h1 = hb_acks h" "hb_notices h1 = hb_notices h"
    using generation_of_fields [of h] g by simp_all
  let ?h = "on_generation (remember (d_deliveryId m) None) h1"
  obtain h2 where c: "consumed m ?h = (Inr False, h2)" using assms(5) g by (cases "consumed m ?h") auto
  have h2: "hb_queue h2 = hb_queue h" "hb_acks h2 = hb_acks h" "hb_notices h2 = hb_notices h"
    using consumed_fields [of m ?h] c h1 by simp_all
  have fresh: "d_deliveryId m \<notin> set (g_notified g)"
    using assms(4) g by (auto simp: wasNotified_def generation_of_def fresh_generation_def Let_def split: option.splits)
  have "receive m now h = (InCustody, take_custody m (if d_deliveryId m \<in> set (g_seenDeliveryIds g) then h1 else attend m now h2))"
    using assms(1-3) g c fresh h1(1) h2(1) by (simp add: receive_def Let_def attend_def)
  then show ?thesis using h1 h2
    by (simp add: take_custody_def acknowledgeCustody_def send_ack_def dq.queued_enqueue attend_def)
qed

theorem held_delivery_is_kept_and_acknowledged_witness:
  "fst (receive (sample_delivery ''d1'' ''m1'' 1) 0 held_hub) = InCustody"
proof -
  have "fst (consumed (sample_delivery ''d1'' ''m1'' 1) (on_generation (remember ''d1'' None) (snd (generation_of held_hub)))) = Inr False"
    by (simp add: consumed_def hasSeen_def read_index_def hydrated_def held_hub_def initial_hub_def generation_of_def
        on_generation_def clearAgent_def seen_by_def frontier_def Let_def sample_delivery_def)
  then show ?thesis
    using held_delivery_is_kept_and_acknowledged [of "sample_delivery ''d1'' ''m1'' 1" held_hub 0] sample_scope [of "''m1''" 1 "''d1''"]
    by (simp add: held_hub_def sample_delivery_def initial_hub_def wasNotified_def q_shouldHold_def q_hold_def)
qed

subsection \<open>Forgotten Agents\<close>

fun cont_generation :: "continuation \<Rightarrow> nat" where
  "cont_generation (AfterReceive m n) = n"
| "cont_generation (AfterAnnounce n) = n"
| "cont_generation (AfterFlush settled n) = n"
| "cont_generation (AfterRecover byTarget ms n) = n"

text \<open>Generation ids are never reused: everything that names one is below the next.\<close>

definition gens_ok :: "hub \<Rightarrow> bool" where
  "gens_ok h \<longleftrightarrow>
     (\<forall>g. hb_generation h = Some g \<longrightarrow> g_id g < hb_nextId h) \<and>
     (\<forall>c \<in> set (hb_runnable h) \<union> snd ` set (hb_waiting h). cont_generation c < hb_nextId h)"

definition gens_step :: "hub \<Rightarrow> hub \<Rightarrow> bool" where
  "gens_step h h' \<longleftrightarrow> (gens_ok h \<longrightarrow> gens_ok h')"

lemma gens_ok_cong:
  assumes "gens_ok h" "hb_nextId h \<le> hb_nextId h'"
    and "\<And>g'. hb_generation h' = Some g' \<Longrightarrow> \<exists>g. hb_generation h = Some g \<and> g_id g' = g_id g"
    and "set (hb_runnable h') \<union> snd ` set (hb_waiting h') \<subseteq> set (hb_runnable h) \<union> snd ` set (hb_waiting h)"
  shows "gens_ok h'"
proof -
  have "g_id g' < hb_nextId h'" if "hb_generation h' = Some g'" for g'
  proof -
    from assms(3) [OF that] obtain g where "hb_generation h = Some g" "g_id g' = g_id g" by blast
    with assms(1,2) show ?thesis by (simp add: gens_ok_def)
  qed
  moreover have "cont_generation c < hb_nextId h'" if "c \<in> set (hb_runnable h') \<union> snd ` set (hb_waiting h')" for c
  proof -
    from that assms(4) have "c \<in> set (hb_runnable h) \<union> snd ` set (hb_waiting h)" by blast
    with assms(1) have "cont_generation c < hb_nextId h" unfolding gens_ok_def by blast
    with assms(2) show ?thesis by simp
  qed
  ultimately show ?thesis unfolding gens_ok_def by blast
qed

lemma gens_generation_of:
  assumes "gens_ok h" "generation_of h = (g, h')"
  shows "gens_ok h'" "g_id g < hb_nextId h'" "hb_generation h' = Some g"
proof -
  show gen: "hb_generation h' = Some g" by (rule generation_of_Some [OF assms(2)])
  show ok: "gens_ok h'"
  proof (cases "hb_generation h")
    case None
    have "cont_generation c < Suc (hb_nextId h)" if "c \<in> set (hb_runnable h) \<union> snd ` set (hb_waiting h)" for c
      using assms(1) that unfolding gens_ok_def by (blast intro: less_SucI)
    moreover have "hb_generation h' = Some (fresh_generation (hb_nextId h))" "hb_nextId h' = Suc (hb_nextId h)"
      "hb_runnable h' = hb_runnable h" "hb_waiting h' = hb_waiting h"
      using None assms(2) by (auto simp: generation_of_def Let_def)
    ultimately show ?thesis by (simp add: gens_ok_def fresh_generation_def)
  qed (use assms in \<open>auto simp: generation_of_def\<close>)
  with gen show "g_id g < hb_nextId h'" by (simp add: gens_ok_def)
qed

lemma remember_id [simp]: "g_id (remember did mid g) = g_id g"
  by (simp add: remember_def Let_def split: option.split list.split)

lemma gens_on_generation:
  assumes "gens_ok h" "\<And>g. g_id (f g) = g_id g"
  shows "gens_ok (on_generation f h)"
  using assms by (intro gens_ok_cong [OF assms(1)]) auto

lemma gens_consumed:
  assumes "gens_ok h"
  shows "gens_ok (snd (consumed m h))"
  by (rule gens_ok_cong [OF assms]) simp_all

lemma gens_notify_then:
  assumes "gens_ok h" "\<And>n. cont_generation (k n) = n"
  shows "gens_ok (snd (notify_then m announced k h))"
proof -
  obtain g h1 where g: "generation_of h = (g, h1)" by fastforce
  note gens = gens_generation_of [OF assms(1) g]
  have twice: "generation_of h1 = (g, h1)" using gens(3) by (simp add: generation_of_def)
  show ?thesis
  proof (cases m announced h1 rule: notify_cases)
    case (failed e)
    with gens(1) g twice show ?thesis by (simp add: notify_then_def Let_def)
  next
    case (started g' h')
    with twice have eq: "g' = g" "h' = h1" by simp_all
    have "snd (notify_then m announced k h) = wait_for (hb_nextId h1) (k (g_id g)) (snd (notify m announced h1))"
      using started(2) g eq by (simp add: notify_then_def case_prod_unfold Let_def)
    moreover have "gens_ok (wait_for (hb_nextId h1) (k (g_id g)) (snd (notify m announced h1)))"
      using gens started(3-8) assms(2) unfolding eq
      by (auto simp: gens_ok_def wait_for_def intro: less_SucI)
    ultimately show ?thesis by simp
  qed
qed

lemma gens_wait_for:
  "gens_ok h \<Longrightarrow> cont_generation c < hb_nextId h \<Longrightarrow> gens_ok (wait_for n c h)"
  by (auto simp: gens_ok_def wait_for_def)

lemma gens_simple:
  assumes "gens_ok h"
  shows "gens_ok (send_ack m h)" "gens_ok (take_custody m h)" "gens_ok (attend m now h)"
  using assms by (simp_all add: gens_ok_def send_ack_def take_custody_def acknowledgeCustody_def attend_def)

lemma gens_receive:
  assumes "gens_ok h"
  shows "gens_ok (snd (receive m now h))" "gens_ok (snd (announce m now h))"
proof -
  obtain g h1 where g: "generation_of h = (g, h1)" by fastforce
  note gens = gens_generation_of [OF assms g]
  obtain r h2 where c: "consumed m (on_generation (remember (d_deliveryId m) None) h1) = (r, h2)" by fastforce
  have h2: "gens_ok h2"
    using gens_consumed [OF gens_on_generation [OF gens(1)], of "remember (d_deliveryId m) None" m] c by simp
  show "gens_ok (snd (receive m now h))" using assms gens h2
    by (auto simp: receive_def g c Let_def gens_simple gens_notify_then gens_wait_for
        split: option.split sum.split bool.split)
  show "gens_ok (snd (announce m now h))" using assms gens
    by (auto simp: announce_def g Let_def gens_simple gens_notify_then gens_wait_for gens_on_generation
        split: option.split)
qed

lemma gens_flush_scan:
  "gens_ok h \<Longrightarrow> gens_ok (snd (flush_scan now held settled announced h))"
proof (induction held arbitrary: settled announced h)
  case (Cons m held)
  obtain r h2 where c: "consumed m (on_generation (remember (d_deliveryId m) None) h) = (r, h2)" by fastforce
  have h2: "gens_ok h2"
    using gens_consumed [OF gens_on_generation [OF Cons.prems], of "remember (d_deliveryId m) None" m] c by simp
  then have "gens_ok (h2\<lparr>hb_skipped := xs\<rparr>)" "gens_ok (attend m now h2)" for xs
    by (simp_all add: gens_ok_def attend_def)
  with Cons h2 c show ?case by (simp split: sum.split bool.split option.split)
qed simp

lemma gens_settle_recovered: "gens_ok h \<Longrightarrow> gens_ok (fold settle_recovered ms h)"
proof (induction ms arbitrary: h)
  case (Cons m ms)
  have "gens_ok (h\<lparr>hb_index := ix\<rparr>)" for ix using Cons.prems by (simp add: gens_ok_def)
  then have "gens_ok (settle_recovered m h)"
    unfolding settle_recovered_def Let_def by (intro gens_on_generation) simp_all
  with Cons.IH show ?case by simp
qed simp

lemma gens_step_ok:
  assumes "hub_step h h'" "gens_ok h"
  shows "gens_ok h'"
  using assms
proof (induction rule: hub_step.induct)
  case (flush held h now)
  obtain g h1 where g: "generation_of h = (g, h1)" by fastforce
  note gens = gens_generation_of [OF flush(2) g]
  obtain r h2 where s: "flush_scan now held [] [] h1 = (r, h2)" by fastforce
  then have h2: "gens_ok h2" using gens_flush_scan [OF gens(1), of now held "[]" "[]"] by simp
  then have "gens_ok (mark_notified xs h2)" for xs
    unfolding mark_notified_def by (intro gens_on_generation) simp_all
  with h2 flush(2) show ?case
    by (auto simp: flush_def g s Let_def gens_notify_then split: sum.split)
next
  case (recover h compare ms summary)
  obtain g h1 where g: "generation_of h = (g, h1)" by fastforce
  note gens = gens_generation_of [OF recover g]
  have "gens_ok (h1\<lparr>hb_queue := q, hb_index := ix, hb_nextId := Suc (hb_nextId h1), hb_inflight := fl, hb_notices := ns\<rparr>)"
    for q ix fl ns by (rule gens_ok_cong [OF gens(1)]) simp_all
  with gens show ?case by (auto simp: recover_def g Let_def intro!: gens_wait_for split: option.split)
next
  case (settle h n accepted)
  show ?case
  proof (cases "map_get (hb_inflight h) n")
    case None
    with settle show ?thesis by (simp add: settle_attempt_def)
  next
    case (Some att)
    show ?thesis
      by (rule gens_ok_cong [OF settle])
        (auto simp: settle_attempt_def Some Let_def on_generation_def rev_image_eqI split: option.splits if_splits)
  qed
next
  case (resume h pre c post)
  then have ok: "gens_ok (h\<lparr>hb_runnable := pre @ post\<rparr>)" by (intro gens_ok_cong [OF resume(2)]) auto
  then have "gens_ok (h\<lparr>hb_runnable := pre @ post, hb_index := ix\<rparr>)" for ix by (simp add: gens_ok_def)
  then have "gens_ok ((fold settle_recovered ms (h\<lparr>hb_runnable := pre @ post, hb_index := ix\<rparr>))\<lparr>hb_received := k\<rparr>)" for ms ix k
    using gens_settle_recovered [of "h\<lparr>hb_runnable := pre @ post, hb_index := ix\<rparr>" ms] by (simp add: gens_ok_def)
  moreover have "gens_ok (mark_notified xs (h\<lparr>hb_runnable := pre @ post\<rparr>))" for xs
    unfolding mark_notified_def by (intro gens_on_generation ok) simp
  ultimately show ?case using ok by (cases c) (simp_all add: gens_simple Let_def)
next
  case (forget h)
  then show ?case by (simp add: forget_agent_def gens_ok_def)
next
  case (receive m h now)
  from receive(2) show ?case by (rule gens_receive(1))
next
  case (announce m h now)
  from announce(2) show ?case by (rule gens_receive(2))
qed (simp_all add: gens_ok_def)

lemma gens_reachable: "reachable h \<Longrightarrow> gens_ok h"
proof (induction rule: reachable.induct)
  case (start w a store)
  then show ?case by (simp add: gens_ok_def initial_hub_def)
qed (rule gens_step_ok)

text \<open>
  Forgetting an Agent cuts off everything under way. Once its next generation exists, resuming any
  handler that was waiting when the Agent was forgotten acknowledges nothing and changes nothing, and
  a notice that was in flight then, accepted or not, leaves the new generation as it is.
\<close>

theorem forgotten_agent_is_cut_off:
  assumes "reachable h" "h' = snd (generation_of (forget_agent h))"
  shows "(\<forall>c \<in> set (hb_runnable h) \<union> snd ` set (hb_waiting h). snd (resume c h') = h') \<and>
    (\<forall>n accepted. hb_generation (settle_attempt n accepted h') = hb_generation h' \<and>
       hb_acks (settle_attempt n accepted h') = hb_acks h)"
proof (intro conjI ballI allI)
  have cur: "is_current h' k \<longleftrightarrow> k = hb_nextId h" for k
    by (auto simp: assms(2) is_current_def generation_of_def forget_agent_def fresh_generation_def Let_def)
  show "snd (resume c h') = h'" if "c \<in> set (hb_runnable h) \<union> snd ` set (hb_waiting h)" for c
  proof -
    have "cont_generation c < hb_nextId h"
      using gens_reachable [OF assms(1)] that unfolding gens_ok_def by blast
    then show ?thesis using cur by (cases c) simp_all
  qed
  show "hb_generation (settle_attempt n accepted h') = hb_generation h'" for n accepted
  proof (cases "map_get (hb_inflight h') n")
    case (Some att)
    then have "map_get (hb_inflight h) n = Some att" by (simp add: assms(2) forget_agent_def)
    with hub_inv_reachable [OF assms(1)] have "at_generation att < hb_nextId h"
      by (simp add: hub_inv_def inflight_ok_def)
    then have "at_generation att \<noteq> hb_nextId h" by simp
    then have "\<not> is_current h' (at_generation att)" using cur by simp
    then have "\<not> is_current (h'\<lparr>hb_inflight := x, hb_accepted := y\<rparr>) (at_generation att)"
      "\<not> is_current (h'\<lparr>hb_inflight := x\<rparr>) (at_generation att)" for x y by (simp_all add: is_current_def)
    with Some show ?thesis by (simp add: settle_attempt_def Let_def split: option.split)
  qed (simp add: settle_attempt_def)
  show "hb_acks (settle_attempt n accepted h') = hb_acks h" for n accepted
    by (simp add: acks_handlers assms(2) forget_agent_def)
qed

theorem forgotten_agent_is_cut_off_witness:
  "hb_acks (settle_attempt 0 True (snd (generation_of (forget_agent (initial_hub ''ws'' ''bot'' None))))) = []"
  using forgotten_agent_is_cut_off [OF reachable.start refl, of "''ws''" "''bot''" None]
  by (simp add: initial_hub_def)

end
