(* ===== verification/RecoveryRace.thy ===== *)
theory RecoveryRace
  imports AttentionDelivery
begin

text \<open>
  A run of the delivery model in which a restart recovery undoes a \<open>check\<close>: \<open>recover\<close> of
  \<open>packages/daemon/src/daemon-runtime/agent-message-attention-index.ts\<close> copies the Agent's attention
  before it awaits the session's notice and stores the copy when the notice was accepted.
\<close>
definition late_recovery :: recovery_message where
  "late_recovery = \<lparr>r_messageId = ''m2'', r_deliveryId = ''d2'', r_conversationId = ''dm'', r_sequence = 1,
     r_target = ''@ann'', r_senderKind = Human, r_senderHandle = ''ann'', r_body = ''hi'', r_nonMemberMention = False\<rparr>"

definition race_begun :: hub where
  "race_begun = snd (recover (\<lambda>_ _. 0) [late_recovery] []
     (snd (receive (sample_delivery ''d1'' ''m1'' 5) 0 ((initial_hub ''ws'' ''bot'' None)\<lparr>hb_session := True\<rparr>))))"

definition race_checked :: hub where
  "race_checked = (let (store, ix) = index_step ''bot'' (True, ShownOneByOne [(''#general'', [5])])
       (hb_store race_begun, hb_index race_begun)
     in race_begun\<lparr>hb_store := store, hb_index := ix\<rparr>)"

definition race_settled :: hub where
  "race_settled = settle_attempt 2 True race_checked"

definition race_done :: hub where
  "race_done = snd (resume (hd (hb_runnable race_settled)) (race_settled\<lparr>hb_runnable := tl (hb_runnable race_settled)\<rparr>))"

definition resurrected :: "hub \<Rightarrow> bool" where
  "resurrected h \<longleftrightarrow> pendingMessageCount (hb_index h) ''#general'' = 1 \<and>
     get_or (ai_pendingSequences (hb_index h)) ''#general'' [] = [] \<and> seen_by (hb_index h) ''#general'' 5"

lemma race_facts:
  "pendingMessageCount (hb_index race_checked) ''#general'' = 0" "hb_runnable race_settled \<noteq> []" "resurrected race_done"
  by code_simp+

lemma reachable_race: "reachable race_begun" "reachable race_checked" "reachable race_settled" "reachable race_done"
proof -
  let ?h0 = "initial_hub ''ws'' ''bot'' None"
  have "reachable (?h0\<lparr>hb_session := True\<rparr>)" by (rule reachable.step [OF reachable.start hub_step.session])
  then have r1: "reachable (snd (receive (sample_delivery ''d1'' ''m1'' 5) 0 (?h0\<lparr>hb_session := True\<rparr>)))"
    by (rule reachable.step) (rule hub_step.receive, simp add: sample_delivery_def initial_hub_def)
  show begun: "reachable race_begun"
    unfolding race_begun_def by (rule reachable.step [OF r1 hub_step.recover])
  have agent: "hb_agentId race_begun = ''bot''" by code_simp
  obtain store ix where s: "index_step ''bot'' (True, ShownOneByOne [(''#general'', [5])])
      (hb_store race_begun, hb_index race_begun) = (store, ix)" by fastforce
  have "hub_step race_begun (race_begun\<lparr>hb_store := store, hb_index := ix\<rparr>)"
    by (rule hub_step.index [of "ShownOneByOne [(''#general'', [5])]" _ True]) (simp, simp, simp only: agent s)
  from reachable.step [OF begun this] show checked: "reachable race_checked"
    by (simp only: race_checked_def s Let_def prod.case)
  show settled: "reachable race_settled"
    unfolding race_settled_def by (rule reachable.step [OF checked hub_step.settle])
  have "hb_runnable race_settled = [] @ hd (hb_runnable race_settled) # tl (hb_runnable race_settled)"
    using race_facts(2) by simp
  from reachable.step [OF settled hub_step.resume [OF this]] show "reachable race_done"
    by (simp only: race_done_def append_Nil)
qed


end
