(* ===== verification/Mentions.thy ===== *)
theory Mentions
  imports MessageTarget
begin

text \<open>
  The structured-mention grammar of \<open>packages/coforge-sdk/src/internal/mentions.ts\<close>: selectors,
  code spans, plain \<open>@handle\<close> mentions, stored mention tokens, and the resolution of handles
  against the members of a conversation. Each regular expression is written as the scan its global
  match makes over the body.
\<close>

subsection \<open>Selectors\<close>

datatype actor_type = UserActor | AgentActor

record mention_selector =
  ms_type :: actor_type
  ms_id :: string
  ms_name :: string

definition MENTION_HANDLE_MAX_LENGTH :: nat where
  "MENTION_HANDLE_MAX_LENGTH = 128"

definition MENTION_SELECTORS_MAX_LENGTH :: nat where
  "MENTION_SELECTORS_MAX_LENGTH = 32"

fun split_on :: "char \<Rightarrow> string \<Rightarrow> string list" where
  "split_on c [] = [[]]"
| "split_on c (x # xs) =
     (if x = c then [] # split_on c xs
      else case split_on c xs of [] \<Rightarrow> [[x]] | p # ps \<Rightarrow> (x # p) # ps)"

definition valid_mention_handle :: "string \<Rightarrow> bool" where
  "valid_mention_handle handle \<longleftrightarrow>
     length handle \<le> MENTION_HANDLE_MAX_LENGTH \<and> mention_handle_pattern handle"

definition parseMentionSelector :: "string \<Rightarrow> mention_selector option" where
  "parseMentionSelector value =
     (case split_on (CHR '':'') value of
        [kind, ident, handle] \<Rightarrow>
          if kind \<noteq> ''human'' \<and> kind \<noteq> ''agent'' then None
          else if ident = '''' \<or> \<not> uuid_like_pattern ident then None
          else if handle = '''' \<or> \<not> valid_mention_handle handle then None
          else Some \<lparr>ms_type = (if kind = ''human'' then UserActor else AgentActor),
            ms_id = to_lower ident, ms_name = handle\<rparr>
      | _ \<Rightarrow> None)"

definition valid_selector_entry :: "json \<Rightarrow> bool" where
  "valid_selector_entry mention =
     (case mention of
        JObj r \<Rightarrow>
          (json_str (field r ''type'') = Some ''user'' \<or> json_str (field r ''type'') = Some ''agent'') \<and>
          (case json_str (field r ''id'') of None \<Rightarrow> False | Some i \<Rightarrow> uuid_like_pattern i) \<and>
          (case json_str (field r ''name'') of None \<Rightarrow> False | Some n \<Rightarrow> valid_mention_handle n)
      | _ \<Rightarrow> False)"

definition isValidMentionSelectorArray :: "json \<Rightarrow> nat \<Rightarrow> bool" where
  "isValidMentionSelectorArray value maxLength =
     (case value of
        JArr ms \<Rightarrow> length ms \<le> maxLength \<and> list_all valid_selector_entry ms
      | _ \<Rightarrow> False)"

subsection \<open>Code spans\<close>

definition backtick :: char where
  "backtick = CHR 0x60"

text \<open>What is before and after the first three backticks.\<close>

fun find_ticks :: "string \<Rightarrow> (string \<times> string) option" where
  "find_ticks [] = None"
| "find_ticks (c # cs) =
     (if take 3 (c # cs) = [backtick, backtick, backtick] then Some ([], drop 2 cs)
      else map_option (\<lambda>(before, after). (c # before, after)) (find_ticks cs))"

text \<open>The next match of \<open>FENCED_CODE\<close>: the text before it, the match, and the rest.\<close>

definition next_fence :: "string \<Rightarrow> (string \<times> string \<times> string) option" where
  "next_fence s =
     (case find_ticks s of
        None \<Rightarrow> None
      | Some (before, after) \<Rightarrow>
          (case find_ticks after of
             None \<Rightarrow> None
           | Some (content, rest) \<Rightarrow>
               Some (before, [backtick, backtick, backtick] @ content @ [backtick, backtick, backtick], rest)))"

definition inline_char :: "char \<Rightarrow> bool" where
  "inline_char x \<longleftrightarrow> x \<noteq> backtick \<and> x \<noteq> CHR 0x0A"

text \<open>The next match of \<open>INLINE_CODE\<close>.\<close>

fun next_inline :: "string \<Rightarrow> (string \<times> string \<times> string) option" where
  "next_inline [] = None"
| "next_inline (c # cs) =
     (if c = backtick \<and> dropWhile inline_char cs \<noteq> [] \<and> hd (dropWhile inline_char cs) = backtick
      then Some ([], backtick # takeWhile inline_char cs @ [backtick], tl (dropWhile inline_char cs))
      else map_option (\<lambda>(before, m, rest). (c # before, m, rest)) (next_inline cs))"

lemma find_ticks_split:
  "find_ticks s = Some (before, after) \<Longrightarrow> s = before @ [backtick, backtick, backtick] @ after"
proof (induction s arbitrary: before)
  case (Cons c cs)
  show ?case
  proof (cases "take 3 (c # cs) = [backtick, backtick, backtick]")
    case True
    then have "c # cs = [backtick, backtick, backtick] @ drop 3 (c # cs)"
      using append_take_drop_id [of 3 "c # cs"] by simp
    with True Cons.prems show ?thesis by (auto simp: numeral_3_eq_3 numeral_2_eq_2)
  next
    case False
    then have eq: "find_ticks (c # cs) = map_option (\<lambda>(before, after). (c # before, after)) (find_ticks cs)"
      by (simp only: find_ticks.simps if_False)
    from Cons.prems obtain b where "find_ticks cs = Some (b, after)" "before = c # b"
      unfolding eq by (cases "find_ticks cs") auto
    with Cons.IH show ?thesis by simp
  qed
qed simp

lemma next_fence_split:
  "next_fence s = Some (before, m, rest) \<Longrightarrow> s = before @ m @ rest \<and> length rest < length s \<and> m \<noteq> []"
  by (auto simp: next_fence_def dest!: find_ticks_split split: option.splits)

lemma next_inline_split:
  "next_inline s = Some (before, m, rest) \<Longrightarrow> s = before @ m @ rest \<and> length rest < length s \<and> m \<noteq> []"
proof (induction s arbitrary: before)
  case (Cons c cs)
  let ?d = "dropWhile inline_char cs"
  show ?case
  proof (cases "c = backtick \<and> ?d \<noteq> [] \<and> hd ?d = backtick")
    case True
    have "cs = takeWhile inline_char cs @ ?d" by simp
    also from True have "?d = backtick # tl ?d" by (metis list.collapse)
    finally have cs: "cs = takeWhile inline_char cs @ backtick # tl ?d" .
    with True Cons.prems have "c # cs = before @ m @ rest" "m \<noteq> []" by auto
    moreover from this have "length (c # cs) = length before + length m + length rest" by simp
    ultimately show ?thesis by (cases m) auto
  next
    case False
    then have eq: "next_inline (c # cs) = map_option (\<lambda>(before, m, rest). (c # before, m, rest)) (next_inline cs)"
      by (auto simp only: next_inline.simps if_False)
    from Cons.prems obtain b where "next_inline cs = Some (b, m, rest)" "before = c # b"
      unfolding eq by (cases "next_inline cs") auto
    with Cons.IH [of b] show ?thesis by auto
  qed
qed simp

text \<open>The pieces of a global match: the texts between the matches and the matches.\<close>

function fenced_segments :: "string \<Rightarrow> (string \<times> bool) list" where
  "fenced_segments s =
     (case next_fence s of
        None \<Rightarrow> [(s, False)]
      | Some (before, m, rest) \<Rightarrow> (before, False) # (m, True) # fenced_segments rest)"
  by pat_completeness auto

termination
  by (relation "measure length") (auto dest: next_fence_split)

function inline_segments :: "string \<Rightarrow> (string \<times> bool) list" where
  "inline_segments s =
     (case next_inline s of
        None \<Rightarrow> [(s, False)]
      | Some (before, m, rest) \<Rightarrow> (before, False) # (m, True) # inline_segments rest)"
  by pat_completeness auto

termination
  by (relation "measure length") (auto dest: next_inline_split)

declare fenced_segments.simps [simp del] inline_segments.simps [simp del]

definition text_of :: "(string \<times> bool) list \<Rightarrow> string" where
  "text_of segs = concat (map fst (filter (\<lambda>(t, code). \<not> code) segs))"

definition stripCodeSpans :: "string \<Rightarrow> string" where
  "stripCodeSpans body = text_of (inline_segments (text_of (fenced_segments body)))"

text \<open>\<open>pushText\<close> of \<open>splitCodeSpans\<close> leaves empty texts out.\<close>

definition push_text :: "string \<Rightarrow> (string \<times> bool) list" where
  "push_text s = filter (\<lambda>(t, code). code \<or> t \<noteq> []) (inline_segments s)"

definition splitCodeSpans :: "string \<Rightarrow> (string \<times> bool) list" where
  "splitCodeSpans body =
     concat (map (\<lambda>(t, code). if code then [(t, True)] else push_text t) (fenced_segments body))"


subsection \<open>Segments keep every character\<close>

lemma text_of_simps [simp]:
  "text_of [] = []"
  "text_of ((t, True) # segs) = text_of segs"
  "text_of ((t, False) # segs) = t @ text_of segs"
  "text_of (as @ bs) = text_of as @ text_of bs"
  by (simp_all add: text_of_def)

lemma concat_fenced_segments: "concat (map fst (fenced_segments s)) = s"
proof (induction s rule: fenced_segments.induct)
  case (1 s)
  then show ?case
    by (subst fenced_segments.simps) (auto dest: next_fence_split split: option.split)
qed

lemma concat_inline_segments: "concat (map fst (inline_segments s)) = s"
proof (induction s rule: inline_segments.induct)
  case (1 s)
  then show ?case
    by (subst inline_segments.simps) (auto dest: next_inline_split split: option.split)
qed

lemma concat_push_text: "concat (map fst (push_text s)) = s"
proof -
  have "concat (map fst (filter (\<lambda>(t, code). code \<or> t \<noteq> []) segs)) = concat (map fst segs)" for segs :: "(string \<times> bool) list"
    by (induction segs) auto
  then show ?thesis by (simp add: push_text_def concat_inline_segments)
qed

lemma text_of_push_text: "text_of (push_text s) = text_of (inline_segments s)"
proof -
  have "text_of (filter (\<lambda>(t, code). code \<or> t \<noteq> []) segs) = text_of segs" for segs
    by (induction segs) (auto simp: text_of_def)
  then show ?thesis by (simp add: push_text_def)
qed

lemma code_not_empty:
  "(t, True) \<in> set (fenced_segments s) \<Longrightarrow> t \<noteq> []"
  "(t, True) \<in> set (inline_segments s) \<Longrightarrow> t \<noteq> []"
proof -
  have "list_all (\<lambda>(t, code). code \<longrightarrow> t \<noteq> []) (fenced_segments s)" for s
  proof (induction s rule: fenced_segments.induct)
    case (1 s)
    then show ?case
      by (subst fenced_segments.simps) (auto dest: next_fence_split split: option.split)
  qed
  then show "(t, True) \<in> set (fenced_segments s) \<Longrightarrow> t \<noteq> []" by (fastforce simp: list_all_iff)
  have "list_all (\<lambda>(t, code). code \<longrightarrow> t \<noteq> []) (inline_segments s)" for s
  proof (induction s rule: inline_segments.induct)
    case (1 s)
    then show ?case
      by (subst inline_segments.simps) (auto dest: next_inline_split split: option.split)
  qed
  then show "(t, True) \<in> set (inline_segments s) \<Longrightarrow> t \<noteq> []" by (fastforce simp: list_all_iff)
qed

text \<open>
  Splitting a body into code and text segments loses nothing: the segments put together are the
  body, and no segment is empty.
\<close>

theorem split_code_spans_lossless:
  "concat (map fst (splitCodeSpans body)) = body \<and> [] \<notin> fst ` set (splitCodeSpans body)"
proof
  have "concat (map fst (concat (map (\<lambda>(t, code). if code then [(t, True)] else push_text t) segs))) =
      concat (map fst segs)" for segs
    by (induction segs) (auto simp: concat_push_text)
  then show "concat (map fst (splitCodeSpans body)) = body"
    by (simp add: splitCodeSpans_def concat_fenced_segments)
  have "t \<noteq> []" if "(t, code) \<in> set (splitCodeSpans body)" for t code
    using that code_not_empty by (fastforce simp: splitCodeSpans_def push_text_def split: if_splits)
  then show "[] \<notin> fst ` set (splitCodeSpans body)" by force
qed

lemma no_inline: "backtick \<notin> set s \<Longrightarrow> next_inline s = None"
  by (induction s) auto

text \<open>
  With no fenced block in the body, or no backtick outside its fenced blocks, the text segments
  are what \<open>stripCodeSpans\<close> leaves, so mentions read from either agree.
\<close>

theorem split_agrees_with_strip:
  assumes "next_fence body = None \<or> (\<forall>(t, code) \<in> set (fenced_segments body). code \<or> backtick \<notin> set t)"
  shows "text_of (splitCodeSpans body) = stripCodeSpans body"
  using assms
proof
  assume "next_fence body = None"
  then show ?thesis
    by (simp add: splitCodeSpans_def stripCodeSpans_def fenced_segments.simps text_of_push_text)
next
  assume plain: "\<forall>(t, code) \<in> set (fenced_segments body). code \<or> backtick \<notin> set t"
  have id: "text_of (inline_segments t) = t" if "backtick \<notin> set t" for t
    using no_inline [OF that] by (simp add: inline_segments.simps)
  have "text_of (concat (map (\<lambda>(t, code). if code then [(t, True)] else push_text t) segs)) = text_of segs"
    if "\<forall>(t, code) \<in> set segs. code \<or> backtick \<notin> set t" for segs
    using that by (induction segs) (auto simp: text_of_push_text id)
  moreover have "backtick \<notin> set (text_of (fenced_segments body))"
    using plain by (auto simp: text_of_def)
  ultimately show ?thesis using plain by (simp add: splitCodeSpans_def stripCodeSpans_def id)
qed

theorem split_agrees_with_strip_witness:
  "text_of (splitCodeSpans ''say `@x` to @frank'') = stripCodeSpans ''say `@x` to @frank''"
  by (rule split_agrees_with_strip) code_simp

subsection \<open>Plain mentions\<close>

text \<open>The characters \<open>MENTION_PATTERN\<close> refuses before the sign and after the handle.\<close>

definition word_char :: "char \<Rightarrow> bool" where
  "word_char c \<longleftrightarrow> c \<in> set (lower_alnum @ upper_letters @ ''_'')"

definition blocks_before :: "char option \<Rightarrow> bool" where
  "blocks_before prev = (case prev of None \<Rightarrow> False | Some c \<Rightarrow> word_char c \<or> c = CHR ''@'')"

definition blocks_after :: "string \<Rightarrow> bool" where
  "blocks_after rest = (case rest of [] \<Rightarrow> False | c # _ \<Rightarrow> word_char c \<or> c = CHR ''-'')"

abbreviation handle_char :: "char \<Rightarrow> bool" where
  "handle_char c \<equiv> c \<in> set handle_chars"

text \<open>
  \<open>matchAll(MENTION_PATTERN)\<close>: a greedy handle that ends before a refused character has no shorter
  match, because a shorter one is followed by a handle character.
\<close>

function match_mentions :: "char option \<Rightarrow> string \<Rightarrow> string list" where
  "match_mentions prev [] = []"
| "match_mentions prev (c # cs) =
     (let handle = takeWhile handle_char cs; rest = dropWhile handle_char cs
      in if c = CHR ''@'' \<and> \<not> blocks_before prev \<and> mention_handle_pattern handle \<and> \<not> blocks_after rest
         then handle # match_mentions (Some (last handle)) rest
         else match_mentions (Some c) cs)"
  by pat_completeness auto

termination
  by (relation "measure (\<lambda>(prev, s). length s)") (auto simp: le_imp_less_Suc length_dropWhile_le)

definition mentionsInContent :: "string \<Rightarrow> string list" where
  "mentionsInContent body = fold set_add (match_mentions None (stripCodeSpans body)) []"

text \<open>What counts as a mention of \<open>h\<close> in a text.\<close>

definition mentioned :: "string \<Rightarrow> string \<Rightarrow> bool" where
  "mentioned h s \<longleftrightarrow> mention_handle_pattern h \<and>
     (\<exists>before after. s = before @ CHR ''@'' # h @ after \<and>
        \<not> blocks_before (if before = [] then None else Some (last before)) \<and> \<not> blocks_after after)"

lemma handle_pattern_chars: "mention_handle_pattern h \<Longrightarrow> \<forall>c \<in> set h. handle_char c"
  by (auto simp: mention_handle_pattern_def handle_chars_def list_all_iff split: list.splits)

lemma handle_char_cases: "handle_char c \<Longrightarrow> word_char c \<or> c = CHR ''-''"
  by (auto simp: handle_chars_def word_char_def)

lemma at_not_handle: "\<not> handle_char (CHR ''@'')"
  by (simp add: handle_chars_def lower_alnum_def)

lemma handle_is_takeWhile:
  assumes "mention_handle_pattern h" "\<not> blocks_after after"
  shows "takeWhile handle_char (h @ after) = h" "dropWhile handle_char (h @ after) = after"
proof -
  have "after = [] \<or> \<not> handle_char (hd after)"
    using assms(2) handle_char_cases by (auto simp: blocks_after_def split: list.splits)
  then show "takeWhile handle_char (h @ after) = h" "dropWhile handle_char (h @ after) = after"
    using handle_pattern_chars [OF assms(1)]
    by (auto simp: takeWhile_append dropWhile_append takeWhile_eq_Nil_iff dropWhile_eq_self_iff)
qed

lemma handle_split_iff:
  "(mention_handle_pattern h \<and> (\<exists>after. cs = h @ after \<and> \<not> blocks_after after)) \<longleftrightarrow>
     h = takeWhile handle_char cs \<and> mention_handle_pattern (takeWhile handle_char cs) \<and>
     \<not> blocks_after (dropWhile handle_char cs)"
proof
  assume "mention_handle_pattern h \<and> (\<exists>after. cs = h @ after \<and> \<not> blocks_after after)"
  then obtain after where "mention_handle_pattern h" "cs = h @ after" "\<not> blocks_after after" by blast
  with handle_is_takeWhile [of h after] show
    "h = takeWhile handle_char cs \<and> mention_handle_pattern (takeWhile handle_char cs) \<and>
     \<not> blocks_after (dropWhile handle_char cs)" by simp
next
  assume h: "h = takeWhile handle_char cs \<and> mention_handle_pattern (takeWhile handle_char cs) \<and>
     \<not> blocks_after (dropWhile handle_char cs)"
  then have "cs = h @ dropWhile handle_char cs" by (metis takeWhile_dropWhile_id)
  with h show "mention_handle_pattern h \<and> (\<exists>after. cs = h @ after \<and> \<not> blocks_after after)" by metis
qed

text \<open>A mention found from a position with \<open>prev\<close> before it.\<close>

definition mention_at :: "char option \<Rightarrow> string \<Rightarrow> string \<Rightarrow> bool" where
  "mention_at prev s h \<longleftrightarrow> mention_handle_pattern h \<and>
     (\<exists>before after. s = before @ CHR ''@'' # h @ after \<and>
        \<not> blocks_before (if before = [] then prev else Some (last before)) \<and> \<not> blocks_after after)"

lemma mention_at_Cons:
  "mention_at prev (c # cs) h \<longleftrightarrow>
     (c = CHR ''@'' \<and> \<not> blocks_before prev \<and> mention_handle_pattern h \<and>
       (\<exists>after. cs = h @ after \<and> \<not> blocks_after after)) \<or>
     mention_at (Some c) cs h"
proof
  assume "mention_at prev (c # cs) h"
  then obtain before after where m: "mention_handle_pattern h" "c # cs = before @ CHR ''@'' # h @ after"
    "\<not> blocks_before (if before = [] then prev else Some (last before))" "\<not> blocks_after after"
    by (auto simp: mention_at_def)
  show "(c = CHR ''@'' \<and> \<not> blocks_before prev \<and> mention_handle_pattern h \<and>
       (\<exists>after. cs = h @ after \<and> \<not> blocks_after after)) \<or> mention_at (Some c) cs h"
  proof (cases before)
    case Nil
    with m show ?thesis by auto
  next
    case (Cons b bs)
    with m have "c = b" "cs = bs @ CHR ''@'' # h @ after" by simp_all
    moreover from this Cons m(3) have "\<not> blocks_before (if bs = [] then Some c else Some (last bs))"
      by (simp split: if_splits)
    ultimately have "mention_at (Some c) cs h" using m(1,4) unfolding mention_at_def by blast
    then show ?thesis by (rule disjI2)
  qed
next
  assume "(c = CHR ''@'' \<and> \<not> blocks_before prev \<and> mention_handle_pattern h \<and>
       (\<exists>after. cs = h @ after \<and> \<not> blocks_after after)) \<or> mention_at (Some c) cs h"
  then show "mention_at prev (c # cs) h"
  proof
    assume "c = CHR ''@'' \<and> \<not> blocks_before prev \<and> mention_handle_pattern h \<and>
      (\<exists>after. cs = h @ after \<and> \<not> blocks_after after)"
    then have "mention_handle_pattern h \<and> (\<exists>after. c # cs = [] @ CHR ''@'' # h @ after \<and>
      \<not> blocks_before prev \<and> \<not> blocks_after after)" by simp
    then show ?thesis unfolding mention_at_def by (metis (full_types))
  next
    assume "mention_at (Some c) cs h"
    then obtain before after where "mention_handle_pattern h" "cs = before @ CHR ''@'' # h @ after"
      "\<not> blocks_before (if before = [] then Some c else Some (last before))" "\<not> blocks_after after"
      by (auto simp: mention_at_def)
    then show ?thesis unfolding mention_at_def
      by (intro conjI exI [of _ "c # before"] exI [of _ after]) (simp_all split: if_splits)
  qed
qed

lemma mention_at_skip_handle:
  assumes "list_all handle_char cs" "cs \<noteq> []"
  shows "mention_at prev (cs @ rest) h = mention_at (Some (last cs)) rest h"
  using assms
proof (induction cs arbitrary: prev)
  case (Cons c cs)
  then have "c \<noteq> CHR ''@''" using at_not_handle by auto
  with Cons show ?case by (cases cs) (auto simp: mention_at_Cons)
qed simp

lemma match_mentions_iff: "h \<in> set (match_mentions prev s) \<longleftrightarrow> mention_at prev s h"
proof (induction prev s rule: match_mentions.induct)
  case (1 prev)
  then show ?case by (simp add: mention_at_def)
next
  case (2 prev c cs)
  define t d where "t = takeWhile handle_char cs" and "d = dropWhile handle_char cs"
  have cs: "cs = t @ d" by (simp add: t_def d_def)
  show ?case
  proof (cases "c = CHR ''@'' \<and> \<not> blocks_before prev \<and> mention_handle_pattern t \<and> \<not> blocks_after d")
    case True
    have t: "list_all handle_char t" "t \<noteq> []"
      using True by (auto simp: t_def list_all_iff mention_handle_pattern_def dest: set_takeWhileD)
    from mention_at_skip_handle [OF t, of "Some c" d h] have skip: "mention_at (Some c) cs h = mention_at (Some (last t)) d h"
      by (simp add: cs [symmetric])
    have one: "(mention_handle_pattern h \<and> (\<exists>after. cs = h @ after \<and> \<not> blocks_after after)) = (h = t)"
      using True unfolding handle_split_iff t_def [symmetric] d_def [symmetric] by blast
    have "h \<in> set (match_mentions prev (c # cs)) \<longleftrightarrow> h = t \<or> mention_at (Some (last t)) d h"
      using True "2.IH"(1) [OF t_def d_def True] by (simp add: t_def [symmetric] d_def [symmetric])
    with True one skip show ?thesis by (simp add: mention_at_Cons [of prev])
  next
    case False
    then have "match_mentions prev (c # cs) = match_mentions (Some c) cs"
      by (simp only: match_mentions.simps Let_def t_def d_def if_False)
    moreover have "\<not> (c = CHR ''@'' \<and> \<not> blocks_before prev \<and> mention_handle_pattern h \<and>
        (\<exists>after. cs = h @ after \<and> \<not> blocks_after after))"
      using False unfolding handle_split_iff t_def [symmetric] d_def [symmetric] by blast
    ultimately show ?thesis
      using "2.IH"(2) [OF t_def d_def False] mention_at_Cons [of prev c cs h] by metis
  qed
qed

text \<open>
  C33: the handles a body mentions are exactly the ones its grammar names: a handle is found when, once
  the code spans are gone, the sign and the whole handle occur with no word character or sign before
  and no word character or hyphen after. Each is reported once.
\<close>

theorem mentions_are_the_grammar:
  "set (mentionsInContent body) = {h. mentioned h (stripCodeSpans body)} \<and> distinct (mentionsInContent body)"
proof -
  have "set (fold set_add xs acc) = set acc \<union> set xs" "distinct acc \<Longrightarrow> distinct (fold set_add xs acc)"
    for xs acc :: "string list"
    by (induction xs arbitrary: acc) auto
  moreover have "mention_at None s h = mentioned h s" for s h
    by (simp only: mention_at_def mentioned_def)
  ultimately show ?thesis by (simp add: mentionsInContent_def match_mentions_iff set_eq_iff)
qed

subsection \<open>Stored mention tokens\<close>

definition mentionToken :: "actor_type \<Rightarrow> string \<Rightarrow> string" where
  "mentionToken ty ident =
     ''<@'' @ (if ty = UserActor then ''human'' else ''agent'') @ '':'' @ to_lower ident @ ''>''"

text \<open>
  A match of \<open>MENTION_TOKEN_PATTERN\<close> at the start of a text. The pattern carries the \<open>i\<close> flag; the
  kind is given back as written.
\<close>

definition token_at :: "string \<Rightarrow> (string \<times> string) option" where
  "token_at s =
     (if length s \<ge> 45 \<and> take 2 s = ''<@'' \<and> to_lower (take 5 (drop 2 s)) \<in> {''human'', ''agent''} \<and>
         s ! 7 = CHR '':'' \<and> uuid_like_pattern (take 36 (drop 8 s)) \<and> s ! 44 = CHR ''>''
      then Some (take 5 (drop 2 s), take 36 (drop 8 s)) else None)"

function replaceMentionTokens :: "(actor_type \<Rightarrow> string \<Rightarrow> string option) \<Rightarrow> string \<Rightarrow> string" where
  "replaceMentionTokens resolve [] = []"
| "replaceMentionTokens resolve (c # cs) =
     (case token_at (c # cs) of
        None \<Rightarrow> c # replaceMentionTokens resolve cs
      | Some (kind, ident) \<Rightarrow>
          (case resolve (if kind = ''human'' then UserActor else AgentActor) (to_lower ident) of
             None \<Rightarrow> take 45 (c # cs) | Some r \<Rightarrow> r) @ replaceMentionTokens resolve (drop 44 cs))"
  by pat_completeness auto

termination
  by (relation "measure (\<lambda>(resolve, s). length s)") auto

text \<open>
  A token the caller cannot resolve stays byte for byte: when nothing is known, the body is
  unchanged.
\<close>

theorem unknown_tokens_are_kept: "replaceMentionTokens (\<lambda>_ _. None) body = body"
proof (induction body rule: length_induct)
  case (1 body)
  show ?case
  proof (cases body)
    case (Cons c cs)
    have "replaceMentionTokens (\<lambda>_ _. None) cs = cs"
      "replaceMentionTokens (\<lambda>_ _. None) (drop 44 cs) = drop 44 cs"
      using 1 Cons by simp_all
    moreover have "take 45 (c # cs) @ drop 44 cs = c # cs" by (simp add: take_Cons')
    ultimately show ?thesis using Cons by (simp split: option.split prod.split)
  qed simp
qed

lemma token_at_mentionToken:
  assumes "uuid_like_pattern ident"
  shows "token_at (mentionToken ty ident @ rest) =
    Some (if ty = UserActor then ''human'' else ''agent'', to_lower ident)"
proof -
  have len: "length (to_lower ident) = 36" and u: "uuid_like_pattern (to_lower ident)"
    using assms by (simp_all add: uuid_like_pattern_def is_uuid_like_def)
  have s: "mentionToken ty ident @ rest =
      ''<@'' @ (if ty = UserActor then ''human'' else ''agent'') @ '':'' @ to_lower ident @ ''>'' @ rest"
    by (simp add: mentionToken_def)
  show ?thesis unfolding s using len u
    by (cases ty) (simp_all add: token_at_def nth_append to_lower_def to_lower_char_def
        upper_letters_def lower_letters_def)
qed

text \<open>
  A stored token gives its actor back: rewriting a body that starts with the token of a UUID asks
  for exactly that kind and that id, puts the answer (or the token itself) in its place, and goes on
  after it.
\<close>

theorem mention_token_round_trip:
  assumes "uuid_like_pattern ident"
  shows "replaceMentionTokens resolve (mentionToken ty ident @ rest) =
    (case resolve ty (to_lower ident) of None \<Rightarrow> mentionToken ty ident | Some r \<Rightarrow> r) @
    replaceMentionTokens resolve rest"
proof -
  have len: "length (mentionToken ty ident) = 45"
    using assms by (simp add: mentionToken_def uuid_like_pattern_def is_uuid_like_def)
  obtain c cs where m: "mentionToken ty ident = c # cs" by (simp add: mentionToken_def)
  then have cs: "length cs = 44" using len by simp
  have kind: "((if ty = UserActor then ''human'' else ''agent'') = ''human'') = (ty = UserActor)"
    "(if ty = UserActor then UserActor else AgentActor) = ty" by (cases ty; simp)+
  have "token_at (c # cs @ rest) = Some (if ty = UserActor then ''human'' else ''agent'', to_lower ident)"
    using token_at_mentionToken [OF assms, of ty rest] m by simp
  then show ?thesis using cs by (simp add: m kind split: option.split)
qed

theorem mention_token_round_trip_witness:
  "replaceMentionTokens (\<lambda>ty i. Some ''@ada'')
     (mentionToken UserActor ''01234567-89ab-cdef-0123-456789abcdef'' @ '' hi'') = ''@ada hi''"
proof -
  have "replaceMentionTokens (\<lambda>ty i. Some ''@ada'') '' hi'' = '' hi''" by code_simp
  moreover have "uuid_like_pattern ''01234567-89ab-cdef-0123-456789abcdef''" by code_simp
  ultimately show ?thesis
    using mention_token_round_trip [of "''01234567-89ab-cdef-0123-456789abcdef''" "\<lambda>ty i. Some ''@ada''" UserActor "'' hi''"]
    by simp
qed

subsection \<open>Resolving handles\<close>

record mention_target =
  mt_key :: string
  mt_type :: actor_type
  mt_id :: string
  mt_handle :: string

definition bound_target :: "mention_target list \<Rightarrow> mention_selector \<Rightarrow> mention_target option" where
  "bound_target targets b =
     find (\<lambda>t. mt_type t = ms_type b \<and> to_lower (mt_id t) = to_lower (ms_id b) \<and> mt_handle t = ms_name b) targets"

text \<open>\<open>agentByHandle.get(handle) ?? userByHandle.get(handle)\<close>: the first member of each kind is kept.\<close>

definition by_handle :: "mention_target list \<Rightarrow> string \<Rightarrow> mention_target option" where
  "by_handle targets handle =
     (case find (\<lambda>t. mt_type t = AgentActor \<and> mt_handle t = handle) targets of
        Some t \<Rightarrow> Some t
      | None \<Rightarrow> find (\<lambda>t. mt_type t = UserActor \<and> mt_handle t = handle) targets)"

definition resolved_by_key ::
  "string list \<Rightarrow> mention_target list \<Rightarrow> mention_selector list \<Rightarrow> (string, mention_target) js_map"
where
  "resolved_by_key handles targets bindings =
     fold (\<lambda>h m. case by_handle targets h of None \<Rightarrow> m
         | Some t \<Rightarrow> if has m (mt_key t) then m else map_set m (mt_key t) t) handles
       (fold (\<lambda>b m. case bound_target targets b of None \<Rightarrow> m | Some t \<Rightarrow> map_set m (mt_key t) t) bindings [])"

definition resolveMentionTargets ::
  "string list \<Rightarrow> mention_target list \<Rightarrow> mention_selector list \<Rightarrow> mention_target list \<times> (string \<Rightarrow> mention_target option)"
where
  "resolveMentionTargets handles targets bindings =
     (let mentions = map snd (resolved_by_key handles targets bindings);
          targetByHandle = fold (\<lambda>t m. map_set m (mt_handle t) t) mentions []
      in (mentions, map_get targetByHandle))"

lemma bound_target_mem: "bound_target targets b = Some t \<Longrightarrow> t \<in> set targets"
  by (auto simp: bound_target_def find_Some_iff)

lemma by_handle_mem: "by_handle targets h = Some t \<Longrightarrow> t \<in> set targets \<and> mt_handle t = h"
  by (auto simp: by_handle_def find_Some_iff split: option.splits)

text \<open>A map by key whose members come from the conversation.\<close>

definition keyed :: "mention_target list \<Rightarrow> (string, mention_target) js_map \<Rightarrow> bool" where
  "keyed targets m \<longleftrightarrow> wf_map m \<and> (\<forall>(k, t) \<in> set m. t \<in> set targets \<and> k = mt_key t)"

lemma keyed_iff:
  "keyed targets m \<longleftrightarrow> wf_map m \<and> (\<forall>k t. map_get m k = Some t \<longrightarrow> t \<in> set targets \<and> k = mt_key t)"
  by (auto simp: keyed_def wf_map_get_mem)

lemma keyed_get: "keyed targets m \<Longrightarrow> map_get m k = Some t \<Longrightarrow> t \<in> set targets \<and> k = mt_key t"
  by (simp add: keyed_iff)

lemma keyed_set:
  assumes "keyed targets m" "t \<in> set targets" "distinct (map mt_key targets)"
  shows "keyed targets (map_set m (mt_key t) t) \<and> snd ` set (map_set m (mt_key t) t) = insert t (snd ` set m)"
proof -
  have wf: "wf_map m" "wf_map (map_set m (mt_key t) t)" using assms(1) by (simp_all add: keyed_def)
  have "keyed targets (map_set m (mt_key t) t)"
    unfolding keyed_iff using wf assms(2) keyed_get [OF assms(1)] by auto
  moreover have "ran ((map_get m)(mt_key t \<mapsto> t)) = insert t (ran (map_get m))"
  proof (cases "map_get m (mt_key t)")
    case (Some u)
    with keyed_get [OF assms(1)] assms(2,3) have "u = t" by (auto simp: distinct_map dest: inj_onD)
    with Some show ?thesis by (auto simp: fun_upd_idem ranI)
  qed simp
  ultimately show ?thesis
    using wf by (simp add: ran_distinct [symmetric] wf_map_def)
qed

lemma keyed_has:
  assumes "keyed targets m" "t \<in> set targets" "distinct (map mt_key targets)" "has m (mt_key t)"
  shows "t \<in> snd ` set m"
proof -
  from assms(4) obtain u where u: "map_get m (mt_key t) = Some u" by (auto simp: has_def)
  then have "u \<in> set targets" "mt_key u = mt_key t" using keyed_get [OF assms(1)] by auto
  with assms(2,3) have "u = t" by (auto simp: distinct_map dest: inj_onD)
  with u show ?thesis by (force dest: map_get_mem)
qed

lemma resolved_by_key_spec:
  assumes "distinct (map mt_key targets)"
  shows "keyed targets (resolved_by_key handles targets bindings)"
    and "snd ` set (resolved_by_key handles targets bindings) =
      {t. \<exists>b \<in> set bindings. bound_target targets b = Some t} \<union> {t. \<exists>h \<in> set handles. by_handle targets h = Some t}"
proof -
  let ?b = "\<lambda>b m. case bound_target targets b of None \<Rightarrow> m | Some t \<Rightarrow> map_set m (mt_key t) t"
  let ?h = "\<lambda>h m. case by_handle targets h of None \<Rightarrow> m
         | Some t \<Rightarrow> if has m (mt_key t) then m else map_set m (mt_key t) t"
  have b: "keyed targets m \<Longrightarrow> keyed targets (fold ?b bs m) \<and>
      snd ` set (fold ?b bs m) = snd ` set m \<union> {t. \<exists>b \<in> set bs. bound_target targets b = Some t}" for bs m
  proof (induction bs arbitrary: m)
    case (Cons b bs)
    show ?case
    proof (cases "bound_target targets b")
      case (Some t)
      then show ?thesis
        using Cons.IH [of "map_set m (mt_key t) t"] keyed_set [OF Cons.prems bound_target_mem [OF Some] assms] by auto
    qed (use Cons in auto)
  qed simp
  have h: "keyed targets m \<Longrightarrow> keyed targets (fold ?h hs m) \<and>
      snd ` set (fold ?h hs m) = snd ` set m \<union> {t. \<exists>h \<in> set hs. by_handle targets h = Some t}" for hs m
  proof (induction hs arbitrary: m)
    case (Cons h hs)
    show ?case
    proof (cases "by_handle targets h")
      case (Some t)
      then have t: "t \<in> set targets" using by_handle_mem by blast
      show ?thesis
      proof (cases "has m (mt_key t)")
        case True
        then show ?thesis using Some Cons.IH [OF Cons.prems] keyed_has [OF Cons.prems t assms True] by auto
      next
        case False
        then show ?thesis
          using Some Cons.IH [of "map_set m (mt_key t) t"] keyed_set [OF Cons.prems t assms] by auto
      qed
    qed (use Cons in auto)
  qed simp
  have "keyed targets []" by (simp add: keyed_def)
  from h [OF conjunct1 [OF b [OF this]], of handles bindings] conjunct2 [OF b [OF this], of bindings]
  show "keyed targets (resolved_by_key handles targets bindings)"
    and "snd ` set (resolved_by_key handles targets bindings) =
      {t. \<exists>b \<in> set bindings. bound_target targets b = Some t} \<union> {t. \<exists>h \<in> set handles. by_handle targets h = Some t}"
    by (simp_all add: resolved_by_key_def)
qed

lemma find_append: "find P (xs @ ys) = (case find P xs of None \<Rightarrow> find P ys | Some x \<Rightarrow> Some x)"
  by (induction xs) auto

lemma find_mem: "find P xs = Some x \<Longrightarrow> x \<in> set xs \<and> P x"
  by (induction xs) (auto split: if_splits)

lemma last_by_handle:
  "map_get (fold (\<lambda>t m. map_set m (mt_handle t) t) ts m) h =
     (case find (\<lambda>t. mt_handle t = h) (rev ts) of Some t \<Rightarrow> Some t | None \<Rightarrow> map_get m h)"
proof (induction ts arbitrary: m)
  case (Cons t ts)
  show ?case by (simp add: Cons.IH find_append split: option.split)
qed simp

text \<open>
  The members a message mentions are those its bindings name and those its handles name, an Agent
  before a User of the same handle, each once; and without bindings an occurrence of a handle is
  rewritten to exactly the member it names.
\<close>

theorem mention_resolution:
  assumes "distinct (map mt_key targets)"
  shows "set (fst (resolveMentionTargets handles targets bindings)) =
      {t. \<exists>b \<in> set bindings. bound_target targets b = Some t} \<union>
      {t. \<exists>h \<in> set handles. by_handle targets h = Some t} \<and>
    distinct (map mt_key (fst (resolveMentionTargets handles targets bindings))) \<and>
    (bindings = [] \<longrightarrow> snd (resolveMentionTargets handles targets bindings) h =
      (if h \<in> set handles then by_handle targets h else None))"
proof (intro conjI impI)
  note spec = resolved_by_key_spec [OF assms, of handles bindings]
  show "set (fst (resolveMentionTargets handles targets bindings)) =
      {t. \<exists>b \<in> set bindings. bound_target targets b = Some t} \<union>
      {t. \<exists>h \<in> set handles. by_handle targets h = Some t}"
    using spec(2) by (simp add: resolveMentionTargets_def Let_def)
  have "map mt_key (map snd m) = map fst m" if "keyed targets m" for m
    using that by (auto simp: keyed_def)
  from this [OF spec(1)] show "distinct (map mt_key (fst (resolveMentionTargets handles targets bindings)))"
    using spec(1) by (simp only: resolveMentionTargets_def Let_def fst_conv keyed_def wf_map_def simp_thms)
  assume b: "bindings = []"
  let ?ms = "map snd (resolved_by_key handles targets bindings)"
  have mem: "t \<in> set ?ms \<longleftrightarrow> (\<exists>h \<in> set handles. by_handle targets h = Some t)" for t
    using spec(2) b by auto
  have "find (\<lambda>t. mt_handle t = h) (rev ?ms) = (if h \<in> set handles then by_handle targets h else None)"
  proof (cases "find (\<lambda>t. mt_handle t = h) (rev ?ms)")
    case None
    then have "\<forall>t \<in> set ?ms. mt_handle t \<noteq> h" by (simp add: find_None_iff)
    with mem by_handle_mem have "h \<in> set handles \<Longrightarrow> by_handle targets h = None"
      by (metis option.exhaust)
    with None show ?thesis by simp
  next
    case (Some t)
    then have "t \<in> set ?ms" "mt_handle t = h" by (auto dest: find_mem)
    then have "h \<in> set handles" "by_handle targets h = Some t" using mem by_handle_mem by fastforce+
    with Some show ?thesis by simp
  qed
  then show "snd (resolveMentionTargets handles targets bindings) h =
      (if h \<in> set handles then by_handle targets h else None)"
    unfolding resolveMentionTargets_def Let_def snd_conv last_by_handle by (simp split: option.split)
qed

theorem mention_resolution_witness:
  "set (fst (resolveMentionTargets [''ada''] [\<lparr>mt_key = ''k'', mt_type = UserActor, mt_id = ''1'', mt_handle = ''ada''\<rparr>] [])) =
     {\<lparr>mt_key = ''k'', mt_type = UserActor, mt_id = ''1'', mt_handle = ''ada''\<rparr>}"
proof -
  let ?t = "\<lparr>mt_key = ''k'', mt_type = UserActor, mt_id = ''1'', mt_handle = ''ada''\<rparr>"
  have "by_handle [?t] ''ada'' = Some ?t" by (simp add: by_handle_def)
  then show ?thesis using mention_resolution [of "[?t]" "[''ada'']" "[]" "''ada''"] by simp
qed

end
