(* ===== verification/MessageDrafts.thy ===== *)
theory MessageDrafts
  imports SeenExactSeqs Mentions
begin

text \<open>
  The saved draft of a held send: the per-Agent file of
  \<open>packages/daemon/src/persistence/agent-message-draft-store.ts\<close> and the state machine in front of it,
  \<open>packages/daemon/src/daemon-runtime/agent-inbox-state-machine.ts\<close>. The store runs its operations
  one after the other, so each is one step on the file: nothing, text that is not JSON, or a JSON
  value. What the file system does in an operation is a parameter. An absent list of attachments,
  mentions or exact sequences and an empty one are the same to every reader, and are the empty list.
\<close>

subsection \<open>Data\<close>

record draft_content =
  dc_content :: string
  dc_attachmentIds :: "string list"
  dc_idempotencyKey :: string
  dc_mentions :: "mention_selector list"
  dc_seenUpToSeq :: "int option"
  dc_seenExactSeqs :: "int list"

record stored_draft =
  sd_draft :: draft_content
  sd_reholdCount :: int
  sd_savedAt :: int

definition AGENT_MESSAGE_DRAFT_TTL_MS :: int where
  "AGENT_MESSAGE_DRAFT_TTL_MS = 10 * 60 * 1000"

datatype draft_lookup =
    FoundDraft stored_draft
  | MissingDraft
  | ExpiredDraft string int

datatype draft_file = NoFile | Unparsable | Parsed json

datatype draft_error = DirectoryRefused | DraftDataCorrupt | DraftWriteFailed

text \<open>
  The file system in one operation: whether the directories are the user's own, and whether the
  write fails, succeeds, or fails only after the new file is in place.
\<close>

datatype write_outcome = Written | NotWritten | WrittenThenFailed

record disk =
  dk_prepared :: bool
  dk_write :: write_outcome

type_synonym drafts = "(string, stored_draft) js_map"

type_synonym 'a draft_act = "draft_file \<Rightarrow> (draft_error + 'a) \<times> draft_file"

subsection \<open>Reading the file\<close>

text \<open>The characters \<open>trim\<close> removes.\<close>

definition is_blank :: "string \<Rightarrow> bool" where
  "is_blank s \<longleftrightarrow> list_all (\<lambda>c. of_char c \<in> {9, 10, 11, 12, 13, 32, 160 :: nat}) s"

definition isMentionSelector :: "json \<Rightarrow> mention_selector option" where
  "isMentionSelector value =
     (case value of
        JObj mention \<Rightarrow>
          (case (json_str (field mention ''type''), json_str (field mention ''id''), json_str (field mention ''name'')) of
             (Some ty, Some ident, Some name) \<Rightarrow>
               if ty = ''user'' then Some \<lparr>ms_type = UserActor, ms_id = ident, ms_name = name\<rparr>
               else if ty = ''agent'' then Some \<lparr>ms_type = AgentActor, ms_id = ident, ms_name = name\<rparr>
               else None
           | _ \<Rightarrow> None)
      | _ \<Rightarrow> None)"

fun json_strings :: "json option \<Rightarrow> string list" where
  "json_strings (Some (JArr vs)) = List.map_filter (\<lambda>v. json_str (Some v)) vs"
| "json_strings _ = []"

fun json_array :: "json option \<Rightarrow> json list" where
  "json_array (Some (JArr vs)) = vs"
| "json_array _ = []"

text \<open>A field that is present must be a number.\<close>

definition bad_number :: "json option \<Rightarrow> bool" where
  "bad_number v \<longleftrightarrow> v \<noteq> None \<and> json_num v = None"

datatype draft_entry = InvalidEntry | NamesNoSend | Entry stored_draft

definition readDraft :: "json \<Rightarrow> draft_entry" where
  "readDraft value =
     (case value of
        JObj draft \<Rightarrow>
          (case (json_str (field draft ''content''), json_num (field draft ''savedAt'')) of
             (Some content, Some savedAt) \<Rightarrow>
               if bad_number (field draft ''reholdCount'') then InvalidEntry
               else if bad_number (field draft ''seenUpToSeq'') then InvalidEntry
               else (case json_str (field draft ''idempotencyKey'') of
                   None \<Rightarrow> NamesNoSend
                 | Some key \<Rightarrow>
                     if is_blank key then NamesNoSend
                     else let mentions = map isMentionSelector (json_array (field draft ''mentions''))
                          in if None \<in> set mentions then InvalidEntry
                             else Entry \<lparr>sd_draft = \<lparr>dc_content = content,
                                 dc_attachmentIds = json_strings (field draft ''attachmentIds''),
                                 dc_idempotencyKey = key,
                                 dc_mentions = map the mentions,
                                 dc_seenUpToSeq = json_num (field draft ''seenUpToSeq''),
                                 dc_seenExactSeqs = normalizeSeenExactSeqs (field draft ''seenExactSeqs'') 0\<rparr>,
                               sd_reholdCount =
                                 (case json_num (field draft ''reholdCount'') of None \<Rightarrow> 0 | Some n \<Rightarrow> n),
                               sd_savedAt = savedAt\<rparr>)
           | _ \<Rightarrow> InvalidEntry)
      | _ \<Rightarrow> InvalidEntry)"

fun read_entries :: "(string \<times> json) list \<Rightarrow> drafts \<Rightarrow> drafts option" where
  "read_entries [] drafts = Some drafts"
| "read_entries ((target, entry) # rest) drafts =
     (case readDraft entry of
        InvalidEntry \<Rightarrow> None
      | NamesNoSend \<Rightarrow> read_entries rest drafts
      | Entry d \<Rightarrow> read_entries rest (map_set drafts target d))"

definition readDraftEntries :: "json \<Rightarrow> drafts option" where
  "readDraftEntries value =
     (case value of
        JObj envelope \<Rightarrow>
          (case field envelope ''targets'' of
             Some (JObj targets) \<Rightarrow> read_entries targets []
           | _ \<Rightarrow> None)
      | _ \<Rightarrow> None)"

definition read_drafts :: "draft_file \<Rightarrow> draft_error + drafts" where
  "read_drafts file =
     (case file of
        NoFile \<Rightarrow> Inr []
      | Unparsable \<Rightarrow> Inl DraftDataCorrupt
      | Parsed envelope \<Rightarrow>
          (case readDraftEntries envelope of None \<Rightarrow> Inl DraftDataCorrupt | Some ds \<Rightarrow> Inr ds))"

subsection \<open>Writing the file\<close>

definition encode_mention :: "mention_selector \<Rightarrow> json" where
  "encode_mention m = JObj
     [(''type'', JStr (if ms_type m = UserActor then ''user'' else ''agent'')),
      (''id'', JStr (ms_id m)), (''name'', JStr (ms_name m))]"

definition nonempty :: "'a list \<Rightarrow> 'a list option" where
  "nonempty xs = (if xs = [] then None else Some xs)"

definition encode_draft :: "stored_draft \<Rightarrow> json" where
  "encode_draft d = JObj
     ([(''content'', JStr (dc_content (sd_draft d))),
       (''attachmentIds'', JArr (map JStr (dc_attachmentIds (sd_draft d)))),
       (''idempotencyKey'', JStr (dc_idempotencyKey (sd_draft d)))] @
      opt_field ''mentions'' (\<lambda>ms. JArr (map encode_mention ms)) (nonempty (dc_mentions (sd_draft d))) @
      [(''savedAt'', JNum (sd_savedAt d)), (''reholdCount'', JNum (sd_reholdCount d))] @
      opt_field ''seenUpToSeq'' JNum (dc_seenUpToSeq (sd_draft d)) @
      opt_field ''seenExactSeqs'' (\<lambda>xs. JArr (map JNum xs)) (nonempty (dc_seenExactSeqs (sd_draft d))))"

definition encode_drafts :: "drafts \<Rightarrow> draft_file" where
  "encode_drafts drafts =
     (if drafts = [] then NoFile
      else Parsed (JObj [(''targets'', JObj (map (\<lambda>(target, d). (target, encode_draft d)) drafts))]))"

definition write_drafts :: "write_outcome \<Rightarrow> drafts \<Rightarrow> unit draft_act" where
  "write_drafts outcome drafts file =
     (case outcome of
        Written \<Rightarrow> (Inr (), encode_drafts drafts)
      | NotWritten \<Rightarrow> (Inl DraftWriteFailed, file)
      | WrittenThenFailed \<Rightarrow> (Inl DraftWriteFailed, encode_drafts drafts))"

subsection \<open>Operations of the store\<close>

definition draft_expired :: "int \<Rightarrow> stored_draft \<Rightarrow> bool" where
  "draft_expired now d \<longleftrightarrow> now - sd_savedAt d > AGENT_MESSAGE_DRAFT_TTL_MS"

text \<open>\<open>#serialized\<close>: the directories are prepared before every operation; then the file is read.\<close>

definition with_drafts :: "disk \<Rightarrow> (drafts \<Rightarrow> 'a draft_act) \<Rightarrow> 'a draft_act" where
  "with_drafts dk body file =
     (if \<not> dk_prepared dk then (Inl DirectoryRefused, file)
      else case read_drafts file of
          Inl e \<Rightarrow> (Inl e, file)
        | Inr drafts \<Rightarrow> body drafts file)"

text \<open>Write \<open>drafts\<close>, then answer.\<close>

definition write_then :: "disk \<Rightarrow> drafts \<Rightarrow> 'a \<Rightarrow> 'a draft_act" where
  "write_then dk drafts answer file =
     (case write_drafts (dk_write dk) drafts file of
        (Inl e, file') \<Rightarrow> (Inl e, file') | (Inr u, file') \<Rightarrow> (Inr answer, file'))"

definition store_lookup :: "disk \<Rightarrow> int \<Rightarrow> string \<Rightarrow> draft_lookup draft_act" where
  "store_lookup dk now target = with_drafts dk (\<lambda>drafts.
     case map_get drafts target of
       None \<Rightarrow> (\<lambda>file. (Inr MissingDraft, file))
     | Some draft \<Rightarrow>
         if \<not> draft_expired now draft then (\<lambda>file. (Inr (FoundDraft draft), file))
         else write_then dk (map_delete drafts target)
           (ExpiredDraft (dc_content (sd_draft draft)) (sd_savedAt draft)))"

definition store_writeDraft :: "disk \<Rightarrow> int \<Rightarrow> string \<Rightarrow> draft_content \<Rightarrow> int \<Rightarrow> unit draft_act" where
  "store_writeDraft dk now target draft reholdCount = with_drafts dk (\<lambda>drafts.
     write_then dk (map_set drafts target
       \<lparr>sd_draft = draft, sd_reholdCount = reholdCount, sd_savedAt = now\<rparr>) ())"

definition store_save :: "disk \<Rightarrow> int \<Rightarrow> string \<Rightarrow> draft_content \<Rightarrow> unit draft_act" where
  "store_save dk now target draft = store_writeDraft dk now target draft 0"

definition store_replace :: "disk \<Rightarrow> int \<Rightarrow> string \<Rightarrow> draft_content \<Rightarrow> int \<Rightarrow> unit draft_act" where
  "store_replace dk now target draft reholdCount = store_writeDraft dk now target draft reholdCount"

definition store_clear :: "disk \<Rightarrow> string \<Rightarrow> unit draft_act" where
  "store_clear dk target = with_drafts dk (\<lambda>drafts. write_then dk (map_delete drafts target) ())"

definition store_clearIfKey :: "disk \<Rightarrow> int \<Rightarrow> string \<Rightarrow> string \<Rightarrow> bool draft_act" where
  "store_clearIfKey dk now target key = with_drafts dk (\<lambda>drafts.
     case map_get drafts target of
       None \<Rightarrow> (\<lambda>file. (Inr False, file))
     | Some draft \<Rightarrow>
         if draft_expired now draft \<or> dc_idempotencyKey (sd_draft draft) \<noteq> key then (\<lambda>file. (Inr False, file))
         else write_then dk (map_delete drafts target) True)"

subsection \<open>The inbox state machine\<close>

record draft_inbox =
  ib_memory :: "(string, draft_content \<times> int) js_map"
  ib_persistence :: "draft_file option"

datatype inbox_lookup_result =
    InboxFound draft_content int
  | InboxMissing
  | InboxExpired string int

type_synonym 'a inbox_act = "draft_inbox \<Rightarrow> (draft_error + 'a) \<times> draft_inbox"

definition persisted :: "'a draft_act \<Rightarrow> draft_file \<Rightarrow> 'a inbox_act" where
  "persisted act file ib = (case act file of (r, file') \<Rightarrow> (r, ib\<lparr>ib_persistence := Some file'\<rparr>))"

definition inbox_save :: "disk \<Rightarrow> int \<Rightarrow> string \<Rightarrow> draft_content \<Rightarrow> unit inbox_act" where
  "inbox_save dk now target draft ib0 =
     (let ib = ib0\<lparr>ib_memory := map_set (ib_memory ib0) target (draft, 0)\<rparr>
      in case ib_persistence ib of
          None \<Rightarrow> (Inr (), ib)
        | Some file \<Rightarrow> persisted (store_save dk now target draft) file ib)"

definition inbox_replace :: "disk \<Rightarrow> int \<Rightarrow> string \<Rightarrow> draft_content \<Rightarrow> int \<Rightarrow> unit inbox_act" where
  "inbox_replace dk now target draft reholdCount ib0 =
     (let ib = ib0\<lparr>ib_memory := map_set (ib_memory ib0) target (draft, reholdCount)\<rparr>
      in case ib_persistence ib of
          None \<Rightarrow> (Inr (), ib)
        | Some file \<Rightarrow> persisted (store_replace dk now target draft reholdCount) file ib)"

fun inbox_result :: "draft_lookup \<Rightarrow> inbox_lookup_result" where
  "inbox_result (FoundDraft d) = InboxFound (sd_draft d) (sd_reholdCount d)"
| "inbox_result MissingDraft = InboxMissing"
| "inbox_result (ExpiredDraft content savedAt) = InboxExpired content savedAt"

definition inbox_lookup :: "disk \<Rightarrow> int \<Rightarrow> string \<Rightarrow> inbox_lookup_result inbox_act" where
  "inbox_lookup dk now target ib =
     (case ib_persistence ib of
        Some file \<Rightarrow>
          (case store_lookup dk now target file of
             (Inl e, file') \<Rightarrow> (Inl e, ib\<lparr>ib_persistence := Some file'\<rparr>)
           | (Inr l, file') \<Rightarrow> (Inr (inbox_result l), ib\<lparr>ib_persistence := Some file'\<rparr>))
      | None \<Rightarrow>
          (case map_get (ib_memory ib) target of
             Some (draft, reholdCount) \<Rightarrow> (Inr (InboxFound draft reholdCount), ib)
           | None \<Rightarrow> (Inr InboxMissing, ib)))"

definition inbox_draft :: "disk \<Rightarrow> int \<Rightarrow> string \<Rightarrow> (draft_content \<times> int) option inbox_act" where
  "inbox_draft dk now target ib =
     (case inbox_lookup dk now target ib of
        (Inl e, ib') \<Rightarrow> (Inl e, ib')
      | (Inr (InboxFound draft reholdCount), ib') \<Rightarrow> (Inr (Some (draft, reholdCount)), ib')
      | (Inr _, ib') \<Rightarrow> (Inr None, ib'))"

definition inbox_clearIfKey :: "disk \<Rightarrow> int \<Rightarrow> string \<Rightarrow> string \<Rightarrow> bool inbox_act" where
  "inbox_clearIfKey dk now target key ib =
     (case ib_persistence ib of
        Some file \<Rightarrow>
          (case store_clearIfKey dk now target key file of
             (Inl e, file') \<Rightarrow> (Inl e, ib\<lparr>ib_persistence := Some file'\<rparr>)
           | (Inr cleared, file') \<Rightarrow>
               (Inr cleared, ib\<lparr>ib_persistence := Some file',
                  ib_memory := (if cleared then map_delete (ib_memory ib) target else ib_memory ib)\<rparr>))
      | None \<Rightarrow>
          (case map_get (ib_memory ib) target of
             None \<Rightarrow> (Inr False, ib)
           | Some (draft, k) \<Rightarrow>
               if dc_idempotencyKey draft \<noteq> key then (Inr False, ib)
               else (Inr True, ib\<lparr>ib_memory := map_delete (ib_memory ib) target\<rparr>)))"

definition inbox_clear :: "disk \<Rightarrow> string \<Rightarrow> unit inbox_act" where
  "inbox_clear dk target ib0 =
     (let ib = ib0\<lparr>ib_memory := map_delete (ib_memory ib0) target\<rparr>
      in case ib_persistence ib of
          None \<Rightarrow> (Inr (), ib)
        | Some file \<Rightarrow> persisted (store_clear dk target) file ib)"

subsection \<open>What is written is read back\<close>

definition draft_ok :: "draft_content \<Rightarrow> bool" where
  "draft_ok d \<longleftrightarrow> \<not> is_blank (dc_idempotencyKey d) \<and> exact_ok 0 (dc_seenExactSeqs d) \<and>
     (\<forall>x \<in> set (dc_seenExactSeqs d). is_safe_integer x)"

definition drafts_ok :: "drafts \<Rightarrow> bool" where
  "drafts_ok ds \<longleftrightarrow> wf_map ds \<and> (\<forall>(t, d) \<in> set ds. draft_ok (sd_draft d))"

lemma drafts_okI: "wf_map ds \<Longrightarrow> (\<And>t d. map_get ds t = Some d \<Longrightarrow> draft_ok (sd_draft d)) \<Longrightarrow> drafts_ok ds"
  by (auto simp: drafts_ok_def wf_map_get_mem)

lemma drafts_okD: "drafts_ok ds \<Longrightarrow> map_get ds t = Some d \<Longrightarrow> draft_ok (sd_draft d)"
  by (auto simp: drafts_ok_def dest: map_get_mem)

lemma drafts_ok_set [wf_intros]:
  "drafts_ok ds \<Longrightarrow> draft_ok (sd_draft d) \<Longrightarrow> drafts_ok (map_set ds t d)"
  by (rule drafts_okI) (auto simp: drafts_ok_def [of ds] dest: map_get_mem split: if_splits)

lemma drafts_ok_delete [wf_intros]: "drafts_ok ds \<Longrightarrow> drafts_ok (map_delete ds t)"
  by (rule drafts_okI) (auto simp: drafts_ok_def [of ds] dest: map_get_mem split: if_splits)

lemma isMentionSelector_encode [simp]: "isMentionSelector (encode_mention m) = Some m"
  by (cases "ms_type m") (simp_all add: isMentionSelector_def encode_mention_def)

lemma json_strings_map [simp]: "json_strings (Some (JArr (map JStr xs))) = xs"
  by (induction xs) (simp_all add: List.map_filter_def)

declare json_strings.simps [simp del]

text \<open>What the reader finds in each field of a written entry.\<close>

lemma encode_draft_fields:
  obtains r where "encode_draft d = JObj r"
    "field r ''content'' = Some (JStr (dc_content (sd_draft d)))"
    "field r ''attachmentIds'' = Some (JArr (map JStr (dc_attachmentIds (sd_draft d))))"
    "field r ''idempotencyKey'' = Some (JStr (dc_idempotencyKey (sd_draft d)))"
    "field r ''mentions'' = map_option (\<lambda>ms. JArr (map encode_mention ms)) (nonempty (dc_mentions (sd_draft d)))"
    "field r ''savedAt'' = Some (JNum (sd_savedAt d))"
    "field r ''reholdCount'' = Some (JNum (sd_reholdCount d))"
    "field r ''seenUpToSeq'' = map_option JNum (dc_seenUpToSeq (sd_draft d))"
    "field r ''seenExactSeqs'' = map_option (\<lambda>xs. JArr (map JNum xs)) (nonempty (dc_seenExactSeqs (sd_draft d)))"
  by (rule that [OF encode_draft_def])
    (simp_all add: field_append field_opt_field option.case_eq_if)

lemma readDraft_encode:
  assumes "draft_ok (sd_draft d)"
  shows "readDraft (encode_draft d) = Entry d"
proof -
  let ?d = "sd_draft d"
  obtain r where r: "encode_draft d = JObj r"
    "field r ''content'' = Some (JStr (dc_content ?d))"
    "field r ''attachmentIds'' = Some (JArr (map JStr (dc_attachmentIds ?d)))"
    "field r ''idempotencyKey'' = Some (JStr (dc_idempotencyKey ?d))"
    "field r ''mentions'' = map_option (\<lambda>ms. JArr (map encode_mention ms)) (nonempty (dc_mentions ?d))"
    "field r ''savedAt'' = Some (JNum (sd_savedAt d))"
    "field r ''reholdCount'' = Some (JNum (sd_reholdCount d))"
    "field r ''seenUpToSeq'' = map_option JNum (dc_seenUpToSeq ?d)"
    "field r ''seenExactSeqs'' = map_option (\<lambda>xs. JArr (map JNum xs)) (nonempty (dc_seenExactSeqs ?d))"
    by (rule encode_draft_fields)
  have m: "map isMentionSelector (json_array (field r ''mentions'')) = map Some (dc_mentions ?d)"
    by (simp add: r nonempty_def)
  have e: "normalizeSeenExactSeqs (field r ''seenExactSeqs'') 0 = dc_seenExactSeqs ?d"
    using assms by (auto simp: r nonempty_def draft_ok_def normalizeSeenExactSeqs_id)
  have u: "json_num (field r ''seenUpToSeq'') = dc_seenUpToSeq ?d" "\<not> bad_number (field r ''seenUpToSeq'')"
    by (cases "dc_seenUpToSeq ?d"; simp add: r bad_number_def)+
  have b: "\<not> bad_number (field r ''reholdCount'')" by (simp add: r bad_number_def)
  have k: "\<not> is_blank (dc_idempotencyKey ?d)" using assms by (simp add: draft_ok_def)
  have n: "None \<notin> set (map Some (dc_mentions ?d))" "map the (map Some (dc_mentions ?d)) = dc_mentions ?d"
    by (auto simp: comp_def)
  have c: "json_str (field r ''content'') = Some (dc_content ?d)" "json_num (field r ''savedAt'') = Some (sd_savedAt d)"
    "json_str (field r ''idempotencyKey'') = Some (dc_idempotencyKey ?d)"
    "json_num (field r ''reholdCount'') = Some (sd_reholdCount d)"
    "json_strings (field r ''attachmentIds'') = dc_attachmentIds ?d"
    by (simp_all add: r)
  show ?thesis
    unfolding r(1) readDraft_def json.case c prod.case option.case m n(2)
    using n(1) e u b k by (simp only: if_False if_True Let_def n(2)) simp
qed

lemma read_entries_encode:
  assumes "wf_map (acc @ ds)" "\<forall>(t, d) \<in> set ds. draft_ok (sd_draft d)"
  shows "read_entries (map (\<lambda>(t, d). (t, encode_draft d)) ds) acc = Some (acc @ ds)"
  using assms
proof (induction ds arbitrary: acc)
  case (Cons p ds)
  obtain t d where p: "p = (t, d)" by (cases p)
  with Cons.prems(1) have "map_set acc t d = acc @ [(t, d)]"
    by (intro map_set_append) (auto simp: wf_map_def)
  with Cons p show ?case by (simp add: readDraft_encode)
qed simp

lemma read_encode_drafts: "drafts_ok ds \<Longrightarrow> read_drafts (encode_drafts ds) = Inr ds"
  using read_entries_encode [of "[]" ds]
  by (simp add: read_drafts_def encode_drafts_def readDraftEntries_def drafts_ok_def)

text \<open>
  The draft file gives back what was written: reading the file written for any well-formed drafts
  gives the same drafts, whatever the user's attachments, mentions and bodies are.
\<close>

theorem draft_file_round_trip:
  assumes "drafts_ok ds"
  shows "read_drafts (encode_drafts ds) = Inr ds"
  using assms by (rule read_encode_drafts)

subsection \<open>What a draft store promises\<close>

text \<open>
  The contract the send pipeline uses: what \<open>draft\<close> finds after a save, a replacement, and a clear that
  names a key. \<open>live n now\<close> says that a draft saved at \<open>n\<close> is still there at \<open>now\<close>.
\<close>

locale draft_port =
  fixes replace :: "int \<Rightarrow> string \<Rightarrow> draft_content \<Rightarrow> int \<Rightarrow> 's \<Rightarrow> 's"
    and find :: "int \<Rightarrow> string \<Rightarrow> 's \<Rightarrow> (draft_content \<times> int) option"
    and clear_if :: "int \<Rightarrow> string \<Rightarrow> string \<Rightarrow> 's \<Rightarrow> bool \<times> 's"
    and ok :: "'s \<Rightarrow> bool"
    and good :: "draft_content \<Rightarrow> bool"
    and live :: "int \<Rightarrow> int \<Rightarrow> bool"
  assumes ok_replace: "ok s \<Longrightarrow> good d \<Longrightarrow> ok (replace n t d k s)"
    and ok_clear: "ok s \<Longrightarrow> ok (snd (clear_if now t key s))"
    and find_replace: "ok s \<Longrightarrow> good d \<Longrightarrow>
      find now u (replace n t d k s) = (if u \<noteq> t then find now u s else if live n now then Some (d, k) else None)"
    and clear_if_iff: "ok s \<Longrightarrow>
      fst (clear_if now t key s) \<longleftrightarrow> (\<exists>d k. find now t s = Some (d, k) \<and> dc_idempotencyKey d = key)"
    and find_clear: "ok s \<Longrightarrow> now \<le> now' \<Longrightarrow>
      find now' u (snd (clear_if now t key s)) = (if u = t \<and> fst (clear_if now t key s) then None else find now' u s)"
begin

text \<open>A newer send's draft survives the clear of an older send with another key.\<close>

lemma newer_survives:
  assumes "ok s" "good d" "dc_idempotencyKey d \<noteq> key" "now \<le> now'"
  shows "\<not> fst (clear_if now t key (replace n t d k s)) \<and>
    find now' t (snd (clear_if now t key (replace n t d k s))) = (if live n now' then Some (d, k) else None)"
proof -
  have s: "ok (replace n t d k s)" by (rule ok_replace [OF assms(1,2)])
  have "\<not> fst (clear_if now t key (replace n t d k s))"
    using assms(3) by (auto simp: clear_if_iff [OF s] find_replace [OF assms(1,2)])
  with assms(4) show ?thesis by (simp add: find_clear [OF s] find_replace [OF assms(1,2)])
qed

text \<open>The accepted send's own draft is gone, and every other target keeps its draft.\<close>

lemma own_cleared:
  assumes "ok s" "good d" "live n now" "now \<le> now'"
  shows "fst (clear_if now t (dc_idempotencyKey d) (replace n t d k s)) \<and>
    find now' u (snd (clear_if now t (dc_idempotencyKey d) (replace n t d k s))) = (if u = t then None else find now' u s)"
proof -
  have s: "ok (replace n t d k s)" by (rule ok_replace [OF assms(1,2)])
  have "fst (clear_if now t (dc_idempotencyKey d) (replace n t d k s))"
    using assms(3) by (simp add: clear_if_iff [OF s] find_replace [OF assms(1,2)])
  with assms(4) show ?thesis by (simp add: find_clear [OF s] find_replace [OF assms(1,2)])
qed

end

definition good_disk :: disk where
  "good_disk = \<lparr>dk_prepared = True, dk_write = Written\<rparr>"

definition port_replace :: "int \<Rightarrow> string \<Rightarrow> draft_content \<Rightarrow> int \<Rightarrow> draft_inbox \<Rightarrow> draft_inbox" where
  "port_replace now target draft reholdCount ib = snd (inbox_replace good_disk now target draft reholdCount ib)"

definition port_find :: "int \<Rightarrow> string \<Rightarrow> draft_inbox \<Rightarrow> (draft_content \<times> int) option" where
  "port_find now target ib = (case fst (inbox_draft good_disk now target ib) of Inl _ \<Rightarrow> None | Inr r \<Rightarrow> r)"

definition port_clear :: "int \<Rightarrow> string \<Rightarrow> string \<Rightarrow> draft_inbox \<Rightarrow> bool \<times> draft_inbox" where
  "port_clear now target key ib =
     (case inbox_clearIfKey good_disk now target key ib of
        (Inl _, ib') \<Rightarrow> (False, ib') | (Inr cleared, ib') \<Rightarrow> (cleared, ib'))"

definition in_memory :: "draft_inbox \<Rightarrow> bool" where
  "in_memory ib \<longleftrightarrow> ib_persistence ib = None"

definition on_file :: "draft_inbox \<Rightarrow> bool" where
  "on_file ib \<longleftrightarrow> (\<exists>file ds. ib_persistence ib = Some file \<and> read_drafts file = Inr ds \<and> drafts_ok ds)"

lemma on_fileE:
  assumes "on_file ib"
  obtains f ds where "ib_persistence ib = Some f" "read_drafts f = Inr ds" "drafts_ok ds"
  using assms by (auto simp: on_file_def)

lemma on_fileI: "ib_persistence ib = Some (encode_drafts ds) \<Longrightarrow> drafts_ok ds \<Longrightarrow> on_file ib"
  by (auto simp: on_file_def read_encode_drafts)

text \<open>The operations on a readable file.\<close>

definition live_draft :: "int \<Rightarrow> stored_draft option \<Rightarrow> (draft_content \<times> int) option" where
  "live_draft now v =
     (case v of None \<Rightarrow> None
      | Some d \<Rightarrow> if draft_expired now d then None else Some (sd_draft d, sd_reholdCount d))"

lemma file_find:
  assumes "ib_persistence ib = Some file" "read_drafts file = Inr ds"
  shows "port_find now t ib = live_draft now (map_get ds t)"
  using assms by (auto simp: port_find_def inbox_draft_def inbox_lookup_def store_lookup_def with_drafts_def
      good_disk_def live_draft_def write_then_def write_drafts_def split: option.splits)

lemma file_replace:
  assumes "ib_persistence ib = Some file" "read_drafts file = Inr ds"
  shows "ib_persistence (port_replace n t d k ib) =
    Some (encode_drafts (map_set ds t \<lparr>sd_draft = d, sd_reholdCount = k, sd_savedAt = n\<rparr>))"
  using assms by (simp add: port_replace_def inbox_replace_def persisted_def store_replace_def
      store_writeDraft_def with_drafts_def good_disk_def write_then_def write_drafts_def)

lemma file_clear:
  assumes "ib_persistence ib = Some file" "read_drafts file = Inr ds"
  shows "fst (port_clear now t key ib) \<longleftrightarrow> (\<exists>d k. live_draft now (map_get ds t) = Some (d, k) \<and> dc_idempotencyKey d = key)"
    and "ib_persistence (snd (port_clear now t key ib)) =
      Some (if fst (port_clear now t key ib) then encode_drafts (map_delete ds t) else file)"
  using assms by (auto simp: port_clear_def inbox_clearIfKey_def store_clearIfKey_def with_drafts_def
      good_disk_def live_draft_def write_then_def write_drafts_def split: option.splits)

lemmas memory_simps = in_memory_def port_replace_def inbox_replace_def port_find_def inbox_draft_def
  inbox_lookup_def port_clear_def inbox_clearIfKey_def Let_def

interpretation memory_drafts: draft_port port_replace port_find port_clear in_memory draft_ok "\<lambda>n now. True"
  by unfold_locales (auto simp: memory_simps split: option.splits prod.splits if_splits)

lemma file_drafts_port:
  "draft_port port_replace port_find port_clear on_file draft_ok (\<lambda>n now. now - n \<le> AGENT_MESSAGE_DRAFT_TTL_MS)"
proof
  fix ib :: draft_inbox and d :: draft_content and n k now now' :: int and t u key :: string
  assume ok: "on_file ib"
  then obtain fl ds where f: "ib_persistence ib = Some fl" "read_drafts fl = Inr ds" "drafts_ok ds"
    by (rule on_fileE)
  let ?d = "\<lparr>sd_draft = d, sd_reholdCount = k, sd_savedAt = n\<rparr>"
  note rep = file_replace [OF f(1,2), of n t d k] and clr = file_clear [OF f(1,2), of now t key]
  {
    assume good: "draft_ok d"
    then have ds: "drafts_ok (map_set ds t ?d)" by (intro drafts_ok_set f) simp
    show "on_file (port_replace n t d k ib)" by (rule on_fileI [OF rep ds])
    show "port_find now u (port_replace n t d k ib) =
        (if u \<noteq> t then port_find now u ib else if now - n \<le> AGENT_MESSAGE_DRAFT_TTL_MS then Some (d, k) else None)"
      by (simp add: file_find [OF rep read_encode_drafts [OF ds]] file_find [OF f(1,2)] live_draft_def draft_expired_def)
  }
  have del: "drafts_ok (map_delete ds t)" by (intro drafts_ok_delete f)
  show "on_file (snd (port_clear now t key ib))"
    using clr(2) f del read_encode_drafts [OF del] unfolding on_file_def by (metis (full_types))
  show "fst (port_clear now t key ib) \<longleftrightarrow> (\<exists>d k. port_find now t ib = Some (d, k) \<and> dc_idempotencyKey d = key)"
    by (simp add: clr(1) file_find [OF f(1,2)])
  show "port_find now' u (snd (port_clear now t key ib)) =
      (if u = t \<and> fst (port_clear now t key ib) then None else port_find now' u ib)"
  proof (cases "fst (port_clear now t key ib)")
    case True
    with clr(2) have "ib_persistence (snd (port_clear now t key ib)) = Some (encode_drafts (map_delete ds t))" by simp
    from file_find [OF this read_encode_drafts [OF del]] True show ?thesis
      by (simp add: file_find [OF f(1,2)] live_draft_def)
  next
    case False
    with clr(2) have "ib_persistence (snd (port_clear now t key ib)) = Some fl" by simp
    from file_find [OF this f(2)] False show ?thesis by (simp add: file_find [OF f(1,2)])
  qed
qed

interpretation file_drafts: draft_port port_replace port_find port_clear on_file draft_ok
  "\<lambda>n now. now - n \<le> AGENT_MESSAGE_DRAFT_TTL_MS"
  by (rule file_drafts_port)

text \<open>
  An older send accepted late never removes a newer draft. Whether drafts live in memory or in the
  file, after a newer send with another key saved its draft for a target, the clear for the older key
  answers no and the newer draft is still found, in the file for ten minutes.
\<close>

theorem older_send_keeps_newer_draft:
  assumes "in_memory ib \<or> on_file ib" "draft_ok d" "dc_idempotencyKey d \<noteq> older" "now \<le> now'"
    and "now' - saved \<le> AGENT_MESSAGE_DRAFT_TTL_MS"
  shows "\<not> fst (port_clear now t older (port_replace saved t d k ib)) \<and>
    port_find now' t (snd (port_clear now t older (port_replace saved t d k ib))) = Some (d, k)"
  using assms memory_drafts.newer_survives [of ib d older now now' t saved k]
    file_drafts.newer_survives [of ib d older now now' t saved k] by auto

theorem older_send_keeps_newer_draft_witness:
  "port_find 70 ''#general''
     (snd (port_clear 60 ''#general'' ''old'' (port_replace 50 ''#general''
       \<lparr>dc_content = ''hi'', dc_attachmentIds = [], dc_idempotencyKey = ''new'', dc_mentions = [],
        dc_seenUpToSeq = None, dc_seenExactSeqs = []\<rparr> 0 \<lparr>ib_memory = [], ib_persistence = Some NoFile\<rparr>))) \<noteq> None"
proof -
  let ?d = "\<lparr>dc_content = ''hi'', dc_attachmentIds = [], dc_idempotencyKey = ''new'', dc_mentions = [],
        dc_seenUpToSeq = None, dc_seenExactSeqs = []\<rparr>"
  let ?ib = "\<lparr>ib_memory = [], ib_persistence = Some NoFile\<rparr>"
  have "on_file ?ib" by (auto simp: on_file_def read_drafts_def drafts_ok_def)
  moreover have "draft_ok ?d" by (simp add: draft_ok_def is_blank_def)
  ultimately show ?thesis
    using older_send_keeps_newer_draft [of ?ib ?d "''old''" 60 70 50 "''#general''" 0]
    by (simp add: AGENT_MESSAGE_DRAFT_TTL_MS_def)
qed

text \<open>
  An expired draft is reported once, with its last body: the lookup that finds it hands back its
  content and removes it, a later lookup of the target finds nothing, and every other target's draft,
  expired or not, is left in the file.
\<close>

theorem expired_draft_is_reported_once:
  assumes "read_drafts f = Inr ds" "drafts_ok ds" "map_get ds t = Some d" "draft_expired now d"
  shows "fst (store_lookup good_disk now t f) = Inr (ExpiredDraft (dc_content (sd_draft d)) (sd_savedAt d)) \<and>
    read_drafts (snd (store_lookup good_disk now t f)) = Inr (map_delete ds t) \<and>
    store_lookup good_disk now' t (snd (store_lookup good_disk now t f)) =
      (Inr MissingDraft, snd (store_lookup good_disk now t f))"
proof -
  have l: "store_lookup good_disk now t f =
      (Inr (ExpiredDraft (dc_content (sd_draft d)) (sd_savedAt d)), encode_drafts (map_delete ds t))"
    using assms by (simp add: store_lookup_def with_drafts_def good_disk_def write_then_def write_drafts_def)
  have r: "read_drafts (encode_drafts (map_delete ds t)) = Inr (map_delete ds t)"
    by (rule read_encode_drafts [OF drafts_ok_delete [OF assms(2)]])
  have "store_lookup good_disk now' t (encode_drafts (map_delete ds t)) = (Inr MissingDraft, encode_drafts (map_delete ds t))"
    using r by (simp add: store_lookup_def with_drafts_def good_disk_def)
  with l r show ?thesis by simp
qed

theorem expired_draft_is_reported_once_witness:
  "\<exists>d. fst (store_lookup good_disk 700000 ''#general'' (encode_drafts [(''#general'', d)])) =
     Inr (ExpiredDraft ''hi'' 0)"
proof -
  let ?d = "\<lparr>sd_draft = \<lparr>dc_content = ''hi'', dc_attachmentIds = [], dc_idempotencyKey = ''k'', dc_mentions = [],
        dc_seenUpToSeq = None, dc_seenExactSeqs = []\<rparr>, sd_reholdCount = 0, sd_savedAt = 0\<rparr>"
  have ok: "drafts_ok [(''#general'', ?d)]" by (simp add: drafts_ok_def wf_map_def draft_ok_def is_blank_def)
  from expired_draft_is_reported_once [OF read_encode_drafts [OF ok] ok, of "''#general''" ?d 700000]
  show ?thesis by (auto simp: draft_expired_def AGENT_MESSAGE_DRAFT_TTL_MS_def)
qed

theorem draft_file_round_trip_witness:
  "read_drafts (encode_drafts [(''#general'', \<lparr>sd_draft = \<lparr>dc_content = ''hi'', dc_attachmentIds = [''a''],
     dc_idempotencyKey = ''k'', dc_mentions = [\<lparr>ms_type = AgentActor, ms_id = ''1'', ms_name = ''bot''\<rparr>],
     dc_seenUpToSeq = Some 4, dc_seenExactSeqs = [6, 9]\<rparr>, sd_reholdCount = 1, sd_savedAt = 0\<rparr>)]) \<noteq> Inl DraftDataCorrupt"
  by (subst draft_file_round_trip)
    (simp_all add: drafts_ok_def wf_map_def draft_ok_def is_blank_def exact_ok_def SEEN_EXACT_SEQS_LIMIT_def
      is_safe_integer_def MAX_SAFE_INTEGER_def)

text \<open>Every operation of the store, by what it asks of the disk and the clock.\<close>

datatype store_op =
    OpLookup string
  | OpSave string draft_content
  | OpReplace string draft_content int
  | OpClear string
  | OpClearIfKey string string

fun store_step :: "disk \<Rightarrow> int \<Rightarrow> store_op \<Rightarrow> unit draft_act" where
  "store_step dk now (OpLookup t) file = map_prod (map_sum id (\<lambda>_. ())) id (store_lookup dk now t file)"
| "store_step dk now (OpSave t d) file = store_save dk now t d file"
| "store_step dk now (OpReplace t d k) file = store_replace dk now t d k file"
| "store_step dk now (OpClear t) file = store_clear dk t file"
| "store_step dk now (OpClearIfKey t key) file = map_prod (map_sum id (\<lambda>_. ())) id (store_clearIfKey dk now t key file)"

lemma with_drafts_error:
  assumes "\<And>ds. fst (body ds f) = Inl e \<Longrightarrow> e = DraftWriteFailed \<and> dk_write dk \<noteq> Written"
  shows "fst (with_drafts dk body f) = Inl e \<Longrightarrow>
    (if \<not> dk_prepared dk then e = DirectoryRefused
     else if \<exists>e'. read_drafts f = Inl e' then e = DraftDataCorrupt
     else e = DraftWriteFailed \<and> dk_write dk \<noteq> Written)"
proof -
  have "e' = DraftDataCorrupt" if "read_drafts f = Inl e'" for e'
    using that by (auto simp: read_drafts_def split: draft_file.splits option.splits)
  then show "fst (with_drafts dk body f) = Inl e \<Longrightarrow> ?thesis"
    using assms by (auto simp: with_drafts_def split: sum.splits if_splits)
qed

lemma write_then_error: "fst (write_then dk ds a f) = Inl e \<Longrightarrow> e = DraftWriteFailed \<and> dk_write dk \<noteq> Written"
  by (auto simp: write_then_def write_drafts_def split: write_outcome.splits prod.splits sum.splits)

text \<open>
  How the store fails. An operation throws because the directories are refused, else because the
  file is corrupt, else because its own write failed, and for no other reason; and a refused or
  corrupt file is left exactly as it was, by every operation.
\<close>

theorem draft_store_errors:
  "(case fst (store_step dk now oper f) of
      Inr u \<Rightarrow> dk_prepared dk
    | Inl e \<Rightarrow> (if \<not> dk_prepared dk then e = DirectoryRefused
        else if \<exists>e'. read_drafts f = Inl e' then e = DraftDataCorrupt
        else e = DraftWriteFailed \<and> dk_write dk \<noteq> Written)) \<and>
   (\<not> dk_prepared dk \<or> (\<exists>e. read_drafts f = Inl e) \<longrightarrow> snd (store_step dk now oper f) = f)"
proof -
  have err: "fst (store_step dk now oper f) = Inl e \<Longrightarrow>
      (if \<not> dk_prepared dk then e = DirectoryRefused
       else if \<exists>e'. read_drafts f = Inl e' then e = DraftDataCorrupt
       else e = DraftWriteFailed \<and> dk_write dk \<noteq> Written)" for e
    by (cases oper)
      (auto simp: store_lookup_def store_save_def store_replace_def store_writeDraft_def store_clear_def
        store_clearIfKey_def map_sum_def dest!: with_drafts_error [rotated] write_then_error
        split: sum.splits option.splits if_splits)
  moreover have "dk_prepared dk" if "fst (store_step dk now oper f) = Inr u" for u
    using that by (cases oper) (auto simp: store_lookup_def store_save_def store_replace_def
        store_writeDraft_def store_clear_def store_clearIfKey_def with_drafts_def split: if_splits)
  moreover have "snd (store_step dk now oper f) = f" if "\<not> dk_prepared dk \<or> (\<exists>e. read_drafts f = Inl e)"
    using that by (cases oper) (auto simp: store_lookup_def store_save_def store_replace_def
        store_writeDraft_def store_clear_def store_clearIfKey_def with_drafts_def)
  ultimately show ?thesis by (auto split: sum.split)
qed

theorem draft_store_errors_witness:
  "snd (store_step \<lparr>dk_prepared = True, dk_write = Written\<rparr> 0 (OpClear ''#general'') Unparsable) = Unparsable"
  using draft_store_errors [where dk = "\<lparr>dk_prepared = True, dk_write = Written\<rparr>" and now = 0
      and oper = "OpClear ''#general''" and f = Unparsable]
  by (simp add: read_drafts_def)

end
