(* ===== verification/InboxFreshness.thy ===== *)
theory InboxFreshness
  imports MessageDrafts "HOL-Library.List_Lexorder" "HOL-Library.Char_ord" "HOL-Library.Multiset"
begin

text \<open>
  The daemon's own freshness decision for an outgoing send:
  \<open>packages/daemon/src/daemon-runtime/agent-inbox-freshness.ts\<close>, the activity that narrates a hold
  (\<open>agent-inbox-freshness-activity.ts\<close>), and the producer fact id of a decision
  (\<open>packages/coforge-sdk/src/internal/freshness-decision.ts\<close>), whose digest is a parameter.
\<close>

subsection \<open>Planning\<close>

record freshness_input =
  fi_continueAnyway :: bool
  fi_modelSeenSequence :: int
  fi_pendingMessageCount :: nat
  fi_pendingMaxSequence :: int

datatype freshness_plan =
    Bypass
  | LocalHold nat int
  | ForwardSeen
  | ForwardNothingPending

definition planAgentInboxFreshness :: "freshness_input \<Rightarrow> freshness_plan" where
  "planAgentInboxFreshness i =
     (if fi_continueAnyway i then Bypass
      else if fi_pendingMessageCount i > 0
      then LocalHold (fi_pendingMessageCount i) (fi_pendingMaxSequence i)
      else if fi_modelSeenSequence i > 0 then ForwardSeen else ForwardNothingPending)"

subsection \<open>The transport-shaped answer\<close>

datatype context_mode = Inline | Withheld

datatype decision = Forward | BypassDecision | LocalHoldDecision | SyncingHold

datatype send_state = Held | Sent | Committed

record message_view =
  mv_id :: string
  mv_sequence :: int
  mv_target :: string
  mv_senderKind :: sender_kind
  mv_senderHandle :: string
  mv_body :: string
  mv_createdAt :: int

record transport_response =
  tr_idempotencyKey :: string
  tr_accepted :: bool
  tr_attentionCount :: nat
  tr_messageId :: "string option"
  tr_messages :: "message_view list"
  tr_state :: "send_state option"
  tr_decision :: "decision option"
  tr_reason :: "string option"
  tr_availableActions :: "string list"
  tr_continueAnywaySuggested :: bool
  tr_newMessageCount :: "nat option"
  tr_shownMessageCount :: "nat option"
  tr_omittedMessageCount :: "nat option"
  tr_seenUpToSeq :: "int option"
  tr_freshnessContextMode :: "context_mode option"
  tr_recentUnread :: "message_view list"

definition HELD_SEND_AVAILABLE_ACTIONS :: "string list" where
  "HELD_SEND_AVAILABLE_ACTIONS = [''check_messages'', ''send_draft'', ''send_anyway'']"

definition locallyHeldSend ::
  "nat \<Rightarrow> int \<Rightarrow> string \<Rightarrow> int \<Rightarrow> context_mode option \<Rightarrow> message_view list \<Rightarrow> transport_response"
where
  "locallyHeldSend newMessageCount seenUpToSeq idempotencyKey draftReholdCount mode window =
     \<lparr>tr_idempotencyKey = idempotencyKey, tr_accepted = False, tr_attentionCount = newMessageCount,
      tr_messageId = None, tr_messages = window, tr_state = Some Held,
      tr_decision = Some LocalHoldDecision, tr_reason = Some ''exact_target_pending'',
      tr_availableActions = HELD_SEND_AVAILABLE_ACTIONS,
      tr_continueAnywaySuggested = (draftReholdCount \<ge> 1),
      tr_newMessageCount = Some newMessageCount, tr_shownMessageCount = Some (length window),
      tr_omittedMessageCount = Some (newMessageCount - length window),
      tr_seenUpToSeq = Some seenUpToSeq, tr_freshnessContextMode = mode, tr_recentUnread = []\<rparr>"

text \<open>The exact sequences a send reports, \<open>None\<close> when there are none.\<close>

definition sendSeenExactSeqs :: "int list \<Rightarrow> int list \<Rightarrow> int option \<Rightarrow> int list option" where
  "sendSeenExactSeqs draft shown seenUpToSeq =
     (let reported = mergeSeenExactSeqs (case seenUpToSeq of None \<Rightarrow> 0 | Some s \<Rightarrow> s) draft shown
      in if length reported > 0 then Some reported else None)"

subsection \<open>The activity of a hold\<close>

datatype freshness_action = SendAction | TaskClaim | TaskUpdate

definition held_title :: "freshness_action \<Rightarrow> string" where
  "held_title action =
     (if action = SendAction then ''Send held by freshness check''
      else if action = TaskClaim then ''Task claim held by freshness check''
      else ''Task update held by freshness check'')"

definition held_count_line :: "bool \<Rightarrow> nat \<Rightarrow> string" where
  "held_count_line syncing n =
     (if syncing then ''unreviewed synced context for this target: '' @ digits_of n @ '' ''
      else ''new messages: '' @ digits_of n @ '' newer '') @ (if n = 1 then ''message'' else ''messages'')"

definition held_decision_lines :: "freshness_action \<Rightarrow> bool \<Rightarrow> string list" where
  "held_decision_lines action syncing =
     (if syncing
      then [''reason: this target's latest synced context was not yet in your reviewed context'',
            (if action = SendAction then ''action: review the synced context before sending''
             else ''action: review the synced context, then retry this action'')]
      else [''decision: local hold; review the newer context before retrying''])"

record held_activity =
  ha_title :: string
  ha_text :: string
  ha_producerFactId :: string

definition heldFreshnessActivity ::
  "freshness_action \<Rightarrow> bool \<Rightarrow> string \<Rightarrow> nat \<Rightarrow> string \<Rightarrow> held_activity" where
  "heldFreshnessActivity action syncing target n factId =
     \<lparr>ha_title = held_title action,
      ha_text = join newline ((if target = '''' then [] else [''target: '' @ target]) @
        [held_count_line syncing n] @ held_decision_lines action syncing),
      ha_producerFactId = factId\<rparr>"

definition heldFreshnessMessageCount :: "bool \<Rightarrow> nat option \<Rightarrow> nat option \<Rightarrow> nat" where
  "heldFreshnessMessageCount syncing newMessageCount shownMessageCount =
     (let first = (if syncing then shownMessageCount else newMessageCount);
          second = (if syncing then newMessageCount else shownMessageCount)
      in case first of Some n \<Rightarrow> n | None \<Rightarrow> (case second of Some n \<Rightarrow> n | None \<Rightarrow> 0))"

definition heldFreshnessDecision :: "decision option \<Rightarrow> decision option" where
  "heldFreshnessDecision d =
     (if d = Some LocalHoldDecision \<or> d = Some SyncingHold then d else None)"

subsection \<open>The producer fact\<close>

text \<open>A JavaScript value as \<open>JSON.stringify\<close> sees it, with the \<open>undefined\<close> an object may hold.\<close>

datatype fact =
    FUndefined
  | FNull
  | FBool bool
  | FNum int
  | FStr string
  | FArr "fact list"
  | FObj "(string \<times> fact) list"

function stableNormalizeFreshnessFact :: "fact \<Rightarrow> fact" where
  "stableNormalizeFreshnessFact (FArr vs) = FArr (map stableNormalizeFreshnessFact vs)"
| "stableNormalizeFreshnessFact (FObj kvs) =
     FObj (map (\<lambda>(k, v). (k, stableNormalizeFreshnessFact v))
       (filter (\<lambda>(k, v). v \<noteq> FUndefined) (sort_key fst kvs)))"
| "stableNormalizeFreshnessFact FUndefined = FUndefined"
| "stableNormalizeFreshnessFact FNull = FNull"
| "stableNormalizeFreshnessFact (FBool b) = FBool b"
| "stableNormalizeFreshnessFact (FNum n) = FNum n"
| "stableNormalizeFreshnessFact (FStr s) = FStr s"
  by pat_completeness auto



termination
proof (relation "measure size")
  fix v vs
  show "v \<in> set vs \<Longrightarrow> (v, FArr vs) \<in> measure size" by (induction vs) auto
next
  fix p :: "string \<times> fact" and kvs k v
  assume "p \<in> set (filter (\<lambda>(k, v). v \<noteq> FUndefined) (sort_key fst kvs))" "(k, v) = p"
  then have "(k, v) \<in> set kvs" by auto
  then show "(v, FObj kvs) \<in> measure size" by (induction kvs) auto
qed simp

record fact_input =
  ft_agentId :: string
  ft_action :: "freshness_action option"
  ft_decision :: string
  ft_freshnessContextMode :: "context_mode option"
  ft_target :: "string option"
  ft_reason :: string
  ft_pendingMaxSeq :: "int option"
  ft_modelSeenSeq :: "int option"
  ft_heldMessageCount :: "nat option"
  ft_omittedMessageCount :: "nat option"

fun action_name :: "freshness_action \<Rightarrow> string" where
  "action_name SendAction = ''send''"
| "action_name TaskClaim = ''task_claim''"
| "action_name TaskUpdate = ''task_update''"

definition or_null :: "('a \<Rightarrow> fact) \<Rightarrow> 'a option \<Rightarrow> fact" where
  "or_null f v = (case v of None \<Rightarrow> FNull | Some x \<Rightarrow> f x)"

definition stable_input :: "fact_input \<Rightarrow> fact" where
  "stable_input i = FObj
     ([(''agentId'', FStr (ft_agentId i)),
       (''action'', FStr (action_name (case ft_action i of None \<Rightarrow> SendAction | Some a \<Rightarrow> a))),
       (''decision'', FStr (ft_decision i))] @
      (if ft_freshnessContextMode i = Some Withheld then [(''freshnessContextMode'', FStr ''withheld'')] else []) @
      [(''target'', or_null FStr (ft_target i)), (''reason'', FStr (ft_reason i)),
       (''pendingMaxSeq'', or_null FNum (ft_pendingMaxSeq i)),
       (''modelSeenSeq'', or_null FNum (ft_modelSeenSeq i)),
       (''heldMessageCount'', or_null (\<lambda>n. FNum (int n)) (ft_heldMessageCount i)),
       (''omittedMessageCount'', or_null (\<lambda>n. FNum (int n)) (ft_omittedMessageCount i))])"

text \<open>\<open>digest\<close> is the hexadecimal SHA-256 of the serialized value.\<close>

definition freshnessDecisionFactId :: "(fact \<Rightarrow> string) \<Rightarrow> fact_input \<Rightarrow> string" where
  "freshnessDecisionFactId digest i =
     ''freshness_decision_fact:'' @ digest (stableNormalizeFreshnessFact (stable_input i))"

subsection \<open>The fact id names the decision\<close>

lemma normalize_defined [simp]: "stableNormalizeFreshnessFact v = FUndefined \<longleftrightarrow> v = FUndefined"
  by (cases v) auto

lemma sort_key_fst_unique:
  fixes kvs :: "(string \<times> 'b) list"
  assumes "distinct (map fst kvs)" "distinct (map fst kvs')" "set kvs = set kvs'"
  shows "sort_key fst kvs = sort_key fst kvs'"
proof (rule map_sorted_distinct_set_unique [where f = fst])
  have "inj_on fst (set kvs)" using assms(1) by (simp add: distinct_map)
  then show "inj_on fst (set (sort_key fst kvs) \<union> set (sort_key fst kvs'))" using assms(3) by simp
  have "distinct (map fst (sort_key fst xs))" if "distinct (map fst xs)" for xs :: "(string \<times> 'b) list"
    using that by (simp add: distinct_map)
  then show "distinct (map fst (sort_key fst kvs))" "distinct (map fst (sort_key fst kvs'))"
    using assms by blast+
qed (use assms in simp_all)

lemma normalize_idem: "stableNormalizeFreshnessFact (stableNormalizeFreshnessFact v) = stableNormalizeFreshnessFact v"
proof (induction v rule: stableNormalizeFreshnessFact.induct)
  case (2 kvs)
  let ?kept = "filter (\<lambda>(k, v). v \<noteq> FUndefined) (sort_key fst kvs)"
  let ?norm = "map (\<lambda>(k, v). (k, stableNormalizeFreshnessFact v)) ?kept"
  have fst: "map fst ?norm = map fst ?kept" by (simp add: comp_def case_prod_unfold)
  have "sorted (map fst ?kept)" by (rule sorted_filter) simp
  then have "sorted (map fst ?norm)" by (simp only: fst)
  then have s: "sort_key fst ?norm = ?norm" by (intro properties_for_sort_key) simp_all
  have d: "filter (\<lambda>(k, v). v \<noteq> FUndefined) ?norm = ?norm" by (auto simp: filter_id_conv)
  have "map (\<lambda>(k, v). (k, stableNormalizeFreshnessFact v)) ?norm = ?norm"
    using 2 by (auto simp: comp_def)
  then show ?case by (simp add: s d del: map_map)
qed (simp_all add: comp_def cong: map_cong)

text \<open>
  The fact id of a decision is a function of what was decided: the normalized value does not
  depend on the order of an object's keys or on fields that are undefined, and normalizing again
  changes nothing.
\<close>

theorem stable_fact_is_canonical:
  assumes "distinct (map fst kvs)" "distinct (map fst kvs')"
    and "{p \<in> set kvs. snd p \<noteq> FUndefined} = {p \<in> set kvs'. snd p \<noteq> FUndefined}"
  shows "stableNormalizeFreshnessFact (FObj kvs) = stableNormalizeFreshnessFact (FObj kvs') \<and>
    stableNormalizeFreshnessFact (stableNormalizeFreshnessFact v) = stableNormalizeFreshnessFact v"
proof
  let ?P = "\<lambda>(k :: string, v). v \<noteq> FUndefined"
  have "sort_key fst (filter ?P kvs) = sort_key fst (filter ?P kvs')"
    using assms by (intro sort_key_fst_unique) (auto simp: distinct_map_filter case_prod_unfold)
  then have "filter ?P (sort_key fst kvs) = filter ?P (sort_key fst kvs')"
    by (simp add: filter_sort)
  then show "stableNormalizeFreshnessFact (FObj kvs) = stableNormalizeFreshnessFact (FObj kvs')" by simp
qed (rule normalize_idem)

theorem stable_fact_is_canonical_witness:
  "stableNormalizeFreshnessFact (FObj [(''b'', FNull), (''a'', FNum 1)]) =
   stableNormalizeFreshnessFact (FObj [(''a'', FNum 1), (''c'', FUndefined), (''b'', FNull)])"
  by (rule stable_fact_is_canonical [THEN conjunct1]) auto

subsection \<open>Facts of the plan\<close>

lemma plan_hold_iff:
  "planAgentInboxFreshness i = LocalHold n s \<longleftrightarrow>
     \<not> fi_continueAnyway i \<and> n > 0 \<and> n = fi_pendingMessageCount i \<and> s = fi_pendingMaxSequence i"
  by (auto simp: planAgentInboxFreshness_def)

end
