(* ===== verification/SendSettlement.thy ===== *)
theory SendSettlement
  imports InboxFreshness
begin

text \<open>
  Issuing one send and settling an ambiguous outcome by its key:
  \<open>packages/daemon/src/daemon-runtime/agent-send-settlement.ts\<close> with the failures of
  \<open>packages/daemon/src/connection/agent-transport-error.ts\<close> and
  \<open>agent-explained-refusal-error.ts\<close>. The ports answer in a world of any type, which each call may
  change. The wording of a verdict's next action is the constructor that carries what it quotes.
\<close>

subsection \<open>Requests and failures\<close>

record send_request =
  rq_idempotencyKey :: string
  rq_agentId :: string
  rq_workspaceId :: string
  rq_target :: string
  rq_content :: string
  rq_continueAnyway :: bool
  rq_draftReholdCount :: int
  rq_draftReplacedExisting :: bool
  rq_sendDraft :: bool
  rq_seenUpToSeq :: "int option"
  rq_seenExactSeqs :: "int list option"
  rq_freshnessContextMode :: "context_mode option"
  rq_attachmentIds :: "string list"
  rq_mentions :: "mention_selector list"

datatype failure_class = PreResponseTransport | UpstreamHttpResponse | MidResponseTransport | ProtocolMismatch

datatype send_failure =
    TransportError failure_class "int option"
  | ExplainedRefusal int "string option"
  | OtherFailure string

text \<open>\<open>fromResponse\<close>: which statuses carry a refusal written for the Agent; \<open>code\<close> is its decoded code.\<close>

definition explained_refusal :: "int \<Rightarrow> string option option \<Rightarrow> send_failure option" where
  "explained_refusal status refusal =
     (if status < 400 \<or> status \<ge> 500 \<or> status = 401 then None
      else map_option (ExplainedRefusal status) refusal)"

datatype reconciliation = CommittedAs string string | NotFound

datatype draft_key_check = Holds | Replaced | Unchecked

datatype next_action =
    ResendWhenProcessed bool string string
  | MayStillBeDelivered draft_key_check string
  | RetryDraftSameKey bool string string
  | CannotConfirm draft_key_check

record verdict =
  vd_retryable :: bool
  vd_draftSaved :: bool
  vd_suggestedNextAction :: next_action

datatype settled =
    Answered transport_response
  | Failed send_failure
  | Judged send_failure verdict

record 'w send_ports =
  sp_send :: "send_request \<Rightarrow> 'w \<Rightarrow> (send_failure + transport_response) \<times> 'w"
  sp_reconcile :: "send_request \<Rightarrow> 'w \<Rightarrow> (send_failure + reconciliation) \<times> 'w"
  sp_draftHoldsKey :: "string \<Rightarrow> string \<Rightarrow> 'w \<Rightarrow> bool option \<times> 'w"

subsection \<open>Settling\<close>

definition isAmbiguousSendFailure :: "send_failure \<Rightarrow> bool" where
  "isAmbiguousSendFailure e =
     (case e of
        TransportError cls status \<Rightarrow>
          cls = PreResponseTransport \<or> (case status of None \<Rightarrow> False | Some s \<Rightarrow> s \<ge> 500)
      | _ \<Rightarrow> False)"

definition isStillProcessing :: "send_failure \<Rightarrow> bool" where
  "isStillProcessing e =
     (case e of ExplainedRefusal _ code \<Rightarrow> code = Some ''MESSAGE_REQUEST_IN_PROGRESS'' | _ \<Rightarrow> False)"

text \<open>\<open>None\<close> from the port is a throw.\<close>

definition checkDraftKey :: "'w send_ports \<Rightarrow> send_request \<Rightarrow> 'w \<Rightarrow> draft_key_check \<times> 'w" where
  "checkDraftKey ports send w =
     (case sp_draftHoldsKey ports (rq_target send) (rq_idempotencyKey send) w of
        (None, w') \<Rightarrow> (Unchecked, w')
      | (Some True, w') \<Rightarrow> (Holds, w')
      | (Some False, w') \<Rightarrow> (Replaced, w'))"

definition stillProcessingVerdict :: "send_request \<Rightarrow> draft_key_check \<Rightarrow> bool \<Rightarrow> verdict" where
  "stillProcessingVerdict send draftCheck reviewerIsolation =
     (if draftCheck \<noteq> Holds
      then \<lparr>vd_retryable = False, vd_draftSaved = False,
        vd_suggestedNextAction = MayStillBeDelivered draftCheck (rq_target send)\<rparr>
      else \<lparr>vd_retryable = True, vd_draftSaved = True,
        vd_suggestedNextAction = ResendWhenProcessed reviewerIsolation (rq_idempotencyKey send) (rq_target send)\<rparr>)"

definition replayVerdict :: "send_request \<Rightarrow> draft_key_check \<Rightarrow> bool \<Rightarrow> verdict" where
  "replayVerdict send draftCheck reviewerIsolation =
     (if draftCheck \<noteq> Holds
      then \<lparr>vd_retryable = False, vd_draftSaved = False, vd_suggestedNextAction = CannotConfirm draftCheck\<rparr>
      else \<lparr>vd_retryable = True, vd_draftSaved = True,
        vd_suggestedNextAction = RetryDraftSameKey reviewerIsolation (rq_idempotencyKey send) (rq_target send)\<rparr>)"

definition adaptAgentSendCommittedResponse :: "string \<Rightarrow> string \<Rightarrow> transport_response" where
  "adaptAgentSendCommittedResponse key messageId =
     \<lparr>tr_idempotencyKey = key, tr_accepted = True, tr_attentionCount = 0, tr_messageId = Some messageId,
      tr_messages = [], tr_state = Some Committed, tr_decision = None, tr_reason = None,
      tr_availableActions = [], tr_continueAnywaySuggested = False, tr_newMessageCount = None,
      tr_shownMessageCount = None, tr_omittedMessageCount = None, tr_seenUpToSeq = None,
      tr_freshnessContextMode = None, tr_recentUnread = []\<rparr>"

text \<open>After a \<open>not_found\<close>: the one replay under the same key.\<close>

definition replay_send :: "'w send_ports \<Rightarrow> send_request \<Rightarrow> bool \<Rightarrow> 'w \<Rightarrow> settled \<times> 'w" where
  "replay_send ports send reviewerIsolation w =
     (case sp_send ports send w of
        (Inr response, w') \<Rightarrow> (Answered response, w')
      | (Inl replayFailure, w') \<Rightarrow>
          (case checkDraftKey ports send w' of
             (check, w'') \<Rightarrow> (Judged replayFailure (replayVerdict send check reviewerIsolation), w'')))"

definition reconcile_send :: "'w send_ports \<Rightarrow> send_request \<Rightarrow> bool \<Rightarrow> send_failure \<Rightarrow> 'w \<Rightarrow> settled \<times> 'w" where
  "reconcile_send ports send reviewerIsolation failure w =
     (case sp_reconcile ports send w of
        (Inl _, w') \<Rightarrow> (Failed failure, w')
      | (Inr (CommittedAs key messageId), w') \<Rightarrow> (Answered (adaptAgentSendCommittedResponse key messageId), w')
      | (Inr NotFound, w') \<Rightarrow> replay_send ports send reviewerIsolation w')"

definition settleAgentSend :: "'w send_ports \<Rightarrow> send_request \<Rightarrow> bool \<Rightarrow> 'w \<Rightarrow> settled \<times> 'w" where
  "settleAgentSend ports send reviewerIsolation w =
     (case sp_send ports send w of
        (Inr response, w') \<Rightarrow> (Answered response, w')
      | (Inl e, w') \<Rightarrow>
          if isStillProcessing e
          then (case checkDraftKey ports send w' of
              (check, w'') \<Rightarrow> (Judged e (stillProcessingVerdict send check reviewerIsolation), w''))
          else if \<not> isAmbiguousSendFailure e then (Failed e, w')
          else reconcile_send ports send reviewerIsolation e w')"

subsection \<open>The calls a settlement makes\<close>

datatype call =
    SendCall send_request "send_failure option"
  | ReconcileCall string "reconciliation option"
  | DraftCheckCall string string "bool option"

definition answer_of :: "'e + 'a \<Rightarrow> 'a option" where
  "answer_of r = (case r of Inl _ \<Rightarrow> None | Inr a \<Rightarrow> Some a)"

definition failure_of :: "'e + 'a \<Rightarrow> 'e option" where
  "failure_of r = (case r of Inl e \<Rightarrow> Some e | Inr _ \<Rightarrow> None)"

text \<open>The same ports, writing each call and what it answered into a log.\<close>

definition logged :: "'w send_ports \<Rightarrow> ('w \<times> call list) send_ports" where
  "logged ports = \<lparr>
     sp_send = (\<lambda>r (w, log). case sp_send ports r w of (a, w') \<Rightarrow> (a, w', log @ [SendCall r (failure_of a)])),
     sp_reconcile = (\<lambda>r (w, log). case sp_reconcile ports r w of
       (a, w') \<Rightarrow> (a, w', log @ [ReconcileCall (rq_idempotencyKey r) (answer_of a)])),
     sp_draftHoldsKey = (\<lambda>t k (w, log). case sp_draftHoldsKey ports t k w of
       (a, w') \<Rightarrow> (a, w', log @ [DraftCheckCall t k a]))\<rparr>"

text \<open>What a settlement may do, call by call, and how it ends.\<close>

inductive settlement :: "send_request \<Rightarrow> bool \<Rightarrow> call list \<Rightarrow> settled \<Rightarrow> bool" where
  answered: "settlement r isolated [SendCall r None] (Answered response)"
| refused: "settlement r isolated [SendCall r (Some e)] (Failed e)"
    if "\<not> isStillProcessing e" "\<not> isAmbiguousSendFailure e"
| processing: "settlement r isolated [SendCall r (Some e), DraftCheckCall (rq_target r) (rq_idempotencyKey r) held]
      (Judged e (stillProcessingVerdict r check isolated))"
    if "isStillProcessing e" "check = Holds \<longleftrightarrow> held = Some True" "check = Unchecked \<longleftrightarrow> held = None"
| unreconciled: "settlement r isolated [SendCall r (Some e), ReconcileCall (rq_idempotencyKey r) None] (Failed e)"
    if "isAmbiguousSendFailure e"
| committed: "settlement r isolated
      [SendCall r (Some e), ReconcileCall (rq_idempotencyKey r) (Some (CommittedAs key mid))]
      (Answered (adaptAgentSendCommittedResponse key mid))"
    if "isAmbiguousSendFailure e"
| replayed: "settlement r isolated
      [SendCall r (Some e), ReconcileCall (rq_idempotencyKey r) (Some NotFound), SendCall r None]
      (Answered response)"
    if "isAmbiguousSendFailure e"
| replay_failed: "settlement r isolated
      [SendCall r (Some e), ReconcileCall (rq_idempotencyKey r) (Some NotFound), SendCall r (Some e'),
       DraftCheckCall (rq_target r) (rq_idempotencyKey r) held]
      (Judged e' (replayVerdict r check isolated))"
    if "isAmbiguousSendFailure e" "check = Holds \<longleftrightarrow> held = Some True" "check = Unchecked \<longleftrightarrow> held = None"

inductive_cases settlement_cases: "settlement r isolated calls out"

lemma logged_simps [simp]:
  "sp_send (logged ports) r (w, log) =
     (case sp_send ports r w of (a, w') \<Rightarrow> (a, w', log @ [SendCall r (failure_of a)]))"
  "sp_reconcile (logged ports) r (w, log) =
     (case sp_reconcile ports r w of (a, w') \<Rightarrow> (a, w', log @ [ReconcileCall (rq_idempotencyKey r) (answer_of a)]))"
  "sp_draftHoldsKey (logged ports) t k (w, log) =
     (case sp_draftHoldsKey ports t k w of (a, w') \<Rightarrow> (a, w', log @ [DraftCheckCall t k a]))"
  by (simp_all add: logged_def)

text \<open>
  C30: a settlement never resends blind. Whatever the ports answer, the calls it makes and how it ends
  are one of the seven permitted ways: the request is issued a second time only after an ambiguous
  failure and a reconciliation that found no commit, and then exactly once, unchanged; a failed
  reconciliation leaves the first failure; and a judged failure carries the verdict of what the check
  of the target's draft answered.
\<close>

theorem settlement_never_resends_blind:
  "case settleAgentSend (logged ports) r isolated (w, []) of (out, w', calls) \<Rightarrow> settlement r isolated calls out"
  by (auto simp: settleAgentSend_def reconcile_send_def replay_send_def checkDraftKey_def failure_of_def
      answer_of_def split: sum.splits prod.splits option.splits bool.splits reconciliation.splits
      intro!: settlement.intros settlement.processing settlement.replay_failed)

end
