(* ===== verification/SendPipeline.thy ===== *)
theory SendPipeline
  imports AttentionProperties SendSettlement
begin

text \<open>
  The Agent's message operations in \<open>packages/daemon/src/daemon-runtime/runtime.ts\<close>: a send, from the
  saved draft through the freshness decision and the settlement to what it records
  (\<open>#draftToResend\<close>, \<open>#sendAgentMessage\<close>), a check (\<open>#checkAgentMessages\<close>), and a forwarded read
  (\<open>#forwardAgentMessage\<close>, \<open>#consumeHistoryRead\<close>). A handler runs over one Agent's part of the
  daemon: its attention index with the durable cursor, its drafts, and a server of any kind, which
  answers the transport calls. What runs between a handler's awaits is not interleaved here; the
  clock and the disk are the handler's environment. Logging and the emission of activities are left
  out.
\<close>

subsection \<open>The daemon's part for one Agent\<close>

record 'w daemon =
  dn_agentId :: string
  dn_workspaceId :: string
  dn_index :: ix_state
  dn_inbox :: draft_inbox
  dn_server :: 'w

datatype preflight =
    SendDraftExpired string string int
  | SendDraftNotFound string
  | SavedDraftIdentityChanged
  | AgentMessageBodyRequired
  | MentionNotInContent string
  | ThreadTargetConfirmationRequired string string

datatype agent_error =
    DraftFailed draft_error
  | CursorThrew cursor_error
  | Preflight preflight
  | SendFailed send_failure
  | SendJudged send_failure verdict
  | ThreadTargetUnresolved

type_synonym ('w, 'a) handler = "'w daemon \<Rightarrow> (agent_error + 'a) \<times> 'w daemon"

record environment =
  en_now :: int
  en_disk :: disk
  en_stored :: bool

definition return_h :: "'a \<Rightarrow> ('w, 'a) handler" where
  "return_h a d = (Inr a, d)"

definition throw_h :: "agent_error \<Rightarrow> ('w, 'a) handler" where
  "throw_h e d = (Inl e, d)"

definition then_h :: "('w, 'a) handler \<Rightarrow> ('a \<Rightarrow> ('w, 'b) handler) \<Rightarrow> ('w, 'b) handler" where
  "then_h m f d = (case m d of (Inl e, d') \<Rightarrow> (Inl e, d') | (Inr a, d') \<Rightarrow> f a d')"

definition with_agent :: "(string \<Rightarrow> ('w, 'a) handler) \<Rightarrow> ('w, 'a) handler" where
  "with_agent f d = f (dn_agentId d) d"

definition on_index :: "'a act \<Rightarrow> ('w, 'a) handler" where
  "on_index act d =
     (case act (dn_index d) of
        (Inl e, s) \<Rightarrow> (Inl (CursorThrew e), d\<lparr>dn_index := s\<rparr>)
      | (Inr a, s) \<Rightarrow> (Inr a, d\<lparr>dn_index := s\<rparr>))"

definition on_inbox :: "'a inbox_act \<Rightarrow> ('w, 'a) handler" where
  "on_inbox act d =
     (case act (dn_inbox d) of
        (Inl e, ib) \<Rightarrow> (Inl (DraftFailed e), d\<lparr>dn_inbox := ib\<rparr>)
      | (Inr a, ib) \<Rightarrow> (Inr a, d\<lparr>dn_inbox := ib\<rparr>))"

subsection \<open>A send's request\<close>

record message_request =
  lr_idempotencyKey :: string
  lr_sendDraft :: bool
  lr_expectedDraftKey :: "string option"
  lr_content :: "string option"
  lr_attachmentIds :: "string list"
  lr_mentions :: "mention_selector list"
  lr_targetConfirmed :: bool
  lr_continueAnyway :: bool
  lr_freshnessContextMode :: "context_mode option"

text \<open>\<open>#draftToResend\<close>.\<close>

definition draftToResend :: "environment \<Rightarrow> string \<Rightarrow> message_request \<Rightarrow> ('w, draft_content \<times> int) handler" where
  "draftToResend env target request =
     then_h (on_inbox (inbox_lookup (en_disk env) (en_now env) target)) (\<lambda>l.
       case l of
         InboxExpired body savedAt \<Rightarrow> throw_h (Preflight (SendDraftExpired target body savedAt))
       | InboxMissing \<Rightarrow> throw_h (Preflight (SendDraftNotFound target))
       | InboxFound draft reholdCount \<Rightarrow>
           (case lr_expectedDraftKey request of
              None \<Rightarrow> return_h (draft, reholdCount)
            | Some key \<Rightarrow>
                if dc_idempotencyKey draft \<noteq> key then throw_h (Preflight SavedDraftIdentityChanged)
                else return_h (draft, reholdCount)))"

text \<open>What is about to be sent, after the draft and the index were read.\<close>

record outgoing =
  og_idempotencyKey :: string
  og_content :: string
  og_attachmentIds :: "string list"
  og_mentions :: "mention_selector list"
  og_draftReholdCount :: int
  og_modelSeenSequence :: int
  og_seenUpToSeq :: "int option"
  og_seenExactSeqs :: "int list option"

definition outgoing_of ::
  "message_request \<Rightarrow> (draft_content \<times> int) option \<Rightarrow> (draft_content \<times> int) option \<Rightarrow> string \<Rightarrow> int \<Rightarrow> int list \<Rightarrow> outgoing"
where
  "outgoing_of request draft priorDraft body modelSeen shownExact =
     (let carried = map_option fst (if lr_sendDraft request then draft else priorDraft);
          draftSeenUpToSeq = (case carried of None \<Rightarrow> None | Some d \<Rightarrow> dc_seenUpToSeq d);
          seenUpToSeq = (case draftSeenUpToSeq of Some s \<Rightarrow> Some s
            | None \<Rightarrow> if modelSeen > 0 then Some modelSeen else None)
      in \<lparr>og_idempotencyKey =
            (case draft of None \<Rightarrow> lr_idempotencyKey request | Some (d, _) \<Rightarrow> dc_idempotencyKey d),
          og_content = body,
          og_attachmentIds =
            (if lr_sendDraft request then (case draft of None \<Rightarrow> [] | Some (d, _) \<Rightarrow> dc_attachmentIds d)
             else lr_attachmentIds request),
          og_mentions =
            (if lr_sendDraft request \<and> lr_mentions request = []
             then (case draft of None \<Rightarrow> [] | Some (d, _) \<Rightarrow> dc_mentions d) else lr_mentions request),
          og_draftReholdCount = (case priorDraft of None \<Rightarrow> 0 | Some (_, k) \<Rightarrow> k),
          og_modelSeenSequence = modelSeen,
          og_seenUpToSeq = seenUpToSeq,
          og_seenExactSeqs = sendSeenExactSeqs
            (case carried of None \<Rightarrow> [] | Some d \<Rightarrow> dc_seenExactSeqs d) shownExact seenUpToSeq\<rparr>)"

definition prepare_send :: "environment \<Rightarrow> string \<Rightarrow> message_request \<Rightarrow> ('w, outgoing) handler" where
  "prepare_send env target request =
     then_h (if lr_sendDraft request then then_h (draftToResend env target request) (\<lambda>d. return_h (Some d))
             else return_h None) (\<lambda>draft.
     then_h (if lr_sendDraft request then return_h draft
             else on_inbox (inbox_draft (en_disk env) (en_now env) target)) (\<lambda>priorDraft.
     case (case draft of Some (d, _) \<Rightarrow> Some (dc_content d) | None \<Rightarrow> lr_content request) of
       None \<Rightarrow> throw_h (Preflight AgentMessageBodyRequired)
     | Some body \<Rightarrow> with_agent (\<lambda>agentId.
         then_h (on_index (modelSeenSequence agentId target)) (\<lambda>modelSeen.
         then_h (on_index (seenExactSequences agentId target)) (\<lambda>exact.
         return_h (outgoing_of request draft priorDraft body modelSeen exact))))))"

text \<open>The first structured mention whose handle the body does not name.\<close>

definition absent_mention :: "outgoing \<Rightarrow> string option" where
  "absent_mention og =
     (let present = mentionsInContent (og_content og)
      in map_option ms_name (find (\<lambda>m. ms_name m \<notin> set present) (og_mentions og)))"

text \<open>The thread a top-level send may have meant: read more recently than its parent.\<close>

definition thread_mismatch :: "string \<Rightarrow> message_request \<Rightarrow> ('w, string option) handler" where
  "thread_mismatch target request =
     (if \<not> lr_sendDraft request \<and> \<not> lr_targetConfirmed request \<and> threadParentTarget target = None
      then with_agent (\<lambda>agentId.
        then_h (on_index (latestThreadReadUnderParent agentId target)) (\<lambda>latest.
          case latest of
            None \<Rightarrow> return_h None
          | Some (thread, order) \<Rightarrow>
              then_h (on_index (readOrder agentId target)) (\<lambda>parentOrder.
                return_h (case parentOrder of
                    None \<Rightarrow> Some thread | Some p \<Rightarrow> if p < order then Some thread else None))))
      else return_h None)"

definition draft_of :: "outgoing \<Rightarrow> draft_content" where
  "draft_of og = \<lparr>dc_content = og_content og, dc_attachmentIds = og_attachmentIds og,
     dc_idempotencyKey = og_idempotencyKey og, dc_mentions = og_mentions og,
     dc_seenUpToSeq = og_seenUpToSeq og, dc_seenExactSeqs = []\<rparr>"

text \<open>The checks and the saved draft before any transport call.\<close>

definition save_before_send :: "environment \<Rightarrow> string \<Rightarrow> message_request \<Rightarrow> outgoing \<Rightarrow> ('w, unit) handler" where
  "save_before_send env target request og =
     (let save = on_inbox (inbox_save (en_disk env) (en_now env) target (draft_of og))
      in case absent_mention og of
          Some name \<Rightarrow> throw_h (Preflight (MentionNotInContent name))
        | None \<Rightarrow>
            then_h (thread_mismatch target request) (\<lambda>mismatch.
              case mismatch of
                Some thread \<Rightarrow> then_h save (\<lambda>_. throw_h (Preflight (ThreadTargetConfirmationRequired target thread)))
              | None \<Rightarrow> if lr_sendDraft request then return_h () else save))"

subsection \<open>Hold or send\<close>

record 'w server =
  sv_send :: "send_request \<Rightarrow> 'w \<Rightarrow> (send_failure + transport_response) \<times> 'w"
  sv_reconcile :: "(send_request \<Rightarrow> 'w \<Rightarrow> (send_failure + reconciliation) \<times> 'w) option"

definition send_plan :: "string \<Rightarrow> message_request \<Rightarrow> outgoing \<Rightarrow> agent_index \<Rightarrow> freshness_plan" where
  "send_plan target request og ix = planAgentInboxFreshness
     \<lparr>fi_continueAnyway = lr_continueAnyway request, fi_modelSeenSequence = og_modelSeenSequence og,
      fi_pendingMessageCount = pendingMessageCount ix target,
      fi_pendingMaxSequence = pendingMaxSequence ix target\<rparr>"

text \<open>A local preview of an unreviewed delivery.\<close>

definition preview :: "string \<Rightarrow> window_entry \<Rightarrow> message_view" where
  "preview target e =
     \<lparr>mv_id = d_messageId (we_delivery e), mv_sequence = d_sequence (we_delivery e), mv_target = target,
      mv_senderKind = (case d_senderKind (we_delivery e) of None \<Rightarrow> System | Some k \<Rightarrow> k),
      mv_senderHandle = (case d_senderHandle (we_delivery e) of None \<Rightarrow> '''' | Some h \<Rightarrow> h),
      mv_body = d_body (we_delivery e), mv_createdAt = we_receivedAt e\<rparr>"

definition request_of :: "string \<Rightarrow> string \<Rightarrow> string \<Rightarrow> message_request \<Rightarrow> outgoing \<Rightarrow> send_request" where
  "request_of agentId workspaceId target request og =
     \<lparr>rq_idempotencyKey = og_idempotencyKey og, rq_agentId = agentId, rq_workspaceId = workspaceId,
      rq_target = target, rq_content = og_content og, rq_continueAnyway = lr_continueAnyway request,
      rq_draftReholdCount = og_draftReholdCount og,
      rq_draftReplacedExisting = (\<not> lr_sendDraft request \<and> og_draftReholdCount og > 0),
      rq_sendDraft = lr_sendDraft request, rq_seenUpToSeq = og_seenUpToSeq og,
      rq_seenExactSeqs = og_seenExactSeqs og,
      rq_freshnessContextMode = lr_freshnessContextMode request,
      rq_attachmentIds = og_attachmentIds og, rq_mentions = og_mentions og\<rparr>"

text \<open>The ports of the settlement: the server, and the draft the inbox holds at that moment.\<close>

definition runtime_ports :: "environment \<Rightarrow> 'w server \<Rightarrow> ('w \<times> draft_inbox) send_ports" where
  "runtime_ports env server = \<lparr>
     sp_send = (\<lambda>r (w, ib). case sv_send server r w of (a, w') \<Rightarrow> (a, w', ib)),
     sp_reconcile = (\<lambda>r (w, ib).
       case sv_reconcile server of
         None \<Rightarrow> (Inl (OtherFailure ''daemon connection cannot reconcile a send''), w, ib)
       | Some reconcile \<Rightarrow> (case reconcile r w of (a, w') \<Rightarrow> (a, w', ib))),
     sp_draftHoldsKey = (\<lambda>target key (w, ib).
       case inbox_draft (en_disk env) (en_now env) target ib of
         (Inl e, ib') \<Rightarrow> (None, w, ib')
       | (Inr found, ib') \<Rightarrow>
           (Some (case found of None \<Rightarrow> False | Some (d, _) \<Rightarrow> dc_idempotencyKey d = key), w, ib'))\<rparr>"

definition hold_or_send ::
  "environment \<Rightarrow> 'w server \<Rightarrow> string \<Rightarrow> message_request \<Rightarrow> outgoing \<Rightarrow> ('w, transport_response) handler"
where
  "hold_or_send env server target request og d =
     (case send_plan target request og (snd (dn_index d)) of
        LocalHold n s \<Rightarrow>
          (Inr (locallyHeldSend n s (og_idempotencyKey og) (og_draftReholdCount og)
            (lr_freshnessContextMode request)
            (map (preview target) (pendingWindow (snd (dn_index d)) target HELD_CONTEXT_LIMIT))), d)
      | _ \<Rightarrow>
          (case settleAgentSend (runtime_ports env server)
              (request_of (dn_agentId d) (dn_workspaceId d) target request og)
              (lr_freshnessContextMode request = Some Withheld) (dn_server d, dn_inbox d) of
             (out, w, ib) \<Rightarrow>
               ((case out of
                   Answered r \<Rightarrow> Inr r | Failed e \<Rightarrow> Inl (SendFailed e) | Judged e v \<Rightarrow> Inl (SendJudged e v)),
                d\<lparr>dn_server := w, dn_inbox := ib\<rparr>)))"

subsection \<open>What a send records\<close>

definition context_withheld :: "message_request \<Rightarrow> transport_response \<Rightarrow> bool" where
  "context_withheld request result \<longleftrightarrow>
     lr_freshnessContextMode request = Some Withheld \<or> tr_freshnessContextMode result = Some Withheld"

text \<open>The draft after the answer: refreshed by a hold, cleared by an accepted send of its key.\<close>

definition held_draft :: "message_request \<Rightarrow> outgoing \<Rightarrow> transport_response \<Rightarrow> draft_content" where
  "held_draft request og result =
     (let withheld = context_withheld request result
      in (draft_of og)\<lparr>
        dc_seenUpToSeq :=
          (if withheld then og_seenUpToSeq og
           else case tr_seenUpToSeq result of Some s \<Rightarrow> Some s | None \<Rightarrow> og_seenUpToSeq og),
        dc_seenExactSeqs :=
          (if withheld then (case og_seenExactSeqs og of None \<Rightarrow> [] | Some xs \<Rightarrow> xs) else [])\<rparr>)"

definition update_draft ::
  "environment \<Rightarrow> string \<Rightarrow> message_request \<Rightarrow> outgoing \<Rightarrow> transport_response \<Rightarrow> ('w, unit) handler"
where
  "update_draft env target request og result =
     (if tr_state result = Some Held
      then on_inbox (inbox_replace (en_disk env) (en_now env) target (held_draft request og result)
        (og_draftReholdCount og + 1))
      else if tr_accepted result
      then then_h (on_inbox (inbox_clearIfKey (en_disk env) (en_now env) target (og_idempotencyKey og)))
        (\<lambda>cleared. return_h ())
      else return_h ())"

definition presented_through :: "string \<Rightarrow> bool \<Rightarrow> transport_response \<Rightarrow> int" where
  "presented_through target withheld result =
     (if tr_state result = Some Held \<and> \<not> withheld
      then fold (\<lambda>m presented. if mv_target m = target \<and> mv_sequence m > presented then mv_sequence m else presented)
        (tr_messages result) (case tr_seenUpToSeq result of None \<Rightarrow> 0 | Some s \<Rightarrow> s)
      else 0)"

definition recent_unread :: "string \<Rightarrow> bool \<Rightarrow> transport_response \<Rightarrow> message_view list" where
  "recent_unread target withheld result =
     (if withheld then [] else filter (\<lambda>m. mv_target m = target) (tr_recentUnread result))"

definition consumed_through :: "string \<Rightarrow> bool \<Rightarrow> transport_response \<Rightarrow> int" where
  "consumed_through target withheld result =
     (let presented = presented_through target withheld result;
          through = (if tr_state result \<noteq> Some Held \<and> tr_accepted result
            then max presented (case tr_seenUpToSeq result of None \<Rightarrow> 0 | Some s \<Rightarrow> s) else presented)
      in fold (\<lambda>m t. max t (mv_sequence m)) (recent_unread target withheld result) through)"

definition record_send :: "environment \<Rightarrow> string \<Rightarrow> message_request \<Rightarrow> transport_response \<Rightarrow> ('w, unit) handler" where
  "record_send env target request result =
     (let withheld = context_withheld request result;
          presented = presented_through target withheld result
      in with_agent (\<lambda>agentId. on_index (recordSendContext (en_stored env) agentId target
           (consumed_through target withheld result)
           (if presented > 0 then Some presented else None))))"

record send_answer =
  sa_idempotencyKey :: string
  sa_result :: transport_response
  sa_messages :: "message_view list"
  sa_recentUnread :: "message_view list"
  sa_withheld :: bool

text \<open>
  The activity of a presented hold. A server-decided hold names its own fact (\<open>named\<close>); otherwise
  the daemon digests the decision. The sequence the Agent had seen is the one read at the start.
\<close>

definition decision_name :: "decision \<Rightarrow> string" where
  "decision_name d = (case d of Forward \<Rightarrow> ''forward'' | BypassDecision \<Rightarrow> ''bypass''
     | LocalHoldDecision \<Rightarrow> ''local_hold'' | SyncingHold \<Rightarrow> ''syncing_hold'')"

definition held_fact :: "string \<Rightarrow> string \<Rightarrow> outgoing \<Rightarrow> transport_response \<Rightarrow> decision \<Rightarrow> fact_input" where
  "held_fact agentId target og result d =
     \<lparr>ft_agentId = agentId, ft_action = Some SendAction, ft_decision = decision_name d,
      ft_freshnessContextMode = None, ft_target = Some target,
      ft_reason = (case tr_reason result of None \<Rightarrow> '''' | Some r \<Rightarrow> r),
      ft_pendingMaxSeq = tr_seenUpToSeq result, ft_modelSeenSeq = Some (og_modelSeenSequence og),
      ft_heldMessageCount =
        Some (case tr_shownMessageCount result of Some n \<Rightarrow> n | None \<Rightarrow> length (tr_messages result)),
      ft_omittedMessageCount = tr_omittedMessageCount result\<rparr>"

definition hold_activity ::
  "(fact \<Rightarrow> string) \<Rightarrow> string \<Rightarrow> string \<Rightarrow> message_request \<Rightarrow> outgoing \<Rightarrow> transport_response \<Rightarrow> string option \<Rightarrow>
   held_activity option"
where
  "hold_activity digest agentId target request og result named =
     (if tr_state result = Some Held \<and> \<not> context_withheld request result
      then map_option (\<lambda>d. heldFreshnessActivity SendAction (d = SyncingHold) target
            (heldFreshnessMessageCount (d = SyncingHold) (tr_newMessageCount result) (tr_shownMessageCount result))
            (case named of Some f \<Rightarrow> f
             | None \<Rightarrow> freshnessDecisionFactId digest (held_fact agentId target og result d)))
          (heldFreshnessDecision (tr_decision result))
      else None)"

definition answer_send :: "string \<Rightarrow> message_request \<Rightarrow> outgoing \<Rightarrow> transport_response \<Rightarrow> send_answer" where
  "answer_send target request og result =
     (let withheld = context_withheld request result
      in \<lparr>sa_idempotencyKey = og_idempotencyKey og, sa_result = result,
          sa_messages = (if withheld then [] else tr_messages result),
          sa_recentUnread = recent_unread target withheld result, sa_withheld = withheld\<rparr>)"

definition sendAgentMessage ::
  "environment \<Rightarrow> 'w server \<Rightarrow> string \<Rightarrow> message_request \<Rightarrow> ('w, send_answer) handler"
where
  "sendAgentMessage env server target request =
     then_h (prepare_send env target request) (\<lambda>og.
     then_h (save_before_send env target request og) (\<lambda>_.
     then_h (hold_or_send env server target request og) (\<lambda>result.
     then_h (update_draft env target request og result) (\<lambda>_.
     then_h (record_send env target request result) (\<lambda>_.
     return_h (answer_send target request og result))))))"

end
