(* ===== verification/SendProperties.thy ===== *)
theory SendProperties
  imports SendPipeline
begin

text \<open>
  What a send guarantees: a hold is terminal and makes no call; the resend of a presented hold goes
  through with the same key and content; what is refused before the transport is never sent.
\<close>

subsection \<open>Handlers\<close>

lemma then_h_Inr:
  "then_h m f d = (Inr b, d'') \<longleftrightarrow> (\<exists>a d'. m d = (Inr a, d') \<and> f a d' = (Inr b, d''))"
  by (auto simp: then_h_def split: prod.splits sum.splits)

lemma then_h_simps [simp]:
  "m d = (Inr a, d') \<Longrightarrow> then_h m f d = f a d'"
  "m d = (Inl e, d') \<Longrightarrow> then_h m f d = (Inl e, d')"
  by (simp_all add: then_h_def)

lemma return_h_simps [simp]: "return_h a d = (Inr a, d)" by (simp add: return_h_def)

lemma throw_h_simps [simp]: "throw_h e d = (Inl e, d)" by (simp add: throw_h_def)

text \<open>A property of the daemon every step of a handler keeps.\<close>

definition keeps :: "('w daemon \<Rightarrow> 'w daemon \<Rightarrow> bool) \<Rightarrow> ('w, 'a) handler \<Rightarrow> bool" where
  "keeps R m \<longleftrightarrow> (\<forall>d. R d (snd (m d)))"

lemma keepsD: "keeps R m \<Longrightarrow> m d = (r, d') \<Longrightarrow> R d d'"
  by (metis keeps_def snd_conv)

definition transitive :: "('w daemon \<Rightarrow> 'w daemon \<Rightarrow> bool) \<Rightarrow> bool" where
  "transitive R \<longleftrightarrow> (\<forall>d. R d d) \<and> (\<forall>a b c. R a b \<longrightarrow> R b c \<longrightarrow> R a c)"

lemma keeps_then:
  assumes "transitive R" "keeps R m" "\<And>a. keeps R (f a)"
  shows "keeps R (then_h m f)"
  unfolding keeps_def
proof
  fix d
  obtain r d' where m: "m d = (r, d')" by fastforce
  have "R d d'" by (rule keepsD [OF assms(2) m])
  moreover have "R d' (snd (f a d'))" for a using assms(3) by (simp add: keeps_def)
  ultimately show "R d (snd (then_h m f d))"
    using m assms(1) by (cases r) (auto simp: transitive_def)
qed

lemma keeps_base: "transitive R \<Longrightarrow> keeps R (return_h a)" "transitive R \<Longrightarrow> keeps R (throw_h e)"
  by (simp_all add: keeps_def transitive_def)

text \<open>Nothing a handler does before the transport touches the server; reads keep the attention.\<close>

definition same_server :: "'w daemon \<Rightarrow> 'w daemon \<Rightarrow> bool" where
  "same_server d d' \<longleftrightarrow> dn_server d' = dn_server d \<and> dn_agentId d' = dn_agentId d \<and>
     dn_workspaceId d' = dn_workspaceId d \<and>
     ai_attention (snd (dn_index d')) = ai_attention (snd (dn_index d)) \<and>
     ai_pendingSequences (snd (dn_index d')) = ai_pendingSequences (snd (dn_index d)) \<and>
     ai_pendingWindow (snd (dn_index d')) = ai_pendingWindow (snd (dn_index d))"

lemma transitive_same_server: "transitive same_server"
  by (auto simp: transitive_def same_server_def)

lemma same_server_on_inbox: "keeps same_server (on_inbox act)"
  by (auto simp: keeps_def same_server_def on_inbox_def split: prod.split sum.split)

lemma same_server_read: "keeps same_server (on_index (read_index a f) :: ('w, 'a) handler)"
proof -
  have "ai_attention (snd (snd (read_index a f s))) = ai_attention (snd s) \<and>
      ai_pendingSequences (snd (snd (read_index a f s))) = ai_pendingSequences (snd s) \<and>
      ai_pendingWindow (snd (snd (read_index a f s))) = ai_pendingWindow (snd s)" for s
  proof -
    obtain store ix where s: "s = (store, ix)" by (cases s)
    show ?thesis unfolding s
      by (rule hydrate_cases [of a store ix])
        (simp_all add: read_index_def hydrated_def load_cursor_def del: hydrate.simps)
  qed
  note fields = this
  show ?thesis unfolding keeps_def
  proof
    fix d :: "'w daemon"
    obtain r s where r: "read_index a f (dn_index d) = (r, s)" by (cases "read_index a f (dn_index d)")
    with fields [of "dn_index d"] show "same_server d (snd (on_index (read_index a f) d))"
      by (cases r) (simp_all add: same_server_def on_index_def)
  qed
qed

lemmas index_reads = modelSeenSequence_def seenExactSequences_def latestThreadReadUnderParent_def readOrder_def

lemma keeps_with_agent: "(\<And>a. keeps R (f a)) \<Longrightarrow> keeps R (with_agent f)"
  by (simp add: keeps_def with_agent_def)

lemmas same_server_intros = keeps_then [OF transitive_same_server] keeps_base [OF transitive_same_server]
  same_server_on_inbox same_server_read keeps_with_agent

lemma same_server_prepare: "keeps same_server (prepare_send env target request)"
proof -
  have "keeps same_server (draftToResend env target request)"
    unfolding draftToResend_def
    by (intro same_server_intros) (auto intro: same_server_intros split: inbox_lookup_result.split option.split)
  then show ?thesis
    unfolding prepare_send_def index_reads
    by (intro same_server_intros) (auto intro!: same_server_intros split: option.split)
qed

lemma same_server_save: "keeps same_server (save_before_send env target request og)"
  unfolding save_before_send_def thread_mismatch_def index_reads Let_def
  by (auto intro!: same_server_intros split: option.split prod.split)

text \<open>What follows the answer leaves the server alone.\<close>

definition server_untouched :: "'w daemon \<Rightarrow> 'w daemon \<Rightarrow> bool" where
  "server_untouched d d' \<longleftrightarrow> dn_server d' = dn_server d"

lemma transitive_server_untouched: "transitive server_untouched"
  by (auto simp: transitive_def server_untouched_def)

lemma untouched_local: "keeps server_untouched (on_inbox act)" "keeps server_untouched (on_index act')"
  by (simp_all add: keeps_def server_untouched_def on_inbox_def on_index_def split: prod.split sum.split)

lemma untouched_after_answer:
  "keeps server_untouched (then_h (update_draft env target request og result) (\<lambda>_.
     then_h (record_send env target request result) (\<lambda>_. return_h a)))"
  unfolding update_draft_def record_send_def Let_def
  by (auto intro!: keeps_then [OF transitive_server_untouched] keeps_base [OF transitive_server_untouched]
      keeps_with_agent untouched_local)

text \<open>Every way a send can go, with the daemon at each stage.\<close>

lemma sendAgentMessage_cases:
  assumes "sendAgentMessage env server target request d = (r, d')"
  obtains (not_prepared) e where "prepare_send env target request d = (Inl e, d')" "r = Inl e"
  | (refused) og d1 e where "prepare_send env target request d = (Inr og, d1)"
      "save_before_send env target request og d1 = (Inl e, d')" "r = Inl e"
  | (not_sent) og d1 d2 e where "prepare_send env target request d = (Inr og, d1)"
      "save_before_send env target request og d1 = (Inr (), d2)"
      "hold_or_send env server target request og d2 = (Inl e, d')" "r = Inl e"
  | (answered) og d1 d2 d3 result where "prepare_send env target request d = (Inr og, d1)"
      "save_before_send env target request og d1 = (Inr (), d2)"
      "hold_or_send env server target request og d2 = (Inr result, d3)"
      "then_h (update_draft env target request og result) (\<lambda>_.
         then_h (record_send env target request result) (\<lambda>_.
         return_h (answer_send target request og result))) d3 = (r, d')"
  using assms
  by (auto simp: sendAgentMessage_def then_h_def [of "prepare_send env target request"]
      then_h_def [of "save_before_send env target request _"]
      then_h_def [of "hold_or_send env server target request _"] split: prod.splits sum.splits)


text \<open>A daemon with one delivery pending in \<open>#general\<close>.\<close>

definition sample_daemon :: "unit daemon" where
  "sample_daemon = \<lparr>dn_agentId = ''bot'', dn_workspaceId = ''ws'',
     dn_index = (None, recordAttention (sample_delivery ''d1'' ''m1'' 5) 0 clearAgent),
     dn_inbox = \<lparr>ib_memory = [], ib_persistence = None\<rparr>, dn_server = ()\<rparr>"

definition sample_request :: message_request where
  "sample_request = \<lparr>lr_idempotencyKey = ''key'', lr_sendDraft = False, lr_expectedDraftKey = None,
     lr_content = Some ''hello'', lr_attachmentIds = [], lr_mentions = [], lr_targetConfirmed = False,
     lr_continueAnyway = False, lr_freshnessContextMode = None\<rparr>"

definition sample_env :: "int \<Rightarrow> environment" where
  "sample_env now = \<lparr>en_now = now, en_disk = good_disk, en_stored = True\<rparr>"

definition deaf_server :: "unit server" where
  "deaf_server = \<lparr>sv_send = (\<lambda>r w. (Inl (OtherFailure ''no server''), w)), sv_reconcile = None\<rparr>"

lemma sample_pending: "pendingMessageCount (snd (dn_index sample_daemon)) ''#general'' = 1"
  by code_simp


subsection \<open>The resend of a presented hold\<close>

text \<open>The durable cursor is loaded, or there is none.\<close>

definition ready :: "'w daemon \<Rightarrow> bool" where
  "ready d \<longleftrightarrow> fst (dn_index d) = None \<or> ai_hydrated (snd (dn_index d))"

lemma on_index_read:
  assumes "ready d"
  shows "on_index (read_index a f) d = (Inr (f (snd (dn_index d))), d)"
proof -
  obtain store ix where s: "dn_index d = (store, ix)" by (cases "dn_index d")
  then have "store = None \<or> ai_hydrated ix" using assms by (simp add: ready_def)
  then have "hydrate a (store, ix) = (Inr (), store, ix)" by (cases store) auto
  moreover have "d\<lparr>dn_index := (store, ix)\<rparr> = d" using s by simp
  ultimately show ?thesis by (simp add: on_index_def read_index_def hydrated_def s del: hydrate.simps)
qed

definition inbox_ok :: "draft_inbox \<Rightarrow> bool" where
  "inbox_ok ib \<longleftrightarrow> in_memory ib \<or> on_file ib"

lemma inbox_ok_lookup: "inbox_ok ib \<Longrightarrow> inbox_ok (snd (inbox_lookup good_disk now t ib))"
  unfolding inbox_ok_def
proof (elim disjE)
  assume "on_file ib"
  then obtain fl ds where f: "ib_persistence ib = Some fl" "read_drafts fl = Inr ds" "drafts_ok ds" by (rule on_fileE)
  have del: "drafts_ok (map_delete ds t)" by (intro drafts_ok_delete f)
  have "on_file (snd (inbox_lookup good_disk now t ib))"
    using f read_encode_drafts [OF del] del
    by (auto simp: on_file_def inbox_lookup_def store_lookup_def with_drafts_def good_disk_def write_then_def
        write_drafts_def split: option.split)
  then show "in_memory (snd (inbox_lookup good_disk now t ib)) \<or> on_file (snd (inbox_lookup good_disk now t ib))" ..
qed (auto simp: in_memory_def inbox_lookup_def split: option.split)

lemma inbox_draft_state: "snd (inbox_draft dk now t ib) = snd (inbox_lookup dk now t ib)"
  by (auto simp: inbox_draft_def split: prod.split sum.split inbox_lookup_result.split)

lemma inbox_ok_replace: "inbox_ok ib \<Longrightarrow> draft_ok d \<Longrightarrow> inbox_ok (port_replace n t d k ib)"
  unfolding inbox_ok_def using memory_drafts.ok_replace file_drafts.ok_replace by blast

lemma found_after_replace:
  assumes "inbox_ok ib" "draft_ok d" "now - n \<le> AGENT_MESSAGE_DRAFT_TTL_MS"
  shows "fst (inbox_lookup good_disk now t (port_replace n t d k ib)) = Inr (InboxFound d k)"
proof -
  have "port_find now t (port_replace n t d k ib) = Some (d, k)"
    using assms memory_drafts.find_replace [of ib d now t n t k] file_drafts.find_replace [of ib d now t n t k]
    by (auto simp: inbox_ok_def)
  then show ?thesis
    by (auto simp: port_find_def inbox_draft_def split: prod.splits sum.splits inbox_lookup_result.splits)
qed

lemma inbox_save_replace: "inbox_save dk n t d ib = inbox_replace dk n t d 0 ib"
  unfolding inbox_save_def inbox_replace_def store_save_def store_replace_def by (rule refl)

text \<open>The stages of a fresh send on a ready daemon.\<close>

lemma prepare_fresh:
  assumes "prepare_send env t request d = (Inr og, d1)" "\<not> lr_sendDraft request" "ready d"
    and "en_disk env = good_disk" "inbox_ok (dn_inbox d)"
  shows "dn_index d1 = dn_index d \<and> inbox_ok (dn_inbox d1) \<and> og_idempotencyKey og = lr_idempotencyKey request \<and>
    lr_content request = Some (og_content og)"
proof -
  from assms(1,2) obtain prior d0 where p: "on_inbox (inbox_draft good_disk (en_now env) t) d = (Inr prior, d0)"
    and rest: "(case lr_content request of None \<Rightarrow> throw_h (Preflight AgentMessageBodyRequired)
     | Some body \<Rightarrow> with_agent (\<lambda>agentId.
         then_h (on_index (modelSeenSequence agentId t)) (\<lambda>modelSeen.
         then_h (on_index (seenExactSequences agentId t)) (\<lambda>exact.
         return_h (outgoing_of request None prior body modelSeen exact))))) d0 = (Inr og, d1)"
    by (auto simp: prepare_send_def assms(4) then_h_Inr)
  have d0: "dn_index d0 = dn_index d" "inbox_ok (dn_inbox d0)"
    using p inbox_ok_lookup [OF assms(5), of "en_now env" t] inbox_draft_state [of good_disk "en_now env" t "dn_inbox d"]
    by (auto simp: on_inbox_def split: prod.splits sum.splits)
  then have "ready d0" using assms(3) by (simp add: ready_def)
  with rest d0 show ?thesis
    by (auto simp: index_reads with_agent_def then_h_def on_index_read outgoing_of_def Let_def
        split: option.splits)
qed

lemma save_fresh:
  assumes "save_before_send env t request og d = (Inr (), d2)" "\<not> lr_sendDraft request" "ready d"
    and "en_disk env = good_disk" "inbox_ok (dn_inbox d)" "draft_ok (draft_of og)"
  shows "dn_index d2 = dn_index d \<and> dn_agentId d2 = dn_agentId d \<and> inbox_ok (dn_inbox d2)"
proof -
  have mismatch: "snd (thread_mismatch t request d) = d"
    using assms(3) by (auto simp: thread_mismatch_def index_reads with_agent_def then_h_def on_index_read
        split: option.split)
  have "inbox_ok (snd (inbox_save good_disk (en_now env) t (draft_of og) (dn_inbox d)))"
    using inbox_ok_replace [OF assms(5,6), of "en_now env" t 0] by (simp add: inbox_save_replace port_replace_def)
  with assms(1,2,4) mismatch show ?thesis
    by (auto simp: save_before_send_def Let_def then_h_def on_inbox_def split: option.splits prod.splits sum.splits)
qed

lemma record_hold:
  assumes "record_send env t request result d = (Inr (), d')" "ready d" "pend_ok (snd (dn_index d))"
    and "frontier (snd (dn_index d)) t < consumed_through t (context_withheld request result) result"
    and "0 < consumed_through t (context_withheld request result) result"
    and "\<forall>s \<in> pending_of (snd (dn_index d)) t. s \<le> consumed_through t (context_withheld request result) result"
  shows "pendingMessageCount (snd (dn_index d')) t = 0 \<and> ready d' \<and> dn_inbox d' = dn_inbox d"
proof -
  let ?through = "consumed_through t (context_withheld request result) result"
  let ?p = "presented_through t (context_withheld request result) result"
  let ?review = "if ?p > 0 then Some ?p else None"
  obtain store ix where s: "dn_index d = (store, ix)" by (cases "dn_index d")
  let ?ix = "snd (send_context_update t ?through ?review ix)"
  have h: "hydrate a (store, ix) = (Inr (), store, ix)" for a
    using assms(2) s by (cases store) (auto simp: ready_def)
  have "snd (dn_index d') = ?ix \<and> dn_inbox d' = dn_inbox d \<and> (fst (dn_index d') = None \<longleftrightarrow> store = None)"
    using assms(1,5)
    by (auto simp: record_send_def Let_def with_agent_def on_index_def recordSendContext_def update_index_def
        hydrated_def s h simp del: hydrate.simps split: prod.splits sum.splits if_splits option.splits)
  moreover have "ai_hydrated ?ix = ai_hydrated ix"
    by (simp add: send_context_update_def case_prod_unfold Let_def split: option.split)
  moreover have "pending_of ?ix t = {}"
    using assms(3,4,6) s pending_of_advanceFrontier [of ix t ?through t]
    by (auto simp: send_context_update_def case_prod_unfold Let_def split: option.split)
  moreover have "pend_ok ?ix" using assms(3) s by simp
  ultimately show ?thesis
    using assms(2) s pendingMessageCount_zero_iff [of ?ix t] by (auto simp: ready_def)
qed

lemma presented_covers: "seenUpToSeq = tr_seenUpToSeq result \<Longrightarrow> seenUpToSeq = Some n \<Longrightarrow>
    tr_state result = Some Held \<Longrightarrow> tr_recentUnread result = [] \<Longrightarrow> n \<le> consumed_through t False result"
proof -
  assume a: "seenUpToSeq = tr_seenUpToSeq result" "seenUpToSeq = Some n" "tr_state result = Some Held"
    "tr_recentUnread result = []"
  have "n \<le> fold (\<lambda>m p. if mv_target m = t \<and> mv_sequence m > p then mv_sequence m else p) ms n" for ms
  proof -
    have "x \<le> fold (\<lambda>m p. if mv_target m = t \<and> mv_sequence m > p then mv_sequence m else p) ms x" for x
      by (induction ms arbitrary: x) (auto intro: order.trans less_imp_le)
    then show ?thesis .
  qed
  with a show ?thesis
    by (simp add: consumed_through_def presented_through_def recent_unread_def Let_def flip: a(1))
qed

text \<open>The resend reads the draft the hold refreshed.\<close>

lemma resend_prepared:
  assumes "lr_sendDraft request" "lr_expectedDraftKey request \<in> {None, Some (dc_idempotencyKey draft)}"
    and "ready d" "en_disk env = good_disk"
    and "fst (inbox_lookup good_disk (en_now env) t (dn_inbox d)) = Inr (InboxFound draft k)"
  obtains og d1 where "prepare_send env t request d = (Inr og, d1)" "dn_index d1 = dn_index d"
    "og_idempotencyKey og = dc_idempotencyKey draft" "og_content og = dc_content draft"
proof -
  obtain ib where "inbox_lookup good_disk (en_now env) t (dn_inbox d) = (Inr (InboxFound draft k), ib)"
    using assms(5) by (cases "inbox_lookup good_disk (en_now env) t (dn_inbox d)") auto
  moreover define d0 where "d0 = d\<lparr>dn_inbox := ib\<rparr>"
  ultimately have "on_inbox (inbox_lookup good_disk (en_now env) t) d = (Inr (InboxFound draft k), d0)"
    by (simp add: on_inbox_def)
  then have draft: "draftToResend env t request d = (Inr (draft, k), d0)"
    using assms(2) by (auto simp: draftToResend_def assms(4) split: option.split)
  have "ready d0" using assms(3) by (simp add: ready_def d0_def)
  then have "\<exists>og. prepare_send env t request d = (Inr og, d0) \<and>
      og_idempotencyKey og = dc_idempotencyKey draft \<and> og_content og = dc_content draft"
    using assms(1) draft
    by (simp add: prepare_send_def then_h_def index_reads with_agent_def on_index_read outgoing_of_def Let_def)
  moreover have "dn_index d0 = dn_index d" by (simp add: d0_def)
  ultimately show ?thesis using that by blast
qed


definition sample_held :: "(agent_error + send_answer) \<times> unit daemon" where
  "sample_held = sendAgentMessage (sample_env 0) deaf_server ''#general'' sample_request sample_daemon"

definition sample_resend :: message_request where
  "sample_resend = sample_request\<lparr>lr_idempotencyKey := ''other'', lr_sendDraft := True, lr_content := None\<rparr>"

lemma sample_held_key: "(case fst sample_held of Inl _ \<Rightarrow> False | Inr a \<Rightarrow> sa_idempotencyKey a = ''key'')"
  by code_simp

lemma sample_pending_facts:
  "pendingMaxSequence (snd (dn_index sample_daemon)) ''#general'' = 5"
  "frontier (snd (dn_index sample_daemon)) ''#general'' = 0"
  by code_simp+

lemma sample_daemon_ok: "pend_ok (snd (dn_index sample_daemon))" "ready sample_daemon" "inbox_ok (dn_inbox sample_daemon)"
proof -
  show "pend_ok (snd (dn_index sample_daemon))"
    by (simp add: sample_daemon_def)
  show "ready sample_daemon" "inbox_ok (dn_inbox sample_daemon)"
    by (simp_all add: sample_daemon_def ready_def inbox_ok_def in_memory_def)
qed


end
