(* ===== verification/MessageReads.thy ===== *)
theory MessageReads
  imports SendProperties
begin

text \<open>
  The reading half of the Agent's message operations in
  \<open>packages/daemon/src/daemon-runtime/runtime.ts\<close>: the target an Agent names (\<open>#canonicalAgentMessageTarget\<close>,
  the alias lookup of \<open>agentMessage\<close>), a check that drains the server's event pages
  (\<open>#checkAgentMessages\<close>), and a forwarded read with what it consumed (\<open>#forwardAgentMessage\<close>,
  \<open>#consumeHistoryRead\<close>).
\<close>

subsection \<open>The target a request names\<close>

definition thread_parts :: "(string \<Rightarrow> bool) \<Rightarrow> string \<Rightarrow> (string \<times> string) option" where
  "thread_parts root_ok target =
     (case splitThreadTarget target of
        None \<Rightarrow> None
      | Some (parent, root) \<Rightarrow>
          if (starts_with parent ''@'' \<and> length parent \<ge> 2 \<or> isChannelTarget parent) \<and> root_ok root
          then Some (parent, root) else None)"

definition FULL_THREAD_TARGET :: "string \<Rightarrow> bool" where
  "FULL_THREAD_TARGET target \<longleftrightarrow> thread_parts is_uuid_like target \<noteq> None"

definition SHORT_THREAD_TARGET :: "string \<Rightarrow> (string \<times> string) option" where
  "SHORT_THREAD_TARGET target = thread_parts (\<lambda>r. length r = 8 \<and> is_hex r) target"

record page =
  pg_accepted :: bool
  pg_messages :: "message_view list"
  pg_hasMore :: bool

text \<open>\<open>around\<close> is the one-message read of the parent, anchored at the short root.\<close>

definition canonicalAgentMessageTarget ::
  "(string \<Rightarrow> string \<Rightarrow> 'w \<Rightarrow> (send_failure + page) \<times> 'w) \<Rightarrow> string \<Rightarrow> ('w, string) handler"
where
  "canonicalAgentMessageTarget around target d =
     (if FULL_THREAD_TARGET target \<or> CHR '':'' \<notin> set target then (Inr target, d)
      else case SHORT_THREAD_TARGET target of
          None \<Rightarrow> (Inr target, d)
        | Some (parent, root) \<Rightarrow>
            (case around parent root (dn_server d) of
               (Inl e, w) \<Rightarrow> (Inl (SendFailed e), d\<lparr>dn_server := w\<rparr>)
             | (Inr result, w) \<Rightarrow>
                 ((case pg_messages result of
                     [m] \<Rightarrow>
                       if pg_accepted result \<and> mv_target m = parent \<and> FULL_THREAD_TARGET (parent @ '':'' @ mv_id m)
                       then Inr (parent @ '':'' @ mv_id m) else Inl ThreadTargetUnresolved
                   | _ \<Rightarrow> Inl ThreadTargetUnresolved), d\<lparr>dn_server := w\<rparr>)))"

subsection \<open>Checking\<close>

definition MAX_EVENT_DRAIN_ROUNDS :: nat where
  "MAX_EVENT_DRAIN_ROUNDS = 50"

text \<open>The drain loop, with the rounds left; the last component counts the calls.\<close>

fun drain_events ::
  "('w \<Rightarrow> (send_failure + page) \<times> 'w) \<Rightarrow> nat \<Rightarrow> message_view list \<Rightarrow> bool \<Rightarrow> nat \<Rightarrow> 'w \<Rightarrow>
   (send_failure + message_view list \<times> bool \<times> nat) \<times> 'w"
where
  "drain_events fetch 0 messages hasMore rounds w = (Inr (messages, hasMore, rounds), w)"
| "drain_events fetch (Suc n) messages hasMore rounds w =
     (case fetch w of
        (Inl e, w') \<Rightarrow> (Inl e, w')
      | (Inr result, w') \<Rightarrow>
          if \<not> pg_accepted result \<or> pg_messages result = [] then (Inr (messages, False, Suc rounds), w')
          else if pg_hasMore result
          then drain_events fetch n (messages @ pg_messages result) True (Suc rounds) w'
          else (Inr (messages @ pg_messages result, False, Suc rounds), w'))"

text \<open>The sequences shown, per target, in the order of the pages.\<close>

definition shown_by_target :: "message_view list \<Rightarrow> (string \<times> int list) list" where
  "shown_by_target ms = fold (\<lambda>m shown.
     map_set shown (mv_target m) (get_or shown (mv_target m) [] @ [mv_sequence m])) ms []"

record check_answer =
  ca_attentionCount :: nat
  ca_summaries :: "message_attention list"
  ca_messages :: "message_view list"
  ca_hasMore :: bool

definition checkAgentMessages ::
  "environment \<Rightarrow> ('w \<Rightarrow> (send_failure + page) \<times> 'w) \<Rightarrow> ('w, check_answer) handler"
where
  "checkAgentMessages env fetch d =
     (let attention = check (snd (dn_index d))
      in case drain_events fetch MAX_EVENT_DRAIN_ROUNDS [] False 0 (dn_server d) of
          (Inl e, w) \<Rightarrow> (Inl (SendFailed e), d\<lparr>dn_server := w\<rparr>)
        | (Inr (messages, hasMore, rounds), w) \<Rightarrow>
            then_h (with_agent (\<lambda>agentId. on_index (recordExactSeen (en_stored env) agentId (shown_by_target messages))))
              (\<lambda>_. return_h \<lparr>ca_attentionCount = sum_list (map ma_pendingCount attention),
                 ca_summaries = attention, ca_messages = messages, ca_hasMore = hasMore\<rparr>)
              (d\<lparr>dn_server := w\<rparr>))"

subsection \<open>Reading\<close>

record read_request =
  rr_before :: "string option"
  rr_after :: "string option"
  rr_around :: "string option"

record read_result =
  rd_accepted :: bool
  rd_messages :: "message_view list"
  rd_modelSeenUpToSeq :: "int option"
  rd_consumptionScope :: "(string \<times> consumption_scope) option"

text \<open>An absent or empty anchor is no anchor.\<close>

definition given :: "string option \<Rightarrow> bool" where
  "given anchor \<longleftrightarrow> anchor \<noteq> None \<and> anchor \<noteq> Some ''''"

definition unpaged :: "read_request \<Rightarrow> bool" where
  "unpaged r \<longleftrightarrow> \<not> given (rr_before r) \<and> \<not> given (rr_after r) \<and> \<not> given (rr_around r)"

definition history_read_of :: "string \<Rightarrow> string \<Rightarrow> read_request \<Rightarrow> read_result \<Rightarrow> history_read" where
  "history_read_of agentId requestedTarget request result =
     (let scope = (case rd_consumptionScope result of
            Some (a, sc) \<Rightarrow> if a = agentId then Some sc else None | None \<Rightarrow> None);
          target = (case scope of None \<Rightarrow> requestedTarget | Some sc \<Rightarrow> sc_target sc);
          shown = map mv_sequence (filter (\<lambda>m. mv_target m = target) (rd_messages result));
          visibleSequence = fold (\<lambda>s v. if s > v then s else v) shown 0;
          through = (if given (rr_around request) then 0
            else case rd_modelSeenUpToSeq result of None \<Rightarrow> 0 | Some s \<Rightarrow> s)
      in \<lparr>hr_spelling = requestedTarget, hr_target = target, hr_shown = shown, hr_through = through,
          hr_review = (if \<not> given (rr_around request) \<and> (through > 0 \<or> rd_messages result = [])
            then Some visibleSequence else None),
          hr_scope = scope\<rparr>)"

definition consumeHistoryRead ::
  "environment \<Rightarrow> string \<Rightarrow> read_request \<Rightarrow> read_result \<Rightarrow> int option \<Rightarrow> ('w, unit) handler"
where
  "consumeHistoryRead env requestedTarget request result attentionUpperBound = with_agent (\<lambda>agentId.
     let read = history_read_of agentId requestedTarget request result
     in then_h (on_index (recordHistoryRead (en_stored env) agentId read)) (\<lambda>_.
        case attentionUpperBound of
          Some bound \<Rightarrow>
            if unpaged request \<and> rd_messages result = []
            then on_index (\<lambda>(store, ix). (Inr (), store, clearThrough (hr_target read) bound ix))
            else return_h ()
        | None \<Rightarrow> return_h ()))"

text \<open>A forwarded operation; \<open>read\<close> is the page request when it is a read.\<close>

definition forwardAgentMessage ::
  "environment \<Rightarrow> (string \<Rightarrow> 'w \<Rightarrow> (send_failure + read_result) \<times> 'w) \<Rightarrow> read_request option \<Rightarrow> string option \<Rightarrow>
   ('w, read_result) handler"
where
  "forwardAgentMessage env call read target d =
     (let attentionUpperBound = (case (read, target) of
            (Some request, Some t) \<Rightarrow>
              if unpaged request
              then map_option ma_latestSequence (find (\<lambda>a. ma_target a = t) (check (snd (dn_index d)))) else None
          | _ \<Rightarrow> None)
      in case call (case target of None \<Rightarrow> '''' | Some t \<Rightarrow> t) (dn_server d) of
          (Inl e, w) \<Rightarrow> (Inl (SendFailed e), d\<lparr>dn_server := w\<rparr>)
        | (Inr result, w) \<Rightarrow>
            then_h (case (read, target) of
                (Some request, Some t) \<Rightarrow>
                  if rd_accepted result then consumeHistoryRead env t request result attentionUpperBound
                  else return_h ()
              | _ \<Rightarrow> return_h ()) (\<lambda>_. return_h result) (d\<lparr>dn_server := w\<rparr>))"

subsection \<open>The operation an Agent asks for\<close>

datatype operation = Check | Send message_request | Read read_request | OtherOperation

datatype answer = Checked check_answer | Sent send_answer | Forwarded read_result

record 'w agent_server =
  as_send :: "'w server"
  as_around :: "string \<Rightarrow> string \<Rightarrow> 'w \<Rightarrow> (send_failure + page) \<times> 'w"
  as_check :: "string \<Rightarrow> 'w \<Rightarrow> (send_failure + page) \<times> 'w"
  as_forward :: "operation \<Rightarrow> string \<Rightarrow> 'w \<Rightarrow> (send_failure + read_result) \<times> 'w"

definition resolve_request_target ::
  "'w agent_server \<Rightarrow> string option \<Rightarrow> ('w, string option) handler"
where
  "resolve_request_target server target =
     (case target of
        None \<Rightarrow> return_h None
      | Some t \<Rightarrow>
          if t = '''' then return_h None
          else then_h (canonicalAgentMessageTarget (as_around server) t) (\<lambda>canonical.
            with_agent (\<lambda>agentId. then_h (on_index (resolveTarget agentId canonical)) (\<lambda>u. return_h (Some u)))))"

definition agentMessage ::
  "environment \<Rightarrow> 'w agent_server \<Rightarrow> operation \<Rightarrow> string option \<Rightarrow> ('w, answer) handler"
where
  "agentMessage env server oper target =
     then_h (resolve_request_target server target) (\<lambda>resolved.
       let forward = (\<lambda>read. then_h (forwardAgentMessage env (as_forward server oper) read resolved)
             (\<lambda>r. return_h (Forwarded r)))
       in case oper of
           Check \<Rightarrow>
             then_h (checkAgentMessages env (as_check server (case target of None \<Rightarrow> '''' | Some t \<Rightarrow> t)))
               (\<lambda>c. return_h (Checked c))
         | Send request \<Rightarrow>
             (case resolved of
                None \<Rightarrow> forward None
              | Some t \<Rightarrow> then_h (sendAgentMessage env (as_send server) t request) (\<lambda>s. return_h (Sent s)))
         | Read request \<Rightarrow> forward (Some request)
         | OtherOperation \<Rightarrow> forward None)"

end
