(* ===== verification/ReadProperties.thy ===== *)
theory ReadProperties
  imports MessageReads
begin

text \<open>
  What a check and a read guarantee: the drain of the event pages ends and returns what the server
  handed out, and a check marks as seen exactly what it showed.
\<close>

subsection \<open>The drain loop\<close>

text \<open>The state of the server after so many calls, and the answer to the next one.\<close>

fun after_calls :: "('w \<Rightarrow> 'r \<times> 'w) \<Rightarrow> nat \<Rightarrow> 'w \<Rightarrow> 'w" where
  "after_calls fetch 0 w = w"
| "after_calls fetch (Suc n) w = after_calls fetch n (snd (fetch w))"

definition call_answer :: "('w \<Rightarrow> 'r \<times> 'w) \<Rightarrow> 'w \<Rightarrow> nat \<Rightarrow> 'r" where
  "call_answer fetch w k = fst (fetch (after_calls fetch k w))"

definition handed_out :: "send_failure + page \<Rightarrow> message_view list" where
  "handed_out r = (case r of Inl e \<Rightarrow> [] | Inr p \<Rightarrow> if pg_accepted p then pg_messages p else [])"

definition page_ends :: "send_failure + page \<Rightarrow> bool" where
  "page_ends r = (case r of Inl e \<Rightarrow> False
     | Inr p \<Rightarrow> \<not> pg_accepted p \<or> pg_messages p = [] \<or> \<not> pg_hasMore p)"

lemma call_answer_Suc: "call_answer fetch w (Suc k) = call_answer fetch (snd (fetch w)) k"
  by (simp add: call_answer_def)

lemma calls_Suc:
  "map (\<lambda>k. handed_out (call_answer fetch w k)) [0..<Suc n] =
   handed_out (fst (fetch w)) # map (\<lambda>k. handed_out (call_answer fetch (snd (fetch w)) k)) [0..<n]"
  unfolding upt_conv_Cons [OF zero_less_Suc] map_Suc_upt [symmetric]
  by (simp add: call_answer_Suc comp_def) (simp add: call_answer_def)

lemma drain_pages:
  assumes "drain_events fetch n ms hm rounds w = (Inr (ms', hm', rounds'), w')"
  shows "\<exists>k \<le> n. rounds' = rounds + k \<and> w' = after_calls fetch k w \<and>
    ms' = ms @ concat (map (\<lambda>k. handed_out (call_answer fetch w k)) [0..<k]) \<and>
    (n > 0 \<longrightarrow> k > 0) \<and> (hm' \<longrightarrow> k = n) \<and>
    (k > 0 \<longrightarrow> \<not> hm' \<longrightarrow> page_ends (call_answer fetch w (k - 1)))"
  using assms
proof (induction n arbitrary: ms hm rounds w)
  case 0
  then show ?case by simp
next
  case (Suc n)
  obtain r w1 where f: "fetch w = (r, w1)" by fastforce
  with Suc.prems obtain p where r: "r = Inr p" by (cases r) auto
  consider (last) "\<not> pg_accepted p \<or> pg_messages p = [] \<or> \<not> pg_hasMore p"
    | (some) "pg_accepted p" "pg_messages p \<noteq> []" "pg_hasMore p" by blast
  then show ?case
  proof cases
    case last
    with Suc.prems f r have "rounds' = Suc rounds" "\<not> hm'" "w' = w1" "ms' = ms @ handed_out r" "page_ends r"
      by (auto simp: handed_out_def page_ends_def split: if_splits)
    with f show ?thesis by (intro exI [of _ 1]) (simp add: call_answer_def)
  next
    case some
    with Suc.prems f r have "drain_events fetch n (ms @ pg_messages p) True (Suc rounds) w1 = (Inr (ms', hm', rounds'), w')"
      by simp
    from Suc.IH [OF this] obtain k where k: "k \<le> n" "rounds' = Suc rounds + k" "w' = after_calls fetch k w1"
      "ms' = (ms @ pg_messages p) @ concat (map (\<lambda>k. handed_out (call_answer fetch w1 k)) [0..<k])"
      "hm' \<longrightarrow> k = n" "k > 0 \<longrightarrow> \<not> hm' \<longrightarrow> page_ends (call_answer fetch w1 (k - 1))"
      "n > 0 \<longrightarrow> k > 0" by blast
    have "k = 0 \<Longrightarrow> hm'" using k(1,7) \<open>drain_events fetch n _ True _ w1 = _\<close> by (cases n) auto
    moreover have "k > 0 \<Longrightarrow> call_answer fetch w k = call_answer fetch w1 (k - 1)"
      using f call_answer_Suc [of fetch w "k - 1"] by simp
    moreover have "handed_out r = pg_messages p" using r some by (simp add: handed_out_def)
    ultimately show ?thesis using k f by (intro exI [of _ "Suc k"]) (auto simp: calls_Suc simp del: upt_Suc)
  qed
qed

lemma drain_fails:
  assumes "fetch w = (Inr p, w1)" "pg_accepted p" "pg_messages p \<noteq> []" "pg_hasMore p" "fetch w1 = (Inl e, w2)"
  shows "drain_events fetch (Suc (Suc n)) ms hm rounds w = (Inl e, w2)"
  using assms by simp

subsection \<open>A check\<close>

lemma checkAgentMessages_ok:
  assumes "checkAgentMessages env fetch d = (Inr a, d')"
  obtains ms hm rounds w s where
    "drain_events fetch MAX_EVENT_DRAIN_ROUNDS [] False 0 (dn_server d) = (Inr (ms, hm, rounds), w)"
    "recordExactSeen (en_stored env) (dn_agentId d) (shown_by_target ms) (dn_index d) = (Inr (), s)"
    "d' = d\<lparr>dn_server := w, dn_index := s\<rparr>" "ca_messages a = ms" "ca_hasMore a = hm"
    "ca_summaries a = check (snd (dn_index d))"
proof (cases "drain_events fetch MAX_EVENT_DRAIN_ROUNDS [] False 0 (dn_server d)")
  case (Pair r w)
  with assms obtain ms hm rounds where r: "r = Inr (ms, hm, rounds)"
    by (cases r) (auto simp: checkAgentMessages_def Let_def)
  obtain q s where s: "recordExactSeen (en_stored env) (dn_agentId d) (shown_by_target ms) (dn_index d) = (q, s)"
    by (meson surj_pair)
  with assms Pair r have "q = Inr ()"
    by (cases q) (auto simp: checkAgentMessages_def with_agent_def on_index_def then_h_def Let_def)
  with that assms Pair r s show ?thesis
    by (cases s) (auto simp: checkAgentMessages_def with_agent_def on_index_def then_h_def Let_def)
qed

text \<open>
  C32: a check ends after between one and fifty calls to the server. It returns the messages of
  every accepted page, in the order the server handed the pages out, and says there are more only
  when all fifty calls were used; otherwise its last page was refused, empty, or the last one.
\<close>

theorem check_returns_drained_pages:
  assumes "checkAgentMessages env fetch d = (Inr a, d')"
  shows "\<exists>k. 1 \<le> k \<and> k \<le> 50 \<and> dn_server d' = after_calls fetch k (dn_server d) \<and>
    ca_messages a = concat (map (\<lambda>i. handed_out (call_answer fetch (dn_server d) i)) [0..<k]) \<and>
    (if ca_hasMore a then k = 50 else page_ends (call_answer fetch (dn_server d) (k - 1)))"
  using assms
proof (rule checkAgentMessages_ok)
  fix ms hm rounds w s
  assume drained: "drain_events fetch MAX_EVENT_DRAIN_ROUNDS [] False 0 (dn_server d) = (Inr (ms, hm, rounds), w)"
    and rest: "d' = d\<lparr>dn_server := w, dn_index := s\<rparr>" "ca_messages a = ms" "ca_hasMore a = hm"
  from drain_pages [OF drained] obtain k where
    "k \<le> 50" "w = after_calls fetch k (dn_server d)" "k > 0" "hm \<longrightarrow> k = 50"
    "ms = concat (map (\<lambda>i. handed_out (call_answer fetch (dn_server d) i)) [0..<k])"
    "\<not> hm \<longrightarrow> page_ends (call_answer fetch (dn_server d) (k - 1))"
    by (auto simp: MAX_EVENT_DRAIN_ROUNDS_def)
  with rest show ?thesis by (intro exI [of _ k]) auto
qed

definition sample_view :: "string \<Rightarrow> int \<Rightarrow> message_view" where
  "sample_view target n = \<lparr>mv_id = ''m'', mv_sequence = n, mv_target = target, mv_senderKind = Human,
     mv_senderHandle = ''ada'', mv_body = ''hi'', mv_createdAt = 0\<rparr>"

text \<open>A server with pages left to hand out.\<close>

fun paging :: "page list \<Rightarrow> (send_failure + page) \<times> page list" where
  "paging [] = (Inl (OtherFailure ''socket closed''), [])"
| "paging (p # ps) = (Inr p, ps)"

definition paging_daemon :: "page list \<Rightarrow> page list daemon" where
  "paging_daemon ps = \<lparr>dn_agentId = ''bot'', dn_workspaceId = ''ws'',
     dn_index = (None, recordAttention (sample_delivery ''d1'' ''m1'' 5) 0 clearAgent),
     dn_inbox = \<lparr>ib_memory = [], ib_persistence = None\<rparr>, dn_server = ps\<rparr>"

definition two_pages :: "page list" where
  "two_pages = [\<lparr>pg_accepted = True, pg_messages = [sample_view ''#general'' 5], pg_hasMore = True\<rparr>,
     \<lparr>pg_accepted = True, pg_messages = [sample_view ''#general'' 6], pg_hasMore = False\<rparr>]"

lemma two_pages_check:
  "\<exists>a d'. checkAgentMessages (sample_env 0) paging (paging_daemon two_pages) = (Inr a, d') \<and>
     ca_messages a = [sample_view ''#general'' 5, sample_view ''#general'' 6]"
proof -
  have "case fst (checkAgentMessages (sample_env 0) paging (paging_daemon two_pages)) of Inl _ \<Rightarrow> False
      | Inr a \<Rightarrow> ca_messages a = [sample_view ''#general'' 5, sample_view ''#general'' 6]"
    by code_simp
  then show ?thesis
    by (cases "checkAgentMessages (sample_env 0) paging (paging_daemon two_pages)") (auto split: sum.splits)
qed

theorem check_returns_drained_pages_witness:
  "\<exists>k. 1 \<le> k \<and> k \<le> 50 \<and>
     [sample_view ''#general'' 5, sample_view ''#general'' 6] =
       concat (map (\<lambda>i. handed_out (call_answer paging two_pages i)) [0..<k])"
proof -
  obtain a d' where run: "checkAgentMessages (sample_env 0) paging (paging_daemon two_pages) = (Inr a, d')"
    "ca_messages a = [sample_view ''#general'' 5, sample_view ''#general'' 6]" using two_pages_check by blast
  show ?thesis using check_returns_drained_pages [OF run(1)] run(2) by (auto simp: paging_daemon_def)
qed

text \<open>
  C34: when a page was handed out and the next call fails, the check fails as a whole: the page's
  messages are in no answer and none of them is recorded as seen, while the server has already
  moved past them.
\<close>

theorem failed_drain_drops_earlier_pages:
  assumes "fetch (dn_server d) = (Inr p, w1)" "pg_accepted p" "pg_messages p \<noteq> []" "pg_hasMore p"
    and "fetch w1 = (Inl e, w2)"
  shows "checkAgentMessages env fetch d = (Inl (SendFailed e), d\<lparr>dn_server := w2\<rparr>)"
proof -
  have "drain_events fetch MAX_EVENT_DRAIN_ROUNDS [] False 0 (dn_server d) = (Inl e, w2)"
    using drain_fails [OF assms, of 48] by (simp add: MAX_EVENT_DRAIN_ROUNDS_def)
  then show ?thesis by (simp add: checkAgentMessages_def Let_def)
qed

theorem failed_drain_drops_earlier_pages_witness:
  "checkAgentMessages (sample_env 0) paging (paging_daemon [two_pages ! 0]) =
    (Inl (SendFailed (OtherFailure ''socket closed'')), (paging_daemon [two_pages ! 0])\<lparr>dn_server := []\<rparr>)"
  by (rule failed_drain_drops_earlier_pages [where p = "two_pages ! 0" and ?w1.0 = "[]"]) (simp_all add: paging_daemon_def two_pages_def)

subsection \<open>What a check marks as seen\<close>

definition shown_on :: "message_view list \<Rightarrow> string \<Rightarrow> int list" where
  "shown_on ms t = map mv_sequence (filter (\<lambda>m. mv_target m = t) ms)"

lemma shown_by_target_snoc:
  "shown_by_target (ms @ [m]) =
     map_set (shown_by_target ms) (mv_target m) (get_or (shown_by_target ms) (mv_target m) [] @ [mv_sequence m])"
  by (simp add: shown_by_target_def)

lemma shown_by_target_spec:
  "wf_map (shown_by_target ms) \<and> get_or (shown_by_target ms) t [] = shown_on ms t"
proof (induction ms arbitrary: t rule: rev_induct)
  case Nil
  then show ?case by (simp add: shown_by_target_def shown_on_def wf_map_def)
next
  case (snoc m ms)
  then show ?case by (simp add: shown_by_target_snoc) (simp add: shown_on_def)
qed

text \<open>What fits beside the sequences already remembered of a target.\<close>

definition exact_room :: "agent_index \<Rightarrow> string \<times> int list \<Rightarrow> bool" where
  "exact_room ix = (\<lambda>(t, xs).
     card {x \<in> set (get_or (ai_exactSeen ix) t []) \<union> set xs. frontier ix t < x} \<le> SEEN_EXACT_SEQS_LIMIT)"

lemma exact_seen_step_state:
  "snd (exact_seen_step (t, xs) (c, ix)) =
     (if t = '''' then ix else if fst (addExact t xs ix) then settleSeen t (snd (addExact t xs ix)) else snd (addExact t xs ix))"
  by (simp add: exact_seen_step_def case_prod_unfold Let_def)

lemma settleSeen_exact: "ai_exactSeen (settleSeen t ix) = ai_exactSeen ix"
  by (simp add: settleSeen_def)

lemma exact_seen_step_props:
  assumes "cur_ok ix"
  shows "cur_ok (snd (exact_seen_step (t, xs) (c, ix)))"
    and "exact_room ix (t, xs) \<Longrightarrow> seen_by (snd (exact_seen_step (t, xs) (c, ix))) u s \<longleftrightarrow>
      seen_by ix u s \<or> u = t \<and> t \<noteq> '''' \<and> s \<in> set xs"
    and "u \<noteq> t \<Longrightarrow> exact_room (snd (exact_seen_step (t, xs) (c, ix))) (u, ys) = exact_room ix (u, ys)"
  using assms seen_by_addExact [of ix t xs u s]
  by (auto simp: exact_seen_step_state exact_room_def addExact_exact settleSeen_exact intro: wf_intros)

lemma seen_by_shown:
  assumes "cur_ok ix" "distinct (map fst shown)" "\<forall>x \<in> set shown. exact_room ix x"
  shows "seen_by (snd (fold exact_seen_step shown (c, ix))) u s \<longleftrightarrow>
    seen_by ix u s \<or> u \<noteq> '''' \<and> s \<in> set (get_or shown u [])"
  using assms
proof (induction shown arbitrary: c ix)
  case (Cons x shown)
  obtain t xs where x: "x = (t, xs)" by fastforce
  obtain c1 ix1 where st: "exact_seen_step (t, xs) (c, ix) = (c1, ix1)" by fastforce
  note props = exact_seen_step_props [OF Cons.prems(1), where t = t and xs = xs and c = c, unfolded st snd_conv]
  have "fst y \<noteq> t" if "y \<in> set shown" for y using that Cons.prems(2) x by auto
  then have "list_all (exact_room ix1) shown"
    using props(3) Cons.prems(3) by (auto simp: list_all_iff)
  then have "cur_ok ix1" "\<forall>y \<in> set shown. exact_room ix1 y"
    using props(1) by (simp_all add: list_all_iff)
  from Cons.IH [OF this(1) _ this(2), of c1] Cons.prems(2) x
  have "seen_by (snd (fold exact_seen_step shown (c1, ix1))) u s \<longleftrightarrow>
      seen_by ix1 u s \<or> u \<noteq> '''' \<and> s \<in> set (get_or shown u [])" by simp
  moreover have "seen_by ix1 u s \<longleftrightarrow> seen_by ix u s \<or> u = t \<and> t \<noteq> '''' \<and> s \<in> set xs"
    using props(2) Cons.prems(3) x by auto
  moreover have "u = t \<Longrightarrow> get_or shown u [] = []"
    using Cons.prems(2) x not_key_None [of u shown] by (simp add: get_or_def)
  moreover have "get_or ((t, xs) # shown) u [] = (if u = t then xs else get_or shown u [])"
    by (simp add: get_or_def)
  ultimately show ?case using st x by (cases "u = t") auto
qed simp

lemma seen_by_persist:
  assumes "store = None \<or> ai_hydrated ix"
  shows "seen_by (snd (snd (recordExactSeen ok a shown (store, ix)))) u s =
     seen_by (snd (fold exact_seen_step shown (False, ix))) u s"
    and "frontier (snd (snd (recordExactSeen ok a shown (store, ix)))) u = frontier ix u"
proof -
  have h: "hydrate a (store, ix) = (Inr (), store, ix)" using assms by (auto split: option.split)
  obtain c ix' where f: "fold exact_seen_step shown (False, ix) = (c, ix')" by fastforce
  show "seen_by (snd (snd (recordExactSeen ok a shown (store, ix)))) u s =
      seen_by (snd (fold exact_seen_step shown (False, ix))) u s"
    by (simp add: recordExactSeen_def update_index_def hydrated_def h f persist_index del: hydrate.simps persist.simps)
  show "frontier (snd (snd (recordExactSeen ok a shown (store, ix)))) u = frontier ix u"
    using exact_seen_frontier [of shown "(False, ix)" u]
    by (simp add: recordExactSeen_def update_index_def hydrated_def h f persist_index del: hydrate.simps persist.simps)
qed

text \<open>
  C31: after a check, the Agent has seen exactly what it had seen before and the messages the check
  returned, each on the target the server names for it, and no frontier has moved, as long as the
  sequences shown of a target fit beside those remembered of it.
\<close>

theorem check_marks_what_it_showed:
  assumes "checkAgentMessages env fetch d = (Inr a, d')"
    and "dn_index d = (store, ix)" "store = None \<or> ai_hydrated ix" "cur_ok ix"
    and "\<And>t. exact_room ix (t, shown_on (ca_messages a) t)"
  shows "(seen_by (snd (dn_index d')) u s \<longleftrightarrow>
      seen_by ix u s \<or> u \<noteq> '''' \<and> (\<exists>m \<in> set (ca_messages a). mv_target m = u \<and> mv_sequence m = s)) \<and>
    frontier (snd (dn_index d')) u = frontier ix u"
  using assms(1)
proof (rule checkAgentMessages_ok)
  fix ms hm rounds w s'
  assume rec: "recordExactSeen (en_stored env) (dn_agentId d) (shown_by_target ms) (dn_index d) = (Inr (), s')"
    and d': "d' = d\<lparr>dn_server := w, dn_index := s'\<rparr>" and ms: "ca_messages a = ms"
  have spec: "wf_map (shown_by_target ms)" "get_or (shown_by_target ms) t [] = shown_on ms t" for t
    using shown_by_target_spec by auto
  have "exact_room ix x" if "x \<in> set (shown_by_target ms)" for x
  proof -
    obtain t xs where x: "x = (t, xs)" by fastforce
    with that spec(1) have "map_get (shown_by_target ms) t = Some xs" by (simp add: wf_map_def)
    with spec(2) [of t] have "xs = shown_on ms t" by (simp add: get_or_def)
    with assms(5) [of t] ms x show ?thesis by simp
  qed
  then have "seen_by (snd (fold exact_seen_step (shown_by_target ms) (False, ix))) u s \<longleftrightarrow>
      seen_by ix u s \<or> u \<noteq> '''' \<and> s \<in> set (shown_on ms u)"
    using seen_by_shown [OF assms(4)] spec by (simp add: wf_map_def)
  moreover have "snd (dn_index d') = snd (snd (recordExactSeen (en_stored env) (dn_agentId d) (shown_by_target ms) (store, ix)))"
    using rec d' assms(2) by simp
  ultimately show ?thesis using seen_by_persist [OF assms(3)] ms by (auto simp: shown_on_def)
qed

theorem check_marks_what_it_showed_witness:
  "\<exists>a d'. checkAgentMessages (sample_env 0) paging (paging_daemon two_pages) = (Inr a, d') \<and>
     seen_by (snd (dn_index d')) ''#general'' 6"
proof -
  obtain a d' where run: "checkAgentMessages (sample_env 0) paging (paging_daemon two_pages) = (Inr a, d')"
    "ca_messages a = [sample_view ''#general'' 5, sample_view ''#general'' 6]" using two_pages_check by blast
  let ?ix = "recordAttention (sample_delivery ''d1'' ''m1'' 5) 0 clearAgent"
  have room: "exact_room ?ix (t, shown_on (ca_messages a) t)" for t
  proof -
    have "{x \<in> set (get_or (ai_exactSeen ?ix) t []) \<union> set (shown_on (ca_messages a) t). frontier ?ix t < x} \<subseteq> {5, 6}"
      by (auto simp: run(2) shown_on_def sample_view_def clearAgent_def)
    from card_mono [OF _ this] show ?thesis by (simp add: exact_room_def SEEN_EXACT_SEQS_LIMIT_def)
  qed
  have "seen_by (snd (dn_index d')) ''#general'' 6"
    using check_marks_what_it_showed [OF run(1) _ _ _ room, of None "''#general''" 6] run(2)
    by (simp add: paging_daemon_def sample_view_def)
  with run(1) show ?thesis by blast
qed

end
