(* ===== verification/MentionTracker.thy ===== *)
theory MentionTracker
  imports DeliveryQueue
begin

text \<open>
  Tracked @mention delivery: \<open>packages/daemon/src/daemon-runtime/mention-delivery-tracker.ts\<close>. The
  ports' answers at the moment a handler runs are a record; what the tracker reports over them is the
  state's list of reports, in order. \<open>deliver\<close> is split at its only wait that lets other handlers
  run, the announcement; a report's own promise settles nothing in the tracker. Logging is left out.
\<close>

subsection \<open>Data\<close>

datatype mention_code =
    IdentityUnknown | IdentityDrift | InstrumentFailed | DeliveryRejected | UnsupportedDeliveryPath | QuotaLimited

datatype mention_stage = DaemonReceived | DaemonPending | DaemonDrained

datatype transition_outcome = Accepted | Coalesced

datatype delivery_block = BlockHold hold_reason | BlockQueuedUntilIdle

fun blocked_code :: "delivery_block \<Rightarrow> mention_code" where
  "blocked_code (BlockHold RateLimitBackoff) = QuotaLimited"
| "blocked_code (BlockHold RuntimeErrorBackoff) = DeliveryRejected"
| "blocked_code (BlockHold FingerprintFence) = DeliveryRejected"
| "blocked_code BlockQueuedUntilIdle = UnsupportedDeliveryPath"

record running_identity =
  ri_launchId :: string
  ri_sessionId :: string

record mention_ports =
  mp_running :: "string \<Rightarrow> running_identity option"
  mp_consumed :: "delivery \<Rightarrow> bool"
  mp_told :: "delivery \<Rightarrow> bool"
  mp_busy :: "string \<Rightarrow> bool"
  mp_blocked :: "string \<Rightarrow> delivery_block option"

datatype report =
    Transition delivery mention_stage transition_outcome
  | TerminalError delivery mention_code
  | Acknowledge delivery

datatype tracked_state = Received | Pending | Drained

record tracked =
  tk_message :: delivery
  tk_state :: tracked_state
  tk_undelivered :: bool

record tracker =
  mt_tracked :: "(string, tracked) js_map"
  mt_pending :: "(string, string list) js_map"
  mt_reports :: "report list"

definition REMEMBERED_MENTIONS :: nat where
  "REMEMBERED_MENTIONS = 4096"

text \<open>The envelope of a tracked mention.\<close>

definition envelope_of :: "delivery \<Rightarrow> mention_envelope" where
  "envelope_of m = (case d_mention m of
     None \<Rightarrow> \<lparr>me_messageId = '''', me_launchId = '''', me_sessionId = '''', me_computerId = ''''\<rparr>
   | Some e \<Rightarrow> e)"

definition namesLaunch :: "running_identity \<Rightarrow> mention_envelope \<Rightarrow> bool" where
  "namesLaunch identity envelope \<longleftrightarrow>
     ri_launchId identity = me_launchId envelope \<and> ri_sessionId identity = me_sessionId envelope"

text \<open>\<open>admissionRefusal\<close>, on the Computer \<open>computerId\<close>.\<close>

definition admissionRefusal :: "string \<Rightarrow> delivery \<Rightarrow> mention_code option" where
  "admissionRefusal computerId m =
     (if me_computerId (envelope_of m) \<noteq> computerId then Some IdentityDrift
      else if me_messageId (envelope_of m) \<noteq> d_messageId m then Some InstrumentFailed
      else None)"

subsection \<open>The tracker's maps\<close>

definition emit :: "report \<Rightarrow> tracker \<Rightarrow> tracker" where
  "emit r t = t\<lparr>mt_reports := mt_reports t @ [r]\<rparr>"

definition drop_pending :: "string \<Rightarrow> string \<Rightarrow> tracker \<Rightarrow> tracker" where
  "drop_pending agentId deliveryId t =
     (case map_get (mt_pending t) agentId of
        None \<Rightarrow> t
      | Some ids \<Rightarrow>
          t\<lparr>mt_pending := (if set_del deliveryId ids = [] then map_delete (mt_pending t) agentId
             else map_set (mt_pending t) agentId (set_del deliveryId ids))\<rparr>)"

definition forget_mention :: "string \<Rightarrow> tracker \<Rightarrow> tracker" where
  "forget_mention deliveryId t =
     (case map_get (mt_tracked t) deliveryId of
        None \<Rightarrow> t
      | Some tk \<Rightarrow> drop_pending (d_agentId (tk_message tk)) deliveryId
          (t\<lparr>mt_tracked := map_delete (mt_tracked t) deliveryId\<rparr>))"

text \<open>Eviction of the oldest tracked mention, which a new one needs when the map is full.\<close>

definition evict :: "string \<Rightarrow> tracker \<Rightarrow> tracker" where
  "evict deliveryId t =
     (case mt_tracked t of
        [] \<Rightarrow> t
      | (oldest, _) # _ \<Rightarrow>
          if map_get (mt_tracked t) deliveryId = None \<and> length (mt_tracked t) \<ge> REMEMBERED_MENTIONS
          then forget_mention oldest t else t)"

definition set_mention :: "delivery \<Rightarrow> tracked_state \<Rightarrow> tracker \<Rightarrow> tracker" where
  "set_mention m state t0 =
     (let id = d_deliveryId m; agentId = d_agentId m;
          previous = map_get (mt_tracked t0) id;
          t = evict id t0;
          undelivered = (case previous of None \<Rightarrow> False | Some tk \<Rightarrow> tk_undelivered tk \<and> state \<noteq> Drained);
          t1 = t\<lparr>mt_tracked := map_delete (mt_tracked t) id @
             [(id, \<lparr>tk_message = m, tk_state = state, tk_undelivered = undelivered\<rparr>)]\<rparr>
      in if state = Pending
         then t1\<lparr>mt_pending := map_set (mt_pending t1) agentId (set_add id (get_or (mt_pending t1) agentId []))\<rparr>
         else drop_pending agentId id t1)"

definition state_of :: "tracker \<Rightarrow> string \<Rightarrow> tracked_state option" where
  "state_of t deliveryId = map_option tk_state (map_get (mt_tracked t) deliveryId)"

subsection \<open>Settling\<close>

definition refuse :: "delivery \<Rightarrow> mention_code \<Rightarrow> tracker \<Rightarrow> tracker" where
  "refuse m code t = emit (TerminalError m code) (forget_mention (d_deliveryId m) t)"

definition drain :: "delivery \<Rightarrow> tracker \<Rightarrow> tracker" where
  "drain m t =
     emit (Acknowledge m)
       (if state_of t (d_deliveryId m) \<noteq> Some Drained
        then emit (Transition m DaemonDrained Accepted) (set_mention m Drained t) else t)"

definition markPending :: "delivery \<Rightarrow> tracker \<Rightarrow> tracker" where
  "markPending m t = emit (Transition m DaemonPending Accepted) (set_mention m Pending t)"

definition replace_message :: "delivery \<Rightarrow> tracked \<Rightarrow> tracker \<Rightarrow> tracker" where
  "replace_message m tk t =
     t\<lparr>mt_tracked := map_set (mt_tracked t) (d_deliveryId m) (tk\<lparr>tk_message := m\<rparr>)\<rparr>"

subsection \<open>Delivering\<close>

text \<open>What \<open>deliver\<close> does next: it is done, or it announces, having read whether the Agent is busy.\<close>

datatype delivering = Done | Announcing bool

text \<open>From acceptance to the announcement.\<close>

definition accept_mention :: "mention_ports \<Rightarrow> delivery \<Rightarrow> tracker \<Rightarrow> delivering \<times> tracker" where
  "accept_mention ports m t =
     (let t1 = emit (Transition m DaemonReceived Accepted) (set_mention m Received t);
          busy = mp_busy ports (d_agentId m)
      in if mp_told ports m then (Done, if busy then markPending m t1 else drain m t1)
         else case mp_blocked ports (d_agentId m) of
             Some blocked \<Rightarrow> (Done, refuse m (blocked_code blocked) t1)
           | None \<Rightarrow> (Announcing busy, t1))"

definition deliver_known :: "mention_ports \<Rightarrow> delivery \<Rightarrow> tracker \<Rightarrow> delivering \<times> tracker" where
  "deliver_known ports m t =
     (case map_get (mt_tracked t) (d_deliveryId m) of
        None \<Rightarrow> accept_mention ports m t
      | Some existing \<Rightarrow>
          if d_agentId (tk_message existing) \<noteq> d_agentId m \<or> d_messageId (tk_message existing) \<noteq> d_messageId m
          then (Done, refuse m InstrumentFailed t)
          else if tk_state existing = Drained
          then (Done, emit (Acknowledge m) (replace_message m existing t))
          else if me_launchId (envelope_of (tk_message existing)) = me_launchId (envelope_of m) \<and>
              me_sessionId (envelope_of (tk_message existing)) = me_sessionId (envelope_of m)
          then (Done, emit (Transition m DaemonPending Coalesced) (replace_message m existing t))
          else accept_mention ports m t)"

definition deliver :: "mention_ports \<Rightarrow> delivery \<Rightarrow> tracker \<Rightarrow> delivering \<times> tracker" where
  "deliver ports m t =
     (if mp_consumed ports m then (Done, drain m t)
      else case mp_running ports (d_agentId m) of
          None \<Rightarrow> (Done, refuse m IdentityUnknown t)
        | Some running \<Rightarrow>
            if \<not> namesLaunch running (envelope_of m) then (Done, refuse m IdentityDrift t)
            else deliver_known ports m t)"

datatype announced = ToldSession | GoneProcess | RefusedBySession

definition announced :: "mention_ports \<Rightarrow> delivery \<Rightarrow> bool \<Rightarrow> announced \<Rightarrow> tracker \<Rightarrow> tracker" where
  "announced ports m busy outcome t =
     (if outcome = RefusedBySession then refuse m DeliveryRejected t
      else if state_of t (d_deliveryId m) \<noteq> Some Received then t
      else if outcome = GoneProcess
      then refuse m (case mp_running ports (d_agentId m) of
            Some now \<Rightarrow> if \<not> namesLaunch now (envelope_of m) then IdentityDrift else DeliveryRejected
          | None \<Rightarrow> DeliveryRejected) t
      else if busy then markPending m t else drain m t)"

text \<open>\<open>drop\<close>: whether the delivery was a tracked one, and settled.\<close>

definition drop_mention :: "mention_ports \<Rightarrow> delivery \<Rightarrow> mention_code \<Rightarrow> tracker \<Rightarrow> bool \<times> tracker" where
  "drop_mention ports m code t =
     (if \<not> isTrackedMention m then (False, t)
      else (True, if mp_consumed ports m then drain m t else refuse m code t))"

subsection \<open>The end of a turn, and a lost notice\<close>

definition settle_pending_one :: "mention_ports \<Rightarrow> string \<Rightarrow> tracker \<Rightarrow> tracker" where
  "settle_pending_one ports deliveryId t =
     (case map_get (mt_tracked t) deliveryId of
        None \<Rightarrow> t
      | Some tk \<Rightarrow>
          if tk_undelivered tk then t
          else if mp_told ports (tk_message tk) \<or> mp_consumed ports (tk_message tk) then drain (tk_message tk) t
          else refuse (tk_message tk) DeliveryRejected t)"

text \<open>The loop of \<open>settleTurnEnd\<close> over the ids pending when it started.\<close>

definition settleTurnEnd :: "mention_ports \<Rightarrow> string \<Rightarrow> tracker \<Rightarrow> tracker" where
  "settleTurnEnd ports agentId t = fold (settle_pending_one ports) (get_or (mt_pending t) agentId []) t"

definition mark_undelivered_one :: "string \<Rightarrow> string \<Rightarrow> tracker \<Rightarrow> tracker" where
  "mark_undelivered_one agentId deliveryId t =
     (case map_get (mt_tracked t) deliveryId of
        None \<Rightarrow> t
      | Some tk \<Rightarrow>
          if d_agentId (tk_message tk) = agentId \<and> tk_state tk \<noteq> Drained
          then t\<lparr>mt_tracked := map_set (mt_tracked t) deliveryId (tk\<lparr>tk_undelivered := True\<rparr>)\<rparr> else t)"

definition markUndelivered :: "string \<Rightarrow> string list \<Rightarrow> tracker \<Rightarrow> tracker" where
  "markUndelivered agentId deliveryIds t = fold (mark_undelivered_one agentId) deliveryIds t"

definition settle_redelivery_one :: "string \<Rightarrow> bool \<Rightarrow> string \<Rightarrow> tracker \<Rightarrow> tracker" where
  "settle_redelivery_one agentId accepted deliveryId t =
     (case map_get (mt_tracked t) deliveryId of
        None \<Rightarrow> t
      | Some tk \<Rightarrow>
          if d_agentId (tk_message tk) \<noteq> agentId \<or> \<not> tk_undelivered tk then t
          else if accepted then drain (tk_message tk) t
          else refuse (tk_message tk) DeliveryRejected t)"

definition settleRedelivery :: "string \<Rightarrow> string list \<Rightarrow> bool \<Rightarrow> tracker \<Rightarrow> tracker" where
  "settleRedelivery agentId deliveryIds accepted t = fold (settle_redelivery_one agentId accepted) deliveryIds t"

end
