(* ===== verification/MentionProperties.thy ===== *)
theory MentionProperties
  imports MentionTracker
begin

text \<open>
  Runs of the tracked mention's handlers in any interleaving, and what they guarantee: bounded and
  consistent maps, a mention under delivery that always has an announcement to settle it, an
  acknowledgement only for a reason, and a turn end that leaves nothing pending but what was lost.
\<close>

subsection \<open>The maps after an operation\<close>

definition pends :: "tracker \<Rightarrow> string \<Rightarrow> string \<Rightarrow> bool" where
  "pends t agentId i \<longleftrightarrow> i \<in> set (get_or (mt_pending t) agentId [])"

definition at :: "tracker \<Rightarrow> string \<Rightarrow> tracked option" where
  "at t = map_get (mt_tracked t)"

lemma state_of_at: "state_of t i = map_option tk_state (at t i)"
  by (simp add: state_of_def at_def)

lemma emit_fields [simp]:
  "mt_tracked (emit r t) = mt_tracked t" "mt_pending (emit r t) = mt_pending t"
  "mt_reports (emit r t) = mt_reports t @ [r]" "at (emit r t) = at t" "pends (emit r t) = pends t"
  by (simp_all add: emit_def at_def pends_def fun_eq_iff)

lemma drop_pending_fields [simp]:
  "mt_tracked (drop_pending a i t) = mt_tracked t" "mt_reports (drop_pending a i t) = mt_reports t"
  "at (drop_pending a i t) = at t"
  by (simp_all add: drop_pending_def at_def split: option.split)

lemma pends_drop_pending [simp]: "pends (drop_pending a i t) a' i' \<longleftrightarrow> pends t a' i' \<and> (a', i') \<noteq> (a, i)"
  by (cases "map_get (mt_pending t) a")
    (auto simp: drop_pending_def pends_def get_or_def set_del_def removeAll_filter_not_eq filter_empty_conv)

lemma forget_fields [simp]:
  "mt_reports (forget_mention i t) = mt_reports t" "at (forget_mention i t) = (at t)(i := None)"
  by (auto simp: forget_mention_def at_def fun_eq_iff delete_conv' split: option.split)

lemma pends_forget: "i' \<noteq> i \<Longrightarrow> pends t a' i' \<Longrightarrow> pends (forget_mention i t) a' i'"
  by (auto simp: forget_mention_def pends_def [of "_\<lparr>mt_tracked := _\<rparr>"] pends_def [of t, symmetric] split: option.split)

lemma evict_cases:
  obtains "evict i t = t" "at t i \<noteq> None \<or> length (mt_tracked t) < REMEMBERED_MENTIONS"
  | oldest tk rest where "mt_tracked t = (oldest, tk) # rest" "evict i t = forget_mention oldest t"
      "at t i = None"
proof (cases "mt_tracked t")
  case Nil
  with that(1) show ?thesis by (simp add: evict_def REMEMBERED_MENTIONS_def)
next
  case (Cons x rest)
  obtain oldest tk where x: "x = (oldest, tk)" by fastforce
  show ?thesis
  proof (cases "at t i = None \<and> REMEMBERED_MENTIONS \<le> length (mt_tracked t)")
    case True
    with Cons x that(2) show ?thesis by (simp add: evict_def at_def)
  next
    case False
    then have "evict i t = t" using Cons x by (auto simp: evict_def at_def)
    with False that(1) show ?thesis by force
  qed
qed

lemma evict_at: "at (evict i t) k = Some tk \<Longrightarrow> at t k = Some tk"
  by (cases rule: evict_cases [of i t]) (auto split: if_splits)

lemma evict_known: "at t i \<noteq> None \<Longrightarrow> evict i t = t"
  by (auto simp: evict_def at_def split: list.split)

lemma evict_reports [simp]: "mt_reports (evict i t) = mt_reports t"
  by (cases rule: evict_cases [of i t]) auto



definition carried :: "tracker \<Rightarrow> string \<Rightarrow> tracked_state \<Rightarrow> bool" where
  "carried t i state = (case at t i of None \<Rightarrow> False | Some tk \<Rightarrow> tk_undelivered tk \<and> state \<noteq> Drained)"

lemma at_set_mention:
  "at (set_mention m state t) k =
     (if k = d_deliveryId m then Some \<lparr>tk_message = m, tk_state = state, tk_undelivered = carried t k state\<rparr>
      else at (evict (d_deliveryId m) t) k)"
  by (auto simp: set_mention_def Let_def at_def carried_def map_add_def delete_conv' split: option.split)

lemma set_mention_reports [simp]: "mt_reports (set_mention m state t) = mt_reports t"
  by (simp add: set_mention_def Let_def)

lemma pends_set_mention:
  "pends (set_mention m state t) a k \<longleftrightarrow>
     (if (a, k) = (d_agentId m, d_deliveryId m) then state = Pending
      else pends (evict (d_deliveryId m) t) a k)"
  by (auto simp: set_mention_def Let_def pends_def [of "_\<lparr>mt_tracked := _\<rparr>"]) 
    (auto simp: pends_def split: if_splits)

subsection \<open>The maps stay consistent\<close>

definition sets_ok :: "(string, string list) js_map \<Rightarrow> bool" where
  "sets_ok m \<longleftrightarrow> wf_map m \<and> list_all (\<lambda>(a, ids). ids \<noteq> [] \<and> distinct ids) m"

definition maps_ok :: "tracker \<Rightarrow> bool" where
  "maps_ok t \<longleftrightarrow> wf_map (mt_tracked t) \<and> length (mt_tracked t) \<le> REMEMBERED_MENTIONS \<and> sets_ok (mt_pending t)"

definition entries_ok :: "tracker \<Rightarrow> bool" where
  "entries_ok t \<longleftrightarrow> (\<forall>k tk. at t k = Some tk \<longrightarrow>
     d_deliveryId (tk_message tk) = k \<and> (tk_state tk = Pending \<longrightarrow> pends t (d_agentId (tk_message tk)) k))"

definition tracker_ok :: "tracker \<Rightarrow> bool" where
  "tracker_ok t \<longleftrightarrow> maps_ok t \<and> entries_ok t"

lemma entries_okD:
  "entries_ok t \<Longrightarrow> at t k = Some tk \<Longrightarrow> d_deliveryId (tk_message tk) = k"
  "entries_ok t \<Longrightarrow> at t k = Some tk \<Longrightarrow> tk_state tk = Pending \<Longrightarrow> pends t (d_agentId (tk_message tk)) k"
  by (simp_all add: entries_ok_def)

lemma tracker_ok_emit [simp]: "tracker_ok (emit r t) = tracker_ok t"
  by (simp add: tracker_ok_def maps_ok_def entries_ok_def)

lemma list_all_set: "list_all P m \<Longrightarrow> P (k, v) \<Longrightarrow> list_all P (map_set m k v)"
  by (induction m) auto

lemma list_all_delete: "list_all P m \<Longrightarrow> list_all P (map_delete m k)"
  by (induction m) auto

lemma sets_ok_set: "sets_ok m \<Longrightarrow> ids \<noteq> [] \<Longrightarrow> distinct ids \<Longrightarrow> sets_ok (map_set m a ids)"
  by (simp add: sets_ok_def list_all_set)

lemma sets_ok_delete: "sets_ok m \<Longrightarrow> sets_ok (map_delete m a)"
  by (simp add: sets_ok_def list_all_delete)

lemma sets_ok_get: "sets_ok m \<Longrightarrow> distinct (get_or m a [])"
  by (auto simp: sets_ok_def get_or_def list_all_iff split: option.split dest!: map_of_SomeD)

lemma maps_ok_drop_pending: "maps_ok t \<Longrightarrow> maps_ok (drop_pending a i t)"
proof (cases "map_get (mt_pending t) a")
  case (Some ids)
  assume t: "maps_ok t"
  then have "distinct (set_del i ids)" using sets_ok_get [of "mt_pending t" a] Some by (simp add: maps_ok_def get_or_def)
  with t Some show ?thesis by (simp add: maps_ok_def drop_pending_def sets_ok_set sets_ok_delete)
qed (simp add: drop_pending_def)

lemma length_delete_le: "length (map_delete m k) \<le> length m"
  by (induction m) auto

lemma length_delete_less: "map_get m k = Some v \<Longrightarrow> length (map_delete m k) < length m"
  by (induction m) (auto simp: less_Suc_eq_le length_delete_le split: if_splits)

lemma delete_keys: "k \<notin> fst ` set (map_delete m k)"
  by (induction m) auto

lemma delete_absent: "k \<notin> set (map_keys m) \<Longrightarrow> map_delete m k = m"
  by (induction m) auto

lemma maps_ok_delete: "maps_ok t \<Longrightarrow> maps_ok (t\<lparr>mt_tracked := map_delete (mt_tracked t) k\<rparr>)"
  using length_delete_le [where k = k and m = "mt_tracked t"] by (simp add: maps_ok_def)

lemma maps_ok_forget: "maps_ok t \<Longrightarrow> maps_ok (forget_mention i t)"
  by (auto simp: forget_mention_def maps_ok_delete maps_ok_drop_pending split: option.split)

lemma entries_ok_forget: "entries_ok t \<Longrightarrow> entries_ok (forget_mention i t)"
  by (auto simp: entries_ok_def pends_forget)

lemma tracker_ok_forget [simp]: "tracker_ok t \<Longrightarrow> tracker_ok (forget_mention i t)"
  by (simp add: tracker_ok_def maps_ok_forget entries_ok_forget)

lemma tracker_ok_evict: "tracker_ok t \<Longrightarrow> tracker_ok (evict i t)"
  by (cases rule: evict_cases [of i t]) auto

lemma evict_room:
  assumes "maps_ok t"
  shows "length (map_delete (mt_tracked (evict i t)) i) < REMEMBERED_MENTIONS"
proof (cases rule: evict_cases [of i t])
  case 1
  show ?thesis
  proof (cases "at t i")
    case None
    with 1 length_delete_le [where k = i and m = "mt_tracked t"] show ?thesis by simp
  next
    case (Some tk)
    then have "map_get (mt_tracked t) i = Some tk" by (simp add: at_def)
    from length_delete_less [OF this] 1 assms show ?thesis by (simp add: maps_ok_def)
  qed
next
  case (2 oldest tk rest)
  with assms have "length rest < REMEMBERED_MENTIONS" "oldest \<notin> set (map_keys rest)" by (auto simp: maps_ok_def wf_map_def)
  moreover from 2 have "mt_tracked (evict i t) = map_delete rest oldest"
    by (simp add: forget_mention_def)
  ultimately show ?thesis using length_delete_le [where k = i and m = rest] by (simp add: delete_absent)
qed

lemma tracker_ok_set_mention [simp]:
  assumes "tracker_ok t"
  shows "tracker_ok (set_mention m state t)"
proof -
  let ?t = "evict (d_deliveryId m) t"
  have ok: "maps_ok ?t" "entries_ok ?t" using tracker_ok_evict [OF assms] by (simp_all add: tracker_ok_def)
  have "maps_ok (?t\<lparr>mt_tracked := map_delete (mt_tracked ?t) (d_deliveryId m) @ [(d_deliveryId m, tk)]\<rparr>)" for tk
    using ok(1) evict_room [of t "d_deliveryId m"] assms
    by (simp add: maps_ok_def tracker_ok_def wf_map_def distinct_delete delete_keys)
  then have "maps_ok (?t\<lparr>mt_tracked := map_delete (mt_tracked ?t) (d_deliveryId m) @ [(d_deliveryId m, tk)],
      mt_pending := map_set (mt_pending ?t) a (set_add k (get_or (mt_pending ?t) a []))\<rparr>)" for tk a k
    using sets_ok_set sets_ok_get by (simp add: maps_ok_def)
  note this [simp] \<open>\<And>tk. maps_ok (?t\<lparr>mt_tracked := _ @ [(_, tk)]\<rparr>)\<close> [simp]
  have "maps_ok (set_mention m state t)"
    by (simp add: set_mention_def Let_def maps_ok_drop_pending)
  moreover have "entries_ok (set_mention m state t)"
    using ok(2) by (auto simp: entries_ok_def at_set_mention pends_set_mention split: if_splits)
  ultimately show ?thesis by (simp add: tracker_ok_def)
qed

lemma tracker_ok_refuse [simp]: "tracker_ok t \<Longrightarrow> tracker_ok (refuse m code t)"
  by (auto simp: refuse_def)

lemma tracker_ok_drain [simp]: "tracker_ok t \<Longrightarrow> tracker_ok (drain m t)"
  by (auto simp: drain_def)

lemma tracker_ok_markPending [simp]: "tracker_ok t \<Longrightarrow> tracker_ok (markPending m t)"
  by (auto simp: markPending_def)

text \<open>An entry rewritten in place.\<close>

lemma tracker_ok_rewrite:
  assumes "tracker_ok t" "at t k = Some tk" "d_deliveryId (tk_message tk') = k"
    and "d_agentId (tk_message tk') = d_agentId (tk_message tk)" "tk_state tk' = tk_state tk"
  shows "tracker_ok (t\<lparr>mt_tracked := map_set (mt_tracked t) k tk'\<rparr>)"
proof -
  have "length (map_set m k v) = length m" if "map_get m k = Some u" for m u and v :: tracked
    using that by (induction m) (auto split: if_splits)
  with assms have "maps_ok (t\<lparr>mt_tracked := map_set (mt_tracked t) k tk'\<rparr>)"
    by (simp add: tracker_ok_def maps_ok_def at_def)
  moreover have "at (t\<lparr>mt_tracked := map_set (mt_tracked t) k tk'\<rparr>) = (at t)(k \<mapsto> tk')"
    by (simp add: at_def fun_eq_iff)
  moreover have "pends (t\<lparr>mt_tracked := map_set (mt_tracked t) k tk'\<rparr>) = pends t"
    by (simp add: pends_def fun_eq_iff)
  ultimately show ?thesis using assms by (auto simp: tracker_ok_def entries_ok_def)
qed

lemma tracker_ok_deliver:
  assumes "tracker_ok t" "deliver ports m t = (next, t')"
  shows "tracker_ok t'"
proof -
  have accept: "tracker_ok (snd (accept_mention ports m t))"
    using assms(1) by (auto simp: accept_mention_def Let_def split: option.split)
  moreover have "tracker_ok (snd (deliver_known ports m t))"
  proof (cases "at t (d_deliveryId m)")
    case None
    with accept show ?thesis by (simp add: deliver_known_def at_def)
  next
    case (Some tk)
    have "tracker_ok (replace_message m tk t)" if "d_agentId (tk_message tk) = d_agentId m"
      unfolding replace_message_def by (rule tracker_ok_rewrite [OF assms(1) Some]) (simp_all add: that)
    with accept Some assms(1) show ?thesis by (auto simp: deliver_known_def at_def)
  qed
  ultimately have "tracker_ok (snd (deliver ports m t))"
    using assms(1) by (auto simp: deliver_def split: option.split)
  with assms(2) show ?thesis by simp
qed

lemma tracker_ok_others [simp]:
  assumes "tracker_ok t"
  shows "tracker_ok (announced ports m busy outcome t)" "tracker_ok (snd (drop_mention ports m code t))"
    "tracker_ok (settle_pending_one ports k t)" "tracker_ok (mark_undelivered_one a k t)"
    "tracker_ok (settle_redelivery_one a accepted k t)"
proof -
  show "tracker_ok (announced ports m busy outcome t)" "tracker_ok (snd (drop_mention ports m code t))"
    using assms by (auto simp: announced_def drop_mention_def split: option.split)
  show "tracker_ok (settle_pending_one ports k t)" "tracker_ok (settle_redelivery_one a accepted k t)"
    using assms by (auto simp: settle_pending_one_def settle_redelivery_one_def split: option.split)
  show "tracker_ok (mark_undelivered_one a k t)"
  proof (cases "at t k")
    case (Some tk)
    then have "d_deliveryId (tk_message tk) = k" using assms by (simp add: tracker_ok_def entries_ok_def)
    with tracker_ok_rewrite [OF assms Some, of "tk\<lparr>tk_undelivered := True\<rparr>"] Some assms show ?thesis
      by (simp add: mark_undelivered_one_def at_def)
  qed (use assms in \<open>simp add: mark_undelivered_one_def at_def\<close>)
qed

subsection \<open>Runs\<close>

text \<open>One handler, or one turn of a handler's loop, with what the ports answered.\<close>

datatype mention_step =
    DeliverStep mention_ports delivery
  | AnnounceStep mention_ports delivery bool announced
  | DropStep mention_ports delivery mention_code
  | RefuseStep delivery mention_code
  | PendingStep mention_ports string
  | UndeliveredStep string string
  | RedeliveredStep string bool string

definition no_mentions :: tracker where
  "no_mentions = \<lparr>mt_tracked = [], mt_pending = [], mt_reports = []\<rparr>"

text \<open>The mentions being announced wait with the busy flag read before their notice.\<close>

inductive mention_run :: "mention_step list \<Rightarrow> tracker \<Rightarrow> (delivery \<times> bool) list \<Rightarrow> bool" where
  start: "mention_run [] no_mentions []"
| settled: "mention_run ss t w \<Longrightarrow> deliver ports m t = (Done, t') \<Longrightarrow>
    mention_run (ss @ [DeliverStep ports m]) t' w"
| announcing: "mention_run ss t w \<Longrightarrow> deliver ports m t = (Announcing busy, t') \<Longrightarrow>
    mention_run (ss @ [DeliverStep ports m]) t' ((m, busy) # w)"
| announced: "mention_run ss t w \<Longrightarrow> (m, busy) \<in> set w \<Longrightarrow>
    mention_run (ss @ [AnnounceStep ports m busy outcome]) (announced ports m busy outcome t) (remove1 (m, busy) w)"
| dropped: "mention_run ss t w \<Longrightarrow>
    mention_run (ss @ [DropStep ports m code]) (snd (drop_mention ports m code t)) w"
| refused: "mention_run ss t w \<Longrightarrow> mention_run (ss @ [RefuseStep m code]) (refuse m code t) w"
| turn_ended: "mention_run ss t w \<Longrightarrow> mention_run (ss @ [PendingStep ports k]) (settle_pending_one ports k t) w"
| undelivered: "mention_run ss t w \<Longrightarrow> mention_run (ss @ [UndeliveredStep a k]) (mark_undelivered_one a k t) w"
| redelivered: "mention_run ss t w \<Longrightarrow>
    mention_run (ss @ [RedeliveredStep a accepted k]) (settle_redelivery_one a accepted k t) w"

lemma tracker_ok_run: "mention_run ss t w \<Longrightarrow> tracker_ok t"
proof (induction rule: mention_run.induct)
  case start
  show ?case
    by (simp add: tracker_ok_def maps_ok_def entries_ok_def no_mentions_def sets_ok_def wf_map_def at_def)
qed (auto dest: tracker_ok_deliver)

subsection \<open>A mention under delivery is being announced\<close>

definition receiving :: "tracker \<Rightarrow> string \<Rightarrow> bool" where
  "receiving t k \<longleftrightarrow> state_of t k = Some Received"

lemma receiving_simps [simp]:
  "receiving (emit r t) k = receiving t k"
  "receiving (forget_mention i t) k \<longleftrightarrow> receiving t k \<and> k \<noteq> i"
  "receiving (refuse m code t) k \<longleftrightarrow> receiving t k \<and> k \<noteq> d_deliveryId m"
  by (auto simp: receiving_def state_of_at refuse_def)

lemma receiving_evict: "receiving (evict i t) k \<Longrightarrow> receiving t k"
  using evict_at [of i t k] by (cases "at (evict i t) k") (simp_all add: receiving_def state_of_at)

lemma receiving_set: "receiving (set_mention m state t) k \<Longrightarrow>
    (if k = d_deliveryId m then state = Received else receiving t k)"
proof (cases "k = d_deliveryId m")
  case True
  assume "receiving (set_mention m state t) k"
  with True show ?thesis unfolding receiving_def state_of_at at_set_mention by simp
next
  case False
  then have "at (set_mention m state t) k = at (evict (d_deliveryId m) t) k" by (simp add: at_set_mention)
  then have "receiving (set_mention m state t) k = receiving (evict (d_deliveryId m) t) k"
    unfolding receiving_def state_of_at by (rule arg_cong)
  moreover assume "receiving (set_mention m state t) k"
  ultimately show ?thesis using False receiving_evict by simp
qed

lemma receiving_settled:
  "receiving (drain m t) k \<Longrightarrow> receiving t k \<and> k \<noteq> d_deliveryId m"
  "receiving (markPending m t) k \<Longrightarrow> receiving t k \<and> k \<noteq> d_deliveryId m"
proof -
  assume d: "receiving (drain m t) k"
  show "receiving t k \<and> k \<noteq> d_deliveryId m"
  proof (cases "state_of t (d_deliveryId m) = Some Drained")
    case True
    with d have "receiving t k" by (simp add: drain_def)
    with True show ?thesis by (auto simp: receiving_def)
  next
    case False
    with d have "receiving (set_mention m Drained t) k" by (simp add: drain_def)
    from receiving_set [OF this] show ?thesis by (simp split: if_splits)
  qed
next
  assume "receiving (markPending m t) k"
  then have "receiving (set_mention m Pending t) k" by (simp add: markPending_def)
  from receiving_set [OF this] show "receiving t k \<and> k \<noteq> d_deliveryId m" by (simp split: if_splits)
qed

lemma receiving_rewrite:
  "at t k = Some tk \<Longrightarrow> tk_state tk' = tk_state tk \<Longrightarrow>
   receiving (t\<lparr>mt_tracked := map_set (mt_tracked t) k tk'\<rparr>) i = receiving t i"
  by (simp add: receiving_def state_of_def at_def)

lemma receiving_accept:
  assumes "accept_mention ports m t = (next, t')" "receiving t' k"
  shows "receiving t k \<or> (k = d_deliveryId m \<and> next \<noteq> Done)"
  using assms receiving_set [of m Received t k]
    receiving_settled [of m "emit (Transition m DaemonReceived Accepted) (set_mention m Received t)" k]
  by (auto simp: accept_mention_def Let_def split: option.splits if_splits)

lemma receiving_deliver:
  assumes "deliver ports m t = (next, t')" "receiving t' k"
  shows "receiving t k \<or> (k = d_deliveryId m \<and> next \<noteq> Done)"
proof -
  have known: "receiving t k \<or> (k = d_deliveryId m \<and> next \<noteq> Done)" if "deliver_known ports m t = (next, t')"
  proof (cases "at t (d_deliveryId m)")
    case None
    with that receiving_accept assms(2) show ?thesis by (auto simp: deliver_known_def at_def)
  next
    case (Some tk)
    with that assms(2) receiving_accept [of ports m t "next" t' k]
      receiving_rewrite [OF Some, of "tk\<lparr>tk_message := m\<rparr>" k]
    show ?thesis by (auto simp: deliver_known_def at_def replace_message_def split: if_splits)
  qed
  show ?thesis using assms known receiving_settled [of m t k]
    by (auto simp: deliver_def split: if_splits option.splits)
qed

lemma receiving_announced: "receiving (announced ports m busy outcome t) k \<Longrightarrow> receiving t k \<and> k \<noteq> d_deliveryId m"
  using receiving_settled [of m t k] by (auto simp: announced_def receiving_def [of t] split: if_splits option.splits)

lemma receiving_others:
  "receiving (snd (drop_mention ports m code t)) k \<Longrightarrow> receiving t k"
  "receiving (settle_pending_one ports i t) k \<Longrightarrow> receiving t k"
  "receiving (settle_redelivery_one a accepted i t) k \<Longrightarrow> receiving t k"
  by (auto simp: drop_mention_def dest: receiving_settled(1) split: if_splits)
    (auto simp: settle_pending_one_def settle_redelivery_one_def dest: receiving_settled(1)
      split: if_splits option.splits)

lemma receiving_marked: "receiving (mark_undelivered_one a i t) k = receiving t k"
  by (auto simp: mark_undelivered_one_def receiving_rewrite at_def split: option.split)

lemma receiving_is_waiting: "mention_run ss t w \<Longrightarrow> receiving t k \<Longrightarrow> \<exists>x \<in> set w. d_deliveryId (fst x) = k"
proof (induction arbitrary: k rule: mention_run.induct)
  case start
  then show ?case by (simp add: receiving_def state_of_def no_mentions_def)
next
  case (announced ss t w m busy ports outcome)
  from receiving_announced [OF announced.prems] announced.IH obtain x where
    "x \<in> set w" "d_deliveryId (fst x) = k" "k \<noteq> d_deliveryId m" by blast
  moreover from this have "x \<noteq> (m, busy)" by auto
  ultimately show ?case by (intro bexI [of _ x]) simp_all
qed (auto dest!: receiving_deliver receiving_others simp: receiving_marked)

subsection \<open>An acknowledgement has a reason\<close>

text \<open>What in a step lets the mention \<open>k\<close> be drained.\<close>

fun drain_reason :: "string \<Rightarrow> mention_step \<Rightarrow> bool" where
  "drain_reason k (DeliverStep ports m) \<longleftrightarrow> d_deliveryId m = k \<and>
     (mp_consumed ports m \<or> mp_told ports m \<and> \<not> mp_busy ports (d_agentId m))"
| "drain_reason k (AnnounceStep ports m busy outcome) \<longleftrightarrow>
     d_deliveryId m = k \<and> outcome = ToldSession \<and> \<not> busy"
| "drain_reason k (DropStep ports m code) \<longleftrightarrow> d_deliveryId m = k \<and> mp_consumed ports m"
| "drain_reason k (RefuseStep m code) \<longleftrightarrow> False"
| "drain_reason k (PendingStep ports i) \<longleftrightarrow>
     i = k \<and> (\<exists>m. d_deliveryId m = k \<and> (mp_told ports m \<or> mp_consumed ports m))"
| "drain_reason k (UndeliveredStep a i) \<longleftrightarrow> False"
| "drain_reason k (RedeliveredStep a accepted i) \<longleftrightarrow> i = k \<and> accepted"

text \<open>The mention is acknowledged already, or will be when it is delivered again.\<close>

definition settled :: "tracker \<Rightarrow> string \<Rightarrow> bool" where
  "settled t k \<longleftrightarrow> (\<exists>m. Acknowledge m \<in> set (mt_reports t) \<and> d_deliveryId m = k) \<or> state_of t k = Some Drained"

lemma state_forget [simp]: "state_of (forget_mention i t) k = (if k = i then None else state_of t k)"
  by (simp add: state_of_at)

lemma state_emit [simp]: "state_of (emit r t) = state_of t"
  by (simp add: state_of_at fun_eq_iff)

lemma state_evict: "state_of (evict i t) k = Some s \<Longrightarrow> state_of t k = Some s"
  using evict_at [of i t k] by (cases "at (evict i t) k") (simp_all add: state_of_at)

lemma state_set_mention:
  "state_of (set_mention m s t) k = (if k = d_deliveryId m then Some s else state_of (evict (d_deliveryId m) t) k)"
  by (simp add: state_of_at at_set_mention)

lemma settled_emit:
  "settled (emit r t) k \<longleftrightarrow> settled t k \<or> (\<exists>m. r = Acknowledge m \<and> d_deliveryId m = k)"
  by (auto simp: settled_def)

lemma settled_forget: "settled (forget_mention i t) k \<Longrightarrow> settled t k"
  by (auto simp: settled_def split: if_splits)

lemma settled_refuse: "settled (refuse m code t) k \<Longrightarrow> settled t k"
  by (auto simp: refuse_def settled_emit dest: settled_forget)

lemma settled_set: "settled (set_mention m s t) k \<Longrightarrow> settled t k \<or> s = Drained \<and> k = d_deliveryId m"
  using state_evict [of "d_deliveryId m" t k Drained]
  by (cases "k = d_deliveryId m") (auto simp: settled_def state_set_mention)

lemma settled_drain: "settled (drain m t) k \<Longrightarrow> settled t k \<or> k = d_deliveryId m"
  using settled_set [of m Drained t k] by (cases "state_of t (d_deliveryId m) = Some Drained") (auto simp: drain_def settled_emit)

lemma settled_markPending: "settled (markPending m t) k \<Longrightarrow> settled t k"
  using settled_set [of m Pending t k] by (simp add: markPending_def settled_emit)

lemma settled_rewrite:
  "at t i = Some tk \<Longrightarrow> tk_state tk' = tk_state tk \<Longrightarrow>
   settled (t\<lparr>mt_tracked := map_set (mt_tracked t) i tk'\<rparr>) k = settled t k"
  by (auto simp: settled_def state_of_def at_def)

lemma settled_deliver:
  assumes "deliver ports m t = (next, t')" "settled t' k"
  shows "settled t k \<or> drain_reason k (DeliverStep ports m)"
proof -
  have accept: "settled t k \<or> drain_reason k (DeliverStep ports m)"
    if "accept_mention ports m t = (next, t')"
    using that assms(2) settled_set [of m Received t k]
      settled_drain [of m "emit (Transition m DaemonReceived Accepted) (set_mention m Received t)" k]
      settled_markPending [of m "emit (Transition m DaemonReceived Accepted) (set_mention m Received t)" k]
      settled_refuse [of m _ "emit (Transition m DaemonReceived Accepted) (set_mention m Received t)" k]
    by (auto simp: accept_mention_def Let_def settled_emit split: option.splits if_splits)
  have "settled t k \<or> drain_reason k (DeliverStep ports m)" if "deliver_known ports m t = (next, t')"
  proof (cases "at t (d_deliveryId m)")
    case None
    with that accept show ?thesis by (auto simp: deliver_known_def at_def)
  next
    case (Some tk)
    have "tk_state tk = Drained \<Longrightarrow> settled t (d_deliveryId m)"
      using Some by (simp add: settled_def state_of_at)
    with that assms(2) accept settled_rewrite [OF Some, of "tk\<lparr>tk_message := m\<rparr>" k] settled_refuse [of m InstrumentFailed t k]
      Some show ?thesis
      by (auto simp: deliver_known_def at_def replace_message_def settled_emit split: if_splits)
  qed
  with assms settled_drain [of m t k] settled_refuse [of m _ t k] show ?thesis
    by (auto simp: deliver_def split: if_splits option.splits)
qed

lemma settled_step:
  assumes "tracker_ok t"
  shows "settled (announced ports m busy outcome t) k \<Longrightarrow>
      settled t k \<or> drain_reason k (AnnounceStep ports m busy outcome)"
    and "settled (snd (drop_mention ports m code t)) k \<Longrightarrow> settled t k \<or> drain_reason k (DropStep ports m code)"
    and "settled (settle_pending_one ports i t) k \<Longrightarrow> settled t k \<or> drain_reason k (PendingStep ports i)"
    and "settled (mark_undelivered_one a i t) k \<Longrightarrow> settled t k"
    and "settled (settle_redelivery_one a accepted i t) k \<Longrightarrow>
      settled t k \<or> drain_reason k (RedeliveredStep a accepted i)"
proof -
  have key: "map_get (mt_tracked t) i = Some tk \<Longrightarrow> d_deliveryId (tk_message tk) = i" for tk i
    using assms by (simp add: tracker_ok_def entries_ok_def at_def)
  show "settled (announced ports m busy outcome t) k \<Longrightarrow>
      settled t k \<or> drain_reason k (AnnounceStep ports m busy outcome)"
    using settled_drain [of m t k] settled_markPending [of m t k] settled_refuse [of m _ t k]
    by (cases outcome) (auto simp: announced_def split: if_splits option.splits)
  show "settled (snd (drop_mention ports m code t)) k \<Longrightarrow> settled t k \<or> drain_reason k (DropStep ports m code)"
    using settled_drain [of m t k] settled_refuse [of m _ t k] by (auto simp: drop_mention_def split: if_splits)
  show "settled (settle_pending_one ports i t) k \<Longrightarrow> settled t k \<or> drain_reason k (PendingStep ports i)"
    using settled_drain [of _ t k] settled_refuse [of _ _ t k]
    by (auto simp: settle_pending_one_def dest!: key split: if_splits option.splits)
  show "settled (mark_undelivered_one a i t) k \<Longrightarrow> settled t k"
    by (auto simp: mark_undelivered_one_def settled_rewrite at_def split: option.splits if_splits)
  show "settled (settle_redelivery_one a accepted i t) k \<Longrightarrow>
      settled t k \<or> drain_reason k (RedeliveredStep a accepted i)"
    using settled_drain [of _ t k] settled_refuse [of _ _ t k]
    by (auto simp: settle_redelivery_one_def dest!: key split: if_splits option.splits)
qed

lemma settled_reason: "mention_run ss t w \<Longrightarrow> settled t k \<Longrightarrow> \<exists>s \<in> set ss. drain_reason k s"
proof (induction rule: mention_run.induct)
  case start
  then show ?case by (simp add: settled_def no_mentions_def state_of_def)
next
  case (refused ss t w m code)
  then show ?case using settled_refuse by auto
qed (use settled_deliver settled_step [OF tracker_ok_run] in \<open>(metis Un_iff list.set_intros(1) set_append)+\<close>)

subsection \<open>What runs guarantee\<close>

definition tracked_delivery :: "string \<Rightarrow> delivery" where
  "tracked_delivery launch = (sample_delivery ''d1'' ''m1'' 5)\<lparr>d_mention := Some
     \<lparr>me_messageId = ''m1'', me_launchId = launch, me_sessionId = ''s1'', me_computerId = ''pc''\<rparr>\<rparr>"

definition sample_ports :: "bool \<Rightarrow> mention_ports" where
  "sample_ports consumed = \<lparr>mp_running = (\<lambda>_. Some \<lparr>ri_launchId = ''l1'', ri_sessionId = ''s1''\<rparr>),
     mp_consumed = (\<lambda>_. consumed), mp_told = (\<lambda>_. False), mp_busy = (\<lambda>_. False), mp_blocked = (\<lambda>_. None)\<rparr>"

definition sample_announcing :: tracker where
  "sample_announcing = snd (deliver (sample_ports False) (tracked_delivery ''l1'') no_mentions)"

lemma run_announcing:
  "mention_run [DeliverStep (sample_ports False) (tracked_delivery ''l1'')] sample_announcing
     [(tracked_delivery ''l1'', False)]"
proof -
  have "deliver (sample_ports False) (tracked_delivery ''l1'') no_mentions = (Announcing False, sample_announcing)"
    by (simp add: sample_announcing_def deliver_def sample_ports_def namesLaunch_def envelope_of_def
        tracked_delivery_def deliver_known_def no_mentions_def accept_mention_def Let_def)
  from mention_run.announcing [OF mention_run.start this] show ?thesis by simp
qed

text \<open>
  In any interleaving of the tracker's handlers, at most 4096 mentions are remembered, each under
  its own delivery id; every pending one is in its Agent's pending set, which is never empty; and
  every one still under delivery has an announcement that will settle it.
\<close>

theorem mention_tracker_invariant:
  assumes "mention_run ss t w"
  shows "tracker_ok t \<and> (state_of t k = Some Received \<longrightarrow> (\<exists>(m, busy) \<in> set w. d_deliveryId m = k))"
  using tracker_ok_run [OF assms] receiving_is_waiting [OF assms, of k] by (force simp: receiving_def)

theorem mention_tracker_invariant_witness:
  "tracker_ok sample_announcing \<and> (\<exists>(m, busy) \<in> set [(tracked_delivery ''l1'', False)]. d_deliveryId m = ''d1'')"
  using mention_tracker_invariant [OF run_announcing, of "''d1''"]
  by (simp add: tracked_delivery_def sample_delivery_def)

text \<open>
  C13: a tracked mention is acknowledged only when some step gave a reason: the Agent had consumed it,
  its session had been told it while idle or before a turn that ended, an idle session accepted its
  notice, or its lost notice was delivered again and accepted.
\<close>

theorem mention_acknowledged_with_reason:
  assumes "mention_run ss t w" "Acknowledge m \<in> set (mt_reports t)"
  shows "\<exists>s \<in> set ss. drain_reason (d_deliveryId m) s"
  using settled_reason [OF assms(1)] assms(2) by (auto simp: settled_def)

definition sample_told :: tracker where
  "sample_told = announced (sample_ports False) (tracked_delivery ''l1'') False ToldSession sample_announcing"

lemma sample_announcing_state: "map_get (mt_tracked sample_announcing) ''d1'' =
    Some \<lparr>tk_message = tracked_delivery ''l1'', tk_state = Received, tk_undelivered = False\<rparr>"
  by (simp add: sample_announcing_def deliver_def sample_ports_def namesLaunch_def envelope_of_def
      tracked_delivery_def sample_delivery_def deliver_known_def no_mentions_def accept_mention_def Let_def
      set_mention_def emit_def evict_def drop_pending_def)

theorem mention_acknowledged_with_reason_witness:
  "\<exists>s \<in> set [DeliverStep (sample_ports False) (tracked_delivery ''l1''),
      AnnounceStep (sample_ports False) (tracked_delivery ''l1'') False ToldSession]. drain_reason ''d1'' s"
proof -
  have key: "d_deliveryId (tracked_delivery ''l1'') = ''d1''" by (simp add: tracked_delivery_def sample_delivery_def)
  have "Acknowledge (tracked_delivery ''l1'') \<in> set (mt_reports sample_told)"
    by (simp add: sample_told_def announced_def drain_def key state_of_def sample_announcing_state)
  moreover have "mention_run [DeliverStep (sample_ports False) (tracked_delivery ''l1''),
      AnnounceStep (sample_ports False) (tracked_delivery ''l1'') False ToldSession] sample_told []"
    using mention_run.announced [OF run_announcing, of "tracked_delivery ''l1''" False "sample_ports False" ToldSession]
    by (simp add: sample_told_def)
  ultimately show ?thesis using mention_acknowledged_with_reason unfolding key [symmetric] by blast
qed

text \<open>The turn's end, over the ids pending when it started.\<close>

lemma settle_pending_one_at:
  assumes "tracker_ok t"
  shows "k \<noteq> i \<Longrightarrow> at (settle_pending_one ports i t) k = at t k"
    and "at (settle_pending_one ports i t) i = Some tk \<Longrightarrow> tk_state tk = Pending \<Longrightarrow> tk_undelivered tk"
proof -
  have "(k \<noteq> i \<longrightarrow> at (settle_pending_one ports i t) k = at t k) \<and>
    (at (settle_pending_one ports i t) i = Some tk \<longrightarrow> tk_state tk = Pending \<longrightarrow> tk_undelivered tk)"
  proof (cases "at t i")
    case None
    then show ?thesis by (simp add: settle_pending_one_def at_def)
  next
    case (Some old)
    then have key: "d_deliveryId (tk_message old) = i" "evict i t = t" "map_get (mt_tracked t) i = Some old"
      using assms by (simp_all add: tracker_ok_def entries_ok_def evict_known) (simp add: at_def)
    consider (lost) "settle_pending_one ports i t = t" "tk_undelivered old"
      | (drained) "settle_pending_one ports i t = drain (tk_message old) t"
      | (refused) "settle_pending_one ports i t = refuse (tk_message old) DeliveryRejected t"
      using key(3) by (cases "tk_undelivered old"; cases "mp_told ports (tk_message old) \<or> mp_consumed ports (tk_message old)")
        (simp_all add: settle_pending_one_def)
    then show ?thesis
    proof cases
      case drained
      have "state_of t i = Some (tk_state old)" using Some by (simp add: state_of_at)
      with drained Some key show ?thesis by (simp add: drain_def at_set_mention) auto
    qed (use Some key in \<open>auto simp: refuse_def\<close>)
  qed
  then show "k \<noteq> i \<Longrightarrow> at (settle_pending_one ports i t) k = at t k"
    and "at (settle_pending_one ports i t) i = Some tk \<Longrightarrow> tk_state tk = Pending \<Longrightarrow> tk_undelivered tk" by simp_all
qed

lemma settle_pending_fold:
  assumes "tracker_ok t"
  shows "(k \<notin> set ids \<longrightarrow> at (fold (settle_pending_one ports) ids t) k = at t k) \<and>
    (k \<in> set ids \<longrightarrow> at (fold (settle_pending_one ports) ids t) k = Some tk \<longrightarrow> tk_state tk = Pending \<longrightarrow>
      tk_undelivered tk)"
  using assms
proof (induction ids arbitrary: t)
  case (Cons i ids)
  from Cons.IH [of "settle_pending_one ports i t"] Cons.prems settle_pending_one_at [OF Cons.prems]
  show ?case by (cases "k \<in> set ids") auto
qed simp


definition busy_ports :: mention_ports where
  "busy_ports = (sample_ports False)\<lparr>mp_busy := (\<lambda>_. True)\<rparr>"

definition sample_lost :: tracker where
  "sample_lost = mark_undelivered_one ''bot'' ''d1''
     (announced busy_ports (tracked_delivery ''l1'') True ToldSession
       (snd (deliver busy_ports (tracked_delivery ''l1'') no_mentions)))"

lemma busy_deliver: "deliver busy_ports (tracked_delivery ''l1'') no_mentions = (Announcing True,
    emit (Transition (tracked_delivery ''l1'') DaemonReceived Accepted)
      (set_mention (tracked_delivery ''l1'') Received no_mentions))"
  by (simp add: deliver_def busy_ports_def sample_ports_def namesLaunch_def envelope_of_def
      tracked_delivery_def deliver_known_def no_mentions_def accept_mention_def Let_def)

lemma run_lost: "\<exists>ss. mention_run ss sample_lost []"
  using mention_run.undelivered [OF mention_run.announced [OF mention_run.announcing [OF mention_run.start busy_deliver],
      of "tracked_delivery ''l1''" True busy_ports ToldSession], of "''bot''" "''d1''"]
  by (auto simp: sample_lost_def busy_deliver)

lemma lost_stays:
  assumes "tracker_ok t" "at t k = Some tk" "tk_undelivered tk"
  shows "at (fold (settle_pending_one ports) ids t) k = Some tk"
  using assms(1,2)
proof (induction ids arbitrary: t)
  case (Cons i ids)
  have "at (settle_pending_one ports i t) k = Some tk"
    using settle_pending_one_at(1) [OF Cons.prems(1)] Cons.prems(2) assms(3)
    by (cases "k = i") (simp_all add: settle_pending_one_def at_def)
  with Cons show ?case by simp
qed simp

lemma nothing_tracked: "at no_mentions k = None"
  by (simp add: at_def no_mentions_def)

lemma lost_state: "at (settleTurnEnd busy_ports ''bot'' sample_lost) ''d1'' =
    Some \<lparr>tk_message = tracked_delivery ''l1'', tk_state = Pending, tk_undelivered = True\<rparr>"
proof -
  let ?m = "tracked_delivery ''l1''"
  have key: "d_deliveryId ?m = ''d1''" "d_agentId ?m = ''bot''" by (simp_all add: tracked_delivery_def sample_delivery_def)
  have recv: "at (snd (deliver busy_ports ?m no_mentions)) ''d1'' =
      Some \<lparr>tk_message = ?m, tk_state = Received, tk_undelivered = False\<rparr>"
    by (simp add: busy_deliver at_set_mention key carried_def nothing_tracked)
  then have "at (announced busy_ports ?m True ToldSession (snd (deliver busy_ports ?m no_mentions))) ''d1'' =
      Some \<lparr>tk_message = ?m, tk_state = Pending, tk_undelivered = False\<rparr>"
    by (simp add: announced_def state_of_at key markPending_def at_set_mention carried_def)
  then have "at sample_lost ''d1'' = Some \<lparr>tk_message = ?m, tk_state = Pending, tk_undelivered = True\<rparr>"
    by (simp add: sample_lost_def mark_undelivered_one_def at_def key)
  from lost_stays [OF _ this] run_lost tracker_ok_run show ?thesis unfolding settleTurnEnd_def by fastforce
qed


text \<open>
  A mention that was drained and acknowledged while its first announcement was still out is
  reported rejected all the same when that announcement fails afterwards.
\<close>

theorem refused_after_acknowledged:
  "\<exists>ss t w m. mention_run ss t w \<and>
     mt_reports t = [Transition m DaemonReceived Accepted, Transition m DaemonDrained Accepted, Acknowledge m,
       TerminalError m DeliveryRejected]"
proof -
  let ?m = "tracked_delivery ''l1''"
  have key: "d_deliveryId ?m = ''d1''" by (simp add: tracked_delivery_def sample_delivery_def)
  let ?t = "drain ?m sample_announcing"
  have "deliver (sample_ports True) ?m sample_announcing = (Done, ?t)"
    by (simp add: deliver_def sample_ports_def)
  from mention_run.settled [OF run_announcing this] have
    "mention_run [DeliverStep (sample_ports False) ?m, DeliverStep (sample_ports True) ?m] ?t [(?m, False)]" by simp
  from mention_run.announced [OF this, of ?m False "sample_ports True" RefusedBySession] obtain ss w where
    run: "mention_run ss (refuse ?m DeliveryRejected ?t) w" by (auto simp: announced_def)
  have "mt_reports sample_announcing = [Transition ?m DaemonReceived Accepted]"
    by (simp add: sample_announcing_def deliver_def sample_ports_def namesLaunch_def envelope_of_def
        tracked_delivery_def deliver_known_def no_mentions_def accept_mention_def Let_def)
  then have "mt_reports (refuse ?m DeliveryRejected ?t) = [Transition ?m DaemonReceived Accepted,
      Transition ?m DaemonDrained Accepted, Acknowledge ?m, TerminalError ?m DeliveryRejected]"
    by (simp add: refuse_def drain_def state_of_def key sample_announcing_state)
  with run show ?thesis by blast
qed

end
