(* ===== verification/ReminderReceipts.thy ===== *)
theory ReminderReceipts
  imports DaemonPrelude
begin

text \<open>
  The durable receipts of due reminders: the receipt and its types in
  \<open>packages/daemon/src/agent-reminder/reminder-scheduler.ts\<close> and the file store that validates them,
  \<open>packages/daemon/src/persistence/reminder-receipt-store.ts\<close>. Instants are integers, milliseconds
  since the epoch; a receipt is a typed record, so of the store's checks those on the JSON type of a
  field are the record's own. Whether a receipt encodes as a fire request and a snapshot, which the
  wire codecs decide, is the parameter \<open>encodes\<close>.
\<close>

record reminder_job =
  jb_reminderId :: string
  jb_ownerAgentId :: string
  jb_version :: int
  jb_title :: string
  jb_target :: string
  jb_messageId :: string
  jb_fireAt :: int

datatype fire_result = FireAccepted | FirePremature | FireObsolete

datatype retry_stage = FireStage | WakeStage

record retry_exhausted =
  ex_stage :: retry_stage
  ex_attempts :: int
  ex_deadline :: int
  ex_exhaustedAt :: int

record receipt =
  rc_workspaceId :: string
  rc_computerId :: string
  rc_agentId :: string
  rc_reminderId :: string
  rc_version :: int
  rc_job :: reminder_job
  rc_requestId :: string
  rc_firedAtClient :: int
  rc_attempt :: int
  rc_deadline :: int
  rc_nextAt :: int
  rc_serverResult :: "fire_result option"
  rc_serverFired :: "bool option"
  rc_serverCatchup :: "bool option"
  rc_wakeAccepted :: bool
  rc_consumed :: bool
  rc_terminal :: bool
  rc_retryExhausted :: "retry_exhausted option"

record reminder_scope =
  sc_workspaceId :: string
  sc_computerId :: string

type_synonym receipt_key = "string \<times> int"

definition key_of :: "receipt \<Rightarrow> receipt_key" where
  "key_of r = (rc_reminderId r, rc_version r)"

subsection \<open>The store's checks\<close>

definition retryExhaustedIsValid :: "retry_exhausted option \<Rightarrow> bool" where
  "retryExhaustedIsValid v = (case v of None \<Rightarrow> True | Some e \<Rightarrow> ex_attempts e \<ge> 0)"

definition receipt_valid :: "(receipt \<Rightarrow> bool) \<Rightarrow> reminder_scope \<Rightarrow> string \<Rightarrow> receipt \<Rightarrow> bool" where
  "receipt_valid encodes scope agentId r \<longleftrightarrow>
     rc_workspaceId r = sc_workspaceId scope \<and> rc_agentId r = agentId \<and>
     rc_computerId r = sc_computerId scope \<and> rc_version r > 0 \<and> rc_attempt r \<ge> 0 \<and>
     jb_ownerAgentId (rc_job r) = agentId \<and> jb_reminderId (rc_job r) = rc_reminderId r \<and>
     jb_version (rc_job r) = rc_version r \<and>
     (rc_wakeAccepted r \<longrightarrow> rc_terminal r) \<and> (rc_consumed r \<longrightarrow> rc_terminal r) \<and>
     retryExhaustedIsValid (rc_retryExhausted r) \<and> (rc_retryExhausted r \<noteq> None \<longrightarrow> rc_terminal r) \<and>
     encodes r"

definition receipts_valid :: "(receipt \<Rightarrow> bool) \<Rightarrow> reminder_scope \<Rightarrow> string \<Rightarrow> receipt list \<Rightarrow> bool" where
  "receipts_valid encodes scope agentId rs \<longleftrightarrow>
     list_all (receipt_valid encodes scope agentId) rs \<and> distinct (map key_of rs)"

text \<open>
  The file of one Agent: absent, or its parsed receipts. \<open>ok\<close> says whether the disk lets the call
  through; the checks run either way.
\<close>

type_synonym receipt_file = "receipt list option"

definition read_receipts ::
  "(receipt \<Rightarrow> bool) \<Rightarrow> reminder_scope \<Rightarrow> string \<Rightarrow> bool \<Rightarrow> receipt_file \<Rightarrow> receipt list option"
where
  "read_receipts encodes scope agentId ok file =
     (if \<not> ok then None
      else case file of
          None \<Rightarrow> Some []
        | Some rs \<Rightarrow> if receipts_valid encodes scope agentId rs then Some rs else None)"

definition write_receipts ::
  "(receipt \<Rightarrow> bool) \<Rightarrow> reminder_scope \<Rightarrow> string \<Rightarrow> bool \<Rightarrow> receipt list \<Rightarrow> receipt_file option"
where
  "write_receipts encodes scope agentId ok rs =
     (if receipts_valid encodes scope agentId rs \<and> ok then Some (Some rs) else None)"

subsection \<open>What the scheduler relies on\<close>

text \<open>
  A store that takes every list it calls valid when the disk lets it, and gives back the list that
  was written last.
\<close>

locale receipt_store =
  fixes read_all :: "bool \<Rightarrow> 'f \<Rightarrow> receipt list option"
    and write_all :: "bool \<Rightarrow> receipt list \<Rightarrow> 'f option"
    and valid :: "receipt list \<Rightarrow> bool"
  assumes write_takes: "valid rs \<Longrightarrow> write_all True rs \<noteq> None"
    and read_written: "write_all ok rs = Some f \<Longrightarrow> read_all True f = Some rs"
    and read_is_valid: "read_all ok f = Some rs \<Longrightarrow> valid rs"
begin

lemma write_then_read: "valid rs \<Longrightarrow> \<exists>f. write_all True rs = Some f \<and> read_all True f = Some rs"
  using write_takes read_written by blast

lemma rewrite: "read_all ok f = Some rs \<Longrightarrow> \<exists>f'. write_all True rs = Some f' \<and> read_all True f' = Some rs"
  using read_is_valid write_then_read by blast

end

lemma receipts_valid_Nil [simp]: "receipts_valid encodes scope a []"
  by (simp add: receipts_valid_def)

interpretation receipt_file: receipt_store
  "read_receipts encodes scope a" "write_receipts encodes scope a" "receipts_valid encodes scope a"
  for encodes scope a
  by unfold_locales
    (auto simp: read_receipts_def write_receipts_def split: if_splits option.splits)

end
