(* ===== verification/Backoffs.thy ===== *)
theory Backoffs
  imports DaemonPrelude Complex_Main
begin

text \<open>
  The daemon's retry bookkeeping: \<open>packages/daemon/src/agent-runtime/launch-failure-backoff.ts\<close>,
  \<open>runtime-error-recovery.ts\<close> and the reminder scheduler's \<open>#backoff\<close>
  (\<open>packages/daemon/src/agent-reminder/reminder-scheduler.ts\<close>). Milliseconds are integers; the jitter,
  a fraction of a delay rounded down, is rational.
\<close>

subsection \<open>A doubling delay with a ceiling\<close>

text \<open>
  What the three have in common: the first failure waits the base, every further one the double of
  what the last one waited, and none waits longer than the ceiling.
\<close>

lemma min_double:
  fixes cap p :: int
  shows "0 < cap \<Longrightarrow> 0 \<le> p \<Longrightarrow> min cap (2 * min cap p) = min cap (2 * p)"
  by (simp add: min_def)

locale doubling_delay =
  fixes delay :: "int \<Rightarrow> int" and base cap :: int
  assumes base_pos: "0 < base" and cap_base: "base \<le> cap"
    and first: "delay 1 = base"
    and doubles: "1 \<le> n \<Longrightarrow> delay (n + 1) = min cap (2 * delay n)"
begin

lemma delay_bounds: "1 \<le> n \<Longrightarrow> base \<le> delay n \<and> delay n \<le> cap"
proof (induction n rule: int_ge_induct)
  case base
  then show ?case using first cap_base by simp
next
  case (step n)
  then show ?case using doubles [of n] base_pos by auto
qed

lemma delay_mono: "1 \<le> n \<Longrightarrow> delay n \<le> delay (n + 1)"
  using delay_bounds [of n] doubles [of n] base_pos by simp

lemma delay_closed: "delay (int n + 1) = min cap (base * 2 ^ n)"
proof (induction n)
  case 0
  then show ?case using first cap_base by simp
next
  case (Suc n)
  then show ?case using doubles [of "int n + 1"] min_double [of cap "base * 2 ^ n"] base_pos cap_base
    by (simp add: algebra_simps)
qed

lemma delay_reaches_cap: "cap \<le> base * 2 ^ n \<Longrightarrow> n \<le> m \<Longrightarrow> delay (int m + 1) = cap"
proof -
  assume "cap \<le> base * 2 ^ n" "n \<le> m"
  then have "base * 2 ^ n \<le> base * 2 ^ m" using base_pos by (simp add: power_increasing)
  with \<open>cap \<le> base * 2 ^ n\<close> show ?thesis by (simp add: delay_closed)
qed

end

text \<open>The exponent is bounded, which changes nothing once the ceiling is below \<open>base * 2 ^ 30\<close>.\<close>

lemma bounded_exponent:
  fixes base cap :: int
  assumes "0 < base" "base \<le> cap" "cap \<le> base * 2 ^ 30" "1 \<le> n"
  shows "min cap (base * 2 ^ nat (min n 30)) = min cap (2 * min cap (base * 2 ^ nat (min (n - 1) 30)))"
proof (cases "n \<le> 30")
  case True
  then have "nat (min n 30) = Suc (nat (min (n - 1) 30))" using assms(4) by (simp add: nat_eq_iff)
  then have e: "base * 2 ^ nat (min n 30) = 2 * (base * 2 ^ nat (min (n - 1) 30))" by (simp only: power_Suc)
  show ?thesis unfolding e by (rule min_double [symmetric]) (use assms in simp_all)
next
  case False
  then have "min n 30 = 30" "min (n - 1) 30 = 30" by simp_all
  with assms min_double [of cap "base * 2 ^ nat (min (n - 1) 30)"] show ?thesis by simp
qed

subsection \<open>Launch failures\<close>

definition LAUNCH_FAILURE_BACKOFF_BASE_MS :: int where
  "LAUNCH_FAILURE_BACKOFF_BASE_MS = 1000"

definition LAUNCH_FAILURE_BACKOFF_CAP_MS :: int where
  "LAUNCH_FAILURE_BACKOFF_CAP_MS = 30000"

definition LAUNCH_FAILURE_MAX_ATTEMPTS :: int where
  "LAUNCH_FAILURE_MAX_ATTEMPTS = 7"

definition launchFailureCooldownMs :: "int \<Rightarrow> int \<Rightarrow> int \<Rightarrow> int" where
  "launchFailureCooldownMs attempts baseMs capMs =
     (if attempts < 1 then baseMs else min (baseMs * 2 ^ nat (min (attempts - 1) 30)) capMs)"

record launch_failure =
  lf_attempts :: int
  lf_untilMs :: int

record launch_backoff =
  lb_failures :: "(string, launch_failure) js_map"
  lb_baseMs :: int
  lb_capMs :: int

definition lb_attempts :: "launch_backoff \<Rightarrow> string \<Rightarrow> int" where
  "lb_attempts b agentId = (case map_get (lb_failures b) agentId of None \<Rightarrow> 0 | Some f \<Rightarrow> lf_attempts f)"

definition lb_blockedUntil :: "launch_backoff \<Rightarrow> string \<Rightarrow> int option" where
  "lb_blockedUntil b agentId = map_option lf_untilMs (map_get (lb_failures b) agentId)"

text \<open>The attempts, the cooldown and when it ends.\<close>

definition lb_recordFailure :: "launch_backoff \<Rightarrow> string \<Rightarrow> int \<Rightarrow> (int \<times> int \<times> int) \<times> launch_backoff" where
  "lb_recordFailure b agentId now =
     (let attempts = lb_attempts b agentId + 1;
          cooldownMs = launchFailureCooldownMs attempts (lb_baseMs b) (lb_capMs b);
          untilMs = now + cooldownMs
      in ((attempts, cooldownMs, untilMs),
          b\<lparr>lb_failures := map_set (lb_failures b) agentId \<lparr>lf_attempts = attempts, lf_untilMs = untilMs\<rparr>\<rparr>))"

definition lb_reset :: "launch_backoff \<Rightarrow> string \<Rightarrow> int \<times> launch_backoff" where
  "lb_reset b agentId = (lb_attempts b agentId, b\<lparr>lb_failures := map_delete (lb_failures b) agentId\<rparr>)"

definition lb_isBlocked :: "launch_backoff \<Rightarrow> string \<Rightarrow> int \<Rightarrow> bool" where
  "lb_isBlocked b agentId now = (case lb_blockedUntil b agentId of None \<Rightarrow> False | Some untilMs \<Rightarrow> untilMs > now)"

definition lb_clear :: "launch_backoff \<Rightarrow> launch_backoff" where
  "lb_clear b = b\<lparr>lb_failures := []\<rparr>"

subsection \<open>Retryable runtime errors\<close>

definition RUNTIME_ERROR_DELIVERY_BACKOFF_BASE_MS :: int where
  "RUNTIME_ERROR_DELIVERY_BACKOFF_BASE_MS = 10000"

definition RUNTIME_ERROR_DELIVERY_BACKOFF_MAX_MS :: int where
  "RUNTIME_ERROR_DELIVERY_BACKOFF_MAX_MS = 5 * 60000"

definition RUNTIME_ERROR_DELIVERY_BACKOFF_JITTER_RATIO :: rat where
  "RUNTIME_ERROR_DELIVERY_BACKOFF_JITTER_RATIO = 1 / 10"

definition RUNTIME_ERROR_FINGERPRINT_FENCE_THRESHOLD :: int where
  "RUNTIME_ERROR_FINGERPRINT_FENCE_THRESHOLD = 3"

definition cappedDelayMs :: "int \<Rightarrow> int \<Rightarrow> int \<Rightarrow> int" where
  "cappedDelayMs attempts baseMs maxMs = min maxMs (baseMs * 2 ^ nat (min (max 0 (attempts - 1)) 30))"

text \<open>\<open>jitterUnit\<close> is the random source's answer, \<open>None\<close> when it is not a finite number.\<close>

definition runtimeErrorDeliveryBackoffDelayMs :: "int \<Rightarrow> int \<Rightarrow> int \<Rightarrow> rat \<Rightarrow> rat option \<Rightarrow> int" where
  "runtimeErrorDeliveryBackoffDelayMs attempts baseMs maxMs jitterRatio jitterUnit =
     (let capped = cappedDelayMs attempts baseMs maxMs;
          boundedJitterUnit = (case jitterUnit of None \<Rightarrow> 0 | Some u \<Rightarrow> max 0 (min 1 u));
          jitterMs = \<lfloor>of_int capped * jitterRatio * boundedJitterUnit\<rfloor>
      in min maxMs (capped + jitterMs))"

record error_backoff =
  eb_attempts :: "(string, int) js_map"
  eb_baseMs :: int
  eb_maxMs :: int
  eb_jitterRatio :: rat

definition eb_recordFailure :: "error_backoff \<Rightarrow> string \<Rightarrow> int \<Rightarrow> rat option \<Rightarrow> (int \<times> int \<times> int) \<times> error_backoff" where
  "eb_recordFailure b agentId now jitterUnit =
     (let attempts = get_or (eb_attempts b) agentId 0 + 1;
          delayMs = runtimeErrorDeliveryBackoffDelayMs attempts (eb_baseMs b) (eb_maxMs b) (eb_jitterRatio b) jitterUnit
      in ((attempts, delayMs, now + delayMs), b\<lparr>eb_attempts := map_set (eb_attempts b) agentId attempts\<rparr>))"

definition eb_reset :: "error_backoff \<Rightarrow> string \<Rightarrow> int \<times> error_backoff" where
  "eb_reset b agentId = (get_or (eb_attempts b) agentId 0, b\<lparr>eb_attempts := map_delete (eb_attempts b) agentId\<rparr>)"

record fingerprint_fence =
  ff_state :: "(string, string \<times> int) js_map"
  ff_threshold :: int

text \<open>The streak of the fingerprint, and whether it is fenced.\<close>

definition ff_note :: "fingerprint_fence \<Rightarrow> string \<Rightarrow> string \<Rightarrow> (int \<times> bool) \<times> fingerprint_fence" where
  "ff_note f agentId fingerprint =
     (let attempts = (case map_get (ff_state f) agentId of
            Some (seen, n) \<Rightarrow> if seen = fingerprint then n + 1 else 1
          | None \<Rightarrow> 1)
      in ((attempts, attempts \<ge> ff_threshold f),
          f\<lparr>ff_state := map_set (ff_state f) agentId (fingerprint, attempts)\<rparr>))"

definition ff_reset :: "fingerprint_fence \<Rightarrow> string \<Rightarrow> fingerprint_fence" where
  "ff_reset f agentId = f\<lparr>ff_state := map_delete (ff_state f) agentId\<rparr>"

definition runtimeErrorFingerprintFenceDetail :: "nat \<Rightarrow> string \<Rightarrow> string" where
  "runtimeErrorFingerprintFenceDetail attempts lastErrorMessage =
     ''Runtime stopped retrying after '' @ digits_of attempts @
     '' consecutive failures with the same underlying error. Last error: '' @ lastErrorMessage @
     '' Restart this Agent once the issue is fixed.''"

subsection \<open>The reminder scheduler's delay\<close>

definition reminder_backoff :: "int \<Rightarrow> int" where
  "reminder_backoff attempt = min 60000 (1000 * 2 ^ nat (max 0 (attempt - 1)))"

lemma launch_cooldown_min: "1 \<le> n \<Longrightarrow> launchFailureCooldownMs n b c = min c (b * 2 ^ nat (min (n - 1) 30))"
  by (simp add: launchFailureCooldownMs_def min.commute)

lemma capped_delay_min: "1 \<le> n \<Longrightarrow> cappedDelayMs n b c = min c (b * 2 ^ nat (min (n - 1) 30))"
  by (simp add: cappedDelayMs_def max_absorb2)

lemma launch_limits:
  "0 < LAUNCH_FAILURE_BACKOFF_BASE_MS" "LAUNCH_FAILURE_BACKOFF_BASE_MS \<le> LAUNCH_FAILURE_BACKOFF_CAP_MS"
  "LAUNCH_FAILURE_BACKOFF_CAP_MS \<le> LAUNCH_FAILURE_BACKOFF_BASE_MS * 2 ^ 30"
  by (simp_all add: LAUNCH_FAILURE_BACKOFF_BASE_MS_def LAUNCH_FAILURE_BACKOFF_CAP_MS_def)

lemma runtime_error_limits:
  "0 < RUNTIME_ERROR_DELIVERY_BACKOFF_BASE_MS"
  "RUNTIME_ERROR_DELIVERY_BACKOFF_BASE_MS \<le> RUNTIME_ERROR_DELIVERY_BACKOFF_MAX_MS"
  "RUNTIME_ERROR_DELIVERY_BACKOFF_MAX_MS \<le> RUNTIME_ERROR_DELIVERY_BACKOFF_BASE_MS * 2 ^ 30"
  by (simp_all add: RUNTIME_ERROR_DELIVERY_BACKOFF_BASE_MS_def RUNTIME_ERROR_DELIVERY_BACKOFF_MAX_MS_def)

interpretation launch: doubling_delay
  "\<lambda>n. launchFailureCooldownMs n LAUNCH_FAILURE_BACKOFF_BASE_MS LAUNCH_FAILURE_BACKOFF_CAP_MS"
  LAUNCH_FAILURE_BACKOFF_BASE_MS LAUNCH_FAILURE_BACKOFF_CAP_MS
proof unfold_locales
  fix n :: int
  assume n: "1 \<le> n"
  have grown: "launchFailureCooldownMs (n + 1) b c = min c (b * 2 ^ nat (min n 30))" for b c
    using n by (simp add: launch_cooldown_min)
  show
    "launchFailureCooldownMs (n + 1) LAUNCH_FAILURE_BACKOFF_BASE_MS LAUNCH_FAILURE_BACKOFF_CAP_MS =
      min LAUNCH_FAILURE_BACKOFF_CAP_MS
        (2 * launchFailureCooldownMs n LAUNCH_FAILURE_BACKOFF_BASE_MS LAUNCH_FAILURE_BACKOFF_CAP_MS)"
    unfolding grown launch_cooldown_min [OF n] by (rule bounded_exponent [OF launch_limits n])
qed (use launch_limits in \<open>simp_all add: launch_cooldown_min\<close>)

interpretation runtime_error: doubling_delay
  "\<lambda>n. cappedDelayMs n RUNTIME_ERROR_DELIVERY_BACKOFF_BASE_MS RUNTIME_ERROR_DELIVERY_BACKOFF_MAX_MS"
  RUNTIME_ERROR_DELIVERY_BACKOFF_BASE_MS RUNTIME_ERROR_DELIVERY_BACKOFF_MAX_MS
proof unfold_locales
  fix n :: int
  assume n: "1 \<le> n"
  have grown: "cappedDelayMs (n + 1) b c = min c (b * 2 ^ nat (min n 30))" for b c
    using n by (simp add: capped_delay_min)
  show
    "cappedDelayMs (n + 1) RUNTIME_ERROR_DELIVERY_BACKOFF_BASE_MS RUNTIME_ERROR_DELIVERY_BACKOFF_MAX_MS =
      min RUNTIME_ERROR_DELIVERY_BACKOFF_MAX_MS
        (2 * cappedDelayMs n RUNTIME_ERROR_DELIVERY_BACKOFF_BASE_MS RUNTIME_ERROR_DELIVERY_BACKOFF_MAX_MS)"
    unfolding grown capped_delay_min [OF n] by (rule bounded_exponent [OF runtime_error_limits n])
qed (use runtime_error_limits in \<open>simp_all add: capped_delay_min\<close>)

interpretation reminder: doubling_delay reminder_backoff 1000 60000
proof unfold_locales
  fix n :: int
  assume n: "1 \<le> n"
  then have "nat n = Suc (nat (n - 1))" by simp
  then have "1000 * 2 ^ nat n = 2 * (1000 * 2 ^ nat (n - 1) :: int)" by simp
  with n min_double [of 60000 "1000 * 2 ^ nat (n - 1)"] show "reminder_backoff (n + 1) = min 60000 (2 * reminder_backoff n)"
    by (simp add: reminder_backoff_def max_absorb2)
qed (simp_all add: reminder_backoff_def)

subsection \<open>What the delays are\<close>

text \<open>
  The cooldown of a failed launch is between one second and thirty, never falls as failures
  repeat, and doubles until it reaches its ceiling; the automatic retries of one launch wait 61
  seconds together.
\<close>

theorem launch_cooldown_bounds:
  "LAUNCH_FAILURE_BACKOFF_BASE_MS \<le> launchFailureCooldownMs (int n + 1) LAUNCH_FAILURE_BACKOFF_BASE_MS LAUNCH_FAILURE_BACKOFF_CAP_MS \<and>
   launchFailureCooldownMs (int n + 1) LAUNCH_FAILURE_BACKOFF_BASE_MS LAUNCH_FAILURE_BACKOFF_CAP_MS \<le>
     launchFailureCooldownMs (int n + 2) LAUNCH_FAILURE_BACKOFF_BASE_MS LAUNCH_FAILURE_BACKOFF_CAP_MS \<and>
   launchFailureCooldownMs (int n + 1) LAUNCH_FAILURE_BACKOFF_BASE_MS LAUNCH_FAILURE_BACKOFF_CAP_MS =
     min LAUNCH_FAILURE_BACKOFF_CAP_MS (LAUNCH_FAILURE_BACKOFF_BASE_MS * 2 ^ n) \<and>
   sum_list (map (\<lambda>k. launchFailureCooldownMs k LAUNCH_FAILURE_BACKOFF_BASE_MS LAUNCH_FAILURE_BACKOFF_CAP_MS)
     [1..LAUNCH_FAILURE_MAX_ATTEMPTS - 1]) = 61000"
proof -
  have "[1..LAUNCH_FAILURE_MAX_ATTEMPTS - 1] = [1, 2, 3, 4, 5, 6]"
    by (simp add: LAUNCH_FAILURE_MAX_ATTEMPTS_def upto_rec1)
  then have "sum_list (map (\<lambda>k. launchFailureCooldownMs k LAUNCH_FAILURE_BACKOFF_BASE_MS LAUNCH_FAILURE_BACKOFF_CAP_MS)
      [1..LAUNCH_FAILURE_MAX_ATTEMPTS - 1]) = 61000"
    by (simp add: launchFailureCooldownMs_def LAUNCH_FAILURE_BACKOFF_BASE_MS_def LAUNCH_FAILURE_BACKOFF_CAP_MS_def)
  then show ?thesis
    using launch.delay_bounds [of "int n + 1"] launch.delay_mono [of "int n + 1"] launch.delay_closed [of n]
    by (simp add: add.commute)
qed

text \<open>
  Whatever the random source answers, the delay before a held delivery is released after a
  runtime error is at least the doubled base and at most the ceiling; once the doubled base reaches
  the ceiling, no jitter is left.
\<close>

theorem runtime_error_delay_bounds:
  assumes "0 \<le> ratio"
  shows "cappedDelayMs n RUNTIME_ERROR_DELIVERY_BACKOFF_BASE_MS RUNTIME_ERROR_DELIVERY_BACKOFF_MAX_MS \<le>
      runtimeErrorDeliveryBackoffDelayMs n RUNTIME_ERROR_DELIVERY_BACKOFF_BASE_MS RUNTIME_ERROR_DELIVERY_BACKOFF_MAX_MS
        ratio unit \<and>
    runtimeErrorDeliveryBackoffDelayMs n RUNTIME_ERROR_DELIVERY_BACKOFF_BASE_MS RUNTIME_ERROR_DELIVERY_BACKOFF_MAX_MS
        ratio unit \<le> RUNTIME_ERROR_DELIVERY_BACKOFF_MAX_MS \<and>
    (6 \<le> n \<longrightarrow> runtimeErrorDeliveryBackoffDelayMs n RUNTIME_ERROR_DELIVERY_BACKOFF_BASE_MS
        RUNTIME_ERROR_DELIVERY_BACKOFF_MAX_MS ratio unit = RUNTIME_ERROR_DELIVERY_BACKOFF_MAX_MS)"
proof -
  let ?c = "cappedDelayMs n RUNTIME_ERROR_DELIVERY_BACKOFF_BASE_MS RUNTIME_ERROR_DELIVERY_BACKOFF_MAX_MS"
  let ?j = "case unit of None \<Rightarrow> 0 | Some u \<Rightarrow> max 0 (min 1 u)"
  have "0 \<le> ?c" "?c \<le> RUNTIME_ERROR_DELIVERY_BACKOFF_MAX_MS"
    using runtime_error_limits(1,2) by (simp_all add: cappedDelayMs_def)
  moreover have "0 \<le> ?j" by (simp split: option.split)
  ultimately have "0 \<le> \<lfloor>of_int ?c * ratio * ?j\<rfloor>" using assms by (simp add: zero_le_floor)
  moreover have "?c = RUNTIME_ERROR_DELIVERY_BACKOFF_MAX_MS" if "6 \<le> n"
  proof -
    have "n = int (nat (n - 1)) + 1" "5 \<le> nat (n - 1)" using that by simp_all
    moreover have "RUNTIME_ERROR_DELIVERY_BACKOFF_MAX_MS \<le> RUNTIME_ERROR_DELIVERY_BACKOFF_BASE_MS * 2 ^ 5"
      by (simp add: RUNTIME_ERROR_DELIVERY_BACKOFF_BASE_MS_def RUNTIME_ERROR_DELIVERY_BACKOFF_MAX_MS_def)
    ultimately show ?thesis using runtime_error.delay_reaches_cap [of 5 "nat (n - 1)"] by simp
  qed
  ultimately show ?thesis
    using \<open>?c \<le> RUNTIME_ERROR_DELIVERY_BACKOFF_MAX_MS\<close>
    by (auto simp: runtimeErrorDeliveryBackoffDelayMs_def Let_def)
qed

theorem runtime_error_delay_bounds_witness:
  "runtimeErrorDeliveryBackoffDelayMs 7 RUNTIME_ERROR_DELIVERY_BACKOFF_BASE_MS
     RUNTIME_ERROR_DELIVERY_BACKOFF_MAX_MS RUNTIME_ERROR_DELIVERY_BACKOFF_JITTER_RATIO (Some (1 / 2)) =
   RUNTIME_ERROR_DELIVERY_BACKOFF_MAX_MS"
  using runtime_error_delay_bounds [of RUNTIME_ERROR_DELIVERY_BACKOFF_JITTER_RATIO 7 "Some (1 / 2)"]
  by (simp add: RUNTIME_ERROR_DELIVERY_BACKOFF_JITTER_RATIO_def)

text \<open>Notes of one fingerprint in a row.\<close>

fun note_all :: "string \<Rightarrow> string list \<Rightarrow> fingerprint_fence \<Rightarrow> fingerprint_fence" where
  "note_all agentId [] f = f"
| "note_all agentId (p # ps) f = note_all agentId ps (snd (ff_note f agentId p))"

fun streak :: "string \<Rightarrow> string list \<Rightarrow> nat" where
  "streak p [] = 0"
| "streak p (q # qs) = (if q = p then Suc (streak p qs) else 0)"

lemma note_all_snoc: "note_all a (ps @ [p]) f = snd (ff_note (note_all a ps f) a p)"
  by (induction ps arbitrary: f) simp_all

lemma note_all_threshold: "ff_threshold (note_all a ps f) = ff_threshold f"
  by (induction ps arbitrary: f) (simp_all add: ff_note_def Let_def)

lemma note_all_state:
  assumes "map_get (ff_state f) a = None"
  shows "map_get (ff_state (note_all a ps f)) a =
    (case rev ps of [] \<Rightarrow> None | p # qs \<Rightarrow> Some (p, int (Suc (streak p qs))))"
proof (induction ps rule: rev_induct)
  case (snoc p ps)
  have "map_get (ff_state (note_all a (ps @ [p]) f)) a = Some (p,
      case map_get (ff_state (note_all a ps f)) a of Some (seen, n) \<Rightarrow> if seen = p then n + 1 else 1 | None \<Rightarrow> 1)"
    by (simp add: note_all_snoc ff_note_def Let_def)
  then show ?case unfolding snoc.IH by (simp split: list.split)
qed (simp add: assms)

text \<open>
  The fence trips on a failure exactly when at least three failures in a row, this one included,
  carry its fingerprint; another fingerprint starts the count again.
\<close>

theorem fence_counts_repeats:
  assumes "map_get (ff_state f) a = None" "ff_threshold f = RUNTIME_ERROR_FINGERPRINT_FENCE_THRESHOLD"
  shows "fst (ff_note (note_all a ps f) a p) = (int (Suc (streak p (rev ps))), 2 \<le> streak p (rev ps))"
  using note_all_state [OF assms(1), of ps] assms(2) note_all_threshold [of a ps f]
  by (cases "rev ps") (auto simp: ff_note_def Let_def RUNTIME_ERROR_FINGERPRINT_FENCE_THRESHOLD_def)

theorem fence_counts_repeats_witness:
  "fst (ff_note (note_all ''bot'' [''x'', ''y'', ''y''] \<lparr>ff_state = [], ff_threshold = 3\<rparr>) ''bot'' ''y'') = (3, True)"
  using fence_counts_repeats [of "\<lparr>ff_state = [], ff_threshold = 3\<rparr>" "''bot''" "[''x'', ''y'', ''y'']" "''y''"]
  by (simp add: RUNTIME_ERROR_FINGERPRINT_FENCE_THRESHOLD_def)

end
