(* ===== verification/ReminderScheduler.thy ===== *)
theory ReminderScheduler
  imports ReminderReceipts Backoffs
begin

text \<open>
  The reminder scheduler of one Agent: \<open>packages/daemon/src/agent-reminder/reminder-scheduler.ts\<close>.
  Operations on an Agent's receipts are serialized by its queue (\<open>#serial\<close>), so each one is a
  function on the state; the queue, the timers and the calls to the cloud and to the Agent are part
  of the state, and a step runs the queue's head, a due timer, or the return of a call. A timer's
  capped delay only makes it look again later, so a timer is the instant it waits for. Logging, and
  the failure kept for the log, are left out.
\<close>

definition RETRY_BUDGET_MS :: int where
  "RETRY_BUDGET_MS = 15 * 60000"

definition MAX_ATTEMPTS :: int where
  "MAX_ATTEMPTS = 8"

definition RECEIPT_RETENTION_MS :: int where
  "RECEIPT_RETENTION_MS = 7 * 24 * 60 * 60 * 1000"

subsection \<open>State\<close>

text \<open>What follows a persisted receipt: its effect, a retry of it, or nothing.\<close>

datatype proceed = StartEffect | RetryEffect | NoEffect

record receipt_timer =
  tm_nextAt :: int
  tm_proceed :: bool
  tm_after :: proceed

text \<open>A schedule timer waits for a job's due time; a server retry fires without looking at it again.\<close>

datatype schedule_timer = DueTimer int int | ServerRetryTimer int int

record fire_response =
  fr_result :: fire_result
  fr_fired :: bool
  fr_catchup :: bool
  fr_retryAfterMs :: "int option"

datatype sync =
    Snapshot "reminder_job list"
  | Upsert reminder_job
  | CancelJob string int

text \<open>The operations waiting in the Agent's queue.\<close>

datatype queued =
    ApplySync sync
  | PrepareDue reminder_job
  | ReceiptDue receipt_key bool proceed
  | PersistEffect receipt_key nat
  | FireReturned receipt_key nat "fire_response option"
  | WakeReturned receipt_key nat bool
  | PersistExhausted receipt
  | AcknowledgeReceipt string int

datatype effect = Fire | Wake

record scheduler =
  rs_running :: bool
  rs_generation :: nat
  rs_authorized :: bool
  rs_jobs :: "(string, reminder_job) js_map"
  rs_versions :: "(string, int) js_map"
  rs_tombstones :: "string list"
  rs_changed :: "string list"
  rs_receipts :: "(receipt_key, receipt) js_map"
  rs_failures :: "(receipt_key, int) js_map"
  rs_inFlight :: "receipt_key list"
  rs_scheduleTimers :: "(string, schedule_timer) js_map"
  rs_receiptTimers :: "(receipt_key, receipt_timer) js_map"
  rs_queue :: "queued list"
  rs_calls :: "(receipt_key \<times> nat \<times> effect) list"
  rs_started :: "(receipt_key \<times> effect) list"
  rs_ending :: "(receipt_key \<times> bool) list"
  rs_file :: receipt_file

text \<open>The Agent, its daemon, and what the store accepts as a request.\<close>

record daemon_setup =
  su_scope :: reminder_scope
  su_agentId :: string
  su_encodes :: "receipt \<Rightarrow> bool"

text \<open>The clock of a step, a fresh request id, and whether each of its store calls gets through.\<close>

record moment =
  mo_now :: int
  mo_requestId :: string
  mo_find :: bool
  mo_merge :: bool
  mo_write :: bool

definition store_read :: "daemon_setup \<Rightarrow> bool \<Rightarrow> receipt_file \<Rightarrow> receipt list option" where
  "store_read su ok file = read_receipts (su_encodes su) (su_scope su) (su_agentId su) ok file"

definition store_write :: "daemon_setup \<Rightarrow> bool \<Rightarrow> receipt list \<Rightarrow> receipt_file option" where
  "store_write su ok rs = write_receipts (su_encodes su) (su_scope su) (su_agentId su) ok rs"

definition find_receipt :: "receipt_key \<Rightarrow> receipt list \<Rightarrow> receipt option" where
  "find_receipt k rs = find (\<lambda>r. key_of r = k) rs"

definition enqueue_op :: "queued \<Rightarrow> scheduler \<Rightarrow> scheduler" where
  "enqueue_op q s = s\<lparr>rs_queue := rs_queue s @ [q]\<rparr>"

definition set_receipt :: "receipt_key \<Rightarrow> receipt \<Rightarrow> scheduler \<Rightarrow> scheduler" where
  "set_receipt k r s = s\<lparr>rs_receipts := map_set (rs_receipts s) k r\<rparr>"

subsection \<open>Retrying a receipt\<close>

definition armReceipt :: "receipt \<Rightarrow> int \<Rightarrow> bool \<Rightarrow> proceed \<Rightarrow> scheduler \<Rightarrow> scheduler" where
  "armReceipt r due proceed afterPersistence s =
     (if \<not> rs_running s \<or> rc_consumed r \<or> rc_terminal r then s
      else let nextAt = min (rc_deadline r) due
        in s\<lparr>rs_receipts := map_set (rs_receipts s) (key_of r) (r\<lparr>rc_nextAt := nextAt\<rparr>),
             rs_receiptTimers := map_set (rs_receiptTimers s) (key_of r)
               \<lparr>tm_nextAt = nextAt, tm_proceed = proceed, tm_after = afterPersistence\<rparr>\<rparr>)"

text \<open>The timer alone, when the receipt in memory is another copy.\<close>

definition armTimer :: "receipt \<Rightarrow> int \<Rightarrow> bool \<Rightarrow> proceed \<Rightarrow> scheduler \<Rightarrow> scheduler" where
  "armTimer r due proceed afterPersistence s =
     (if \<not> rs_running s \<or> rc_consumed r \<or> rc_terminal r then s
      else s\<lparr>rs_receiptTimers := map_set (rs_receiptTimers s) (key_of r)
        \<lparr>tm_nextAt = min (rc_deadline r) due, tm_proceed = proceed, tm_after = afterPersistence\<rparr>\<rparr>)"

definition is_fired :: "receipt \<Rightarrow> bool" where
  "is_fired r \<longleftrightarrow> rc_serverResult r = Some FireAccepted \<and> rc_serverFired r = Some True"

definition exhaust :: "int \<Rightarrow> receipt \<Rightarrow> scheduler \<Rightarrow> scheduler" where
  "exhaust now r s =
     (if rc_terminal r then s
      else let ended = r\<lparr>rc_terminal := True, rc_retryExhausted := Some
             \<lparr>ex_stage = (if is_fired r then WakeStage else FireStage), ex_attempts = rc_attempt r,
              ex_deadline = rc_deadline r, ex_exhaustedAt = now\<rparr>\<rparr>
        in enqueue_op (PersistExhausted ended) (set_receipt (key_of r) ended s))"

definition retry :: "int \<Rightarrow> receipt \<Rightarrow> scheduler \<Rightarrow> scheduler" where
  "retry now r s =
     (if rc_attempt r \<ge> MAX_ATTEMPTS \<or> now \<ge> rc_deadline r then exhaust now r s
      else armReceipt r (min (rc_deadline r) (now + reminder_backoff (rc_attempt r))) True StartEffect s)"

definition startEffect :: "int \<Rightarrow> receipt \<Rightarrow> scheduler \<Rightarrow> scheduler" where
  "startEffect now r s =
     (if \<not> rs_running s \<or> key_of r \<in> set (rs_inFlight s) then s
      else if rc_attempt r \<ge> MAX_ATTEMPTS \<or> now \<ge> rc_deadline r then exhaust now r s
      else enqueue_op (PersistEffect (key_of r) (rs_generation s))
        ((set_receipt (key_of r) (r\<lparr>rc_attempt := rc_attempt r + 1\<rparr>) s)
          \<lparr>rs_inFlight := set_add (key_of r) (rs_inFlight s)\<rparr>))"

subsection \<open>Persisting a receipt\<close>

definition retained :: "int \<Rightarrow> receipt list \<Rightarrow> receipt list" where
  "retained now rs =
     filter (\<lambda>r. \<not> (rc_consumed r \<and> rc_terminal r \<and> rc_deadline r < now - RECEIPT_RETENTION_MS)) rs"

text \<open>A receipt the Agent acknowledged on disk stays acknowledged.\<close>

definition merge_receipt :: "receipt option \<Rightarrow> receipt \<Rightarrow> receipt" where
  "merge_receipt existing r =
     (case existing of
        None \<Rightarrow> r
      | Some e \<Rightarrow>
          if rc_consumed e then r\<lparr>rc_consumed := True, rc_terminal := True, rc_retryExhausted := None\<rparr> else r)"

definition replace_receipt :: "receipt \<Rightarrow> receipt list \<Rightarrow> receipt list" where
  "replace_receipt r rs =
     (if find_receipt (key_of r) rs = None then rs @ [r]
      else map (\<lambda>x. if key_of x = key_of r then r else x) rs)"

definition saveMerged :: "daemon_setup \<Rightarrow> moment \<Rightarrow> receipt \<Rightarrow> scheduler \<Rightarrow> (receipt \<times> scheduler) option" where
  "saveMerged su mo r s =
     (case store_read su (mo_merge mo) (rs_file s) of
        None \<Rightarrow> None
      | Some rs \<Rightarrow>
          let merged = merge_receipt (find_receipt (key_of r) rs) r
          in map_option (\<lambda>file. (merged, s\<lparr>rs_file := file\<rparr>))
               (store_write su (mo_write mo) (retained (mo_now mo) (replace_receipt merged rs))))"

definition still_going :: "receipt_key \<Rightarrow> scheduler \<Rightarrow> bool" where
  "still_going k s = (case map_get (rs_receipts s) k of
     None \<Rightarrow> False | Some r \<Rightarrow> \<not> rc_consumed r \<and> \<not> rc_terminal r)"

definition after_persist :: "int \<Rightarrow> receipt \<Rightarrow> proceed \<Rightarrow> scheduler \<Rightarrow> scheduler" where
  "after_persist now r proceed s =
     (if rc_consumed r \<or> rc_terminal r then s
      else case proceed of
          StartEffect \<Rightarrow> startEffect now r s
        | RetryEffect \<Rightarrow> retry now r s
        | NoEffect \<Rightarrow> s)"

text \<open>Whether the receipt was persisted and is still to be worked on.\<close>

definition persistOrRetry ::
  "daemon_setup \<Rightarrow> moment \<Rightarrow> receipt \<Rightarrow> proceed \<Rightarrow> proceed \<Rightarrow> scheduler \<Rightarrow> bool \<times> scheduler"
where
  "persistOrRetry su mo r proceed afterFailure s =
     (let k = key_of r in
      case saveMerged su mo r s of
        Some (current, s1) \<Rightarrow>
          let s2 = after_persist (mo_now mo) current proceed
                ((set_receipt k current s1)\<lparr>rs_failures := map_delete (rs_failures s1) k\<rparr>)
          in (still_going k s2, s2)
      | None \<Rightarrow>
          let failures = get_or (rs_failures s) k 0 + 1;
              s1 = s\<lparr>rs_failures := map_set (rs_failures s) k failures\<rparr>
          in (False,
              if \<not> rs_running s1 \<or> failures \<ge> MAX_ATTEMPTS \<or> mo_now mo \<ge> rc_deadline r then s1
              else armReceipt r (min (rc_deadline r) (mo_now mo + reminder_backoff failures)) False afterFailure s1))"

text \<open>The receipt as the disk has it, when it can be read and has it.\<close>

definition fresh :: "daemon_setup \<Rightarrow> moment \<Rightarrow> receipt_key \<Rightarrow> scheduler \<Rightarrow> receipt option \<times> scheduler" where
  "fresh su mo k s =
     (let s1 = (case store_read su (mo_find mo) (rs_file s) of
            None \<Rightarrow> s
          | Some rs \<Rightarrow> (case find_receipt k rs of None \<Rightarrow> s | Some r \<Rightarrow> set_receipt k r s))
      in (map_get (rs_receipts s1) k, s1))"

definition deleteReceipt :: "daemon_setup \<Rightarrow> moment \<Rightarrow> receipt_key \<Rightarrow> scheduler \<Rightarrow> bool \<times> scheduler" where
  "deleteReceipt su mo k s =
     (case store_read su (mo_merge mo) (rs_file s) of
        None \<Rightarrow> (False, s)
      | Some rs \<Rightarrow>
          (case store_write su (mo_write mo) (filter (\<lambda>r. key_of r \<noteq> k) rs) of
             None \<Rightarrow> (False, s)
           | Some file \<Rightarrow> (True, s\<lparr>rs_file := file, rs_receipts := map_delete (rs_receipts s) k\<rparr>)))"

subsection \<open>Schedules\<close>

definition armSchedule :: "reminder_job \<Rightarrow> scheduler \<Rightarrow> scheduler" where
  "armSchedule job s =
     (if \<not> rs_running s then s
      else s\<lparr>rs_scheduleTimers := map_set (rs_scheduleTimers s) (jb_reminderId job)
        (DueTimer (jb_version job) (jb_fireAt job))\<rparr>)"

definition armServerRetry :: "reminder_job \<Rightarrow> int \<Rightarrow> scheduler \<Rightarrow> scheduler" where
  "armServerRetry job retryAt s =
     (if \<not> rs_running s then s
      else s\<lparr>rs_scheduleTimers := map_set (rs_scheduleTimers s) (jb_reminderId job)
        (ServerRetryTimer (jb_version job) retryAt)\<rparr>)"

definition current_job :: "scheduler \<Rightarrow> string \<Rightarrow> int \<Rightarrow> reminder_job option" where
  "current_job s reminderId version =
     (case map_get (rs_jobs s) reminderId of
        None \<Rightarrow> None | Some job \<Rightarrow> if jb_version job = version then Some job else None)"

definition new_receipt :: "daemon_setup \<Rightarrow> moment \<Rightarrow> reminder_job \<Rightarrow> receipt" where
  "new_receipt su mo job =
     \<lparr>rc_workspaceId = sc_workspaceId (su_scope su), rc_computerId = sc_computerId (su_scope su),
      rc_agentId = jb_ownerAgentId job, rc_reminderId = jb_reminderId job, rc_version = jb_version job,
      rc_job = job, rc_requestId = mo_requestId mo, rc_firedAtClient = mo_now mo, rc_attempt = 0,
      rc_deadline = mo_now mo + RETRY_BUDGET_MS, rc_nextAt = mo_now mo, rc_serverResult = None,
      rc_serverFired = None, rc_serverCatchup = None, rc_wakeAccepted = False, rc_consumed = False,
      rc_terminal = False, rc_retryExhausted = None\<rparr>"

definition prepareDue :: "daemon_setup \<Rightarrow> moment \<Rightarrow> reminder_job \<Rightarrow> scheduler \<Rightarrow> scheduler" where
  "prepareDue su mo job s =
     (if \<not> rs_running s \<or> current_job s (jb_reminderId job) (jb_version job) = None then s
      else let k = (jb_reminderId job, jb_version job);
               found = (case map_get (rs_receipts s) k of
                   Some r \<Rightarrow> Some r
                 | None \<Rightarrow> (case store_read su (mo_find mo) (rs_file s) of
                     None \<Rightarrow> None | Some rs \<Rightarrow> find_receipt k rs));
               r = (case found of Some r \<Rightarrow> r | None \<Rightarrow> new_receipt su mo job)
        in snd (persistOrRetry su mo r StartEffect StartEffect (set_receipt k r s)))"

subsection \<open>The queue's operations\<close>

text \<open>
  Of a snapshot's jobs, those at or above the fence of their reminder and not the canceled version
  itself; a job changed since the last snapshot that this one does not name is kept.
\<close>

definition admits :: "scheduler \<Rightarrow> string \<Rightarrow> int \<Rightarrow> bool" where
  "admits s reminderId version \<longleftrightarrow>
     version \<ge> get_or (rs_versions s) reminderId (-1) \<and>
     \<not> (version = get_or (rs_versions s) reminderId (-1) \<and> reminderId \<in> set (rs_tombstones s))"

definition take_job :: "reminder_job \<Rightarrow> (string, reminder_job) js_map \<times> scheduler \<Rightarrow>
    (string, reminder_job) js_map \<times> scheduler" where
  "take_job job = (\<lambda>(jobs, s).
     if admits s (jb_reminderId job) (jb_version job)
     then (map_set jobs (jb_reminderId job) job,
           s\<lparr>rs_versions := map_set (rs_versions s) (jb_reminderId job) (jb_version job),
             rs_changed := set_del (jb_reminderId job) (rs_changed s)\<rparr>)
     else (jobs, s))"

definition keep_changed :: "scheduler \<Rightarrow> reminder_job \<Rightarrow> (string, reminder_job) js_map \<Rightarrow> (string, reminder_job) js_map" where
  "keep_changed s old jobs =
     (if jb_reminderId old \<in> set (rs_changed s) \<and> map_get jobs (jb_reminderId old) = None
      then map_set jobs (jb_reminderId old) old else jobs)"

definition restore_receipt :: "daemon_setup \<Rightarrow> receipt \<Rightarrow> scheduler \<Rightarrow> scheduler" where
  "restore_receipt su r s =
     (if rc_workspaceId r \<noteq> sc_workspaceId (su_scope su) \<or> rc_computerId r \<noteq> sc_computerId (su_scope su) \<or>
         rc_agentId r \<noteq> su_agentId su then s
      else let s1 = set_receipt (key_of r) r s
        in if \<not> rc_consumed r \<and> \<not> rc_terminal r then armReceipt r (rc_nextAt r) True StartEffect s1 else s1)"

definition restore :: "daemon_setup \<Rightarrow> moment \<Rightarrow> scheduler \<Rightarrow> scheduler" where
  "restore su mo s =
     (case store_read su (mo_find mo) (rs_file s) of
        None \<Rightarrow> s | Some rs \<Rightarrow> fold (restore_receipt su) rs s)"

definition apply_snapshot :: "daemon_setup \<Rightarrow> moment \<Rightarrow> reminder_job list \<Rightarrow> scheduler \<Rightarrow> scheduler" where
  "apply_snapshot su mo given s =
     (let (taken, s1) = fold take_job given ([], s\<lparr>rs_authorized := True, rs_scheduleTimers := []\<rparr>);
          jobs = fold (keep_changed s1) (map snd (rs_jobs s)) taken
      in restore su mo (fold armSchedule (map snd jobs) (s1\<lparr>rs_jobs := jobs\<rparr>)))"

definition apply_change :: "reminder_job option \<Rightarrow> string \<Rightarrow> int \<Rightarrow> scheduler \<Rightarrow> scheduler" where
  "apply_change job reminderId version s =
     (if \<not> rs_authorized s \<or> \<not> admits s reminderId version then s
      else let s1 = s\<lparr>rs_versions := map_set (rs_versions s) reminderId version,
               rs_changed := set_add reminderId (rs_changed s),
               rs_tombstones := (if job = None then set_add reminderId (rs_tombstones s)
                 else set_del reminderId (rs_tombstones s)),
               rs_scheduleTimers := map_delete (rs_scheduleTimers s) reminderId,
               rs_jobs := (case job of Some j \<Rightarrow> map_set (rs_jobs s) reminderId j
                 | None \<Rightarrow> map_delete (rs_jobs s) reminderId)\<rparr>
        in case job of Some j \<Rightarrow> armSchedule j s1 | None \<Rightarrow> s1)"

text \<open>\<open>apply\<close>; a sync of a stopped scheduler or for another Agent's jobs throws and changes nothing.\<close>

definition apply_sync :: "daemon_setup \<Rightarrow> moment \<Rightarrow> sync \<Rightarrow> scheduler \<Rightarrow> scheduler" where
  "apply_sync su mo sync s =
     (if \<not> rs_running s then s
      else case sync of
          Snapshot jobs \<Rightarrow>
            if list_all (\<lambda>j. jb_ownerAgentId j = su_agentId su) jobs then apply_snapshot su mo jobs s else s
        | Upsert job \<Rightarrow>
            if jb_ownerAgentId job = su_agentId su
            then apply_change (Some job) (jb_reminderId job) (jb_version job) s else s
        | CancelJob reminderId version \<Rightarrow> apply_change None reminderId version s)"

text \<open>The answer of \<open>acknowledge\<close>; \<open>None\<close> when its write failed.\<close>

definition acknowledge :: "daemon_setup \<Rightarrow> moment \<Rightarrow> string \<Rightarrow> int \<Rightarrow> scheduler \<Rightarrow> bool option \<times> scheduler" where
  "acknowledge su mo reminderId version s =
     (let k = (reminderId, version);
          receipts = store_read su (mo_find mo) (rs_file s);
          stored = (case receipts of None \<Rightarrow> None | Some rs \<Rightarrow> find_receipt k rs);
          known = (case stored of Some r \<Rightarrow> Some r | None \<Rightarrow> map_get (rs_receipts s) k);
          settle = (\<lambda>r s. (Some True, (set_receipt k r s)\<lparr>rs_receiptTimers := map_delete (rs_receiptTimers s) k\<rparr>))
      in case known of
          None \<Rightarrow> (Some False, s)
        | Some r0 \<Rightarrow>
            if \<not> is_fired r0 then (Some False, s)
            else let r = r0\<lparr>rc_consumed := True, rc_terminal := True\<rparr>
              in case receipts of
                  None \<Rightarrow> settle r s
                | Some rs \<Rightarrow>
                    (case store_write su (mo_write mo) (retained (mo_now mo) (replace_receipt r rs)) of
                       None \<Rightarrow> (None, s)
                     | Some file \<Rightarrow> settle r (s\<lparr>rs_file := file\<rparr>)))"

definition receiptDue :: "daemon_setup \<Rightarrow> moment \<Rightarrow> receipt_key \<Rightarrow> bool \<Rightarrow> proceed \<Rightarrow> scheduler \<Rightarrow> scheduler" where
  "receiptDue su mo k proceed afterPersistence s =
     (let (current, s1) = (if proceed then fresh su mo k s else (map_get (rs_receipts s) k, s))
      in case current of
          None \<Rightarrow> s1
        | Some r \<Rightarrow>
            if rc_consumed r \<or> rc_terminal r then s1
            else if proceed then startEffect (mo_now mo) r s1
            else snd (persistOrRetry su mo r afterPersistence afterPersistence s1))"

definition ends :: "receipt_key \<Rightarrow> bool \<Rightarrow> scheduler \<Rightarrow> scheduler" where
  "ends k ready s = s\<lparr>rs_ending := (k, ready) # rs_ending s\<rparr>"

definition begins :: "receipt_key \<Rightarrow> nat \<Rightarrow> effect \<Rightarrow> scheduler \<Rightarrow> scheduler" where
  "begins k gen e s = s\<lparr>rs_calls := (k, gen, e) # rs_calls s, rs_started := (k, e) # rs_started s\<rparr>"

text \<open>The effect's own persistence, and the call it makes when that worked.\<close>

definition persistEffect :: "daemon_setup \<Rightarrow> moment \<Rightarrow> receipt_key \<Rightarrow> nat \<Rightarrow> scheduler \<Rightarrow> scheduler" where
  "persistEffect su mo k gen s =
     (case map_get (rs_receipts s) k of
        None \<Rightarrow> ends k False s
      | Some r \<Rightarrow>
          let (persisted, s1) = persistOrRetry su mo r NoEffect StartEffect s
          in if \<not> persisted \<or> \<not> rs_running s1 \<or> gen \<noteq> rs_generation s1 then ends k False s1
             else case map_get (rs_receipts s1) k of
                 None \<Rightarrow> ends k False s1
               | Some current \<Rightarrow> begins k gen (if is_fired current then Wake else Fire) s1)"

text \<open>The return of a call, when the scheduler was not stopped meanwhile and the receipt is still open.\<close>

definition still_open ::
  "daemon_setup \<Rightarrow> moment \<Rightarrow> receipt_key \<Rightarrow> nat \<Rightarrow> (receipt \<Rightarrow> scheduler \<Rightarrow> scheduler) \<Rightarrow> scheduler \<Rightarrow> scheduler"
where
  "still_open su mo k gen f s =
     (if \<not> rs_running s \<or> gen \<noteq> rs_generation s then ends k False s
      else let (current, s1) = fresh su mo k s
        in case current of
            None \<Rightarrow> ends k False s1
          | Some r \<Rightarrow> if rc_consumed r \<or> rc_terminal r then ends k False s1 else f r s1)"

text \<open>
  The copy on disk and in memory is \<open>kept\<close>; the timer is the caller's copy's, which looks at the
  receipt afresh when it is due.
\<close>

definition premature :: "daemon_setup \<Rightarrow> moment \<Rightarrow> receipt \<Rightarrow> int option \<Rightarrow> scheduler \<Rightarrow> scheduler" where
  "premature su mo r retryAfterMs s =
     (let retryAt = mo_now mo + (case retryAfterMs of None \<Rightarrow> 0 | Some d \<Rightarrow> d)
      in if retryAt > rc_deadline r
         then (let (deleted, s1) = deleteReceipt su mo (key_of r) s
           in if deleted then armServerRetry (rc_job r) retryAt s1 else s1)
         else (let later = r\<lparr>rc_nextAt := retryAt\<rparr>;
             s1 = snd (persistOrRetry su mo later NoEffect NoEffect (set_receipt (key_of r) later s))
           in case map_get (rs_receipts s1) (key_of r) of
               None \<Rightarrow> s1
             | Some kept \<Rightarrow> armTimer later (rc_nextAt kept) True StartEffect s1))"

definition fireReturned ::
  "daemon_setup \<Rightarrow> moment \<Rightarrow> receipt_key \<Rightarrow> nat \<Rightarrow> fire_response option \<Rightarrow> scheduler \<Rightarrow> scheduler"
where
  "fireReturned su mo k gen response s = still_open su mo k gen (\<lambda>r s1.
     case response of
       None \<Rightarrow> ends k False (retry (mo_now mo) r s1)
     | Some response \<Rightarrow>
         let answered = r\<lparr>rc_serverResult := Some (fr_result response), rc_serverFired := Some (fr_fired response),
               rc_serverCatchup := Some (fr_catchup response)\<rparr>;
             s2 = set_receipt k answered s1
         in if fr_result response = FireAccepted \<and> fr_fired response
            then (let (ready, s3) = persistOrRetry su mo answered NoEffect StartEffect s2 in ends k ready s3)
            else if fr_result response = FirePremature
            then ends k False (premature su mo answered (fr_retryAfterMs response) s2)
            else let closed = answered\<lparr>rc_terminal := True\<rparr>
              in ends k False (snd (persistOrRetry su mo closed NoEffect NoEffect (set_receipt k closed s2)))) s"

definition wakeReturned :: "daemon_setup \<Rightarrow> moment \<Rightarrow> receipt_key \<Rightarrow> nat \<Rightarrow> bool \<Rightarrow> scheduler \<Rightarrow> scheduler" where
  "wakeReturned su mo k gen accepted s = still_open su mo k gen (\<lambda>r s1.
     let woken = r\<lparr>rc_wakeAccepted := accepted, rc_terminal := rc_terminal r \<or> accepted\<rparr>;
         after = (if accepted then NoEffect else RetryEffect)
     in ends k False (snd (persistOrRetry su mo woken after after (set_receipt k woken s1)))) s"

fun run_queued :: "daemon_setup \<Rightarrow> moment \<Rightarrow> queued \<Rightarrow> scheduler \<Rightarrow> scheduler" where
  "run_queued su mo (ApplySync sync) s = apply_sync su mo sync s"
| "run_queued su mo (PrepareDue job) s = prepareDue su mo job s"
| "run_queued su mo (ReceiptDue k proceed afterPersistence) s = receiptDue su mo k proceed afterPersistence s"
| "run_queued su mo (PersistEffect k gen) s = persistEffect su mo k gen s"
| "run_queued su mo (FireReturned k gen response) s = fireReturned su mo k gen response s"
| "run_queued su mo (WakeReturned k gen accepted) s = wakeReturned su mo k gen accepted s"
| "run_queued su mo (PersistExhausted r) s = snd (persistOrRetry su mo r NoEffect NoEffect s)"
| "run_queued su mo (AcknowledgeReceipt reminderId version) s = snd (acknowledge su mo reminderId version s)"

subsection \<open>Steps\<close>

definition stop_scheduler :: "scheduler \<Rightarrow> scheduler" where
  "stop_scheduler s = s\<lparr>rs_running := False, rs_generation := rs_generation s + 1, rs_scheduleTimers := [],
     rs_receiptTimers := [], rs_jobs := [], rs_authorized := False\<rparr>"

text \<open>An effect has ended; one that left the receipt ready to wake the Agent goes on at once.\<close>

definition effectEnded :: "int \<Rightarrow> receipt_key \<Rightarrow> bool \<Rightarrow> scheduler \<Rightarrow> scheduler" where
  "effectEnded now k ready s =
     (let s1 = s\<lparr>rs_ending := remove1 (k, ready) (rs_ending s), rs_inFlight := set_del k (rs_inFlight s)\<rparr>
      in case map_get (rs_receipts s1) k of
          None \<Rightarrow> s1
        | Some r \<Rightarrow>
            if ready \<and> rs_running s1 \<and> is_fired r \<and> \<not> rc_consumed r \<and> \<not> rc_terminal r
            then startEffect now r s1 else s1)"

text \<open>A schedule timer of a version that is no longer the job's only goes away.\<close>

definition scheduleFired :: "int \<Rightarrow> string \<Rightarrow> scheduler \<Rightarrow> scheduler" where
  "scheduleFired now reminderId s =
     (case map_get (rs_scheduleTimers s) reminderId of
        None \<Rightarrow> s
      | Some timer \<Rightarrow>
          let s1 = s\<lparr>rs_scheduleTimers := map_delete (rs_scheduleTimers s) reminderId\<rparr>;
              (version, waits) = (case timer of DueTimer v due \<Rightarrow> (v, due) | ServerRetryTimer v due \<Rightarrow> (v, due))
          in if \<not> rs_running s then s1
             else case current_job s reminderId version of
                 None \<Rightarrow> s1
               | Some job \<Rightarrow> if now < waits then s else enqueue_op (PrepareDue job) s1)"

definition receiptFired :: "int \<Rightarrow> receipt_key \<Rightarrow> scheduler \<Rightarrow> scheduler" where
  "receiptFired now k s =
     (case map_get (rs_receiptTimers s) k of
        None \<Rightarrow> s
      | Some timer \<Rightarrow>
          let s1 = s\<lparr>rs_receiptTimers := map_delete (rs_receiptTimers s) k\<rparr>
          in if \<not> rs_running s then s1
             else if now < tm_nextAt timer then s
             else enqueue_op (ReceiptDue k (tm_proceed timer) (tm_after timer)) s1)"

datatype tick =
    Receive queued
  | RunNext moment
  | ScheduleFires int string
  | ReceiptFires int receipt_key
  | FireAnswers receipt_key nat "fire_response option"
  | WakeAnswers receipt_key nat bool
  | EffectEnds int receipt_key bool
  | Stops

text \<open>What the daemon itself puts in the queue: syncs and acknowledgements.\<close>

fun from_outside :: "queued \<Rightarrow> bool" where
  "from_outside (ApplySync sync) = True"
| "from_outside (AcknowledgeReceipt reminderId version) = True"
| "from_outside _ = False"

inductive reminder_step :: "daemon_setup \<Rightarrow> scheduler \<Rightarrow> tick \<Rightarrow> scheduler \<Rightarrow> bool" for su where
  recv: "from_outside q \<Longrightarrow> reminder_step su s (Receive q) (enqueue_op q s)"
| run_next: "rs_queue s = q # qs \<Longrightarrow> reminder_step su s (RunNext mo) (run_queued su mo q (s\<lparr>rs_queue := qs\<rparr>))"
| schedule_fires: "reminder_step su s (ScheduleFires now reminderId) (scheduleFired now reminderId s)"
| receipt_fires: "reminder_step su s (ReceiptFires now k) (receiptFired now k s)"
| fire_answers: "(k, gen, Fire) \<in> set (rs_calls s) \<Longrightarrow> reminder_step su s (FireAnswers k gen response)
     (enqueue_op (FireReturned k gen response) (s\<lparr>rs_calls := remove1 (k, gen, Fire) (rs_calls s)\<rparr>))"
| wake_answers: "(k, gen, Wake) \<in> set (rs_calls s) \<Longrightarrow> reminder_step su s (WakeAnswers k gen accepted)
     (enqueue_op (WakeReturned k gen accepted) (s\<lparr>rs_calls := remove1 (k, gen, Wake) (rs_calls s)\<rparr>))"
| effect_ends: "(k, ready) \<in> set (rs_ending s) \<Longrightarrow> reminder_step su s (EffectEnds now k ready) (effectEnded now k ready s)"
| stops: "reminder_step su s Stops (stop_scheduler s)"

inductive reminder_run :: "daemon_setup \<Rightarrow> scheduler \<Rightarrow> tick list \<Rightarrow> scheduler \<Rightarrow> bool" for su where
  "reminder_run su s [] s"
| "reminder_run su s ts s' \<Longrightarrow> reminder_step su s' t s'' \<Longrightarrow> reminder_run su s (ts @ [t]) s''"

text \<open>A scheduler at its construction, over the file an earlier daemon left.\<close>

definition new_scheduler :: "receipt_file \<Rightarrow> scheduler" where
  "new_scheduler file = \<lparr>rs_running = True, rs_generation = 0, rs_authorized = False, rs_jobs = [], rs_versions = [],
     rs_tombstones = [], rs_changed = [], rs_receipts = [], rs_failures = [], rs_inFlight = [],
     rs_scheduleTimers = [], rs_receiptTimers = [], rs_queue = [], rs_calls = [], rs_started = [],
     rs_ending = [], rs_file = file\<rparr>"


text \<open>
  A step is determined by its tick, and can be run: \<open>None\<close> when the tick is not possible.
\<close>

fun take_tick :: "daemon_setup \<Rightarrow> tick \<Rightarrow> scheduler \<Rightarrow> scheduler option" where
  "take_tick su (Receive q) s = (if from_outside q then Some (enqueue_op q s) else None)"
| "take_tick su (RunNext mo) s =
     (case rs_queue s of [] \<Rightarrow> None | q # qs \<Rightarrow> Some (run_queued su mo q (s\<lparr>rs_queue := qs\<rparr>)))"
| "take_tick su (ScheduleFires now reminderId) s = Some (scheduleFired now reminderId s)"
| "take_tick su (ReceiptFires now k) s = Some (receiptFired now k s)"
| "take_tick su (FireAnswers k gen response) s =
     (if (k, gen, Fire) \<in> set (rs_calls s)
      then Some (enqueue_op (FireReturned k gen response) (s\<lparr>rs_calls := remove1 (k, gen, Fire) (rs_calls s)\<rparr>))
      else None)"
| "take_tick su (WakeAnswers k gen accepted) s =
     (if (k, gen, Wake) \<in> set (rs_calls s)
      then Some (enqueue_op (WakeReturned k gen accepted) (s\<lparr>rs_calls := remove1 (k, gen, Wake) (rs_calls s)\<rparr>))
      else None)"
| "take_tick su (EffectEnds now k ready) s =
     (if (k, ready) \<in> set (rs_ending s) then Some (effectEnded now k ready s) else None)"
| "take_tick su Stops s = Some (stop_scheduler s)"

fun take_ticks :: "daemon_setup \<Rightarrow> tick list \<Rightarrow> scheduler \<Rightarrow> scheduler option" where
  "take_ticks su [] s = Some s"
| "take_ticks su (t # ts) s = (case take_tick su t s of None \<Rightarrow> None | Some s' \<Rightarrow> take_ticks su ts s')"

lemma take_tick_step: "reminder_step su s t s' \<longleftrightarrow> take_tick su t s = Some s'"
  by (cases t) (auto simp: reminder_step.simps split: list.splits)

lemma run_trans: "reminder_run su s' us s'' \<Longrightarrow> reminder_run su s ts s' \<Longrightarrow> reminder_run su s (ts @ us) s''"
proof (induction rule: reminder_run.induct)
  case (2 s us s' t s'')
  then show ?case using reminder_run.intros(2) [of su _ "ts @ us"] by simp
qed simp

lemma run_one: "reminder_step su s t s' \<Longrightarrow> reminder_run su s [t] s'"
  using reminder_run.intros(2) [OF reminder_run.intros(1)] by simp

lemma run_Cons: "reminder_step su s t s' \<Longrightarrow> reminder_run su s' ts s'' \<Longrightarrow> reminder_run su s (t # ts) s''"
  using run_trans [OF _ run_one] by simp

lemma take_ticks_run: "take_ticks su ts s = Some s' \<Longrightarrow> reminder_run su s ts s'"
  by (induction ts arbitrary: s)
    (auto intro: reminder_run.intros run_Cons simp: take_tick_step split: option.splits)

end
