(* ===== verification/ReminderProperties.thy ===== *)
theory ReminderProperties
  imports ReminderScheduler
begin

text \<open>
  What holds of every receipt a reminder scheduler has, over any run of its queue, timers and calls:
  a predicate on receipts that each of the scheduler's updates keeps holds of every receipt in
  memory, on disk and in the queue. The contract is a locale; its instances give the bound on
  attempts and the flags the store insists on, that the Agent is woken only for an accepted fire, and
  that an acknowledged occurrence is over.
\<close>

subsection \<open>A predicate every update keeps\<close>

text \<open>
  \<open>K\<close> are occurrences known to be over, and \<open>G\<close> says which answers to a fire request may arrive.
\<close>

definition exhausted_at :: "int \<Rightarrow> receipt \<Rightarrow> receipt" where
  "exhausted_at now r = r\<lparr>rc_terminal := True, rc_retryExhausted := Some
     \<lparr>ex_stage = (if is_fired r then WakeStage else FireStage), ex_attempts = rc_attempt r,
      ex_deadline = rc_deadline r, ex_exhaustedAt = now\<rparr>\<rparr>"

definition answered_by :: "fire_response \<Rightarrow> receipt \<Rightarrow> receipt" where
  "answered_by response r = r\<lparr>rc_serverResult := Some (fr_result response), rc_serverFired := Some (fr_fired response),
     rc_serverCatchup := Some (fr_catchup response)\<rparr>"

locale receipt_invariant =
  fixes su :: daemon_setup and P :: "receipt \<Rightarrow> bool" and K :: "receipt_key \<Rightarrow> bool"
    and G :: "receipt_key \<Rightarrow> fire_response \<Rightarrow> bool"
  assumes later: "P r \<Longrightarrow> P (r\<lparr>rc_nextAt := n\<rparr>)"
    and attempted: "P r \<Longrightarrow> \<not> rc_terminal r \<Longrightarrow> rc_attempt r < MAX_ATTEMPTS \<Longrightarrow> P (r\<lparr>rc_attempt := rc_attempt r + 1\<rparr>)"
    and exhausted: "P r \<Longrightarrow> \<not> rc_terminal r \<Longrightarrow> P (exhausted_at now r)"
    and acknowledged: "P r \<Longrightarrow> P (r\<lparr>rc_consumed := True, rc_terminal := True\<rparr>)"
    and cleared: "P r \<Longrightarrow> P (r\<lparr>rc_consumed := True, rc_terminal := True, rc_retryExhausted := None\<rparr>)"
    and answered: "P r \<Longrightarrow> \<not> rc_terminal r \<Longrightarrow> G (key_of r) response \<Longrightarrow> P (answered_by response r)"
    and closed: "P r \<Longrightarrow> P (r\<lparr>rc_terminal := True\<rparr>)"
    and woken: "P r \<Longrightarrow> \<not> rc_terminal r \<Longrightarrow> P (r\<lparr>rc_wakeAccepted := accepted, rc_terminal := rc_terminal r \<or> accepted\<rparr>)"
    and created: "\<not> K (jb_reminderId job, jb_version job) \<Longrightarrow> P (new_receipt su mo job)"
    and over: "P r \<Longrightarrow> K (key_of r) \<Longrightarrow> rc_terminal r"
begin

definition holds :: "scheduler \<Rightarrow> bool" where
  "holds s \<longleftrightarrow> (\<forall>k r. map_get (rs_receipts s) k = Some r \<longrightarrow> P r \<and> key_of r = k) \<and>
     (\<forall>k. K k \<longrightarrow> map_get (rs_receipts s) k \<noteq> None) \<and>
     (\<forall>rs. rs_file s = Some rs \<longrightarrow> list_all P rs) \<and>
     (\<forall>r. PersistExhausted r \<in> set (rs_queue s) \<longrightarrow> P r \<and> rc_terminal r) \<and>
     (\<forall>k gen response. FireReturned k gen (Some response) \<in> set (rs_queue s) \<longrightarrow> G k response)"

lemma holdsD:
  assumes "holds s"
  shows "map_get (rs_receipts s) k = Some r \<Longrightarrow> P r" "map_get (rs_receipts s) k = Some r \<Longrightarrow> key_of r = k"
    "K k \<Longrightarrow> map_get (rs_receipts s) k \<noteq> None" "rs_file s = Some rs \<Longrightarrow> list_all P rs"
    "PersistExhausted r \<in> set (rs_queue s) \<Longrightarrow> P r"
    "FireReturned k gen (Some response) \<in> set (rs_queue s) \<Longrightarrow> G k response"
    "PersistExhausted r \<in> set (rs_queue s) \<Longrightarrow> rc_terminal r"
  using assms unfolding holds_def by blast+

lemma holds_cong:
  assumes "rs_receipts s' = rs_receipts s" "rs_file s' = rs_file s" "set (rs_queue s') \<subseteq> set (rs_queue s)" "holds s"
  shows "holds s'"
  using assms unfolding holds_def by auto

lemma holds_enqueue:
  assumes "holds s" "\<And>r. q = PersistExhausted r \<Longrightarrow> P r \<and> rc_terminal r"
    and "\<And>k gen response. q = FireReturned k gen (Some response) \<Longrightarrow> G k response"
  shows "holds (enqueue_op q s)"
  using assms unfolding holds_def enqueue_op_def by auto

lemma holds_set:
  assumes "holds s" "P r" "key_of r = k"
  shows "holds (set_receipt k r s)"
  using assms unfolding holds_def set_receipt_def by auto

lemma holds_file:
  assumes "holds s" "list_all P rs"
  shows "holds (s\<lparr>rs_file := Some rs\<rparr>)"
  using assms unfolding holds_def by auto

lemma holds_arm:
  assumes "holds s" "P r"
  shows "holds (armReceipt r due p q s)"
proof -
  have "holds (set_receipt (key_of r) (r\<lparr>rc_nextAt := min (rc_deadline r) due\<rparr>) s)"
    by (rule holds_set [OF assms(1) later [OF assms(2)]]) (simp add: key_of_def)
  then have "holds (s\<lparr>rs_receipts := map_set (rs_receipts s) (key_of r) (r\<lparr>rc_nextAt := min (rc_deadline r) due\<rparr>),
      rs_receiptTimers := x\<rparr>)" for x
    by (rule holds_cong [rotated 3]) (simp_all add: set_receipt_def)
  then show ?thesis using assms(1) by (simp add: armReceipt_def Let_def)
qed

lemma holds_exhaust:
  assumes "holds s" "P r"
  shows "holds (exhaust now r s)"
proof (cases "rc_terminal r")
  case False
  have ended: "P (exhausted_at now r)" "key_of (exhausted_at now r) = key_of r" "rc_terminal (exhausted_at now r)"
    using exhausted [OF assms(2) False] by (simp_all add: exhausted_at_def key_of_def)
  have "exhaust now r s = enqueue_op (PersistExhausted (exhausted_at now r)) (set_receipt (key_of r) (exhausted_at now r) s)"
    using False by (simp add: exhaust_def exhausted_at_def Let_def)
  with ended assms(1) show ?thesis by (auto intro!: holds_enqueue holds_set)
qed (use assms in \<open>simp add: exhaust_def\<close>)

lemma holds_retry: "holds s \<Longrightarrow> P r \<Longrightarrow> holds (retry now r s)"
  by (simp add: retry_def holds_exhaust holds_arm)

lemma holds_start:
  assumes "holds s" "P r" "\<not> rc_terminal r"
  shows "holds (startEffect now r s)"
proof -
  have "holds (enqueue_op (PersistEffect k g) ((set_receipt (key_of r) (r\<lparr>rc_attempt := rc_attempt r + 1\<rparr>) s)
      \<lparr>rs_inFlight := x\<rparr>))" if "rc_attempt r < MAX_ATTEMPTS" for k g x
  proof (rule holds_enqueue)
    have "holds (set_receipt (key_of r) (r\<lparr>rc_attempt := rc_attempt r + 1\<rparr>) s)"
      by (rule holds_set [OF assms(1) attempted [OF assms(2,3) that]]) (simp add: key_of_def)
    then show "holds ((set_receipt (key_of r) (r\<lparr>rc_attempt := rc_attempt r + 1\<rparr>) s)\<lparr>rs_inFlight := x\<rparr>)"
      by (rule holds_cong [rotated 3]) simp_all
  qed simp_all
  then show ?thesis using assms by (simp add: startEffect_def holds_exhaust not_le)
qed

lemma holds_read:
  assumes "holds s" "store_read su ok (rs_file s) = Some rs"
  shows "list_all P rs"
  using assms holdsD(4) [OF assms(1)]
  by (auto simp: store_read_def read_receipts_def split: if_splits option.splits)

lemma find_receipt_Some: "find_receipt k rs = Some r \<Longrightarrow> r \<in> set rs \<and> key_of r = k"
  by (induction rs) (auto simp: find_receipt_def split: if_splits)

lemma holds_merge:
  assumes "P r" "list_all P rs"
  shows "P (merge_receipt (find_receipt k rs) r)"
  using assms(1) cleared [OF assms(1)] by (auto simp: merge_receipt_def split: option.split)

lemma list_all_replace: "list_all Q rs \<Longrightarrow> Q r \<Longrightarrow> list_all Q (replace_receipt r rs)"
  by (auto simp: replace_receipt_def list_all_iff)

lemma list_all_retained: "list_all Q rs \<Longrightarrow> list_all Q (retained now rs)"
  by (auto simp: retained_def list_all_iff)

lemma write_file: "store_write su ok rs = Some f \<Longrightarrow> f = Some rs"
  by (auto simp: store_write_def write_receipts_def split: if_splits)

lemma merge_fields: "key_of (merge_receipt e r) = key_of r" "rc_terminal r \<Longrightarrow> rc_terminal (merge_receipt e r)"
  by (auto simp: merge_receipt_def key_of_def split: option.split)

lemma holds_save:
  assumes "holds s" "P r" "saveMerged su mo r s = Some (current, s')"
  shows "holds s'" "P current" "key_of current = key_of r"
proof -
  obtain rs f where rs: "store_read su (mo_merge mo) (rs_file s) = Some rs"
    and current: "current = merge_receipt (find_receipt (key_of r) rs) r" and s': "s' = s\<lparr>rs_file := f\<rparr>"
    and f: "store_write su (mo_write mo) (retained (mo_now mo) (replace_receipt current rs)) = Some f"
    using assms(3) by (auto simp: saveMerged_def Let_def split: option.splits)
  have all: "list_all P rs" by (rule holds_read [OF assms(1) rs])
  show "P current" unfolding current by (rule holds_merge [OF assms(2) all])
  then have "list_all P (retained (mo_now mo) (replace_receipt current rs))"
    by (intro list_all_retained list_all_replace all)
  then show "holds s'" using holds_file [OF assms(1)] write_file [OF f] s' by simp
  show "key_of current = key_of r" by (simp add: current merge_fields)
qed

lemma holds_after_persist:
  "holds s \<Longrightarrow> P r \<Longrightarrow> holds (after_persist now r p s)"
  by (simp add: after_persist_def holds_start holds_retry split: proceed.split)

lemma holds_persist:
  assumes "holds s" "P r"
  shows "holds (snd (persistOrRetry su mo r p q s))"
proof (cases "saveMerged su mo r s")
  case None
  have "holds (s\<lparr>rs_failures := x\<rparr>)" for x using assms(1) by (rule holds_cong [rotated 3]) simp_all
  with None assms(2) show ?thesis by (simp add: persistOrRetry_def Let_def holds_arm)
next
  case (Some x)
  obtain current s1 where x: "x = (current, s1)" by fastforce
  note saved = holds_save [OF assms Some [unfolded x]]
  have "holds ((set_receipt (key_of r) current s1)\<lparr>rs_failures := y\<rparr>)" for y
    using holds_set [OF saved(1,2,3)] by (rule holds_cong [rotated 3]) simp_all
  with Some x saved(2) show ?thesis by (simp add: persistOrRetry_def Let_def holds_after_persist)
qed

lemma holds_fresh:
  assumes "holds s" "fresh su mo k s = (found, s')"
  shows "holds s'" "found = map_get (rs_receipts s') k"
proof -
  show "found = map_get (rs_receipts s') k" using assms(2) by (auto simp: fresh_def Let_def)
  show "holds s'"
  proof (cases "store_read su (mo_find mo) (rs_file s)")
    case None
    with assms show ?thesis by (auto simp: fresh_def Let_def)
  next
    case (Some rs)
    from holds_read [OF assms(1) Some] have "find_receipt k rs = Some r \<Longrightarrow> P r \<and> key_of r = k" for r
      using find_receipt_Some [of k rs r] by (auto simp: list_all_iff)
    then have "find_receipt k rs = Some r \<Longrightarrow> holds (set_receipt k r s)" for r
      using holds_set [OF assms(1)] by simp
    with Some assms show ?thesis by (cases "find_receipt k rs") (auto simp: fresh_def Let_def)
  qed
qed

lemma holds_delete:
  assumes "holds s" "\<not> K k"
  shows "holds (snd (deleteReceipt su mo k s))"
proof (cases "store_read su (mo_merge mo) (rs_file s)")
  case (Some rs)
  have all: "list_all P (filter (\<lambda>r. key_of r \<noteq> k) rs)"
    using holds_read [OF assms(1) Some] by (auto simp: list_all_iff)
  have "holds (s\<lparr>rs_file := Some (filter (\<lambda>r. key_of r \<noteq> k) rs)\<rparr>)" by (rule holds_file [OF assms(1) all])
  then have "holds (s\<lparr>rs_file := Some (filter (\<lambda>r. key_of r \<noteq> k) rs), rs_receipts := map_delete (rs_receipts s) k\<rparr>)"
    using assms(2) unfolding holds_def by auto
  with Some assms(1) show ?thesis
    by (auto simp: deleteReceipt_def dest!: write_file split: option.splits)
qed (use assms in \<open>simp add: deleteReceipt_def\<close>)

end

subsection \<open>Every operation keeps it\<close>

lemma new_receipt_key: "key_of (new_receipt su mo job) = (jb_reminderId job, jb_version job)"
  by (simp add: key_of_def new_receipt_def)

context receipt_invariant begin

lemma holds_fields:
  assumes "holds s"
  shows "holds (s\<lparr>rs_inFlight := a\<rparr>)" "holds (s\<lparr>rs_scheduleTimers := b\<rparr>)" "holds (s\<lparr>rs_receiptTimers := c\<rparr>)"
    "holds (s\<lparr>rs_jobs := d\<rparr>)" "holds (s\<lparr>rs_authorized := e\<rparr>)" "holds (s\<lparr>rs_calls := f\<rparr>)"
    "holds (s\<lparr>rs_ending := g\<rparr>)" "holds (s\<lparr>rs_versions := h, rs_changed := i\<rparr>)"
    "holds (ends k ready s)" "holds (begins k gen eff s)" "holds (stop_scheduler s)"
    "holds (armSchedule job s)" "holds (armServerRetry job due s)" "holds (armTimer r due p q s)"
  by (rule holds_cong [OF _ _ _ assms]; simp add: ends_def begins_def stop_scheduler_def armSchedule_def
      armServerRetry_def armTimer_def)+

lemma holds_prepareDue:
  assumes "holds s"
  shows "holds (prepareDue su mo job s)"
proof -
  let ?k = "(jb_reminderId job, jb_version job)"
  have go: "holds (snd (persistOrRetry su mo r p q (set_receipt ?k r s)))" if "P r" "key_of r = ?k" for r p q
    using holds_persist [OF holds_set [OF assms that] that(1)] .
  consider (known) r where "map_get (rs_receipts s) ?k = Some r"
    | (disk) rs r where "map_get (rs_receipts s) ?k = None" "store_read su (mo_find mo) (rs_file s) = Some rs"
        "find_receipt ?k rs = Some r"
    | (new) "map_get (rs_receipts s) ?k = None"
        "store_read su (mo_find mo) (rs_file s) = None \<or>
         (\<exists>rs. store_read su (mo_find mo) (rs_file s) = Some rs \<and> find_receipt ?k rs = None)"
    by (metis option.exhaust)
  then show ?thesis
  proof cases
    case known
    with go holdsD(1,2) [OF assms known] assms show ?thesis by (simp add: prepareDue_def Let_def)
  next
    case disk
    then have "P r" "key_of r = ?k"
      using holds_read [OF assms disk(2)] find_receipt_Some [of ?k rs r] by (auto simp: list_all_iff)
    with go disk assms show ?thesis by (simp add: prepareDue_def Let_def)
  next
    case new
    then have "P (new_receipt su mo job)" using created holdsD(3) [OF assms, of ?k] by auto
    with go [OF this new_receipt_key] new assms show ?thesis by (auto simp: prepareDue_def Let_def)
  qed
qed

lemma holds_receiptDue:
  assumes "holds s"
  shows "holds (receiptDue su mo k p q s)"
proof -
  obtain found s1 where f: "(if p then fresh su mo k s else (map_get (rs_receipts s) k, s)) = (found, s1)" by fastforce
  have s1: "holds s1 \<and> found = map_get (rs_receipts s1) k"
    using f assms holds_fresh [OF assms] by (cases p) auto
  then have "found = Some r \<Longrightarrow> P r" for r using holdsD(1) by metis
  with s1 f show ?thesis
    by (auto simp: receiptDue_def Let_def holds_start holds_persist split: option.split)
qed

lemma holds_persistEffect:
  assumes "holds s"
  shows "holds (persistEffect su mo k gen s)"
proof (cases "map_get (rs_receipts s) k")
  case None
  with assms show ?thesis by (simp add: persistEffect_def holds_fields)
next
  case (Some r)
  obtain b s1 where p: "persistOrRetry su mo r NoEffect StartEffect s = (b, s1)" by fastforce
  with holds_persist [OF assms holdsD(1) [OF assms Some], of mo NoEffect StartEffect] have "holds s1" by simp
  with Some p show ?thesis by (auto simp: persistEffect_def holds_fields split: option.split)
qed

lemma holds_still_open:
  assumes "holds s"
    and "\<And>r s. holds s \<Longrightarrow> map_get (rs_receipts s) k = Some r \<Longrightarrow> \<not> rc_terminal r \<Longrightarrow> holds (f r s)"
  shows "holds (still_open su mo k gen f s)"
proof -
  obtain found s1 where f: "fresh su mo k s = (found, s1)" by fastforce
  note s1 = holds_fresh [OF assms(1) f]
  show ?thesis using f s1 assms by (auto simp: still_open_def holds_fields split: option.split)
qed

lemma holds_premature:
  assumes "holds s" "P r" "\<not> rc_terminal r"
  shows "holds (premature su mo r w s)"
proof -
  have "\<not> K (key_of r)" using over [OF assms(2)] assms(3) by blast
  with assms(1) have "holds (snd (deleteReceipt su mo (key_of r) s))" by (rule holds_delete)
  moreover have "holds (snd (persistOrRetry su mo (r\<lparr>rc_nextAt := n\<rparr>) p' q'
      (set_receipt (key_of r) (r\<lparr>rc_nextAt := n\<rparr>) s)))" for n p' q'
    using assms by (intro holds_persist later holds_set) (simp_all add: key_of_def)
  ultimately show ?thesis
    by (cases "deleteReceipt su mo (key_of r) s") (auto simp: premature_def Let_def holds_fields split: option.split)
qed

lemma holds_fireReturned:
  assumes "holds s" "\<And>x. response = Some x \<Longrightarrow> G k x"
  shows "holds (fireReturned su mo k gen response s)"
  unfolding fireReturned_def
proof (rule holds_still_open [OF assms(1)])
  fix r s1
  assume s1: "holds s1" and r: "map_get (rs_receipts s1) k = Some r" "\<not> rc_terminal r"
  have Pr: "P r" "key_of r = k" using holdsD(1,2) [OF s1 r(1)] .
  show "holds (case response of None \<Rightarrow> ends k False (retry (mo_now mo) r s1) | Some response \<Rightarrow>
      let answered = r\<lparr>rc_serverResult := Some (fr_result response), rc_serverFired := Some (fr_fired response),
               rc_serverCatchup := Some (fr_catchup response)\<rparr>;
             s2 = set_receipt k answered s1
         in if fr_result response = FireAccepted \<and> fr_fired response
            then (let (ready, s3) = persistOrRetry su mo answered NoEffect StartEffect s2 in ends k ready s3)
            else if fr_result response = FirePremature
            then ends k False (premature su mo answered (fr_retryAfterMs response) s2)
            else let closed = answered\<lparr>rc_terminal := True\<rparr>
              in ends k False (snd (persistOrRetry su mo closed NoEffect NoEffect (set_receipt k closed s2))))"
  proof (cases response)
    case None
    with s1 Pr show ?thesis by (simp add: holds_fields holds_retry)
  next
    case (Some x)
    let ?a = "answered_by x r"
    have a: "P ?a" "key_of ?a = k" "\<not> rc_terminal ?a"
      using answered [OF Pr(1) r(2)] assms(2) [OF Some] Pr(2) r(2) by (simp_all add: answered_by_def key_of_def)
    have s2: "holds (set_receipt k ?a s1)" by (rule holds_set [OF s1 a(1,2)])
    have c: "P (?a\<lparr>rc_terminal := True\<rparr>)" "key_of (?a\<lparr>rc_terminal := True\<rparr>) = k"
      using closed [OF a(1)] a(2) by (simp_all add: key_of_def)
    have 1: "holds (ends k b (snd (persistOrRetry su mo ?a NoEffect StartEffect (set_receipt k ?a s1))))" for b
      using s2 a by (intro holds_fields holds_persist)
    have 2: "holds (ends k False (premature su mo ?a w (set_receipt k ?a s1)))" for w
      using s2 a by (intro holds_fields holds_premature)
    have 3: "holds (ends k False (snd (persistOrRetry su mo (?a\<lparr>rc_terminal := True\<rparr>) NoEffect NoEffect
        (set_receipt k (?a\<lparr>rc_terminal := True\<rparr>) (set_receipt k ?a s1)))))"
      using s1 a s2 c by (intro holds_fields holds_persist holds_set)
    show ?thesis unfolding Some option.case Let_def answered_by_def [symmetric]
      using 1 2 3 by (simp add: case_prod_unfold)
  qed
qed

lemma holds_wakeReturned:
  assumes "holds s"
  shows "holds (wakeReturned su mo k gen accepted s)"
  unfolding wakeReturned_def
proof (rule holds_still_open [OF assms])
  fix r s1
  assume s1: "holds s1" and r: "map_get (rs_receipts s1) k = Some r" "\<not> rc_terminal r"
  let ?w = "r\<lparr>rc_wakeAccepted := accepted, rc_terminal := rc_terminal r \<or> accepted\<rparr>"
  have w: "P ?w" "key_of ?w = k"
    using woken [OF holdsD(1) [OF s1 r(1)] r(2)] holdsD(2) [OF s1 r(1)] by (simp_all add: key_of_def)
  have "holds (ends k False (snd (persistOrRetry su mo ?w after after (set_receipt k ?w s1))))" for after
    using s1 w by (intro holds_fields holds_persist holds_set)
  then show "holds (let woken = ?w; after = (if accepted then NoEffect else RetryEffect)
      in ends k False (snd (persistOrRetry su mo woken after after (set_receipt k woken s1))))"
    unfolding Let_def .
qed

end

context receipt_invariant begin

lemma holds_acknowledge:
  assumes "holds s"
  shows "holds (snd (acknowledge su mo reminderId version s))"
proof -
  let ?k = "(reminderId, version)"
  define receipts where "receipts = store_read su (mo_find mo) (rs_file s)"
  define known where "known = (case (case receipts of None \<Rightarrow> None | Some rs \<Rightarrow> find_receipt ?k rs) of
    Some r \<Rightarrow> Some r | None \<Rightarrow> map_get (rs_receipts s) ?k)"
  have ack: "acknowledge su mo reminderId version s = (case known of
          None \<Rightarrow> (Some False, s)
        | Some r0 \<Rightarrow>
            if \<not> is_fired r0 then (Some False, s)
            else let r = r0\<lparr>rc_consumed := True, rc_terminal := True\<rparr>;
               settle = (\<lambda>r s. (Some True, (set_receipt ?k r s)\<lparr>rs_receiptTimers := map_delete (rs_receiptTimers s) ?k\<rparr>))
              in case receipts of
                  None \<Rightarrow> settle r s
                | Some rs \<Rightarrow>
                    (case store_write su (mo_write mo) (retained (mo_now mo) (replace_receipt r rs)) of
                       None \<Rightarrow> (None, s)
                     | Some file \<Rightarrow> settle r (s\<lparr>rs_file := file\<rparr>)))"
    unfolding acknowledge_def receipts_def known_def Let_def ..
  have all: "receipts = Some rs \<Longrightarrow> list_all P rs" for rs
    using holds_read [OF assms] by (simp add: receipts_def)
  have known: "known = Some r0 \<Longrightarrow> P r0 \<and> key_of r0 = ?k" for r0
    using all holdsD(1,2) [OF assms] find_receipt_Some
    by (fastforce simp: known_def list_all_iff split: option.splits)
  have settle: "holds ((set_receipt ?k (r0\<lparr>rc_consumed := True, rc_terminal := True\<rparr>) s1)\<lparr>rs_receiptTimers := x\<rparr>)"
    if "known = Some r0" "holds s1" for r0 s1 x
    using known [OF that(1)] acknowledged that(2) by (intro holds_fields holds_set) (auto simp: key_of_def)
  have written: "holds (s\<lparr>rs_file := f\<rparr>)" if "known = Some r0" "receipts = Some rs"
      "store_write su ok (retained now (replace_receipt (r0\<lparr>rc_consumed := True, rc_terminal := True\<rparr>) rs)) = Some f" for r0 rs ok now f
    using holds_file [OF assms] write_file [OF that(3)] all [OF that(2)] known [OF that(1)] acknowledged
    by (simp add: list_all_retained list_all_replace)
  show ?thesis unfolding ack Let_def
    using assms settle written by (auto split: option.splits)
qed

lemma holds_restore:
  assumes "holds s"
  shows "holds (restore su mo s)"
proof (cases "store_read su (mo_find mo) (rs_file s)")
  case (Some rs)
  have one: "holds (restore_receipt su r s)" if "holds s" "P r" for r s
    using that by (auto simp: restore_receipt_def Let_def intro!: holds_arm holds_set)
  have "holds (fold (restore_receipt su) rs s)" if "list_all P rs" "holds s" for rs
    using that by (induction rs arbitrary: s) (simp_all add: one)
  with Some holds_read [OF assms Some] assms show ?thesis by (simp add: restore_def)
qed (use assms in \<open>simp add: restore_def\<close>)

lemma take_jobs_fields:
  "rs_receipts (snd (fold take_job js (m, s))) = rs_receipts s \<and> rs_file (snd (fold take_job js (m, s))) = rs_file s \<and>
   rs_queue (snd (fold take_job js (m, s))) = rs_queue s"
  by (induction js arbitrary: m s) (simp_all add: take_job_def)

lemma arm_schedules_fields:
  "rs_receipts (fold armSchedule js s) = rs_receipts s \<and> rs_file (fold armSchedule js s) = rs_file s \<and>
   rs_queue (fold armSchedule js s) = rs_queue s"
  by (induction js arbitrary: s) (simp_all add: armSchedule_def)

lemma holds_apply:
  assumes "holds s"
  shows "holds (apply_sync su mo sync s)"
proof -
  have "holds (apply_change job reminderId version s)" for job reminderId version
    by (rule holds_cong [OF _ _ _ assms]) (simp_all add: apply_change_def armSchedule_def Let_def split: option.split)
  moreover have "holds (apply_snapshot su mo given s)" for given
  proof -
    obtain taken s1 where t: "fold take_job given ([], s\<lparr>rs_authorized := True, rs_scheduleTimers := []\<rparr>) = (taken, s1)"
      by fastforce
    let ?s2 = "fold armSchedule js (s1\<lparr>rs_jobs := jobs\<rparr>)"
    have "holds (fold armSchedule js (s1\<lparr>rs_jobs := jobs\<rparr>))" for js jobs
      using take_jobs_fields [of given "[]" "s\<lparr>rs_authorized := True, rs_scheduleTimers := []\<rparr>"]
        arm_schedules_fields [of js "s1\<lparr>rs_jobs := jobs\<rparr>"]
      by (intro holds_cong [OF _ _ _ assms]) (simp_all add: t)
    then show ?thesis by (simp add: apply_snapshot_def t holds_restore Let_def)
  qed
  ultimately show ?thesis using assms by (simp add: apply_sync_def split: sync.split)
qed

lemma holds_run_queued:
  assumes "holds s" "q \<in> set (rs_queue s)" "set qs \<subseteq> set (rs_queue s)"
  shows "holds (run_queued su mo q (s\<lparr>rs_queue := qs\<rparr>))"
proof -
  have s: "holds (s\<lparr>rs_queue := qs\<rparr>)" by (rule holds_cong [OF _ _ _ assms(1)]) (use assms(3) in simp_all)
  show ?thesis using s holdsD(5,6) [OF assms(1)] assms(2)
    by (cases q)
      (auto intro: holds_apply holds_prepareDue holds_receiptDue holds_persistEffect holds_fireReturned
        holds_wakeReturned holds_persist holds_acknowledge)
qed

text \<open>The answers a step brings in.\<close>

definition answers_good :: "tick \<Rightarrow> bool" where
  "answers_good t \<longleftrightarrow> (\<forall>k gen response. t = FireAnswers k gen (Some response) \<longrightarrow> G k response)"

lemma holds_step:
  assumes "reminder_step su s t s'" "holds s" "answers_good t"
  shows "holds s'"
  using assms(1)
proof (cases rule: reminder_step.cases)
  case (recv q)
  then show ?thesis using holds_enqueue [OF assms(2), of q] by (cases q) auto
next
  case (run_next q qs mo)
  then show ?thesis using holds_run_queued [OF assms(2), of q qs mo] by auto
next
  case (schedule_fires now reminderId)
  have "holds (enqueue_op (PrepareDue job) (s\<lparr>rs_scheduleTimers := x\<rparr>))" for job x
    by (rule holds_enqueue) (simp_all add: holds_fields assms(2))
  with schedule_fires assms(2) show ?thesis
    by (auto simp: scheduleFired_def Let_def holds_fields split: option.split schedule_timer.split)
next
  case (receipt_fires now k)
  have "holds (enqueue_op (ReceiptDue k p a) (s\<lparr>rs_receiptTimers := x\<rparr>))" for p a x
    by (rule holds_enqueue) (simp_all add: holds_fields assms(2))
  with receipt_fires assms(2) show ?thesis by (auto simp: receiptFired_def Let_def holds_fields split: option.split)
next
  case (fire_answers k gen response)
  then show ?thesis using assms(3) by (auto simp: answers_good_def intro!: holds_enqueue holds_fields assms(2))
next
  case (wake_answers k gen accepted)
  then show ?thesis by (auto intro!: holds_enqueue holds_fields assms(2))
next
  case (effect_ends k ready now)
  let ?s = "s\<lparr>rs_ending := remove1 (k, ready) (rs_ending s), rs_inFlight := set_del k (rs_inFlight s)\<rparr>"
  have "holds ?s" using assms(2) by (intro holds_fields)
  with effect_ends show ?thesis
    by (auto simp: effectEnded_def Let_def dest: holdsD(1) intro!: holds_start split: option.split)
next
  case stops
  then show ?thesis by (simp add: holds_fields assms(2))
qed

lemma holds_run:
  assumes "reminder_run su s ts s'" "holds s" "list_all answers_good ts"
  shows "holds s'"
  using assms by (induction rule: reminder_run.induct) (auto intro: holds_step)

end

subsection \<open>When a call starts\<close>

lemma started_basic [simp]:
  "rs_started (enqueue_op q s) = rs_started s" "rs_started (set_receipt k r s) = rs_started s"
  "rs_started (armReceipt r due p a s) = rs_started s" "rs_started (armTimer r due p a s) = rs_started s"
  "rs_started (ends k b s) = rs_started s"
  "rs_started (armSchedule job s) = rs_started s" "rs_started (armServerRetry job due s) = rs_started s"
  by (simp_all add: enqueue_op_def set_receipt_def armReceipt_def armTimer_def ends_def armSchedule_def
      armServerRetry_def Let_def)

lemma started_retry [simp]:
  "rs_started (exhaust now r s) = rs_started s" "rs_started (retry now r s) = rs_started s"
  "rs_started (startEffect now r s) = rs_started s" "rs_started (after_persist now r p s) = rs_started s"
  by (simp_all add: exhaust_def retry_def startEffect_def after_persist_def Let_def split: proceed.split)

lemma started_store [simp]:
  "rs_started (snd (persistOrRetry su mo r p a s)) = rs_started s"
  "rs_started (snd (fresh su mo k s)) = rs_started s"
  "rs_started (snd (deleteReceipt su mo k s)) = rs_started s"
  "rs_started (snd (acknowledge su mo i v s)) = rs_started s"
proof -
  show "rs_started (snd (persistOrRetry su mo r p a s)) = rs_started s"
    by (cases "saveMerged su mo r s") (auto simp: persistOrRetry_def saveMerged_def Let_def split: option.splits)
  show "rs_started (snd (fresh su mo k s)) = rs_started s"
    by (simp add: fresh_def Let_def split: option.split)
  show "rs_started (snd (deleteReceipt su mo k s)) = rs_started s"
    by (simp add: deleteReceipt_def split: option.split)
  show "rs_started (snd (acknowledge su mo i v s)) = rs_started s"
    by (auto simp: acknowledge_def Let_def split: option.split)
qed

lemma started_fold:
  assumes "\<And>x s. rs_started (f x s) = rs_started s"
  shows "rs_started (fold f xs s) = rs_started s"
  using assms by (induction xs arbitrary: s) simp_all

lemma started_take: "rs_started (snd (fold take_job js p)) = rs_started (snd p)"
  by (induction js arbitrary: p) (simp_all add: take_job_def case_prod_unfold)

lemma started_apply [simp]: "rs_started (apply_sync su mo sync s) = rs_started s"
proof -
  have "rs_started (restore su mo s) = rs_started s" for s
    by (simp add: restore_def started_fold restore_receipt_def Let_def split: option.split)
  then have "rs_started (apply_snapshot su mo given s) = rs_started s" for given
    using started_take [of given "([], s\<lparr>rs_authorized := True, rs_scheduleTimers := []\<rparr>)"]
    by (simp add: apply_snapshot_def case_prod_unfold Let_def started_fold)
  moreover have "rs_started (apply_change job i v s) = rs_started s" for job i v
    by (simp add: apply_change_def Let_def split: option.split)
  ultimately show ?thesis by (simp add: apply_sync_def split: sync.split)
qed

lemma started_open:
  assumes "\<And>r s. rs_started (f r s) = rs_started s"
  shows "rs_started (still_open su mo k gen f s) = rs_started s"
proof -
  obtain found s1 where f: "fresh su mo k s = (found, s1)" by fastforce
  then have "rs_started s1 = rs_started s" using started_store(2) [of su mo k s] by simp
  with f assms show ?thesis by (simp add: still_open_def split: option.split)
qed

lemma started_returned [simp]:
  "rs_started (fireReturned su mo k gen response s) = rs_started s"
  "rs_started (wakeReturned su mo k gen accepted s) = rs_started s"
proof -
  have "rs_started (premature su mo r w s) = rs_started s" for r w s
  proof -
    obtain b s1 where d: "deleteReceipt su mo (key_of r) s = (b, s1)" by fastforce
    then have "rs_started s1 = rs_started s" using started_store(3) [of su mo "key_of r" s] by simp
    with d show ?thesis by (simp add: premature_def Let_def split: option.split)
  qed
  then show "rs_started (fireReturned su mo k gen response s) = rs_started s"
    unfolding fireReturned_def
    by (intro started_open) (simp add: Let_def case_prod_unfold split: option.split)
  show "rs_started (wakeReturned su mo k gen accepted s) = rs_started s"
    unfolding wakeReturned_def by (intro started_open) (simp add: Let_def)
qed

definition starts :: "scheduler \<Rightarrow> scheduler \<Rightarrow> bool" where
  "starts s s' \<longleftrightarrow> rs_started s' = rs_started s \<or>
     (\<exists>k e r. rs_started s' = (k, e) # rs_started s \<and> map_get (rs_receipts s') k = Some r \<and>
        \<not> rc_terminal r \<and> \<not> rc_consumed r \<and> (e = Wake \<longrightarrow> is_fired r))"

lemma persist_going:
  "persistOrRetry su mo r p a s = (True, s') \<Longrightarrow> \<exists>r'. map_get (rs_receipts s') (key_of r) = Some r' \<and>
     \<not> rc_consumed r' \<and> \<not> rc_terminal r'"
  by (auto simp: persistOrRetry_def still_going_def Let_def split: option.splits)

lemma starts_persistEffect:
  assumes "\<And>r. map_get (rs_receipts s) k = Some r \<Longrightarrow> key_of r = k"
  shows "starts s (persistEffect su mo k gen s)"
proof (cases "map_get (rs_receipts s) k")
  case None
  then show ?thesis by (simp add: persistEffect_def starts_def)
next
  case (Some r)
  obtain b s1 where p: "persistOrRetry su mo r NoEffect StartEffect s = (b, s1)" by fastforce
  then have s1: "rs_started s1 = rs_started s"
    using started_store(1) [of su mo r NoEffect StartEffect s] by simp
  show ?thesis
  proof (cases "b \<and> rs_running s1 \<and> gen = rs_generation s1")
    case False
    with Some p s1 show ?thesis by (auto simp: persistEffect_def starts_def)
  next
    case True
    with persist_going [of su mo r NoEffect StartEffect s s1] p assms [OF Some] obtain r' where
      "map_get (rs_receipts s1) k = Some r'" "\<not> rc_consumed r'" "\<not> rc_terminal r'" by auto
    with Some p s1 True show ?thesis by (auto simp: persistEffect_def starts_def begins_def)
  qed
qed

lemma starts_step:
  assumes "reminder_step su s t s'"
    and "\<And>k r. map_get (rs_receipts s) k = Some r \<Longrightarrow> key_of r = k"
  shows "starts s s'"
  using assms(1)
proof (cases rule: reminder_step.cases)
  case (run_next q qs mo)
  show ?thesis
  proof (cases q)
    case (PersistEffect k gen)
    have "starts (s\<lparr>rs_queue := qs\<rparr>) (persistEffect su mo k gen (s\<lparr>rs_queue := qs\<rparr>))"
      by (rule starts_persistEffect) (simp add: assms(2))
    with run_next PersistEffect show ?thesis by (simp add: starts_def)
  next
    case (ReceiptDue k p a)
    obtain found s1 where f: "fresh su mo k (s\<lparr>rs_queue := qs\<rparr>) = (found, s1)" by fastforce
    then have "rs_started s1 = rs_started s" using started_store(2) [of su mo k "s\<lparr>rs_queue := qs\<rparr>"] by simp
    with f run_next ReceiptDue show ?thesis by (cases p) (simp_all add: starts_def receiptDue_def split: option.split)
  qed (use run_next in \<open>simp_all add: starts_def prepareDue_def Let_def\<close>)
qed (simp_all add: starts_def scheduleFired_def receiptFired_def effectEnded_def stop_scheduler_def Let_def
    split: option.split schedule_timer.split)


subsection \<open>What the calls started in a run had to have\<close>

context receipt_invariant begin

text \<open>A call that a run starts is for an open receipt the predicate holds of; a wake is for a fired one.\<close>

lemma started_run:
  assumes "reminder_run su s ts s'" "holds s" "list_all answers_good ts" "(k, e) \<in> set (rs_started s')"
  shows "(k, e) \<in> set (rs_started s) \<or>
    (\<exists>r. P r \<and> key_of r = k \<and> \<not> rc_terminal r \<and> \<not> rc_consumed r \<and> (e = Wake \<longrightarrow> is_fired r))"
  using assms
proof (induction rule: reminder_run.induct)
  case (2 s ts s' t s'')
  then have "holds s'" and "holds s''" by (auto intro: holds_run holds_step)
  then have "starts s' s''" using starts_step [OF 2(2)] holdsD(2) by blast
  with 2 holdsD(1,2) [OF \<open>holds s''\<close>] show ?case unfolding starts_def by fastforce
qed simp

text \<open>No call starts for an occurrence known to be over.\<close>

lemma over_run:
  assumes "reminder_run su s ts s'" "holds s" "list_all answers_good ts"
  shows "filter (\<lambda>(k, e). K k) (rs_started s') = filter (\<lambda>(k, e). K k) (rs_started s)"
  using assms
proof (induction rule: reminder_run.induct)
  case (2 s ts s' t s'')
  then have "holds s'" and "holds s''" by (auto intro: holds_run holds_step)
  then have "starts s' s''" using starts_step [OF 2(2)] holdsD(2) by blast
  moreover have "\<not> K k" if "map_get (rs_receipts s'') k = Some r" "\<not> rc_terminal r" for k r
    using that holdsD(1,2) [OF \<open>holds s''\<close> that(1)] over by metis
  ultimately have "filter (\<lambda>(k, e). K k) (rs_started s'') = filter (\<lambda>(k, e). K k) (rs_started s')"
    unfolding starts_def by auto
  with 2 show ?case by simp
qed simp

end

subsection \<open>The flags of a receipt and its attempts\<close>

definition flags_ok :: "receipt \<Rightarrow> bool" where
  "flags_ok r \<longleftrightarrow> (rc_wakeAccepted r \<longrightarrow> rc_terminal r) \<and> (rc_consumed r \<longrightarrow> rc_terminal r) \<and>
     retryExhaustedIsValid (rc_retryExhausted r) \<and> (rc_retryExhausted r \<noteq> None \<longrightarrow> rc_terminal r) \<and>
     0 \<le> rc_attempt r \<and> rc_attempt r \<le> MAX_ATTEMPTS"

interpretation flags: receipt_invariant su flags_ok "\<lambda>k. False" "\<lambda>k response. True" for su
  by unfold_locales
    (auto simp: flags_ok_def exhausted_at_def answered_by_def new_receipt_def retryExhaustedIsValid_def MAX_ATTEMPTS_def)

lemma flags_start: "(\<And>rs. file = Some rs \<Longrightarrow> list_all flags_ok rs) \<Longrightarrow> flags.holds (new_scheduler file)"
  by (simp add: flags.holds_def new_scheduler_def)

lemma flags_run:
  assumes "reminder_run su (new_scheduler f) ts s" "\<And>rs. f = Some rs \<Longrightarrow> list_all flags_ok rs"
  shows "flags.holds s"
  by (rule flags.holds_run [OF assms(1) flags_start [OF assms(2)]]) (auto simp: flags.answers_good_def list_all_iff)

subsection \<open>A daemon, and a run of it\<close>

definition one_daemon :: daemon_setup where
  "one_daemon = \<lparr>su_scope = \<lparr>sc_workspaceId = ''w'', sc_computerId = ''c''\<rparr>, su_agentId = ''a'', su_encodes = (\<lambda>r. True)\<rparr>"

definition a_job :: "int \<Rightarrow> reminder_job" where
  "a_job version = \<lparr>jb_reminderId = ''r'', jb_ownerAgentId = ''a'', jb_version = version, jb_title = ''t'',
     jb_target = ''#g'', jb_messageId = ''m'', jb_fireAt = 100\<rparr>"

definition good :: "int \<Rightarrow> moment" where
  "good now = \<lparr>mo_now = now, mo_requestId = ''q'', mo_find = True, mo_merge = True, mo_write = True\<rparr>"

abbreviation "the_key \<equiv> (''r'', 1 :: int)"

text \<open>A reminder is learned, falls due, is fired, and its first wake of the Agent starts.\<close>

definition until_wake :: "tick list" where
  "until_wake =
     [Receive (ApplySync (Snapshot [a_job 1])), RunNext (good 0), ScheduleFires 100 ''r'', RunNext (good 100),
      RunNext (good 100),
      FireAnswers the_key 0 (Some \<lparr>fr_result = FireAccepted, fr_fired = True, fr_catchup = False, fr_retryAfterMs = None\<rparr>),
      RunNext (good 101), EffectEnds 101 the_key True, RunNext (good 101)]"

lemmas run_defs = until_wake_def one_daemon_def a_job_def good_def

definition woken_state :: scheduler where
  "woken_state = the (take_ticks one_daemon until_wake (new_scheduler None))"

lemma woken_ticks: "take_ticks one_daemon until_wake (new_scheduler None) = Some woken_state"
proof -
  have "take_ticks one_daemon until_wake (new_scheduler None) \<noteq> None" by code_simp
  then show ?thesis unfolding woken_state_def by (simp add: option.expand)
qed

lemma woken_run: "reminder_run one_daemon (new_scheduler None) until_wake woken_state"
  by (rule take_ticks_run [OF woken_ticks])

subsection \<open>The store's flags and the bound on attempts\<close>

text \<open>
  C20: In every run of a reminder scheduler over a file an earlier daemon left, each receipt in memory
  and on disk has the flags its store insists on (a wake accepted, an acknowledgement or exhausted
  retries only on a terminal receipt), and never more than \<open>MAX_ATTEMPTS\<close> attempts.
\<close>

theorem receipt_flags_and_attempts:
  assumes "reminder_run su (new_scheduler f) ts s" "\<And>rs. f = Some rs \<Longrightarrow> list_all flags_ok rs"
    and "map_get (rs_receipts s) k = Some r \<or> (\<exists>rs. rs_file s = Some rs \<and> r \<in> set rs)"
  shows "(rc_wakeAccepted r \<longrightarrow> rc_terminal r) \<and> (rc_consumed r \<longrightarrow> rc_terminal r) \<and>
    (rc_retryExhausted r \<noteq> None \<longrightarrow> rc_terminal r) \<and> retryExhaustedIsValid (rc_retryExhausted r) \<and>
    0 \<le> rc_attempt r \<and> rc_attempt r \<le> MAX_ATTEMPTS"
proof -
  note s = flags_run [OF assms(1,2)]
  from assms(3) flags.holdsD(1,4) [OF s] have "flags_ok r" unfolding list_all_iff by blast
  then show ?thesis by (simp add: flags_ok_def)
qed

theorem receipt_flags_and_attempts_witness:
  "\<exists>r. map_get (rs_receipts woken_state) the_key = Some r \<and> 0 \<le> rc_attempt r \<and> rc_attempt r \<le> MAX_ATTEMPTS"
proof -
  have "map_get (rs_receipts (the (take_ticks one_daemon until_wake (new_scheduler None)))) the_key \<noteq> None"
    by code_simp
  then obtain r where r: "map_get (rs_receipts woken_state) the_key = Some r" unfolding woken_state_def by blast
  from receipt_flags_and_attempts [OF woken_run _ disjI1 [OF r]] r show ?thesis by blast
qed

subsection \<open>A wake follows an accepted fire\<close>

text \<open>The cloud accepted and fired the occurrence, in this run or in an earlier daemon's.\<close>

definition accepted_in :: "tick list \<Rightarrow> receipt_key \<Rightarrow> bool" where
  "accepted_in ts k \<longleftrightarrow> (\<exists>gen response. FireAnswers k gen (Some response) \<in> set ts \<and>
     fr_result response = FireAccepted \<and> fr_fired response)"

definition fired_before :: "receipt_file \<Rightarrow> receipt_key \<Rightarrow> bool" where
  "fired_before f k \<longleftrightarrow> (\<exists>rs r. f = Some rs \<and> r \<in> set rs \<and> key_of r = k \<and> is_fired r)"

interpretation fired: receipt_invariant su "\<lambda>r. is_fired r \<longrightarrow> F (key_of r)" "\<lambda>k. False"
  "\<lambda>k response. fr_result response = FireAccepted \<and> fr_fired response \<longrightarrow> F k" for su F
  by unfold_locales
    (auto simp: is_fired_def key_of_def exhausted_at_def answered_by_def new_receipt_def)

text \<open>
  C2: The Agent is woken for a reminder only after the cloud accepted it: whenever a run of the
  scheduler has started a wake for one version of a reminder, an answer that accepted and fired that
  very version has come in earlier in the run, or the file the daemon started with recorded one.
\<close>

theorem wake_follows_accepted_fire:
  assumes "reminder_run su (new_scheduler f) ts s" "(k, Wake) \<in> set (rs_started s)"
  shows "accepted_in ts k \<or> fired_before f k"
proof -
  define F where "F k \<longleftrightarrow> accepted_in ts k \<or> fired_before f k" for k
  have start: "fired.holds F (new_scheduler f)"
    unfolding fired.holds_def by (auto simp: new_scheduler_def F_def fired_before_def list_all_iff)
  have answers: "list_all (fired.answers_good F) ts"
    by (auto simp: list_all_iff fired.answers_good_def F_def accepted_in_def)
  from fired.started_run [OF assms(1) start answers assms(2)] show ?thesis
    by (auto simp: new_scheduler_def F_def)
qed

theorem wake_follows_accepted_fire_witness:
  "(the_key, Wake) \<in> set (rs_started woken_state) \<and> (accepted_in until_wake the_key \<or> fired_before None the_key)"
proof -
  have "(the_key, Wake) \<in> set (rs_started (the (take_ticks one_daemon until_wake (new_scheduler None))))"
    by code_simp
  then have "(the_key, Wake) \<in> set (rs_started woken_state)" unfolding woken_state_def .
  with wake_follows_accepted_fire [OF woken_run] show ?thesis by blast
qed

subsection \<open>An acknowledged occurrence is over\<close>

interpretation sound: receipt_invariant su "\<lambda>r. True" "\<lambda>k. False" "\<lambda>k response. True" for su
  by unfold_locales simp_all

interpretation settled: receipt_invariant su "\<lambda>r. key_of r = k \<longrightarrow> rc_terminal r" "\<lambda>k'. k' = k" "\<lambda>k response. True"
  for su k
  by unfold_locales
    (auto simp: key_of_def exhausted_at_def answered_by_def new_receipt_def)

lemma sound_run:
  assumes "reminder_run su (new_scheduler f) ts s"
  shows "sound.holds s"
  by (rule sound.holds_run [OF assms])
    (auto simp: sound.holds_def new_scheduler_def sound.answers_good_def list_all_iff)

lemma replaced_only: "x \<in> set (replace_receipt r rs) \<Longrightarrow> key_of x = key_of r \<Longrightarrow> x = r"
  by (induction rs) (auto simp: replace_receipt_def find_receipt_def find_None_iff split: if_splits)

lemma acknowledge_settles:
  assumes "sound.holds s" "acknowledge su mo i v s = (Some True, s')"
    and "store_read su (mo_find mo) (rs_file s) \<noteq> None"
  shows "settled.holds (i, v) s'"
proof -
  obtain rs where rs: "store_read su (mo_find mo) (rs_file s) = Some rs" using assms(3) by blast
  have key: "find_receipt (i, v) rs = Some r \<or> find_receipt (i, v) rs = None \<and> map_get (rs_receipts s) (i, v) = Some r
      \<Longrightarrow> key_of r = (i, v)" for r
    using sound.find_receipt_Some sound.holdsD(2) [OF assms(1)] by blast
  obtain r0 f where r0: "find_receipt (i, v) rs = Some r0 \<or>
        find_receipt (i, v) rs = None \<and> map_get (rs_receipts s) (i, v) = Some r0"
    and f: "store_write su (mo_write mo) (retained (mo_now mo)
        (replace_receipt (r0\<lparr>rc_consumed := True, rc_terminal := True\<rparr>) rs)) = Some f"
    and s': "s' = (set_receipt (i, v) (r0\<lparr>rc_consumed := True, rc_terminal := True\<rparr>) (s\<lparr>rs_file := f\<rparr>))
        \<lparr>rs_receiptTimers := map_delete (rs_receiptTimers s) (i, v)\<rparr>"
    using assms(2) rs by (auto simp: acknowledge_def Let_def split: option.splits if_splits)
  let ?r = "r0\<lparr>rc_consumed := True, rc_terminal := True\<rparr>"
  have r: "key_of ?r = (i, v)" using key [OF r0] by (simp add: key_of_def)
  have "rc_terminal x" if "x \<in> set (replace_receipt ?r rs)" "key_of x = (i, v)" for x
    using replaced_only [OF that(1)] r that(2) by simp
  then have "list_all (\<lambda>x. key_of x = (i, v) \<longrightarrow> rc_terminal x) (retained (mo_now mo) (replace_receipt ?r rs))"
    by (simp add: list_all_iff retained_def)
  with sound.write_file [OF f] r sound.holdsD(2,7) [OF assms(1)] show ?thesis
    unfolding settled.holds_def s' by (auto simp: set_receipt_def)
qed

text \<open>
  C3: Once an acknowledgement of a reminder's version has answered true over a readable store, that
  occurrence is over: whatever the queue, the timers, the calls and later syncs do, no fire request
  and no wake is started for it any more.
\<close>

theorem acknowledged_is_over:
  assumes "reminder_run su (new_scheduler f) ts s" "rs_queue s = AcknowledgeReceipt i v # qs"
    and "acknowledge su mo i v (s\<lparr>rs_queue := qs\<rparr>) = (Some True, s1)"
    and "store_read su (mo_find mo) (rs_file s) \<noteq> None"
    and "reminder_run su s1 us s2"
  shows "filter (\<lambda>(k, e). k = (i, v)) (rs_started s2) = filter (\<lambda>(k, e). k = (i, v)) (rs_started s)"
proof -
  have "sound.holds (s\<lparr>rs_queue := qs\<rparr>)"
    by (rule sound.holds_cong [OF _ _ _ sound_run [OF assms(1)]]) (use assms(2) in auto)
  then have "settled.holds (i, v) s1" using assms(3,4) by (auto intro: acknowledge_settles)
  then have "filter (\<lambda>(k, e). k = (i, v)) (rs_started s2) = filter (\<lambda>(k, e). k = (i, v)) (rs_started s1)"
    by (rule settled.over_run [OF assms(5)]) (auto simp: settled.answers_good_def list_all_iff)
  moreover have "rs_started s1 = rs_started s"
    using started_store(4) [of su mo i v "s\<lparr>rs_queue := qs\<rparr>"] assms(3) by simp
  ultimately show ?thesis by simp
qed


text \<open>The Agent acknowledges the reminder while its wake is still answering.\<close>

definition asked_state :: scheduler where
  "asked_state = enqueue_op (AcknowledgeReceipt ''r'' 1) woken_state"

lemma asked_run: "reminder_run one_daemon (new_scheduler None) (until_wake @ [Receive (AcknowledgeReceipt ''r'' 1)]) asked_state"
  unfolding asked_state_def by (rule reminder_run.intros(2) [OF woken_run]) (simp add: take_tick_step)

lemma asked_queue: "rs_queue asked_state = AcknowledgeReceipt ''r'' 1 # []"
proof -
  have "rs_queue (the (take_ticks one_daemon until_wake (new_scheduler None))) = []" by code_simp
  then show ?thesis by (simp add: asked_state_def enqueue_op_def woken_state_def)
qed

definition unreadable :: "int \<Rightarrow> moment" where
  "unreadable now = (good now)\<lparr>mo_find := False\<rparr>"

text \<open>The wake fails, and its retry falls due.\<close>

definition after_ack :: "tick list" where
  "after_ack = [WakeAnswers the_key 0 False, RunNext (good 103), EffectEnds 103 the_key False,
     ReceiptFires 5000 the_key, RunNext (good 5000), RunNext (good 5000)]"

theorem acknowledged_is_over_witness:
  "\<exists>s1 s2. acknowledge one_daemon (good 102) ''r'' 1 (asked_state\<lparr>rs_queue := []\<rparr>) = (Some True, s1) \<and>
     reminder_run one_daemon s1 [WakeAnswers the_key 0 False, RunNext (good 103), ReceiptFires 5000 the_key] s2 \<and>
     filter (\<lambda>(k, e). k = the_key) (rs_started s2) = filter (\<lambda>(k, e). k = the_key) (rs_started asked_state)"
proof -
  define ended where "ended = acknowledge one_daemon (good 102) ''r'' 1
    ((enqueue_op (AcknowledgeReceipt ''r'' 1) (the (take_ticks one_daemon until_wake (new_scheduler None))))\<lparr>rs_queue := []\<rparr>)"
  let ?us = "[WakeAnswers the_key 0 False, RunNext (good 103), ReceiptFires 5000 the_key]"
  have "fst ended = Some True \<and> take_ticks one_daemon ?us (snd ended) \<noteq> None" unfolding ended_def by code_simp
  then obtain s2 where s2: "fst ended = Some True" "take_ticks one_daemon ?us (snd ended) = Some s2" by blast
  have a: "acknowledge one_daemon (good 102) ''r'' 1 (asked_state\<lparr>rs_queue := []\<rparr>) = (Some True, snd ended)"
    using s2(1) by (simp add: ended_def asked_state_def woken_state_def prod_eq_iff)
  have "store_read one_daemon True (rs_file (enqueue_op (AcknowledgeReceipt ''r'' 1)
      (the (take_ticks one_daemon until_wake (new_scheduler None))))) \<noteq> None" by code_simp
  then have r: "store_read one_daemon (mo_find (good 102)) (rs_file asked_state) \<noteq> None"
    by (simp add: asked_state_def woken_state_def good_def)
  from acknowledged_is_over [OF asked_run asked_queue a r take_ticks_run [OF s2(2)]] a take_ticks_run [OF s2(2)]
  show ?thesis by blast
qed

text \<open>
  An acknowledgement that answered true while the receipts could not be read is not final: it is
  kept in memory only, and the next read of the receipt from disk brings the unacknowledged copy
  back, so that the Agent can be woken a second time for the occurrence it acknowledged.
\<close>

theorem unreadable_acknowledgement_wakes_again:
  "\<exists>ts s s1 us s2. reminder_run one_daemon (new_scheduler None) ts s \<and> rs_queue s = [AcknowledgeReceipt ''r'' 1] \<and>
     acknowledge one_daemon (unreadable 102) ''r'' 1 (s\<lparr>rs_queue := []\<rparr>) = (Some True, s1) \<and>
     reminder_run one_daemon s1 us s2 \<and>
     length (filter ((=) (the_key, Wake)) (rs_started s)) = 1 \<and>
     length (filter ((=) (the_key, Wake)) (rs_started s2)) = 2"
proof -
  let ?s = "enqueue_op (AcknowledgeReceipt ''r'' 1) (the (take_ticks one_daemon until_wake (new_scheduler None)))"
  define ended where "ended = acknowledge one_daemon (unreadable 102) ''r'' 1 (?s\<lparr>rs_queue := []\<rparr>)"
  have "fst ended = Some True \<and> (case take_ticks one_daemon after_ack (snd ended) of None \<Rightarrow> False
      | Some s2 \<Rightarrow> length (filter ((=) (the_key, Wake)) (rs_started s2)) = 2)"
    unfolding ended_def by code_simp
  then obtain s2 where s2: "fst ended = Some True" "take_ticks one_daemon after_ack (snd ended) = Some s2"
      "length (filter ((=) (the_key, Wake)) (rs_started s2)) = 2" by (auto split: option.splits)
  have one: "length (filter ((=) (the_key, Wake)) (rs_started ?s)) = 1" by code_simp
  have s: "asked_state = ?s" by (simp add: asked_state_def woken_state_def)
  have a: "acknowledge one_daemon (unreadable 102) ''r'' 1 (asked_state\<lparr>rs_queue := []\<rparr>) = (Some True, snd ended)"
    unfolding s using s2(1) by (simp add: ended_def prod_eq_iff)
  show ?thesis
    using asked_run asked_queue a take_ticks_run [OF s2(2)] one [folded s] s2(3) by blast
qed

subsection \<open>Snapshots and the tombstone of a canceled reminder\<close>

text \<open>
  A reminder that was canceled and then rescheduled under a newer version is scheduled by the
  snapshot that brings it, and dropped again by the next snapshot of the same jobs: a snapshot raises
  the fence and keeps the tombstone, which then rejects the version just accepted.
\<close>

theorem rescheduled_job_is_dropped_by_a_repeated_snapshot:
  "\<exists>s1 s2 s3 s4.
     s1 = apply_sync one_daemon (good 0) (Snapshot [a_job 1]) (new_scheduler None) \<and>
     s2 = apply_sync one_daemon (good 1) (CancelJob ''r'' 1) s1 \<and>
     s3 = apply_sync one_daemon (good 2) (Snapshot [a_job 2]) s2 \<and>
     s4 = apply_sync one_daemon (good 3) (Snapshot [a_job 2]) s3 \<and>
     map_get (rs_jobs s3) ''r'' = Some (a_job 2) \<and> map_get (rs_scheduleTimers s3) ''r'' = Some (DueTimer 2 100) \<and>
     map_get (rs_jobs s4) ''r'' = None \<and> rs_scheduleTimers s4 = []"
  unfolding simp_thms(39,40) ex_simps by code_simp

end
