(* ===== verification/AgentControl.thy ===== *)
theory AgentControl
  imports Backoffs
begin

text \<open>
  Start, stop and workspace reset of an Agent: \<open>packages/daemon/src/agent-runtime/agent-control.ts\<close>,
  with its record (\<open>agent-runtime-state.ts\<close>), its Session bindings (\<open>agent-session.ts\<close>) and the
  in-process store behind them (\<open>persistence/memory-agent-runtime-state-store.ts\<close>). The model is the
  slice of one Agent: \<open>AgentRuntimeState.run\<close> serializes an Agent's operations, so each is a function on
  the state, waiting in a queue until its turn; the parts a call does before it waits are done when it
  is queued. The process itself (\<open>Runtime\<close>) is a record of functions over a world of its own, which
  may also change between operations. Logging is left out; what is reported to the server, and each
  launch and stop of the process, is written down.
\<close>

subsection \<open>Records\<close>

datatype session_state = EmptySession | Resumable | UnknownSession

record session_identity =
  si_sessionId :: string
  si_state :: session_state

record control_scope =
  co_protocolMajor :: int
  co_requestId :: string
  co_workspaceId :: string
  co_computerId :: string
  co_agentId :: string
  co_provider :: string
  co_epoch :: int

datatype result_phase = ResultStopped | ResultWorkspaceReset | ResultStarted | ResultFailed

record control_result =
  cr_scope :: control_scope
  cr_phase :: result_phase
  cr_launchId :: "string option"
  cr_sequence :: int
  cr_identity :: "session_identity option"
  cr_errorCode :: "string option"

record session_snapshot =
  ss_scope :: control_scope
  ss_launchId :: string
  ss_sequence :: int
  ss_identity :: session_identity
  ss_daemonInstanceId :: string

datatype control_action = StartAction | StopAction | ResetAction

datatype control_phase = Stopping | Clearing | WorkspaceReset | Starting | Running | Stopped | FailedPhase

record control_record =
  rd_scope :: control_scope
  rd_action :: control_action
  rd_phase :: control_phase
  rd_daemonInstanceId :: string
  rd_sequence :: int
  rd_identity :: "session_identity option"
  rd_launchId :: "string option"
  rd_stopResult :: "control_result option"
  rd_workspaceResetResult :: "control_result option"
  rd_startResult :: "control_result option"
  rd_lastResult :: "control_result option"
  rd_report :: "session_snapshot option"

datatype session_mode = CreateSession | ResumeSession

text \<open>Of a start intent, what the control reads and what it changes before a launch.\<close>

record start_intent =
  in_requestId :: string
  in_workspaceId :: string
  in_computerId :: string
  in_agentId :: string
  in_provider :: string
  in_controlEpoch :: "int option"
  in_launchId :: "string option"
  in_sessionId :: "string option"
  in_sessionMode :: "session_mode option"
  in_wakeMessage :: bool
  in_resumePrompt :: "string option"

datatype control_error =
    StaleControlRequest | ControlRecordMissing | ControlRequestMismatch | PreviousControlNotCompleted
  | ConfirmedStopRequired | ControlEpochRequired | AgentLaunchIdRequired | AgentAlreadyRunning
  | RuntimeError

subsection \<open>The process\<close>

datatype recovery_code = SessionMissing | SessionInUse | ProviderReplayRejected

datatype launch_error = SessionRecovery recovery_code | OtherLaunchError

datatype invalidate_reason = Missing | ReplayRejected

record 'w agent_runtime =
  rt_running :: "'w \<Rightarrow> bool"
  rt_stop :: "'w \<Rightarrow> (unit + session_identity option) \<times> 'w"
  rt_launch :: "start_intent \<Rightarrow> string \<Rightarrow> string option \<Rightarrow> invalidate_reason option \<Rightarrow> 'w \<Rightarrow>
    (launch_error + session_identity option) \<times> 'w"
  rt_wake :: "start_intent \<Rightarrow> 'w \<Rightarrow> bool \<times> 'w"
  rt_invalidate :: "start_intent \<Rightarrow> string \<Rightarrow> string \<Rightarrow> invalidate_reason \<Rightarrow> 'w \<Rightarrow> 'w"
  rt_rebind :: "start_intent \<Rightarrow> string \<Rightarrow> 'w \<Rightarrow> (unit + session_identity option) \<times> 'w"
  rt_clearWorkspace :: "'w \<Rightarrow> bool \<times> 'w"
  rt_now :: "'w \<Rightarrow> int"

subsection \<open>State\<close>

record launch_retry =
  lr_intent :: start_intent
  lr_scope :: control_scope
  lr_launchId :: string
  lr_attempt :: int
  lr_delayMs :: int

datatype control_op =
    StopOp control_scope bool
  | ResetOp control_scope
  | StartOp start_intent bool
  | RetryOp launch_retry
  | ExitOp string "session_identity option"
  | WokenOp string "session_identity option"
  | SessionOp string session_identity
  | ReplayOp
  | SessionReplayOp

text \<open>
  What happened, newest first: reports, Starts settled, requests refused, and the calls to the process.
  A launch is written with its epoch, its launch id, and whether a process ran at that moment.
\<close>

datatype control_event =
    Reported control_result
  | SessionReported session_snapshot
  | StartSettled
  | Refused control_error
  | Launched int string bool
  | StopCalled

record 'w control =
  ac_instanceId :: string
  ac_known :: bool
  ac_record :: "control_record option"
  ac_failures :: launch_backoff
  ac_retry :: "launch_retry option"
  ac_startsRunning :: nat
  ac_queue :: "control_op list"
  ac_log :: "control_event list"
  ac_world :: 'w

type_synonym 'w outcome = "control_error option \<times> 'w control"

definition log_event :: "control_event \<Rightarrow> 'w control \<Rightarrow> 'w control" where
  "log_event e c = c\<lparr>ac_log := e # ac_log c\<rparr>"

definition write_record :: "control_record \<Rightarrow> 'w control \<Rightarrow> 'w control" where
  "write_record r c = c\<lparr>ac_record := Some r\<rparr>"

definition report_last :: "control_record \<Rightarrow> 'w control \<Rightarrow> 'w control" where
  "report_last r c = (case rd_lastResult r of None \<Rightarrow> c | Some x \<Rightarrow> log_event (Reported x) c)"

subsection \<open>Session bindings\<close>

definition beginLaunch :: "control_record \<Rightarrow> control_record" where
  "beginLaunch r = r\<lparr>rd_report := None\<rparr>"

definition capture :: "session_identity option \<Rightarrow> control_record \<Rightarrow> control_record" where
  "capture identity r =
     (case (identity, rd_launchId r) of
        (Some i, Some l) \<Rightarrow>
          if l \<noteq> '''' \<and> rd_phase r \<in> {Running, Stopped}
          then r\<lparr>rd_identity := identity, rd_sequence := rd_sequence r + 1, rd_report := Some
            \<lparr>ss_scope = rd_scope r, ss_launchId = l, ss_sequence = rd_sequence r + 1, ss_identity = i,
             ss_daemonInstanceId = rd_daemonInstanceId r\<rparr>\<rparr>
          else r\<lparr>rd_identity := identity\<rparr>
      | _ \<Rightarrow> r\<lparr>rd_identity := identity\<rparr>)"

definition clear_session :: "control_record \<Rightarrow> control_record" where
  "clear_session r = r\<lparr>rd_identity := None, rd_report := None\<rparr>"

definition session_update :: "string \<Rightarrow> session_identity \<Rightarrow> 'w control \<Rightarrow> 'w control" where
  "session_update launchId identity c =
     (case ac_record c of
        None \<Rightarrow> c
      | Some r \<Rightarrow>
          if rd_launchId r \<noteq> Some launchId \<or> rd_phase r \<noteq> Running then c
          else let r' = capture (Some identity) r; c' = write_record r' c
            in case rd_report r' of None \<Rightarrow> c' | Some s \<Rightarrow> log_event (SessionReported s) c')"

definition session_replay :: "'w control \<Rightarrow> 'w control" where
  "session_replay c = (case ac_record c of None \<Rightarrow> c | Some r \<Rightarrow>
     (case rd_report r of None \<Rightarrow> c | Some s \<Rightarrow> log_event (SessionReported s) c))"

subsection \<open>Pending starts\<close>

definition startPending :: "'w control \<Rightarrow> bool" where
  "startPending c \<longleftrightarrow> ac_startsRunning c > 0 \<or> ac_retry c \<noteq> None"

definition settleIfIdle :: "'w control \<Rightarrow> 'w control" where
  "settleIfIdle c = (if startPending c then c else log_event StartSettled c)"

definition beginStartRun :: "'w control \<Rightarrow> 'w control" where
  "beginStartRun c = c\<lparr>ac_startsRunning := ac_startsRunning c + 1\<rparr>"

definition endStartRun :: "'w control \<Rightarrow> 'w control" where
  "endStartRun c = settleIfIdle (c\<lparr>ac_startsRunning := ac_startsRunning c - 1\<rparr>)"

definition clearLaunchRetry :: "'w control \<Rightarrow> 'w control" where
  "clearLaunchRetry c = (if ac_retry c = None then c else settleIfIdle (c\<lparr>ac_retry := None\<rparr>))"

definition reset_failures :: "string \<Rightarrow> 'w control \<Rightarrow> 'w control" where
  "reset_failures agentId c = c\<lparr>ac_failures := snd (lb_reset (ac_failures c) agentId)\<rparr>"

definition onLaunchSucceeded :: "string \<Rightarrow> 'w control \<Rightarrow> 'w control" where
  "onLaunchSucceeded agentId c = clearLaunchRetry (reset_failures agentId c)"

definition scheduleLaunchRetry :: "launch_retry \<Rightarrow> 'w control \<Rightarrow> 'w control" where
  "scheduleLaunchRetry retry c = (clearLaunchRetry c)\<lparr>ac_retry := Some retry\<rparr>"

definition dispose :: "'w control \<Rightarrow> 'w control" where
  "dispose c = c\<lparr>ac_retry := None, ac_failures := lb_clear (ac_failures c)\<rparr>"

subsection \<open>Fences\<close>

definition live_phase :: "control_phase \<Rightarrow> bool" where
  "live_phase p \<longleftrightarrow> p \<in> {Running, Starting, Stopping}"

definition repairStaleRecord :: "'w agent_runtime \<Rightarrow> 'w control \<Rightarrow> 'w control" where
  "repairStaleRecord rt c =
     (case ac_record c of
        None \<Rightarrow> c
      | Some r \<Rightarrow>
          if \<not> live_phase (rd_phase r) \<or> rt_running rt (ac_world c) then c
          else if \<not> (rd_phase r = Stopping \<and> map_option cr_phase (rd_stopResult r) = Some ResultFailed) then c
          else write_record (r\<lparr>rd_phase := Stopped\<rparr>) c)"

definition fenced :: "control_record option \<Rightarrow> control_scope \<Rightarrow> bool" where
  "fenced rec sc =
     (case rec of
        None \<Rightarrow> False
      | Some r \<Rightarrow> (let old = rd_scope r in
          co_workspaceId old \<noteq> co_workspaceId sc \<or> co_computerId old \<noteq> co_computerId sc \<or>
          co_agentId old \<noteq> co_agentId sc \<or> co_epoch old > co_epoch sc \<or>
          co_epoch old = co_epoch sc \<and> co_provider old \<noteq> co_provider sc))"

text \<open>The record's own, when it is of the scope's epoch.\<close>

definition same_epoch :: "control_record option \<Rightarrow> control_scope \<Rightarrow> bool" where
  "same_epoch rec sc = (case rec of None \<Rightarrow> False | Some r \<Rightarrow> co_epoch (rd_scope r) = co_epoch sc)"

definition sequence_in :: "control_record option \<Rightarrow> control_scope \<Rightarrow> int" where
  "sequence_in rec sc = (case rec of None \<Rightarrow> 0 | Some r \<Rightarrow> if same_epoch rec sc then rd_sequence r else 0)"

definition fresh_record :: "string \<Rightarrow> control_scope \<Rightarrow> control_action \<Rightarrow> control_phase \<Rightarrow> int \<Rightarrow> control_record" where
  "fresh_record instance_id sc action phase sequence =
     \<lparr>rd_scope = sc, rd_action = action, rd_phase = phase, rd_daemonInstanceId = instance_id,
      rd_sequence = sequence, rd_identity = None, rd_launchId = None, rd_stopResult = None,
      rd_workspaceResetResult = None, rd_startResult = None, rd_lastResult = None, rd_report = None\<rparr>"

definition result_of :: "control_scope \<Rightarrow> result_phase \<Rightarrow> int \<Rightarrow> control_result" where
  "result_of sc phase sequence =
     \<lparr>cr_scope = sc, cr_phase = phase, cr_launchId = None, cr_sequence = sequence, cr_identity = None,
      cr_errorCode = None\<rparr>"


subsection \<open>Stop\<close>

definition reset_required :: "control_record option \<Rightarrow> bool" where
  "reset_required rec = (case rec of None \<Rightarrow> False | Some r \<Rightarrow> rd_action r = ResetAction \<and> rd_phase r \<noteq> WorkspaceReset)"

text \<open>The record before the process is stopped, and after: a failed receipt does not prove the exit.\<close>

definition stopping_record :: "string \<Rightarrow> control_scope \<Rightarrow> control_record option \<Rightarrow> control_record" where
  "stopping_record instance_id sc rec =
     (fresh_record instance_id sc (if reset_required rec then ResetAction else StopAction) Stopping (sequence_in rec sc))
       \<lparr>rd_identity := (case rec of None \<Rightarrow> None | Some r \<Rightarrow> rd_identity r)\<rparr>"

definition stopped_record ::
  "bool \<Rightarrow> control_scope \<Rightarrow> unit + session_identity option \<Rightarrow> control_record \<Rightarrow> control_record"
where
  "stopped_record resetRequired sc stopped r1 =
     (case stopped of
        Inr found \<Rightarrow>
          (let r = capture (case found of None \<Rightarrow> rd_identity r1 | Some i \<Rightarrow> Some i) r1;
               n = rd_sequence r + 1;
               x = (result_of sc ResultStopped n)\<lparr>cr_identity := rd_identity r\<rparr>
           in r\<lparr>rd_phase := (if resetRequired then Clearing else Stopped), rd_sequence := n,
                rd_stopResult := Some x, rd_lastResult := Some x\<rparr>)
      | Inl _ \<Rightarrow>
          (let n = rd_sequence r1 + 1;
               x = (result_of sc ResultFailed n)\<lparr>cr_errorCode := Some ''stop_failed''\<rparr>
           in r1\<lparr>rd_phase := Stopping, rd_sequence := n, rd_stopResult := Some x, rd_lastResult := Some x\<rparr>))"

definition accepted_stop :: "'w agent_runtime \<Rightarrow> control_scope \<Rightarrow> 'w control \<Rightarrow> 'w control" where
  "accepted_stop rt sc c =
     (let c1 = reset_failures (co_agentId sc) (clearLaunchRetry c);
          r1 = stopping_record (ac_instanceId c) sc (ac_record c);
          c2 = log_event StopCalled (write_record r1 c1);
          (stopped, w) = rt_stop rt (ac_world c2);
          r2 = stopped_record (reset_required (ac_record c)) sc stopped r1
      in report_last r2 (write_record r2 (c2\<lparr>ac_world := w\<rparr>)))"

definition stop_run :: "'w agent_runtime \<Rightarrow> control_scope \<Rightarrow> bool \<Rightarrow> 'w control \<Rightarrow> 'w outcome" where
  "stop_run rt sc known c0 =
     (if ac_record c0 = None \<and> known then (Some ControlRecordMissing, c0)
      else let c = repairStaleRecord rt c0
      in if fenced (ac_record c) sc then (Some StaleControlRequest, c)
      else case ac_record c of
        None \<Rightarrow> (None, accepted_stop rt sc c)
      | Some r \<Rightarrow>
          if \<not> same_epoch (Some r) sc then (None, accepted_stop rt sc c)
          else case rd_stopResult r of
            Some x \<Rightarrow>
              if co_requestId (cr_scope x) \<noteq> co_requestId sc then (Some ControlRequestMismatch, c)
              else (None, log_event (Reported x) c)
          | None \<Rightarrow>
              if rd_phase r = FailedPhase then (Some PreviousControlNotCompleted, c)
              else (None, accepted_stop rt sc c))"

subsection \<open>Workspace reset\<close>

text \<open>The record of a confirmed stop with its workspace cleared; a clearing that failed is only noted.\<close>

definition cleared_record :: "control_scope \<Rightarrow> bool \<Rightarrow> control_record \<Rightarrow> control_record" where
  "cleared_record sc cleared r =
     (let r2 = clear_session r; n = rd_sequence r2 + 1;
          x = (result_of sc ResultWorkspaceReset n)
            \<lparr>cr_errorCode := (if cleared then None else Some ''workspace_clear_failed'')\<rparr>
      in r2\<lparr>rd_phase := WorkspaceReset, rd_sequence := n, rd_workspaceResetResult := Some x, rd_lastResult := Some x\<rparr>)"

definition reset_run :: "'w agent_runtime \<Rightarrow> control_scope \<Rightarrow> 'w control \<Rightarrow> 'w outcome" where
  "reset_run rt sc c0 =
     (let c = repairStaleRecord rt c0
      in if fenced (ac_record c) sc then (Some StaleControlRequest, c)
      else case ac_record c of
        None \<Rightarrow> (Some ConfirmedStopRequired, c)
      | Some r \<Rightarrow>
          if \<not> same_epoch (Some r) sc \<or> map_option cr_phase (rd_stopResult r) \<noteq> Some ResultStopped
          then (Some ConfirmedStopRequired, c)
          else let c1 = c\<lparr>ac_known := True\<rparr> in case rd_workspaceResetResult r of
            Some x \<Rightarrow>
              if co_requestId (cr_scope x) \<noteq> co_requestId sc then (Some ControlRequestMismatch, c1)
              else (None, log_event (Reported x) c1)
          | None \<Rightarrow>
              if rd_phase r \<notin> {Stopped, Clearing} \<or> rd_startResult r \<noteq> None \<or> rt_running rt (ac_world c1)
              then (Some ConfirmedStopRequired, c1)
              else let
                r1 = r\<lparr>rd_action := ResetAction, rd_phase := Clearing\<rparr>;
                (cleared, w) = rt_clearWorkspace rt (ac_world c1);
                r2 = cleared_record sc cleared r1
              in (None, report_last r2 (write_record r2 ((write_record r1 c1)\<lparr>ac_world := w\<rparr>))))"

subsection \<open>Launches\<close>

definition call_launch :: "'w agent_runtime \<Rightarrow> control_scope \<Rightarrow> start_intent \<Rightarrow> string \<Rightarrow> string option \<Rightarrow>
    invalidate_reason option \<Rightarrow> 'w control \<Rightarrow> (launch_error + session_identity option) \<times> 'w control" where
  "call_launch rt sc intent launchId replaced reason c =
     (let (result, w) = rt_launch rt intent launchId replaced reason (ac_world c)
      in (result, (log_event (Launched (co_epoch sc) launchId (rt_running rt (ac_world c))) c)\<lparr>ac_world := w\<rparr>))"

definition invalidation :: "recovery_code \<Rightarrow> invalidate_reason option" where
  "invalidation code = (case code of SessionMissing \<Rightarrow> Some Missing | ProviderReplayRejected \<Rightarrow> Some ReplayRejected
     | SessionInUse \<Rightarrow> None)"

text \<open>A launch whose native session is gone is tried once more with a new one.\<close>

definition launch_or_recreate :: "'w agent_runtime \<Rightarrow> control_scope \<Rightarrow> start_intent \<Rightarrow> string \<Rightarrow> 'w control \<Rightarrow>
    (launch_error + session_identity option) \<times> 'w control" where
  "launch_or_recreate rt sc intent launchId c =
     (case call_launch rt sc intent launchId None None c of
        (Inl (SessionRecovery code), c1) \<Rightarrow>
          (case in_sessionId intent of
             None \<Rightarrow> (Inl (SessionRecovery code), c1)
           | Some replaced \<Rightarrow>
               if replaced = '''' then (Inl (SessionRecovery code), c1)
               else let c2 = (case invalidation code of None \<Rightarrow> c1
                   | Some reason \<Rightarrow> c1\<lparr>ac_world := rt_invalidate rt intent launchId replaced reason (ac_world c1)\<rparr>)
                 in call_launch rt sc (intent\<lparr>in_sessionId := None, in_sessionMode := Some CreateSession\<rparr>)
                      launchId (Some replaced) (invalidation code) c2)
      | other \<Rightarrow> other)"

definition started_record :: "control_scope \<Rightarrow> string \<Rightarrow> session_identity option \<Rightarrow> control_record \<Rightarrow> control_record" where
  "started_record sc launchId identity r =
     (let n = rd_sequence r + 1;
          x = (result_of sc ResultStarted n)\<lparr>cr_launchId := Some launchId, cr_identity := identity\<rparr>
      in capture identity (r\<lparr>rd_phase := Running, rd_sequence := n, rd_startResult := Some x, rd_lastResult := Some x\<rparr>))"

definition failed_record :: "control_scope \<Rightarrow> string \<Rightarrow> control_record \<Rightarrow> control_record" where
  "failed_record sc launchId r =
     (let n = rd_sequence r + 1
      in r\<lparr>rd_phase := FailedPhase, rd_sequence := n, rd_lastResult := Some
        ((result_of sc ResultFailed n)\<lparr>cr_launchId := Some launchId, cr_errorCode := Some ''launch_failed''\<rparr>)\<rparr>)"

definition attemptStart ::
  "'w agent_runtime \<Rightarrow> start_intent \<Rightarrow> control_scope \<Rightarrow> control_record \<Rightarrow> string \<Rightarrow> int \<Rightarrow> 'w control \<Rightarrow> 'w outcome"
where
  "attemptStart rt intent sc rec launchId attempt c =
     (let r1 = beginLaunch (rec\<lparr>rd_scope := sc, rd_action := StartAction, rd_phase := Starting,
            rd_launchId := Some launchId, rd_daemonInstanceId := ac_instanceId c\<rparr>)
      in case launch_or_recreate rt sc intent launchId (write_record r1 c) of
        (Inr identity, c1) \<Rightarrow>
          (let r2 = started_record sc launchId identity r1
           in (None, report_last r2 (onLaunchSucceeded (in_agentId intent) (write_record r2 c1))))
      | (Inl _, c1) \<Rightarrow>
          (let (stopped, w) = rt_stop rt (ac_world c1); c2 = (log_event StopCalled c1)\<lparr>ac_world := w\<rparr>
           in case stopped of
             Inl _ \<Rightarrow> (Some RuntimeError, c2)
           | Inr _ \<Rightarrow>
               (let ((attempts, cooldownMs, untilMs), failures) =
                  lb_recordFailure (ac_failures c2) (in_agentId intent) (rt_now rt (ac_world c2));
                  c3 = c2\<lparr>ac_failures := failures\<rparr>
                in if attempt < LAUNCH_FAILURE_MAX_ATTEMPTS
                   then (None, scheduleLaunchRetry \<lparr>lr_intent = intent, lr_scope = sc, lr_launchId = launchId,
                     lr_attempt = attempt + 1, lr_delayMs = cooldownMs\<rparr> (write_record r1 c3))
                   else (let r2 = failed_record sc launchId r1
                     in (None, report_last r2
                       (write_record r2 (clearLaunchRetry (reset_failures (in_agentId intent) c3))))))))"

definition retry_run :: "'w agent_runtime \<Rightarrow> launch_retry \<Rightarrow> 'w control \<Rightarrow> 'w outcome" where
  "retry_run rt retry c =
     (case ac_record c of
        None \<Rightarrow> (None, c)
      | Some r \<Rightarrow>
          if rd_phase r \<noteq> Starting \<or> co_epoch (rd_scope r) \<noteq> co_epoch (lr_scope retry) \<or>
             rd_launchId r \<noteq> Some (lr_launchId retry) then (None, c)
          else if rt_running rt (ac_world c) then (None, onLaunchSucceeded (in_agentId (lr_intent retry)) c)
          else attemptStart rt (lr_intent retry) (lr_scope retry) r (lr_launchId retry) (lr_attempt retry) c)"

subsection \<open>Start\<close>

definition rebindRunning ::
  "'w agent_runtime \<Rightarrow> control_record \<Rightarrow> control_scope \<Rightarrow> start_intent \<Rightarrow> string \<Rightarrow> 'w control \<Rightarrow> 'w outcome"
where
  "rebindRunning rt rec sc intent launchId c =
     (let r1 = rec\<lparr>rd_scope := sc, rd_action := StartAction, rd_launchId := Some launchId, rd_sequence := 0,
            rd_stopResult := None, rd_workspaceResetResult := None, rd_startResult := None\<rparr>;
          (bound, w) = rt_rebind rt intent launchId (ac_world c);
          c1 = (write_record r1 c)\<lparr>ac_world := w\<rparr>
      in case bound of
        Inl _ \<Rightarrow> (Some RuntimeError, c1)
      | Inr found \<Rightarrow>
          (let identity = (case found of None \<Rightarrow> rd_identity r1 | Some i \<Rightarrow> Some i);
               x = (result_of sc ResultStarted 1)\<lparr>cr_launchId := Some launchId, cr_identity := identity\<rparr>;
               r2 = capture identity (r1\<lparr>rd_identity := identity, rd_sequence := 1, rd_startResult := Some x,
                 rd_lastResult := Some x\<rparr>);
               c2 = write_record r2 c1;
               (woken, w') = (if in_wakeMessage intent \<or> in_resumePrompt intent \<noteq> None
                 then rt_wake rt intent (ac_world c2) else (True, ac_world c2));
               c3 = c2\<lparr>ac_world := w'\<rparr>
           in if \<not> woken then (Some RuntimeError, c3) else (None, report_last r2 c3)))"

text \<open>A Start already answered in its epoch delivers its wake message again and repeats the answer.\<close>

definition replay_start ::
  "'w agent_runtime \<Rightarrow> start_intent \<Rightarrow> control_scope \<Rightarrow> control_record \<Rightarrow> control_result \<Rightarrow> 'w control \<Rightarrow> 'w outcome"
where
  "replay_start rt intent sc r x c =
     (if co_requestId (cr_scope x) \<noteq> co_requestId sc then (Some ControlRequestMismatch, c)
      else let (woken, w) = (if rd_phase r = Running \<and> rt_running rt (ac_world c) \<and> in_wakeMessage intent
             then rt_wake rt (intent\<lparr>in_resumePrompt := None\<rparr>) (ac_world c) else (True, ac_world c));
           c1 = c\<lparr>ac_world := w\<rparr>
        in if \<not> woken then (Some RuntimeError, c1) else (None, log_event (Reported x) c1))"

definition refuse_start ::
  "control_scope \<Rightarrow> string \<Rightarrow> control_error \<Rightarrow> 'w control \<Rightarrow> 'w outcome"
where
  "refuse_start sc code e c =
     (Some e, log_event (Reported ((result_of sc ResultFailed (sequence_in (ac_record c) sc + 1))
        \<lparr>cr_errorCode := Some code\<rparr>)) c)"

text \<open>What a Start does about a process that already runs: nothing, stop it, rebind to it, or give up.\<close>

datatype running_process = NoProcess | OtherSession | SameSession | Unmatched

definition running_process :: "'w agent_runtime \<Rightarrow> control_scope \<Rightarrow> start_intent \<Rightarrow> 'w control \<Rightarrow> running_process" where
  "running_process rt sc intent c =
     (if \<not> rt_running rt (ac_world c) then NoProcess
      else let runningSession = (case ac_record c of None \<Rightarrow> None | Some r \<Rightarrow> map_option si_sessionId (rd_identity r))
        in if in_sessionId intent \<notin> {None, Some ''''} \<and> runningSession \<notin> {None, Some ''''} \<and>
              in_sessionId intent \<noteq> runningSession then OtherSession
           else case ac_record c of
               None \<Rightarrow> Unmatched
             | Some r \<Rightarrow>
                 if rd_phase r = Running \<and> rd_launchId r \<notin> {None, Some ''''} \<and>
                    co_provider (rd_scope r) = co_provider sc \<and> co_epoch sc > co_epoch (rd_scope r)
                 then SameSession else Unmatched)"

definition launch_new :: "'w agent_runtime \<Rightarrow> start_intent \<Rightarrow> control_scope \<Rightarrow> string \<Rightarrow> 'w control \<Rightarrow> 'w outcome" where
  "launch_new rt intent sc launchId c =
     attemptStart rt intent sc
       (case ac_record c of
          Some r \<Rightarrow> if same_epoch (Some r) sc then r else fresh_record (ac_instanceId c) sc StartAction Stopped 0
        | None \<Rightarrow> fresh_record (ac_instanceId c) sc StartAction Stopped 0)
       launchId 1 c"

definition scope_of :: "start_intent \<Rightarrow> int \<Rightarrow> control_scope" where
  "scope_of intent epoch =
     \<lparr>co_protocolMajor = 1, co_requestId = in_requestId intent, co_workspaceId = in_workspaceId intent,
      co_computerId = in_computerId intent, co_agentId = in_agentId intent, co_provider = in_provider intent,
      co_epoch = epoch\<rparr>"

definition admitted_start :: "'w agent_runtime \<Rightarrow> start_intent \<Rightarrow> control_scope \<Rightarrow> 'w control \<Rightarrow> 'w outcome" where
  "admitted_start rt intent sc c =
     (case in_launchId intent of
        None \<Rightarrow> refuse_start sc ''agent_launch_id_required'' AgentLaunchIdRequired c
      | Some launchId \<Rightarrow>
          if launchId = '''' then refuse_start sc ''agent_launch_id_required'' AgentLaunchIdRequired c
          else case running_process rt sc intent c of
              NoProcess \<Rightarrow> launch_new rt intent sc launchId c
            | OtherSession \<Rightarrow>
                (let (stopped, w) = rt_stop rt (ac_world c); c1 = (log_event StopCalled c)\<lparr>ac_world := w\<rparr>
                 in case stopped of Inl _ \<Rightarrow> (Some RuntimeError, c1) | Inr _ \<Rightarrow> launch_new rt intent sc launchId c1)
            | SameSession \<Rightarrow> (case ac_record c of
                None \<Rightarrow> (Some RuntimeError, c) | Some r \<Rightarrow> rebindRunning rt r sc intent launchId c)
            | Unmatched \<Rightarrow> refuse_start sc ''agent_already_running'' AgentAlreadyRunning c)"

definition start_run :: "'w agent_runtime \<Rightarrow> start_intent \<Rightarrow> bool \<Rightarrow> 'w control \<Rightarrow> 'w outcome" where
  "start_run rt intent known c0 =
     (case in_controlEpoch intent of
        None \<Rightarrow> (Some ControlEpochRequired, c0)
      | Some epoch \<Rightarrow>
          if epoch = 0 then (Some ControlEpochRequired, c0)
          else if ac_record c0 = None \<and> known then (Some ControlRecordMissing, c0)
          else let sc = scope_of intent epoch; c = repairStaleRecord rt c0; rec = ac_record c
            in if fenced rec sc then (Some StaleControlRequest, c)
            else case rec of
              None \<Rightarrow> admitted_start rt intent sc c
            | Some r \<Rightarrow>
                if same_epoch rec sc \<and> rd_startResult r \<noteq> None
                then replay_start rt intent sc r (the (rd_startResult r)) c
                else if rd_phase r = Starting \<and> co_epoch (rd_scope r) < epoch \<and> ac_retry c \<noteq> None
                then admitted_start rt intent sc (reset_failures (in_agentId intent) (clearLaunchRetry c))
                else if rd_phase r \<in> {Stopping, Clearing, Starting} \<or> rd_phase r = FailedPhase \<and> same_epoch rec sc
                then (Some PreviousControlNotCompleted, c)
                else admitted_start rt intent sc c)"


subsection \<open>The other operations\<close>

definition exit_run :: "string \<Rightarrow> session_identity option \<Rightarrow> 'w control \<Rightarrow> 'w control" where
  "exit_run launchId identity c =
     (case ac_record c of
        None \<Rightarrow> c
      | Some r \<Rightarrow>
          if rd_phase r \<noteq> Running \<or> rd_launchId r \<noteq> Some launchId then c
          else write_record (capture (case identity of None \<Rightarrow> rd_identity r | Some i \<Rightarrow> Some i)
            (r\<lparr>rd_phase := Stopped\<rparr>)) c)"

definition woken_run :: "string \<Rightarrow> session_identity option \<Rightarrow> 'w control \<Rightarrow> 'w control" where
  "woken_run launchId identity c =
     (case ac_record c of
        None \<Rightarrow> c
      | Some r \<Rightarrow>
          if rd_phase r \<noteq> Stopped \<or> rd_launchId r \<noteq> Some launchId then c
          else write_record (capture (case identity of None \<Rightarrow> rd_identity r | Some i \<Rightarrow> Some i)
            (r\<lparr>rd_phase := Running\<rparr>)) c)"

definition replay_run :: "'w control \<Rightarrow> 'w control" where
  "replay_run c = (if ac_known c then case ac_record c of None \<Rightarrow> c | Some r \<Rightarrow> report_last r c else c)"

text \<open>An operation at its turn; a rejected one is written down.\<close>

definition settle_op :: "'w outcome \<Rightarrow> 'w control" where
  "settle_op out = (case out of (None, c) \<Rightarrow> c | (Some e, c) \<Rightarrow> log_event (Refused e) c)"

fun run_op :: "'w agent_runtime \<Rightarrow> control_op \<Rightarrow> 'w control \<Rightarrow> 'w control" where
  "run_op rt (StopOp sc known) c = settle_op (stop_run rt sc known c)"
| "run_op rt (ResetOp sc) c = settle_op (reset_run rt sc c)"
| "run_op rt (StartOp intent known) c = endStartRun (settle_op (start_run rt intent known c))"
| "run_op rt (RetryOp retry) c = endStartRun (snd (retry_run rt retry c))"
| "run_op rt (ExitOp launchId identity) c = exit_run launchId identity c"
| "run_op rt (WokenOp launchId identity) c = woken_run launchId identity c"
| "run_op rt (SessionOp launchId identity) c = session_update launchId identity c"
| "run_op rt ReplayOp c = replay_run c"
| "run_op rt SessionReplayOp c = session_replay c"

subsection \<open>Steps\<close>

text \<open>A call: what it does at once, and its operation queued. A Stop or Start notes whether the Agent was known.\<close>

datatype control_call =
    StopCall control_scope
  | ResetCall control_scope
  | StartCall start_intent
  | ExitCall string "session_identity option"
  | WokenCall string "session_identity option"
  | SessionCall string session_identity
  | ReplayCall
  | SessionReplayCall

definition enqueue :: "control_op \<Rightarrow> 'w control \<Rightarrow> 'w control" where
  "enqueue q c = c\<lparr>ac_queue := ac_queue c @ [q]\<rparr>"

fun take_call :: "control_call \<Rightarrow> 'w control \<Rightarrow> 'w control" where
  "take_call (StopCall sc) c = enqueue (StopOp sc (ac_known c)) (c\<lparr>ac_known := True\<rparr>)"
| "take_call (ResetCall sc) c = enqueue (ResetOp sc) c"
| "take_call (StartCall intent) c = enqueue (StartOp intent (ac_known c)) (beginStartRun (c\<lparr>ac_known := True\<rparr>))"
| "take_call (ExitCall launchId identity) c = enqueue (ExitOp launchId identity) c"
| "take_call (WokenCall launchId identity) c = enqueue (WokenOp launchId identity) c"
| "take_call (SessionCall launchId identity) c = enqueue (SessionOp launchId identity) c"
| "take_call ReplayCall c = enqueue ReplayOp c"
| "take_call SessionReplayCall c = enqueue SessionReplayOp c"

definition timer_fires :: "launch_retry \<Rightarrow> 'w control \<Rightarrow> 'w control" where
  "timer_fires retry c = enqueue (RetryOp retry) ((beginStartRun c)\<lparr>ac_retry := None\<rparr>)"

text \<open>The next operation, a call, the retry's timer, the daemon going down, or the process on its own.\<close>

inductive control_step :: "'w agent_runtime \<Rightarrow> 'w control \<Rightarrow> 'w control \<Rightarrow> bool" for rt where
  called: "control_step rt c (take_call call c)"
| fires: "ac_retry c = Some retry \<Longrightarrow> control_step rt c (timer_fires retry c)"
| runs: "ac_queue c = q # qs \<Longrightarrow> control_step rt c (run_op rt q (c\<lparr>ac_queue := qs\<rparr>))"
| disposed: "control_step rt c (dispose c)"
| moved: "control_step rt c (c\<lparr>ac_world := w\<rparr>)"

inductive control_run :: "'w agent_runtime \<Rightarrow> 'w control \<Rightarrow> 'w control \<Rightarrow> bool" for rt where
  no_step: "control_run rt c c"
| one_more: "control_run rt c c' \<Longrightarrow> control_step rt c' c'' \<Longrightarrow> control_run rt c c''"

definition new_control :: "string \<Rightarrow> 'w \<Rightarrow> 'w control" where
  "new_control instance_id w =
     \<lparr>ac_instanceId = instance_id, ac_known = False, ac_record = None,
      ac_failures = \<lparr>lb_failures = [], lb_baseMs = LAUNCH_FAILURE_BACKOFF_BASE_MS,
        lb_capMs = LAUNCH_FAILURE_BACKOFF_CAP_MS\<rparr>,
      ac_retry = None, ac_startsRunning = 0, ac_queue = [], ac_log = [], ac_world = w\<rparr>"

end
