(* ===== verification/AgentControlProperties.thy ===== *)
theory AgentControlProperties
  imports AgentControl
begin

text \<open>
  What holds of an Agent's control in any interleaving of calls, retry timers and the process's own
  behaviour: the record only moves forward, launches never go back to an older operation, a pending
  retry belongs to the record, the receipts are those of the record's epoch, and a failing Start ends.
\<close>

subsection \<open>Frames\<close>

text \<open>The launches written down, newest first: the epoch, the launch id, and whether a process ran.\<close>

fun launches :: "control_event list \<Rightarrow> (int \<times> string \<times> bool) list" where
  "launches [] = []"
| "launches (Launched epoch launchId running # es) = (epoch, launchId, running) # launches es"
| "launches (e # es) = launches es"

lemma launches_append [simp]: "launches (xs @ ys) = launches xs @ launches ys"
  by (induction xs rule: launches.induct) simp_all



fun silent :: "control_event \<Rightarrow> bool" where
  "silent (Launched epoch launchId running) = False"
| "silent e = True"

lemma launches_silent [simp]: "silent e \<Longrightarrow> launches (e # es) = launches es"
  by (cases e) simp_all

lemma log_event_frame [simp]:
  "ac_record (log_event e c) = ac_record c" "ac_retry (log_event e c) = ac_retry c"
  "ac_queue (log_event e c) = ac_queue c" "ac_known (log_event e c) = ac_known c"
  "ac_world (log_event e c) = ac_world c" "ac_startsRunning (log_event e c) = ac_startsRunning c"
  "ac_instanceId (log_event e c) = ac_instanceId c" "ac_log (log_event e c) = e # ac_log c"
  "ac_failures (log_event e c) = ac_failures c"
  by (simp_all add: log_event_def)

lemma settleIfIdle_frame [simp]:
  "ac_record (settleIfIdle c) = ac_record c" "ac_retry (settleIfIdle c) = ac_retry c"
  "ac_queue (settleIfIdle c) = ac_queue c" "ac_known (settleIfIdle c) = ac_known c"
  "ac_world (settleIfIdle c) = ac_world c" "ac_startsRunning (settleIfIdle c) = ac_startsRunning c"
  "ac_instanceId (settleIfIdle c) = ac_instanceId c" "launches (ac_log (settleIfIdle c)) = launches (ac_log c)"
  "ac_failures (settleIfIdle c) = ac_failures c"
  by (simp_all add: settleIfIdle_def)

lemma clearLaunchRetry_frame [simp]:
  "ac_record (clearLaunchRetry c) = ac_record c" "ac_retry (clearLaunchRetry c) = None"
  "ac_queue (clearLaunchRetry c) = ac_queue c" "ac_known (clearLaunchRetry c) = ac_known c"
  "ac_world (clearLaunchRetry c) = ac_world c" "ac_startsRunning (clearLaunchRetry c) = ac_startsRunning c"
  "ac_instanceId (clearLaunchRetry c) = ac_instanceId c"
  "launches (ac_log (clearLaunchRetry c)) = launches (ac_log c)"
  "ac_failures (clearLaunchRetry c) = ac_failures c"
  by (simp_all add: clearLaunchRetry_def)

lemma small_frames [simp]:
  "ac_record (reset_failures a c) = ac_record c" "ac_retry (reset_failures a c) = ac_retry c"
  "ac_queue (reset_failures a c) = ac_queue c" "ac_known (reset_failures a c) = ac_known c"
  "ac_world (reset_failures a c) = ac_world c" "ac_log (reset_failures a c) = ac_log c"
  "ac_instanceId (reset_failures a c) = ac_instanceId c" "ac_startsRunning (reset_failures a c) = ac_startsRunning c"
  "ac_record (write_record r c) = Some r" "ac_retry (write_record r c) = ac_retry c"
  "ac_queue (write_record r c) = ac_queue c" "ac_known (write_record r c) = ac_known c"
  "ac_world (write_record r c) = ac_world c" "ac_log (write_record r c) = ac_log c"
  "ac_instanceId (write_record r c) = ac_instanceId c" "ac_startsRunning (write_record r c) = ac_startsRunning c"
  "ac_failures (write_record r c) = ac_failures c"
  by (simp_all add: reset_failures_def write_record_def)

lemma report_last_frame [simp]:
  "ac_record (report_last r c) = ac_record c" "ac_retry (report_last r c) = ac_retry c"
  "ac_queue (report_last r c) = ac_queue c" "ac_known (report_last r c) = ac_known c"
  "ac_world (report_last r c) = ac_world c" "launches (ac_log (report_last r c)) = launches (ac_log c)"
  "ac_instanceId (report_last r c) = ac_instanceId c" "ac_startsRunning (report_last r c) = ac_startsRunning c"
  "ac_failures (report_last r c) = ac_failures c"
  by (simp_all add: report_last_def split: option.split)

lemma onLaunchSucceeded_frame [simp]:
  "ac_record (onLaunchSucceeded a c) = ac_record c" "ac_retry (onLaunchSucceeded a c) = None"
  "ac_queue (onLaunchSucceeded a c) = ac_queue c" "ac_known (onLaunchSucceeded a c) = ac_known c"
  "ac_world (onLaunchSucceeded a c) = ac_world c"
  "launches (ac_log (onLaunchSucceeded a c)) = launches (ac_log c)"
  "ac_instanceId (onLaunchSucceeded a c) = ac_instanceId c" "ac_startsRunning (onLaunchSucceeded a c) = ac_startsRunning c"
  by (simp_all add: onLaunchSucceeded_def)

lemma endStartRun_frame [simp]:
  "ac_record (endStartRun c) = ac_record c" "ac_retry (endStartRun c) = ac_retry c"
  "ac_queue (endStartRun c) = ac_queue c" "ac_known (endStartRun c) = ac_known c"
  "ac_world (endStartRun c) = ac_world c" "launches (ac_log (endStartRun c)) = launches (ac_log c)"
  "ac_startsRunning (endStartRun c) = ac_startsRunning c - 1"
  by (simp_all add: endStartRun_def)

lemma settle_op_frame [simp]:
  "ac_record (settle_op out) = ac_record (snd out)" "ac_retry (settle_op out) = ac_retry (snd out)"
  "ac_queue (settle_op out) = ac_queue (snd out)" "ac_known (settle_op out) = ac_known (snd out)"
  "ac_world (settle_op out) = ac_world (snd out)" "launches (ac_log (settle_op out)) = launches (ac_log (snd out))"
  "ac_startsRunning (settle_op out) = ac_startsRunning (snd out)"
  by (cases out; cases "fst out"; simp add: settle_op_def)+


subsection \<open>A launch attempt\<close>

definition starting_record :: "string \<Rightarrow> control_scope \<Rightarrow> string \<Rightarrow> control_record \<Rightarrow> control_record" where
  "starting_record instance_id sc launchId rec = beginLaunch (rec\<lparr>rd_scope := sc, rd_action := StartAction,
     rd_phase := Starting, rd_launchId := Some launchId, rd_daemonInstanceId := instance_id\<rparr>)"

text \<open>What an operation leaves alone.\<close>

definition same_frame :: "'w control \<Rightarrow> 'w control \<Rightarrow> bool" where
  "same_frame c c' \<longleftrightarrow> ac_queue c' = ac_queue c \<and> ac_known c' = ac_known c \<and> ac_instanceId c' = ac_instanceId c \<and>
     ac_startsRunning c' = ac_startsRunning c"

lemma call_launch_frame:
  assumes "call_launch rt sc intent l replaced reason c = (result, c')"
  shows "same_frame c c'" "ac_record c' = ac_record c" "ac_retry c' = ac_retry c" "ac_failures c' = ac_failures c"
    "launches (ac_log c') = (co_epoch sc, l, rt_running rt (ac_world c)) # launches (ac_log c)"
  using assms by (auto simp: call_launch_def same_frame_def split: prod.splits)

lemma launch_or_recreate_frame:
  assumes "launch_or_recreate rt sc intent l c = (result, c')"
  shows "same_frame c c' \<and> ac_record c' = ac_record c \<and> ac_retry c' = ac_retry c \<and>
    (\<exists>new. launches (ac_log c') = new @ launches (ac_log c) \<and> 1 \<le> length new \<and> length new \<le> 2 \<and>
      (\<forall>x \<in> set new. fst x = co_epoch sc \<and> fst (snd x) = l))"
proof -
  obtain first c1 where one: "call_launch rt sc intent l None None c = (first, c1)" by fastforce
  note f1 = call_launch_frame [OF one]
  have once: ?thesis if "c' = c1" using f1 that by (simp add: same_frame_def)
  show ?thesis
  proof (cases "\<exists>code replaced. first = Inl (SessionRecovery code) \<and> in_sessionId intent = Some replaced \<and> replaced \<noteq> ''''")
    case False
    then have "c' = c1" using assms one
      by (auto simp: launch_or_recreate_def split: sum.splits launch_error.splits option.splits if_splits)
    then show ?thesis by (rule once)
  next
    case True
    then obtain code replaced where e: "first = Inl (SessionRecovery code)" "in_sessionId intent = Some replaced"
      "replaced \<noteq> ''''" by blast
    let ?c2 = "case invalidation code of None \<Rightarrow> c1
      | Some reason \<Rightarrow> c1\<lparr>ac_world := rt_invalidate rt intent l replaced reason (ac_world c1)\<rparr>"
    have "call_launch rt sc (intent\<lparr>in_sessionId := None, in_sessionMode := Some CreateSession\<rparr>) l
        (Some replaced) (invalidation code) ?c2 = (result, c')"
      using assms one e by (simp add: launch_or_recreate_def Let_def)
    note f2 = call_launch_frame [OF this]
    have "same_frame c1 ?c2 \<and> ac_record ?c2 = ac_record c1 \<and> ac_retry ?c2 = ac_retry c1 \<and> ac_log ?c2 = ac_log c1"
      by (simp add: same_frame_def split: option.split)
    with f1 f2 show ?thesis by (simp add: same_frame_def)
  qed
qed

text \<open>The four ways an attempt ends: started, cleanup failed, to be retried, and given up.\<close>

lemma attemptStart_outcome:
  assumes "attemptStart rt intent sc rec l n c = (e, c')"
  defines "r1 \<equiv> starting_record (ac_instanceId c) sc l rec"
  shows "same_frame c c'"
    "\<exists>new. launches (ac_log c') = new @ launches (ac_log c) \<and> 1 \<le> length new \<and> length new \<le> 2 \<and>
      (\<forall>x \<in> set new. fst x = co_epoch sc \<and> fst (snd x) = l)"
    "(e = None \<and> (\<exists>identity. ac_record c' = Some (started_record sc l identity r1)) \<and> ac_retry c' = None) \<or>
     (e = Some RuntimeError \<and> ac_record c' = Some r1 \<and> ac_retry c' = ac_retry c) \<or>
     (e = None \<and> n < LAUNCH_FAILURE_MAX_ATTEMPTS \<and> ac_record c' = Some r1 \<and>
        (\<exists>d. ac_retry c' = Some \<lparr>lr_intent = intent, lr_scope = sc, lr_launchId = l, lr_attempt = n + 1, lr_delayMs = d\<rparr>)) \<or>
     (e = None \<and> \<not> n < LAUNCH_FAILURE_MAX_ATTEMPTS \<and> ac_record c' = Some (failed_record sc l r1) \<and> ac_retry c' = None)"
proof -
  obtain result c1 where one: "launch_or_recreate rt sc intent l (write_record r1 c) = (result, c1)" by fastforce
  note f = launch_or_recreate_frame [OF one]
  note run = assms(1) [unfolded attemptStart_def starting_record_def [symmetric] r1_def [symmetric] Let_def one prod.case]
  have "same_frame c c' \<and>
    (\<exists>new. launches (ac_log c') = new @ launches (ac_log c) \<and> 1 \<le> length new \<and> length new \<le> 2 \<and>
      (\<forall>x \<in> set new. fst x = co_epoch sc \<and> fst (snd x) = l)) \<and>
    ((e = None \<and> (\<exists>identity. ac_record c' = Some (started_record sc l identity r1)) \<and> ac_retry c' = None) \<or>
     (e = Some RuntimeError \<and> ac_record c' = Some r1 \<and> ac_retry c' = ac_retry c) \<or>
     (e = None \<and> n < LAUNCH_FAILURE_MAX_ATTEMPTS \<and> ac_record c' = Some r1 \<and>
        (\<exists>d. ac_retry c' = Some \<lparr>lr_intent = intent, lr_scope = sc, lr_launchId = l, lr_attempt = n + 1, lr_delayMs = d\<rparr>)) \<or>
     (e = None \<and> \<not> n < LAUNCH_FAILURE_MAX_ATTEMPTS \<and> ac_record c' = Some (failed_record sc l r1) \<and> ac_retry c' = None))"
  proof (cases result)
    case (Inr identity)
    with run f show ?thesis by (auto simp: same_frame_def)
  next
    case (Inl err)
    obtain stopped w where s: "rt_stop rt (ac_world c1) = (stopped, w)" by fastforce
    obtain a d u failures where b: "lb_recordFailure (ac_failures c1) (in_agentId intent) (rt_now rt w) = ((a, d, u), failures)"
      by (metis prod_cases3 surj_pair)
    show ?thesis
    proof (cases stopped)
      case (Inl x)
      with run f s \<open>result = Inl err\<close> show ?thesis by (auto simp: same_frame_def)
    next
      case (Inr x)
      show ?thesis
      proof (cases "n < LAUNCH_FAILURE_MAX_ATTEMPTS")
        case True
        with run f s b Inr Inl show ?thesis by (auto simp: same_frame_def scheduleLaunchRetry_def)
      next
        case False
        with run f s b Inr Inl show ?thesis by (auto simp: same_frame_def)
      qed
    qed
  qed
  then show "same_frame c c'"
    "\<exists>new. launches (ac_log c') = new @ launches (ac_log c) \<and> 1 \<le> length new \<and> length new \<le> 2 \<and>
      (\<forall>x \<in> set new. fst x = co_epoch sc \<and> fst (snd x) = l)"
    "(e = None \<and> (\<exists>identity. ac_record c' = Some (started_record sc l identity r1)) \<and> ac_retry c' = None) \<or>
     (e = Some RuntimeError \<and> ac_record c' = Some r1 \<and> ac_retry c' = ac_retry c) \<or>
     (e = None \<and> n < LAUNCH_FAILURE_MAX_ATTEMPTS \<and> ac_record c' = Some r1 \<and>
        (\<exists>d. ac_retry c' = Some \<lparr>lr_intent = intent, lr_scope = sc, lr_launchId = l, lr_attempt = n + 1, lr_delayMs = d\<rparr>)) \<or>
     (e = None \<and> \<not> n < LAUNCH_FAILURE_MAX_ATTEMPTS \<and> ac_record c' = Some (failed_record sc l r1) \<and> ac_retry c' = None)"
    by blast+
qed


subsection \<open>The record only moves forward\<close>

text \<open>A scope that may follow another: the same Agent, and no earlier epoch; one epoch has one provider.\<close>

definition follows :: "control_scope \<Rightarrow> control_scope \<Rightarrow> bool" where
  "follows sc sc' \<longleftrightarrow> co_workspaceId sc = co_workspaceId sc' \<and> co_computerId sc = co_computerId sc' \<and>
     co_agentId sc = co_agentId sc' \<and> co_epoch sc \<le> co_epoch sc' \<and>
     (co_epoch sc = co_epoch sc' \<longrightarrow> co_provider sc = co_provider sc')"

lemma follows_refl [simp]: "follows sc sc"
  by (simp add: follows_def)

lemma follows_trans: "follows a b \<Longrightarrow> follows b c \<Longrightarrow> follows a c"
  by (auto simp: follows_def)

lemma not_fenced: "\<not> fenced (Some r) sc \<longleftrightarrow> follows (rd_scope r) sc"
  by (auto simp: fenced_def follows_def Let_def)

definition later :: "control_record option \<Rightarrow> control_record option \<Rightarrow> bool" where
  "later rec rec' \<longleftrightarrow> (\<forall>r. rec = Some r \<longrightarrow> (\<exists>r'. rec' = Some r' \<and> follows (rd_scope r) (rd_scope r') \<and>
     (co_epoch (rd_scope r) = co_epoch (rd_scope r') \<longrightarrow> rd_sequence r \<le> rd_sequence r')))"

lemma later_refl [simp]: "later rec rec"
  by (simp add: later_def)

lemma later_None [simp]: "later None rec"
  by (simp add: later_def)

lemma later_Some: "later (Some r) (Some r') \<longleftrightarrow> follows (rd_scope r) (rd_scope r') \<and>
    (co_epoch (rd_scope r) = co_epoch (rd_scope r') \<longrightarrow> rd_sequence r \<le> rd_sequence r')"
  by (simp add: later_def)

lemma later_trans:
  assumes "later a b" "later b c"
  shows "later a c"
proof (cases a)
  case (Some r)
  with assms obtain r' r'' where r: "b = Some r'" "c = Some r''" and l: "later (Some r) (Some r')" "later (Some r') (Some r'')"
    by (auto simp: later_def)
  with Some show ?thesis
    by (auto simp: later_Some follows_def)
qed simp

text \<open>The receipts of a record, in the order of the operations.\<close>

definition opt_list :: "'a option \<Rightarrow> 'a list" where
  "opt_list x = (case x of None \<Rightarrow> [] | Some a \<Rightarrow> [a])"

lemma opt_list_simps [simp]: "opt_list None = []" "opt_list (Some a) = [a]"
  by (simp_all add: opt_list_def)

definition receipts :: "control_record \<Rightarrow> control_result list" where
  "receipts r = opt_list (rd_stopResult r) @ opt_list (rd_workspaceResetResult r) @ opt_list (rd_startResult r)"

definition record_ok :: "control_record \<Rightarrow> bool" where
  "record_ok r \<longleftrightarrow> 0 \<le> rd_sequence r \<and>
     (\<forall>x \<in> set (receipts r). co_epoch (cr_scope x) = co_epoch (rd_scope r) \<and> 1 \<le> cr_sequence x \<and>
        cr_sequence x \<le> rd_sequence r) \<and>
     sorted_wrt (<) (map cr_sequence (receipts r)) \<and>
     (\<forall>x. rd_stopResult r = Some x \<longrightarrow> cr_phase x \<in> {ResultStopped, ResultFailed}) \<and>
     (\<forall>x. rd_workspaceResetResult r = Some x \<longrightarrow> cr_phase x = ResultWorkspaceReset) \<and>
     (\<forall>x. rd_startResult r = Some x \<longrightarrow> cr_phase x = ResultStarted) \<and>
     (rd_phase r = Starting \<longrightarrow> rd_startResult r = None)"

lemma capture_fields [simp]:
  "rd_scope (capture i r) = rd_scope r" "rd_phase (capture i r) = rd_phase r"
  "rd_stopResult (capture i r) = rd_stopResult r" "rd_workspaceResetResult (capture i r) = rd_workspaceResetResult r"
  "rd_startResult (capture i r) = rd_startResult r" "rd_lastResult (capture i r) = rd_lastResult r"
  "rd_launchId (capture i r) = rd_launchId r" "rd_action (capture i r) = rd_action r"
  "receipts (capture i r) = receipts r"
  by (simp_all add: capture_def receipts_def split: option.split)

lemma capture_sequence: "rd_sequence r \<le> rd_sequence (capture i r)"
  by (simp add: capture_def split: option.split)

lemma record_ok_capture: "record_ok r \<Longrightarrow> record_ok (capture i r)"
  using capture_sequence [of r i] by (fastforce simp: record_ok_def)

lemma record_ok_phase: "record_ok r \<Longrightarrow> p \<noteq> Starting \<Longrightarrow> record_ok (r\<lparr>rd_phase := p\<rparr>)"
  by (simp add: record_ok_def receipts_def)

lemma record_ok_fresh [simp]: "record_ok (fresh_record i sc a p 0)"
  by (simp add: record_ok_def receipts_def fresh_record_def)

text \<open>A start's record: the receipts of its own epoch are kept, and the start's own comes last.\<close>

lemma record_ok_starting:
  assumes "record_ok r" "co_epoch sc = co_epoch (rd_scope r)" "rd_startResult r = None"
  shows "record_ok (starting_record i sc l r)"
  using assms by (simp add: record_ok_def receipts_def starting_record_def beginLaunch_def)

lemma record_ok_started:
  assumes "record_ok r" "rd_scope r = sc" "rd_startResult r = None"
  shows "record_ok (started_record sc l identity r)"
proof -
  have "record_ok (r\<lparr>rd_phase := Running, rd_sequence := rd_sequence r + 1,
      rd_startResult := Some ((result_of sc ResultStarted (rd_sequence r + 1))\<lparr>cr_launchId := Some l, cr_identity := identity\<rparr>),
      rd_lastResult := x\<rparr>)" for x
    using assms unfolding record_ok_def receipts_def result_of_def
    by (auto simp: sorted_wrt_append intro: order_trans [OF _ less_imp_le [OF less_add_one]] zless_add1_eq [THEN iffD2])
  then show ?thesis unfolding started_record_def Let_def by (rule record_ok_capture)
qed

lemma record_ok_failed:
  assumes "record_ok r"
  shows "record_ok (failed_record sc l r)"
  using assms unfolding record_ok_def receipts_def failed_record_def Let_def result_of_def
  by (auto intro: order_trans [OF _ less_imp_le [OF less_add_one]])


subsection \<open>The invariant\<close>

definition reached :: "control_scope \<Rightarrow> control_record option \<Rightarrow> bool" where
  "reached sc rec \<longleftrightarrow> (\<exists>r. rec = Some r \<and> follows sc (rd_scope r))"

definition retry_fits :: "control_record option \<Rightarrow> launch_retry \<Rightarrow> bool" where
  "retry_fits rec retry \<longleftrightarrow> reached (lr_scope retry) rec \<and> 2 \<le> lr_attempt retry \<and>
     lr_attempt retry \<le> LAUNCH_FAILURE_MAX_ATTEMPTS"

text \<open>The retry is of the launch the record says is starting.\<close>

definition owned :: "control_record option \<Rightarrow> launch_retry \<Rightarrow> bool" where
  "owned rec retry \<longleftrightarrow> (\<exists>r. rec = Some r \<and> rd_phase r = Starting \<and>
     co_epoch (rd_scope r) = co_epoch (lr_scope retry) \<and> rd_launchId r = Some (lr_launchId retry))"

definition launches_fit :: "control_record option \<Rightarrow> (int \<times> string \<times> bool) list \<Rightarrow> bool" where
  "launches_fit rec ls \<longleftrightarrow> sorted_wrt (\<ge>) (map fst ls) \<and>
     (\<forall>x \<in> set ls. \<exists>r. rec = Some r \<and> fst x \<le> co_epoch (rd_scope r))"

definition control_ok :: "'w control \<Rightarrow> bool" where
  "control_ok c \<longleftrightarrow> (\<forall>r. ac_record c = Some r \<longrightarrow> record_ok r) \<and>
     (\<forall>retry. ac_retry c = Some retry \<longrightarrow> owned (ac_record c) retry \<and> retry_fits (ac_record c) retry) \<and>
     (\<forall>retry. RetryOp retry \<in> set (ac_queue c) \<longrightarrow> retry_fits (ac_record c) retry) \<and>
     launches_fit (ac_record c) (launches (ac_log c))"

lemma control_okD:
  assumes "control_ok c"
  shows "ac_record c = Some r \<Longrightarrow> record_ok r"
    "ac_retry c = Some retry \<Longrightarrow> owned (ac_record c) retry" "ac_retry c = Some retry \<Longrightarrow> retry_fits (ac_record c) retry"
    "RetryOp retry \<in> set (ac_queue c) \<Longrightarrow> retry_fits (ac_record c) retry"
    "launches_fit (ac_record c) (launches (ac_log c))"
  using assms unfolding control_ok_def by blast+

lemma reached_later: "reached sc rec \<Longrightarrow> later rec rec' \<Longrightarrow> reached sc rec'"
  by (auto simp: reached_def later_def intro: follows_trans)

lemma fits_later: "retry_fits rec retry \<Longrightarrow> later rec rec' \<Longrightarrow> retry_fits rec' retry"
  by (auto simp: retry_fits_def intro: reached_later)

lemma launches_fit_later: "launches_fit rec ls \<Longrightarrow> later rec rec' \<Longrightarrow> launches_fit rec' ls"
  by (fastforce simp: launches_fit_def later_def follows_def)

lemma launches_fit_more:
  assumes "launches_fit rec ls" "rec = Some r" "\<forall>x \<in> set new. fst x = co_epoch (rd_scope r)"
  shows "launches_fit rec (new @ ls)"
  using assms(3)
proof (induction new)
  case (Cons x new)
  then show ?case using assms(2) by (auto simp: launches_fit_def)
qed (use assms(1) in simp)

text \<open>What an operation does to the invariant's state: it moves the record on, and keeps the rest in step.\<close>

definition moves_on :: "'w control \<Rightarrow> 'w control \<Rightarrow> bool" where
  "moves_on c c' \<longleftrightarrow> control_ok c' \<and> later (ac_record c) (ac_record c') \<and> ac_queue c' = ac_queue c"

lemma moves_onI:
  assumes "control_ok c" "ac_queue c' = ac_queue c" "later (ac_record c) (ac_record c')"
    and "\<And>r. ac_record c' = Some r \<Longrightarrow> record_ok r"
    and "\<And>retry. ac_retry c' = Some retry \<Longrightarrow> owned (ac_record c') retry \<and> retry_fits (ac_record c') retry"
    and "launches_fit (ac_record c') (launches (ac_log c'))"
  shows "moves_on c c'"
proof -
  have "retry_fits (ac_record c') retry" if "RetryOp retry \<in> set (ac_queue c')" for retry
    using fits_later [OF control_okD(4) [OF assms(1)] assms(3)] that assms(2) by simp
  with assms show ?thesis unfolding moves_on_def control_ok_def by blast
qed

lemma moves_on_same:
  assumes "control_ok c" "ac_queue c' = ac_queue c" "ac_record c' = ac_record c"
    "ac_retry c' = ac_retry c \<or> ac_retry c' = None" "launches (ac_log c') = launches (ac_log c)"
  shows "moves_on c c'"
  by (rule moves_onI) (use assms control_okD [OF assms(1)] in auto)

lemma moves_on_trans: "moves_on c c' \<Longrightarrow> moves_on c' c'' \<Longrightarrow> moves_on c c''"
  unfolding moves_on_def using later_trans by fastforce

lemma moves_onD: "moves_on c c' \<Longrightarrow> control_ok c'" "moves_on c c' \<Longrightarrow> later (ac_record c) (ac_record c')"
    "moves_on c c' \<Longrightarrow> ac_queue c' = ac_queue c"
  by (simp_all add: moves_on_def)

text \<open>A record changed while no retry is pending.\<close>

lemma moves_on_record:
  assumes "control_ok c" "ac_queue c' = ac_queue c" "ac_record c' = Some r'" "record_ok r'"
    "later (ac_record c) (Some r')" "ac_retry c' = None" "launches (ac_log c') = launches (ac_log c)"
  shows "moves_on c c'"
  by (rule moves_onI) (use assms control_okD(5) [OF assms(1)] launches_fit_later in auto)

lemma idle_retry:
  assumes "control_ok c" "ac_record c = Some r" "rd_phase r \<noteq> Starting"
  shows "ac_retry c = None"
  using control_okD(2) [OF assms(1)] assms(2,3) by (cases "ac_retry c") (auto simp: owned_def)

lemma later_starting:
  assumes "follows (rd_scope r) sc" "co_epoch (rd_scope r) = co_epoch sc \<Longrightarrow> rd_sequence r \<le> rd_sequence r'"
    "rd_scope r' = sc"
  shows "later (Some r) (Some r')"
  using assms by (auto simp: later_Some)

subsection \<open>Every operation keeps it\<close>

lemma starting_fields [simp]:
  "rd_scope (starting_record i sc l r) = sc" "rd_phase (starting_record i sc l r) = Starting"
  "rd_launchId (starting_record i sc l r) = Some l" "rd_sequence (starting_record i sc l r) = rd_sequence r"
  "rd_startResult (starting_record i sc l r) = rd_startResult r"
  by (simp_all add: starting_record_def beginLaunch_def)

lemma started_fields [simp]:
  "rd_scope (started_record sc l identity r) = rd_scope r" "rd_phase (started_record sc l identity r) = Running"
  "rd_sequence r \<le> rd_sequence (started_record sc l identity r)"
proof -
  show "rd_sequence r \<le> rd_sequence (started_record sc l identity r)"
    unfolding started_record_def Let_def by (rule order_trans [OF _ capture_sequence]) simp
qed (simp_all add: started_record_def Let_def)

lemma failed_fields [simp]:
  "rd_scope (failed_record sc l r) = rd_scope r" "rd_phase (failed_record sc l r) = FailedPhase"
  "rd_sequence r \<le> rd_sequence (failed_record sc l r)"
  by (simp_all add: failed_record_def Let_def)

lemma attempt_moves_on:
  assumes "attemptStart rt intent sc rec l n c = (e, c')" "control_ok c"
    and "record_ok rec" "co_epoch sc = co_epoch (rd_scope rec)" "rd_startResult rec = None"
    and "later (ac_record c) (Some (starting_record (ac_instanceId c) sc l rec))"
    and "\<And>retry. ac_retry c = Some retry \<Longrightarrow> co_epoch (lr_scope retry) = co_epoch sc \<and> lr_launchId retry = l"
    and "1 \<le> n"
  shows "moves_on c c'"
proof -
  let ?r = "starting_record (ac_instanceId c) sc l rec"
  note out = attemptStart_outcome [OF assms(1)]
  have ok: "record_ok ?r" by (rule record_ok_starting [OF assms(3,4,5)])
  have queue: "ac_queue c' = ac_queue c" using out(1) by (simp add: same_frame_def)
  obtain new where ls: "launches (ac_log c') = new @ launches (ac_log c)"
    "\<forall>x \<in> set new. fst x = co_epoch sc \<and> fst (snd x) = l" using out(2) by blast
  have fit: "launches_fit (Some r) (launches (ac_log c'))"
    if "later (ac_record c) (Some r)" "rd_scope r = sc" for r
    unfolding ls(1)
    by (rule launches_fit_more [OF launches_fit_later [OF control_okD(5) [OF assms(2)] that(1)] HOL.refl])
      (simp add: that(2) ls(2))
  have next_retry: "owned (Some ?r) x \<and> retry_fits (Some ?r) x"
    if "n < LAUNCH_FAILURE_MAX_ATTEMPTS" "lr_scope x = sc" "lr_launchId x = l" "lr_attempt x = n + 1" for x
    using that assms(8) by (auto simp: owned_def retry_fits_def reached_def)
  have old_retry: "owned (Some ?r) x \<and> retry_fits (Some ?r) x" if "ac_retry c = Some x" for x
    using assms(7) [OF that] fits_later [OF control_okD(3) [OF assms(2) that] assms(6)] by (auto simp: owned_def)
  have go: "later (ac_record c) (Some r)" if "rd_scope r = sc" "rd_sequence ?r \<le> rd_sequence r" for r
    using later_trans [OF assms(6), of "Some r"] that by (simp add: later_Some)
  from out(3) show ?thesis
  proof (elim disjE conjE exE)
    fix identity
    assume r: "ac_record c' = Some (started_record sc l identity ?r)" and "ac_retry c' = None"
    have l: "later (ac_record c) (Some (started_record sc l identity ?r))"
      by (rule go) (simp, rule started_fields)
    have "record_ok (started_record sc l identity ?r)" by (rule record_ok_started) (simp_all add: ok assms(5))
    with l fit [OF l] r \<open>ac_retry c' = None\<close> queue show ?thesis by (intro moves_onI [OF assms(2)]) auto
  next
    assume r: "ac_record c' = Some ?r" and "ac_retry c' = ac_retry c"
    with fit [OF assms(6)] ok queue old_retry assms(6) show ?thesis by (intro moves_onI [OF assms(2)]) auto
  next
    fix d
    assume r: "ac_record c' = Some ?r" and n: "n < LAUNCH_FAILURE_MAX_ATTEMPTS" and
      x: "ac_retry c' = Some \<lparr>lr_intent = intent, lr_scope = sc, lr_launchId = l, lr_attempt = n + 1, lr_delayMs = d\<rparr>"
    with fit [OF assms(6)] ok queue next_retry [OF n] assms(6) show ?thesis by (intro moves_onI [OF assms(2)]) auto
  next
    assume r: "ac_record c' = Some (failed_record sc l ?r)" and "ac_retry c' = None"
    have l: "later (ac_record c) (Some (failed_record sc l ?r))" by (rule go) (simp, rule failed_fields)
    with fit [OF l] r \<open>ac_retry c' = None\<close> queue record_ok_failed [OF ok] show ?thesis
      by (intro moves_onI [OF assms(2)]) auto
  qed
qed


lemma repair_cases:
  "repairStaleRecord rt c = c \<or> (\<exists>r. ac_record c = Some r \<and> rd_phase r = Stopping \<and>
     repairStaleRecord rt c = write_record (r\<lparr>rd_phase := Stopped\<rparr>) c)"
  by (auto simp: repairStaleRecord_def split: option.split)

lemma repair_moves_on:
  assumes "control_ok c"
  shows "moves_on c (repairStaleRecord rt c)"
  using repair_cases [of rt c]
proof (elim disjE exE conjE)
  fix r
  assume r: "ac_record c = Some r" "rd_phase r = Stopping"
    "repairStaleRecord rt c = write_record (r\<lparr>rd_phase := Stopped\<rparr>) c"
  then have "ac_retry c = None" using idle_retry [OF assms r(1)] by simp
  with r record_ok_phase [OF control_okD(1) [OF assms r(1)]] show ?thesis
    by (intro moves_on_record [OF assms, of _ "r\<lparr>rd_phase := Stopped\<rparr>"]) (simp_all add: later_Some)
qed (simp add: assms moves_on_same)

lemma repair_moves: "control_ok c \<Longrightarrow> moves_on (repairStaleRecord rt c) c' \<Longrightarrow> moves_on c c'"
  using repair_moves_on moves_on_trans by blast

lemma stopped_record_facts:
  assumes "0 \<le> sequence_in rec sc"
  shows "record_ok (stopped_record b sc stopped (stopping_record i sc rec))"
    "rd_scope (stopped_record b sc stopped (stopping_record i sc rec)) = sc"
    "sequence_in rec sc \<le> rd_sequence (stopped_record b sc stopped (stopping_record i sc rec))"
proof -
  define r1 where "r1 = stopping_record i sc rec"
  have r1: "rd_launchId r1 = None" "rd_sequence r1 = sequence_in rec sc" "rd_scope r1 = sc" "receipts r1 = []"
    "rd_workspaceResetResult r1 = None" "rd_startResult r1 = None"
    by (simp_all add: r1_def stopping_record_def fresh_record_def receipts_def)
  have capture: "capture found r1 = r1\<lparr>rd_identity := found\<rparr>" for found
    using r1(1) by (simp add: capture_def split: option.split)
  show "record_ok (stopped_record b sc stopped (stopping_record i sc rec))"
    unfolding r1_def [symmetric] using assms r1
    by (cases stopped) (simp_all add: stopped_record_def record_ok_def receipts_def result_of_def capture Let_def)
  show "rd_scope (stopped_record b sc stopped (stopping_record i sc rec)) = sc"
    "sequence_in rec sc \<le> rd_sequence (stopped_record b sc stopped (stopping_record i sc rec))"
    unfolding r1_def [symmetric] using r1 by (cases stopped; simp add: stopped_record_def capture Let_def)+
qed

lemma accepted_stop_moves_on:
  assumes "control_ok c" "\<not> fenced (ac_record c) sc"
  shows "moves_on c (accepted_stop rt sc c)"
proof -
  obtain stopped w where s: "rt_stop rt (ac_world c) = (stopped, w)" by fastforce
  let ?r = "stopped_record (reset_required (ac_record c)) sc stopped (stopping_record (ac_instanceId c) sc (ac_record c))"
  have "0 \<le> sequence_in (ac_record c) sc"
    using control_okD(1) [OF assms(1)] by (auto simp: sequence_in_def record_ok_def split: option.split)
  note r = stopped_record_facts [OF this, of "reset_required (ac_record c)" stopped "ac_instanceId c"]
  have "later (ac_record c) (Some ?r)"
    using assms(2) r(2,3)
    by (cases "ac_record c") (auto simp: not_fenced later_Some sequence_in_def same_epoch_def)
  with r(1) s show ?thesis
    by (intro moves_on_record [OF assms(1), of _ ?r]) (simp_all add: accepted_stop_def Let_def)
qed

lemma stop_moves_on:
  assumes "control_ok c"
  shows "moves_on c (snd (stop_run rt sc known c))"
proof (cases "ac_record c = None \<and> known")
  case True
  with assms show ?thesis by (simp add: stop_run_def moves_on_same)
next
  case False
  let ?c = "repairStaleRecord rt c"
  have ok: "control_ok ?c" using repair_moves_on [OF assms] by (rule moves_onD)
  have "moves_on ?c (snd (stop_run rt sc known c))"
    using False ok accepted_stop_moves_on [OF ok, of sc rt]
    by (auto simp: stop_run_def Let_def moves_on_same split: option.split)
  then show ?thesis by (rule repair_moves [OF assms])
qed

lemma cleared_record_facts:
  assumes "record_ok r" "same_epoch (Some r) sc" "rd_startResult r = None" "rd_workspaceResetResult r = None"
  shows "record_ok (cleared_record sc b r)" "rd_scope (cleared_record sc b r) = rd_scope r"
    "rd_sequence r \<le> rd_sequence (cleared_record sc b r)"
  using assms
  by (auto simp: cleared_record_def clear_session_def record_ok_def receipts_def result_of_def same_epoch_def
      Let_def opt_list_def split: option.splits)

lemma reset_moves_on:
  assumes "control_ok c"
  shows "moves_on c (snd (reset_run rt sc c))"
proof -
  let ?c = "repairStaleRecord rt c"
  have ok: "control_ok ?c" using repair_moves_on [OF assms] by (rule moves_onD)
  have clear: "moves_on ?c (report_last (cleared_record sc b (r\<lparr>rd_action := ResetAction, rd_phase := Clearing\<rparr>))
      (write_record (cleared_record sc b (r\<lparr>rd_action := ResetAction, rd_phase := Clearing\<rparr>))
        ((write_record (r\<lparr>rd_action := ResetAction, rd_phase := Clearing\<rparr>) (?c\<lparr>ac_known := True\<rparr>))\<lparr>ac_world := w\<rparr>)))"
    if "ac_record ?c = Some r" "rd_phase r \<in> {Stopped, Clearing}" "same_epoch (Some r) sc" "rd_startResult r = None"
      "rd_workspaceResetResult r = None" for r b w
  proof -
    let ?r = "r\<lparr>rd_action := ResetAction, rd_phase := Clearing\<rparr>"
    have "ac_retry ?c = None" using idle_retry [OF ok that(1)] that(2) by auto
    moreover have "record_ok ?r" using control_okD(1) [OF ok that(1)] by (simp add: record_ok_def receipts_def)
    note r = cleared_record_facts [OF this, of sc b]
    ultimately show ?thesis
      using that r by (intro moves_on_record [OF ok, of _ "cleared_record sc b ?r"])
        (simp_all add: later_Some same_epoch_def)
  qed
  have "moves_on ?c (snd (reset_run rt sc c))"
    using ok clear by (auto simp: reset_run_def Let_def moves_on_same case_prod_unfold split: option.split)
  then show ?thesis by (rule repair_moves [OF assms])
qed


lemma retry_moves_on:
  assumes "control_ok c" "retry_fits (ac_record c) retry"
  shows "moves_on c (snd (retry_run rt retry c))"
proof (cases "ac_record c")
  case None
  with assms show ?thesis by (simp add: retry_run_def moves_on_same)
next
  case (Some r)
  show ?thesis
  proof (cases "rd_phase r \<noteq> Starting \<or> co_epoch (rd_scope r) \<noteq> co_epoch (lr_scope retry) \<or>
      rd_launchId r \<noteq> Some (lr_launchId retry) \<or> rt_running rt (ac_world c)")
    case True
    with Some assms(1) show ?thesis by (auto simp: retry_run_def moves_on_same)
  next
    case False
    obtain e c' where run: "attemptStart rt (lr_intent retry) (lr_scope retry) r (lr_launchId retry) (lr_attempt retry) c = (e, c')"
      by fastforce
    have scope: "follows (lr_scope retry) (rd_scope r)" using assms(2) Some by (simp add: retry_fits_def reached_def)
    have "follows (rd_scope r) (lr_scope retry)" using scope False by (simp add: follows_def)
    then have l: "later (ac_record c) (Some (starting_record (ac_instanceId c) (lr_scope retry) (lr_launchId retry) r))"
      by (simp add: Some later_Some)
    have "moves_on c c'"
    proof (rule attempt_moves_on [OF run assms(1)])
      show "record_ok r" by (rule control_okD(1) [OF assms(1) Some])
      show "rd_startResult r = None" using \<open>record_ok r\<close> False by (simp add: record_ok_def)
      show "co_epoch (lr_scope x) = co_epoch (lr_scope retry) \<and> lr_launchId x = lr_launchId retry"
        if "ac_retry c = Some x" for x
        using control_okD(2) [OF assms(1) that] Some False by (simp add: owned_def)
      show "1 \<le> lr_attempt retry" using assms(2) by (simp add: retry_fits_def)
    qed (use False l in simp_all)
    with Some False run show ?thesis by (simp add: retry_run_def)
  qed
qed

lemma launch_new_moves_on:
  assumes "control_ok c" "\<not> fenced (ac_record c) sc" "ac_retry c = None"
    and "\<And>r. ac_record c = Some r \<Longrightarrow> same_epoch (Some r) sc \<Longrightarrow> rd_startResult r = None"
  shows "moves_on c (snd (launch_new rt intent sc l c))"
proof -
  define rec where "rec = (case ac_record c of
      Some r \<Rightarrow> if same_epoch (Some r) sc then r else fresh_record (ac_instanceId c) sc StartAction Stopped 0
    | None \<Rightarrow> fresh_record (ac_instanceId c) sc StartAction Stopped 0)"
  obtain e c' where run: "attemptStart rt intent sc rec l 1 c = (e, c')" by fastforce
  have rec: "record_ok rec \<and> co_epoch sc = co_epoch (rd_scope rec) \<and> rd_startResult rec = None"
  proof (cases "ac_record c")
    case (Some r)
    then show ?thesis using assms(4) control_okD(1) [OF assms(1)]
      by (cases "same_epoch (Some r) sc") (simp_all add: rec_def same_epoch_def, simp_all add: fresh_record_def)
  qed (simp add: rec_def, simp add: fresh_record_def)
  have "later (ac_record c) (Some (starting_record (ac_instanceId c) sc l rec))"
    using assms(2) by (cases "ac_record c") (auto simp: rec_def later_Some not_fenced same_epoch_def)
  with rec have "moves_on c c'" by (intro attempt_moves_on [OF run assms(1)]) (simp_all add: assms(3))
  with run show ?thesis by (simp add: launch_new_def rec_def)
qed

lemma record_ok_rebound:
  assumes "rd_sequence r = 0" "receipts r = []" "rd_scope r = sc" "rd_phase r = Running"
  shows "record_ok (capture identity (r\<lparr>rd_identity := identity, rd_sequence := 1,
    rd_startResult := Some ((result_of sc ResultStarted 1)\<lparr>cr_launchId := Some l, cr_identity := identity\<rparr>), rd_lastResult := x\<rparr>))"
proof -
  have "rd_stopResult r = None" "rd_workspaceResetResult r = None"
    using assms(2) by (auto simp: receipts_def opt_list_def split: option.splits)
  with assms show ?thesis by (intro record_ok_capture) (simp add: record_ok_def receipts_def result_of_def)
qed

lemma rebind_moves_on:
  assumes "control_ok c" "ac_record c = Some rec" "rd_phase rec = Running" "follows (rd_scope rec) sc"
    and "co_epoch (rd_scope rec) < co_epoch sc"
  shows "moves_on c (snd (rebindRunning rt rec sc intent l c))"
proof -
  define r1 where "r1 = rec\<lparr>rd_scope := sc, rd_action := StartAction, rd_launchId := Some l, rd_sequence := 0,
    rd_stopResult := None, rd_workspaceResetResult := None, rd_startResult := None\<rparr>"
  obtain bound w where b: "rt_rebind rt intent l (ac_world c) = (bound, w)" by fastforce
  have retry: "ac_retry c = None" using idle_retry [OF assms(1,2)] assms(3) by simp
  have r1: "record_ok r1" "rd_scope r1 = sc" "rd_sequence r1 = 0" "receipts r1 = []" "rd_phase r1 = Running"
    using assms(3) by (simp_all add: r1_def record_ok_def receipts_def)
  have later: "later (ac_record c) (Some r)" if "rd_scope r = sc" for r
    using assms(2,4,5) that by (simp add: later_Some)
  show ?thesis
  proof (cases bound)
    case (Inl x)
    with b r1 later [OF r1(2)] retry show ?thesis
      by (intro moves_on_record [OF assms(1), of _ r1]) (simp_all add: rebindRunning_def r1_def [symmetric] Let_def)
  next
    case (Inr found)
    define identity where "identity = (case found of None \<Rightarrow> rd_identity r1 | Some i \<Rightarrow> Some i)"
    define x where "x = (result_of sc ResultStarted 1)\<lparr>cr_launchId := Some l, cr_identity := identity\<rparr>"
    let ?r = "capture identity (r1\<lparr>rd_identity := identity, rd_sequence := 1, rd_startResult := Some x, rd_lastResult := Some x\<rparr>)"
    have r: "record_ok ?r" "rd_scope ?r = sc"
      using record_ok_rebound [OF r1(3,4,2,5)] by (simp_all add: x_def r1(2))
    have frame: "ac_record (snd (rebindRunning rt rec sc intent l c)) = Some ?r \<and>
      ac_queue (snd (rebindRunning rt rec sc intent l c)) = ac_queue c \<and>
      ac_retry (snd (rebindRunning rt rec sc intent l c)) = None \<and>
      launches (ac_log (snd (rebindRunning rt rec sc intent l c))) = launches (ac_log c)"
      using b Inr retry
      by (simp add: rebindRunning_def r1_def [symmetric] identity_def [symmetric] x_def [symmetric] Let_def
          case_prod_unfold)
    show ?thesis by (rule moves_on_record [OF assms(1), of _ ?r]) (use frame r later [OF r(2)] in simp_all)
  qed
qed


lemma running_process_cases:
  "running_process rt sc intent c = SameSession \<Longrightarrow> \<exists>r. ac_record c = Some r \<and> rd_phase r = Running \<and>
     co_epoch (rd_scope r) < co_epoch sc"
  by (auto simp: running_process_def Let_def split: if_splits option.splits)

lemma admitted_moves_on:
  assumes "control_ok c" "\<not> fenced (ac_record c) sc" "ac_retry c = None"
    and "\<And>r. ac_record c = Some r \<Longrightarrow> same_epoch (Some r) sc \<Longrightarrow> rd_startResult r = None"
  shows "moves_on c (snd (admitted_start rt intent sc c))"
proof -
  have refuse: "moves_on c (snd (refuse_start sc code e c))" for code e
    using assms(1) by (simp add: refuse_start_def moves_on_same)
  have go: "moves_on c (snd (admitted_start rt intent sc c))" if l: "in_launchId intent = Some l" "l \<noteq> ''''" for l
  proof (cases "running_process rt sc intent c")
    case NoProcess
    with l launch_new_moves_on [OF assms, of rt intent l] show ?thesis by (simp add: admitted_start_def)
  next
    case OtherSession
    obtain stopped w where s: "rt_stop rt (ac_world c) = (stopped, w)" by fastforce
    define c1 where "c1 = (log_event StopCalled c)\<lparr>ac_world := w\<rparr>"
    have c1: "moves_on c c1" "ac_record c1 = ac_record c" "ac_retry c1 = None"
      using assms(1,3) by (simp_all add: c1_def moves_on_same)
    have "moves_on c1 (snd (launch_new rt intent sc l c1))"
      by (rule launch_new_moves_on [OF moves_onD(1) [OF c1(1)]]) (use c1(2,3) assms(2,4) in simp_all)
    with c1(1) moves_on_trans have "moves_on c (snd (launch_new rt intent sc l c1))" by blast
    with l OtherSession s c1(1) show ?thesis
      by (cases stopped) (simp_all add: admitted_start_def c1_def [symmetric] Let_def)
  next
    case SameSession
    then obtain r where r: "ac_record c = Some r" "rd_phase r = Running" "co_epoch (rd_scope r) < co_epoch sc"
      using running_process_cases by blast
    then have "follows (rd_scope r) sc" using assms(2) by (simp add: not_fenced)
    from rebind_moves_on [OF assms(1) r(1,2) this r(3)] l SameSession r(1) show ?thesis by (simp add: admitted_start_def)
  next
    case Unmatched
    with l refuse show ?thesis by (simp add: admitted_start_def)
  qed
  show ?thesis
  proof (cases "in_launchId intent")
    case None
    with refuse show ?thesis by (simp add: admitted_start_def)
  next
    case (Some l)
    with go [OF Some] refuse show ?thesis by (cases "l = ''''") (simp_all add: admitted_start_def)
  qed
qed

lemma replay_moves_on: "control_ok c \<Longrightarrow> moves_on c (snd (replay_start rt intent sc r x c))"
  by (simp add: replay_start_def moves_on_same case_prod_unfold Let_def)

lemma start_moves_on:
  assumes "control_ok c0"
  shows "moves_on c0 (snd (start_run rt intent known c0))"
proof (cases "in_controlEpoch intent \<in> {None, Some 0} \<or> ac_record c0 = None \<and> known")
  case True
  with assms show ?thesis by (auto simp: start_run_def moves_on_same split: option.split)
next
  case False
  then obtain epoch where e: "in_controlEpoch intent = Some epoch" "epoch \<noteq> 0" by auto
  have k: "(ac_record c0 = None \<and> known) = False" using False by auto
  let ?sc = "scope_of intent epoch" and ?c = "repairStaleRecord rt c0"
  have ok: "control_ok ?c" using repair_moves_on [OF assms] by (rule moves_onD)
  have e': "co_epoch ?sc = epoch" by (simp add: scope_of_def)
  have "moves_on ?c (snd (start_run rt intent known c0))"
  proof (cases "fenced (ac_record ?c) ?sc")
    case True
    with e ok show ?thesis by (simp add: start_run_def k Let_def moves_on_same)
  next
    case fence: False
    show ?thesis
    proof (cases "ac_record ?c")
      case None
      have "ac_retry ?c = None" using control_okD(2) [OF ok] None by (cases "ac_retry ?c") (auto simp: owned_def)
      with admitted_moves_on [OF ok fence, of rt intent] e fence None show ?thesis
        by (simp add: start_run_def k Let_def)
    next
      case (Some r)
      let ?d = "reset_failures (in_agentId intent) (clearLaunchRetry ?c)"
      consider (replay) "same_epoch (Some r) ?sc" "rd_startResult r \<noteq> None"
        | (super) "\<not> (same_epoch (Some r) ?sc \<and> rd_startResult r \<noteq> None)" "rd_phase r = Starting"
            "co_epoch (rd_scope r) < epoch" "ac_retry ?c \<noteq> None"
        | (blocked) "\<not> (same_epoch (Some r) ?sc \<and> rd_startResult r \<noteq> None)"
            "\<not> (rd_phase r = Starting \<and> co_epoch (rd_scope r) < epoch \<and> ac_retry ?c \<noteq> None)"
            "rd_phase r \<in> {Stopping, Clearing, Starting} \<or> rd_phase r = FailedPhase \<and> same_epoch (Some r) ?sc"
        | (admitted) "\<not> (same_epoch (Some r) ?sc \<and> rd_startResult r \<noteq> None)"
            "\<not> (rd_phase r \<in> {Stopping, Clearing, Starting} \<or> rd_phase r = FailedPhase \<and> same_epoch (Some r) ?sc)"
        by blast
      then show ?thesis
      proof cases
        case replay
        with e fence Some replay_moves_on [OF ok, of rt intent ?sc r "the (rd_startResult r)"] show ?thesis
          by (simp add: start_run_def k Let_def)
      next
        case super
        have d: "moves_on ?c ?d" using ok by (simp add: moves_on_same)
        have "moves_on ?d (snd (admitted_start rt intent ?sc ?d))"
          by (rule admitted_moves_on [OF moves_onD(1) [OF d]]) (use fence Some super(1) in auto)
        with d moves_on_trans have "moves_on ?c (snd (admitted_start rt intent ?sc ?d))" by blast
        with e fence Some super show ?thesis by (auto simp: start_run_def k Let_def)
      next
        case blocked
        with e fence Some ok show ?thesis by (auto simp: start_run_def k Let_def moves_on_same)
      next
        case admitted
        have "ac_retry ?c = None" using idle_retry [OF ok Some] admitted(2) by auto
        with admitted_moves_on [OF ok fence, of rt intent] e fence Some admitted show ?thesis
          by (auto simp: start_run_def k Let_def)
      qed
    qed
  qed
  then show ?thesis by (rule repair_moves [OF assms])
qed

lemma running_moves_on:
  assumes "control_ok c" "ac_record c = Some r" "p \<noteq> Starting" "rd_phase r \<noteq> Starting"
  shows "moves_on c (write_record (capture i (r\<lparr>rd_phase := p\<rparr>)) c)"
proof (rule moves_on_record [OF assms(1), of _ "capture i (r\<lparr>rd_phase := p\<rparr>)"])
  show "record_ok (capture i (r\<lparr>rd_phase := p\<rparr>))"
    by (rule record_ok_capture [OF record_ok_phase [OF control_okD(1) [OF assms(1,2)] assms(3)]])
  show "later (ac_record c) (Some (capture i (r\<lparr>rd_phase := p\<rparr>)))"
    using capture_sequence [of "r\<lparr>rd_phase := p\<rparr>" i] by (simp add: assms(2) later_Some)
qed (use idle_retry [OF assms(1,2,4)] in simp_all)

lemma session_moves_on:
  assumes "control_ok c"
  shows "moves_on c (session_update l i c)"
proof (cases "\<exists>r. ac_record c = Some r \<and> rd_launchId r = Some l \<and> rd_phase r = Running")
  case True
  then obtain r where r: "ac_record c = Some r" "rd_launchId r = Some l" "rd_phase r = Running" by blast
  have same: "r\<lparr>rd_phase := Running\<rparr> = r" using r(3) by simp
  have m: "moves_on c (write_record (capture (Some i) r) c)"
    using running_moves_on [OF assms r(1), of Running "Some i"] r(3) by (simp add: same)
  then have "moves_on c (log_event (SessionReported s) (write_record (capture (Some i) r) c))" for s
    by (rule moves_on_trans) (use moves_onD(1) [OF m] in \<open>simp add: moves_on_same\<close>)
  with m r show ?thesis by (simp add: session_update_def Let_def split: option.split)
next
  case False
  with assms show ?thesis by (auto simp: session_update_def moves_on_same split: option.split)
qed

lemma run_op_moves_on:
  assumes "control_ok c" "\<And>retry. q = RetryOp retry \<Longrightarrow> retry_fits (ac_record c) retry"
  shows "moves_on c (run_op rt q c)"
proof -
  have settle: "moves_on c (settle_op out)" if "moves_on c (snd out)" for out
    by (rule moves_on_trans [OF that]) (use moves_onD(1) [OF that] in \<open>simp add: moves_on_same\<close>)
  have finish: "moves_on c (endStartRun c')" if "moves_on c c'" for c'
    by (rule moves_on_trans [OF that]) (use moves_onD(1) [OF that] in \<open>simp add: moves_on_same\<close>)
  show ?thesis
  proof (cases q)
    case (ExitOp l i)
    then show ?thesis using assms(1) running_moves_on [OF assms(1), of _ Stopped]
      by (auto simp: exit_run_def moves_on_same split: option.split)
  next
    case (WokenOp l i)
    then show ?thesis using assms(1) running_moves_on [OF assms(1), of _ Running]
      by (auto simp: woken_run_def moves_on_same split: option.split)
  next
    case ReplayOp
    then show ?thesis using assms(1) by (auto simp: replay_run_def moves_on_same split: option.split)
  next
    case SessionReplayOp
    then show ?thesis using assms(1) by (auto simp: session_replay_def moves_on_same split: option.split)
  qed (auto intro!: settle finish stop_moves_on reset_moves_on start_moves_on retry_moves_on session_moves_on assms)
qed


subsection \<open>Runs\<close>

lemma control_ok_new [simp]: "control_ok (new_control i w)"
  by (simp add: control_ok_def new_control_def launches_fit_def)

lemma control_ok_cong:
  assumes "control_ok c" "ac_record c' = ac_record c" "ac_retry c' \<in> {ac_retry c, None}"
    and "launches (ac_log c') = launches (ac_log c)"
    and "\<And>retry. RetryOp retry \<in> set (ac_queue c') \<Longrightarrow> RetryOp retry \<in> set (ac_queue c) \<or> ac_retry c = Some retry"
  shows "control_ok c'"
  using assms unfolding control_ok_def by auto

lemma control_step_ok:
  assumes "control_step rt c c'" "control_ok c"
  shows "control_ok c' \<and> later (ac_record c) (ac_record c')"
  using assms(1)
proof (cases rule: control_step.cases)
  case (called call)
  have "ac_record c' = ac_record c \<and> ac_retry c' = ac_retry c \<and> ac_log c' = ac_log c \<and>
      (\<forall>retry. RetryOp retry \<in> set (ac_queue c') \<longrightarrow> RetryOp retry \<in> set (ac_queue c))"
    unfolding called by (cases call) (auto simp: enqueue_def beginStartRun_def)
  with control_ok_cong [OF assms(2), of c'] show ?thesis by simp
next
  case (fires retry)
  have "ac_record c' = ac_record c \<and> ac_retry c' = None \<and> ac_log c' = ac_log c \<and>
      (\<forall>x. RetryOp x \<in> set (ac_queue c') \<longrightarrow> RetryOp x \<in> set (ac_queue c) \<or> ac_retry c = Some x)"
    using fires by (auto simp: timer_fires_def enqueue_def beginStartRun_def)
  with control_ok_cong [OF assms(2), of c'] show ?thesis by simp
next
  case (runs q qs)
  let ?c = "c\<lparr>ac_queue := qs\<rparr>"
  have ok: "control_ok ?c" by (rule control_ok_cong [OF assms(2)]) (use runs in auto)
  have "moves_on ?c (run_op rt q ?c)"
    by (rule run_op_moves_on [OF ok]) (use control_okD(4) [OF assms(2)] runs in auto)
  with runs show ?thesis by (auto simp: moves_on_def)
next
  case disposed
  with control_ok_cong [OF assms(2), of c'] show ?thesis by (simp add: dispose_def)
next
  case (moved w)
  with control_ok_cong [OF assms(2), of c'] show ?thesis by simp
qed

lemma control_run_ok:
  assumes "control_run rt c c'" "control_ok c"
  shows "control_ok c' \<and> later (ac_record c) (ac_record c')"
  using assms by (induction rule: control_run.induct) (auto dest: control_step_ok intro: later_trans)

lemma control_ok_run: "control_run rt (new_control i w) c \<Longrightarrow> control_ok c"
  using control_run_ok by fastforce

subsection \<open>A sample process\<close>

text \<open>Whether it runs, and how many launches still fail.\<close>

definition sample_runtime :: "(bool \<times> nat) agent_runtime" where
  "sample_runtime =
     \<lparr>rt_running = fst,
      rt_stop = (\<lambda>(running, n). (Inr None, (False, n))),
      rt_launch = (\<lambda>intent l replaced reason (running, n). if n = 0
        then (Inr (Some \<lparr>si_sessionId = ''s'', si_state = Resumable\<rparr>), (True, 0))
        else (Inl OtherLaunchError, (False, n - 1))),
      rt_wake = (\<lambda>intent w. (True, w)),
      rt_invalidate = (\<lambda>intent l replaced reason w. w),
      rt_rebind = (\<lambda>intent l w. (Inr None, w)),
      rt_clearWorkspace = (\<lambda>w. (True, w)),
      rt_now = (\<lambda>w. 0)\<rparr>"

definition sample_intent :: "int \<Rightarrow> string \<Rightarrow> start_intent" where
  "sample_intent epoch l =
     \<lparr>in_requestId = ''q'', in_workspaceId = ''w'', in_computerId = ''c'', in_agentId = ''a'', in_provider = ''pi'',
      in_controlEpoch = Some epoch, in_launchId = Some l, in_sessionId = None, in_sessionMode = None,
      in_wakeMessage = False, in_resumePrompt = None\<rparr>"

definition serve :: "'w agent_runtime \<Rightarrow> control_call \<Rightarrow> 'w control \<Rightarrow> 'w control" where
  "serve rt call c = (let c1 = take_call call c in case ac_queue c1 of [] \<Rightarrow> c1
     | q # qs \<Rightarrow> run_op rt q (c1\<lparr>ac_queue := qs\<rparr>))"

lemma serve_run: "control_run rt c (serve rt call c)"
proof -
  have "control_run rt c (take_call call c)" by (rule one_more [OF no_step called])
  then show ?thesis
    by (auto simp: serve_def Let_def split: list.split intro: one_more runs)
qed

definition sample_control :: "nat \<Rightarrow> (bool \<times> nat) control" where
  "sample_control failing = serve sample_runtime (StartCall (sample_intent 1 ''l1'')) (new_control ''d'' (False, failing))"

lemma sample_control_run: "control_run sample_runtime (new_control ''d'' (False, n)) (sample_control n)"
  unfolding sample_control_def by (rule serve_run)

subsection \<open>An Agent's operations only move forward\<close>

text \<open>
  C9: in any interleaving of Starts, Stops, resets, retry timers and the process's own behaviour,
  launches are made in the order of their operations' epochs, never for an older operation than one
  already launched; and a pending launch retry is always of the launch the record says is starting,
  within the attempts allowed.
\<close>

theorem launches_never_go_back:
  assumes "control_run rt (new_control i w) c"
  shows "sorted (rev (map fst (launches (ac_log c)))) \<and>
    (\<forall>retry. ac_retry c = Some retry \<longrightarrow> 2 \<le> lr_attempt retry \<and> lr_attempt retry \<le> LAUNCH_FAILURE_MAX_ATTEMPTS \<and>
      (\<exists>r. ac_record c = Some r \<and> rd_phase r = Starting \<and> co_epoch (rd_scope r) = co_epoch (lr_scope retry) \<and>
        rd_launchId r = Some (lr_launchId retry)))"
proof -
  note ok = control_ok_run [OF assms]
  have "sorted (rev (map fst (launches (ac_log c))))"
    using control_okD(5) [OF ok] by (simp add: launches_fit_def sorted_wrt_rev)
  with control_okD(2,3) [OF ok] show ?thesis by (auto simp: owned_def retry_fits_def)
qed

theorem launches_never_go_back_witness:
  "\<exists>retry. ac_retry (sample_control 1) = Some retry \<and> lr_attempt retry \<le> LAUNCH_FAILURE_MAX_ATTEMPTS"
proof -
  have "ac_retry (sample_control 1) \<noteq> None" by code_simp
  with launches_never_go_back [OF sample_control_run] show ?thesis by blast
qed

text \<open>
  C11: an Agent's control record is never lost and only moves forward: between any two moments it stays
  with its workspace, computer and Agent, its epoch does not fall, and within one epoch its provider
  stays and its sequence does not fall.
\<close>

theorem control_record_moves_forward:
  assumes "control_run rt (new_control i w) c" "control_run rt c c'" "ac_record c = Some r"
  shows "\<exists>r'. ac_record c' = Some r' \<and> co_workspaceId (rd_scope r') = co_workspaceId (rd_scope r) \<and>
    co_computerId (rd_scope r') = co_computerId (rd_scope r) \<and> co_agentId (rd_scope r') = co_agentId (rd_scope r) \<and>
    co_epoch (rd_scope r) \<le> co_epoch (rd_scope r') \<and>
    (co_epoch (rd_scope r') = co_epoch (rd_scope r) \<longrightarrow>
      co_provider (rd_scope r') = co_provider (rd_scope r) \<and> rd_sequence r \<le> rd_sequence r')"
  using control_run_ok [OF assms(2) control_ok_run [OF assms(1)]] assms(3)
  by (auto simp: later_def follows_def)

theorem control_record_moves_forward_witness:
  "\<exists>r r'. ac_record (sample_control 0) = Some r \<and>
     ac_record (serve sample_runtime (StopCall (scope_of (sample_intent 2 ''l2'') 2)) (sample_control 0)) = Some r' \<and>
     co_epoch (rd_scope r) \<le> co_epoch (rd_scope r')"
proof -
  have "ac_record (sample_control 0) \<noteq> None" by code_simp
  then obtain r where "ac_record (sample_control 0) = Some r" by blast
  with control_record_moves_forward [OF sample_control_run serve_run this] show ?thesis by blast
qed

text \<open>
  The receipts a record keeps are those of its epoch, in the order of the operations: the Stop's
  before the workspace reset's before the Start's, each with the phase its operation reports and a
  sequence of its own, none above the record's.
\<close>

theorem receipts_are_of_the_epoch:
  assumes "control_run rt (new_control i w) c" "ac_record c = Some r"
  shows "(\<forall>x \<in> set (receipts r). co_epoch (cr_scope x) = co_epoch (rd_scope r) \<and> 1 \<le> cr_sequence x \<and>
      cr_sequence x \<le> rd_sequence r) \<and>
    sorted_wrt (<) (map cr_sequence (receipts r)) \<and>
    (\<forall>x. rd_stopResult r = Some x \<longrightarrow> cr_phase x = ResultStopped \<or> cr_phase x = ResultFailed) \<and>
    (\<forall>x. rd_workspaceResetResult r = Some x \<longrightarrow> cr_phase x = ResultWorkspaceReset) \<and>
    (\<forall>x. rd_startResult r = Some x \<longrightarrow> cr_phase x = ResultStarted)"
  using control_okD(1) [OF control_ok_run [OF assms(1)] assms(2)] by (auto simp: record_ok_def)

theorem receipts_are_of_the_epoch_witness:
  "\<exists>r. ac_record (sample_control 0) = Some r \<and> sorted_wrt (<) (map cr_sequence (receipts r))"
proof -
  have "ac_record (sample_control 0) \<noteq> None" by code_simp
  then obtain r where "ac_record (sample_control 0) = Some r" by blast
  with receipts_are_of_the_epoch [OF sample_control_run this] show ?thesis by blast
qed

end
