(* ===== verification/AgentStarts.thy ===== *)
theory AgentStarts
  imports AgentControlProperties
begin

text \<open>
  How an Agent's Starts and Stops end: a repeated Stop only repeats its receipt, a failing Start is
  answered within the attempts allowed, and the two ways an Agent's control gets stuck.
\<close>

subsection \<open>A repeated Stop\<close>

definition stop_receipt :: "'w control \<Rightarrow> control_scope \<Rightarrow> control_result \<Rightarrow> bool" where
  "stop_receipt c sc x \<longleftrightarrow> (\<exists>r. ac_record c = Some r \<and> rd_stopResult r = Some x \<and>
     co_epoch (rd_scope r) = co_epoch sc \<and> co_requestId (cr_scope x) = co_requestId sc \<and> \<not> fenced (Some r) sc)"

lemma repaired_receipt: "stop_receipt c sc x \<Longrightarrow> stop_receipt (repairStaleRecord rt c) sc x"
  using repair_cases [of rt c] by (auto simp: stop_receipt_def fenced_def)

lemma stopped_record_receipt:
  "\<exists>x. rd_stopResult (stopped_record b sc stopped (stopping_record i sc rec)) = Some x \<and> cr_scope x = sc \<and>
     rd_scope (stopped_record b sc stopped (stopping_record i sc rec)) = sc"
  by (cases stopped)
    (simp_all add: stopped_record_def stopping_record_def fresh_record_def result_of_def Let_def)

lemma stop_leaves_receipt:
  assumes "stop_run rt sc known c = (None, c1)"
  shows "\<exists>x. stop_receipt c1 sc x"
proof -
  let ?c = "repairStaleRecord rt c"
  have not_fenced: "\<not> fenced (ac_record ?c) sc" using assms by (auto simp: stop_run_def Let_def split: if_splits)
  have accepted: "\<exists>x. stop_receipt (accepted_stop rt sc ?c) sc x"
  proof -
    obtain stopped w where s: "rt_stop rt (ac_world ?c) = (stopped, w)" by fastforce
    let ?r = "stopped_record (reset_required (ac_record ?c)) sc stopped (stopping_record (ac_instanceId ?c) sc (ac_record ?c))"
    obtain x where "rd_stopResult ?r = Some x" "cr_scope x = sc" "rd_scope ?r = sc"
      using stopped_record_receipt by blast
    then have "stop_receipt (accepted_stop rt sc ?c) sc x"
      using s by (simp add: stop_receipt_def accepted_stop_def fenced_def Let_def)
    then show ?thesis by blast
  qed
  show ?thesis
  proof (cases "c1 = accepted_stop rt sc ?c")
    case False
    with assms not_fenced obtain r x where "ac_record ?c = Some r" "same_epoch (Some r) sc" "rd_stopResult r = Some x"
      "co_requestId (cr_scope x) = co_requestId sc" "c1 = log_event (Reported x) ?c"
      by (auto simp: stop_run_def Let_def split: if_splits option.splits)
    with not_fenced show ?thesis by (auto simp: stop_receipt_def same_epoch_def)
  qed (use accepted in simp)
qed

text \<open>
  C12: a Stop is answered once: however the process behaves meanwhile, repeating an answered Stop only
  reports its receipt again; the process is not stopped a second time, nothing is launched, and no
  pending retry is touched.
\<close>

theorem repeated_stop_repeats_its_receipt:
  assumes "stop_run rt sc known c = (None, c1)"
  shows "\<exists>x c2. stop_run rt sc known' (c1\<lparr>ac_world := w\<rparr>) = (None, c2) \<and> stop_receipt c1 sc x \<and>
    ac_log c2 = Reported x # ac_log c1 \<and> ac_world c2 = w \<and> ac_retry c2 = ac_retry c1"
proof -
  obtain x where x: "stop_receipt c1 sc x" using stop_leaves_receipt [OF assms] by blast
  let ?c = "repairStaleRecord rt (c1\<lparr>ac_world := w\<rparr>)"
  have frame: "ac_log ?c = ac_log c1" "ac_world ?c = w" "ac_retry ?c = ac_retry c1"
    using repair_cases [of rt "c1\<lparr>ac_world := w\<rparr>"] by auto
  have "stop_receipt (c1\<lparr>ac_world := w\<rparr>) sc x" using x by (simp add: stop_receipt_def)
  then have "stop_receipt ?c sc x" by (rule repaired_receipt)
  then have "stop_run rt sc known' (c1\<lparr>ac_world := w\<rparr>) = (None, log_event (Reported x) ?c)"
    using x by (auto simp: stop_receipt_def stop_run_def same_epoch_def Let_def)
  with x frame show ?thesis by auto
qed

definition sample_stop :: control_scope where
  "sample_stop = scope_of (sample_intent 2 ''l2'') 2"

theorem repeated_stop_repeats_its_receipt_witness:
  "\<exists>c1 x. stop_run sample_runtime sample_stop True (sample_control 0) = (None, c1) \<and>
     ac_log (snd (stop_run sample_runtime sample_stop True (c1\<lparr>ac_world := (True, 5)\<rparr>))) = Reported x # ac_log c1"
proof -
  have "fst (stop_run sample_runtime sample_stop True (sample_control 0)) = None" by code_simp
  then obtain c1 where c1: "stop_run sample_runtime sample_stop True (sample_control 0) = (None, c1)"
    by (metis prod.collapse)
  from repeated_stop_repeats_its_receipt [OF c1, of True "(True, 5)"] c1 show ?thesis by auto
qed

subsection \<open>A failing Start\<close>

definition answered :: "control_scope \<Rightarrow> string \<Rightarrow> 'w control \<Rightarrow> bool" where
  "answered sc l c \<longleftrightarrow> (\<exists>x. Reported x \<in> set (ac_log c) \<and> cr_scope x = sc \<and> cr_launchId x = Some l \<and>
     cr_phase x \<in> {ResultStarted, ResultFailed})"

lemma report_last_answers:
  assumes "\<exists>x. rd_lastResult r = Some x \<and> cr_scope x = sc \<and> cr_launchId x = Some l \<and>
    cr_phase x \<in> {ResultStarted, ResultFailed}"
  shows "answered sc l (report_last r c)"
  using assms by (auto simp: answered_def report_last_def)

lemma attempt_last_results:
  "\<exists>x. rd_lastResult (started_record sc l identity r) = Some x \<and> cr_scope x = sc \<and> cr_launchId x = Some l \<and>
     cr_phase x \<in> {ResultStarted, ResultFailed}"
  "\<exists>x. rd_lastResult (failed_record sc l r) = Some x \<and> cr_scope x = sc \<and> cr_launchId x = Some l \<and>
     cr_phase x \<in> {ResultStarted, ResultFailed}"
  by (simp_all add: started_record_def failed_record_def result_of_def Let_def)

lemma attempt_answers:
  assumes "attemptStart rt intent sc rec l n c = (None, c')" "ac_retry c' = None"
  shows "answered sc l c'"
proof -
  let ?r = "starting_record (ac_instanceId c) sc l rec"
  obtain result c1 where one: "launch_or_recreate rt sc intent l (write_record ?r c) = (result, c1)" by fastforce
  note run = assms(1) [unfolded attemptStart_def starting_record_def [symmetric] Let_def one prod.case]
  show ?thesis
  proof (cases result)
    case (Inr identity)
    with run have "c' = report_last (started_record sc l identity ?r)
        (onLaunchSucceeded (in_agentId intent) (write_record (started_record sc l identity ?r) c1))" by simp
    then show ?thesis using report_last_answers [OF attempt_last_results(1)] by simp
  next
    case (Inl err)
    obtain stopped w where s: "rt_stop rt (ac_world c1) = (stopped, w)" by fastforce
    obtain a d u failures where b: "lb_recordFailure (ac_failures c1) (in_agentId intent) (rt_now rt w) = ((a, d, u), failures)"
      by (metis prod_cases3 surj_pair)
    from run Inl s b assms(2) have "\<not> n < LAUNCH_FAILURE_MAX_ATTEMPTS" "\<exists>c2. c' = report_last (failed_record sc l ?r) c2"
      by (auto simp: scheduleLaunchRetry_def split: sum.splits if_splits)
    then show ?thesis using report_last_answers [OF attempt_last_results(2)] by auto
  qed
qed

text \<open>The retry's timer fires, the world as it is then, and its operation runs.\<close>

definition retry_round :: "'w agent_runtime \<Rightarrow> 'w \<Rightarrow> 'w control \<Rightarrow> 'w control" where
  "retry_round rt w c =
     (case ac_retry c of
        None \<Rightarrow> c
      | Some retry \<Rightarrow> (let c1 = timer_fires retry (c\<lparr>ac_world := w\<rparr>)
          in case ac_queue c1 of [] \<Rightarrow> c1 | q # qs \<Rightarrow> run_op rt q (c1\<lparr>ac_queue := qs\<rparr>)))"

lemma retry_round_run: "control_run rt c (retry_round rt w c)"
proof (cases "ac_retry c")
  case (Some retry)
  have "control_run rt c (timer_fires retry (c\<lparr>ac_world := w\<rparr>))"
    by (rule one_more [OF one_more [OF no_step moved] fires]) (simp add: Some)
  then show ?thesis using Some by (auto simp: retry_round_def Let_def split: list.split intro: one_more runs)
qed (simp add: retry_round_def no_step)

lemma retry_round_None: "ac_retry c = None \<Longrightarrow> fold (retry_round rt) ws c = c"
  by (induction ws) (simp_all add: retry_round_def)

definition confirms_stops :: "'w agent_runtime \<Rightarrow> bool" where
  "confirms_stops rt \<longleftrightarrow> (\<forall>w. \<exists>found. fst (rt_stop rt w) = Inr found)"

text \<open>A confirmed cleanup: the attempt does not leave its record stuck.\<close>

lemma attempt_confirmed:
  assumes "attemptStart rt intent sc rec l n c = (e, c')" "confirms_stops rt"
  shows "e = None"
proof -
  obtain result c1 where one: "launch_or_recreate rt sc intent l (write_record
      (starting_record (ac_instanceId c) sc l rec) c) = (result, c1)" by fastforce
  note run = assms(1) [unfolded attemptStart_def starting_record_def [symmetric] Let_def one prod.case]
  obtain stopped w where s: "rt_stop rt (ac_world c1) = (stopped, w)" by fastforce
  obtain a d u failures where b: "lb_recordFailure (ac_failures c1) (in_agentId intent) (rt_now rt w) = ((a, d, u), failures)"
    by (metis prod_cases3 surj_pair)
  obtain found where "stopped = Inr found" using assms(2) s unfolding confirms_stops_def by (metis fst_conv)
  with run s b show ?thesis by (auto split: sum.splits if_splits)
qed

lemma one_round:
  assumes "control_ok c" "ac_queue c = []" "ac_retry c = Some retry" "confirms_stops rt"
  shows "ac_queue (retry_round rt w c) = [] \<and> control_ok (retry_round rt w c) \<and>
    (ac_retry (retry_round rt w c) = None \<and>
       (answered (lr_scope retry) (lr_launchId retry) (retry_round rt w c) \<or> rt_running rt w) \<or>
     (\<exists>next. ac_retry (retry_round rt w c) = Some next \<and> lr_scope next = lr_scope retry \<and>
        lr_launchId next = lr_launchId retry \<and> lr_attempt next = lr_attempt retry + 1))"
proof -
  define c1 where "c1 = (beginStartRun (c\<lparr>ac_world := w\<rparr>))\<lparr>ac_retry := None, ac_queue := []\<rparr>"
  have c1: "ac_record c1 = ac_record c" "ac_retry c1 = None" "ac_world c1 = w" "ac_queue c1 = []"
    "launches (ac_log c1) = launches (ac_log c)"
    using assms(2) by (simp_all add: c1_def beginStartRun_def)
  have round: "retry_round rt w c = endStartRun (snd (retry_run rt retry c1))"
    using assms(2,3) by (simp add: retry_round_def timer_fires_def enqueue_def Let_def c1_def beginStartRun_def)
  have ok1: "control_ok c1" by (rule control_ok_cong [OF assms(1)]) (use c1 in simp_all)
  have fits: "retry_fits (ac_record c1) retry" using control_okD(3) [OF assms(1,3)] c1(1) by simp
  have moves: "moves_on c1 (snd (retry_run rt retry c1))" by (rule retry_moves_on [OF ok1 fits])
  obtain r where r: "ac_record c1 = Some r" "rd_phase r = Starting" "co_epoch (rd_scope r) = co_epoch (lr_scope retry)"
    "rd_launchId r = Some (lr_launchId retry)" using control_okD(2) [OF assms(1,3)] c1(1) by (auto simp: owned_def)
  have frame: "ac_queue (retry_round rt w c) = [] \<and> control_ok (retry_round rt w c)"
    unfolding round using moves_onD(3) [OF moves] c1(4)
      control_ok_cong [OF moves_onD(1) [OF moves], of "endStartRun (snd (retry_run rt retry c1))"] by simp
  have answered: "answered sc l (endStartRun c')" if "answered sc l c'" for sc l c'
    using that by (auto simp: answered_def endStartRun_def settleIfIdle_def)
  show ?thesis
  proof (cases "rt_running rt w")
    case True
    with frame r c1(3) show ?thesis by (simp add: round retry_run_def)
  next
    case False
    obtain e c' where run: "attemptStart rt (lr_intent retry) (lr_scope retry) r (lr_launchId retry) (lr_attempt retry) c1 = (e, c')"
      by fastforce
    have e: "e = None" by (rule attempt_confirmed [OF run assms(4)])
    have c': "snd (retry_run rt retry c1) = c'" using r False c1(3) run by (simp add: retry_run_def)
    from attemptStart_outcome(3) [OF run] e attempt_answers [OF run [unfolded e]] answered frame show ?thesis
      unfolding round c' by auto
  qed
qed




subsection \<open>A record left starting\<close>

text \<open>A launch is starting and no retry of it is pending.\<close>

definition stuck :: "'w control \<Rightarrow> bool" where
  "stuck c \<longleftrightarrow> ac_retry c = None \<and> (\<exists>r. ac_record c = Some r \<and> rd_phase r = Starting \<and> rd_startResult r = None)"

lemma stuck_refuses:
  assumes "stuck c"
  shows "\<exists>e. start_run rt intent known c = (Some e, c)"
proof -
  obtain r where r: "ac_record c = Some r" "rd_phase r = Starting" "rd_startResult r = None" "ac_retry c = None"
    using assms by (auto simp: stuck_def)
  have "repairStaleRecord rt c = c" using r by (simp add: repairStaleRecord_def)
  with r show ?thesis by (auto simp: start_run_def Let_def split: option.split)
qed



text \<open>The same when the clean-up after a failed launch cannot confirm that the process is gone.\<close>

lemma unconfirmed_cleanup_is_stuck:
  assumes "attemptStart rt intent sc rec l n c = (Some RuntimeError, c')" "ac_retry c = None" "rd_startResult rec = None"
  shows "stuck (c'\<lparr>ac_world := w\<rparr>)"
  using attemptStart_outcome(3) [OF assms(1)] assms(2,3) by (auto simp: stuck_def)

subsection \<open>An Agent known without a record\<close>

text \<open>Every Start and Stop waiting was called when the Agent was known already.\<close>

definition locked_out :: "'w control \<Rightarrow> bool" where
  "locked_out c \<longleftrightarrow> ac_record c = None \<and> ac_known c \<and> ac_retry c = None \<and> StopCalled \<notin> set (ac_log c) \<and>
     launches (ac_log c) = [] \<and>
     (\<forall>q \<in> set (ac_queue c). case q of StopOp sc known \<Rightarrow> known | StartOp intent known \<Rightarrow> known | RetryOp retry \<Rightarrow> False
        | _ \<Rightarrow> True)"

lemma locked_op:
  assumes "locked_out c"
    and "case q of StopOp sc known \<Rightarrow> known | StartOp intent known \<Rightarrow> known | RetryOp retry \<Rightarrow> False | _ \<Rightarrow> True"
  shows "locked_out (run_op rt q c)"
proof -
  have settle: "locked_out (settle_op (Some e, c))" for e
    using assms(1) by (simp add: locked_out_def settle_op_def)
  have finish: "locked_out (endStartRun c')" if "locked_out c'" for c'
    using that by (simp add: locked_out_def) (simp add: endStartRun_def settleIfIdle_def)
  have none: "ac_record c = None" using assms(1) by (simp add: locked_out_def)
  show ?thesis
  proof (cases q)
    case (StopOp sc known)
    with assms(2) none settle [of ControlRecordMissing] show ?thesis by (simp add: stop_run_def)
  next
    case (ResetOp sc)
    have "repairStaleRecord rt c = c" using none by (simp add: repairStaleRecord_def)
    with ResetOp none settle [of ConfirmedStopRequired] show ?thesis by (simp add: reset_run_def fenced_def)
  next
    case (StartOp intent known)
    have "start_run rt intent True c = (Some ControlRecordMissing, c) \<or> start_run rt intent True c = (Some ControlEpochRequired, c)"
      using none by (auto simp: start_run_def split: option.split)
    with StartOp assms(2) finish [OF settle] show ?thesis by auto
  qed (use assms none in \<open>simp_all add: exit_run_def woken_run_def session_update_def replay_run_def session_replay_def\<close>)
qed

lemma locked_step:
  assumes "control_step rt c c'" "locked_out c"
  shows "locked_out c'"
  using assms(1)
proof (cases rule: control_step.cases)
  case (called call)
  with assms(2) show ?thesis by (cases call) (auto simp: locked_out_def enqueue_def beginStartRun_def)
next
  case (runs q qs)
  have "locked_out (c\<lparr>ac_queue := qs\<rparr>)" using assms(2) runs by (auto simp: locked_out_def)
  with locked_op assms(2) runs show ?thesis by (auto simp: locked_out_def [of c])
qed (use assms(2) in \<open>auto simp: locked_out_def timer_fires_def dispose_def\<close>)

text \<open>
  C36: an Agent whose process runs without a control record is locked out by its first Start: the Start
  is refused because a process runs, and although no record was ever written, from then on the Agent
  counts as known, so that whatever is called, no Start launches it and no Stop reaches its process.
\<close>

theorem refused_first_start_locks_out:
  assumes "rt_running rt w" "in_controlEpoch intent = Some epoch" "epoch \<noteq> 0"
    and "in_launchId intent = Some l" "l \<noteq> ''''"
    and "control_run rt (serve rt (StartCall intent) (new_control i w)) c"
  shows "ac_record c = None \<and> ac_known c \<and> StopCalled \<notin> set (ac_log c) \<and> launches (ac_log c) = []"
proof -
  let ?c = "serve rt (StartCall intent) (new_control i w)"
  have "locked_out ?c"
    using assms(1-5)
    by (simp add: serve_def new_control_def enqueue_def beginStartRun_def start_run_def repairStaleRecord_def fenced_def
        admitted_start_def running_process_def refuse_start_def settle_op_def endStartRun_def settleIfIdle_def
        startPending_def locked_out_def log_event_def Let_def)
  with assms(6) have "locked_out c" by (induction rule: control_run.induct) (auto intro: locked_step)
  then show ?thesis by (simp add: locked_out_def)
qed

theorem refused_first_start_locks_out_witness:
  "let c = serve sample_runtime (StopCall sample_stop)
     (serve sample_runtime (StartCall (sample_intent 1 ''l1'')) (new_control ''d'' (True, 0)))
   in StopCalled \<notin> set (ac_log c) \<and> fst (ac_world c)"
proof -
  let ?c = "serve sample_runtime (StartCall (sample_intent 1 ''l1'')) (new_control ''d'' (True, 0))"
  have "fst (ac_world (serve sample_runtime (StopCall sample_stop) ?c))" by code_simp
  with refused_first_start_locks_out [OF _ _ _ _ _ serve_run [where call = "StopCall sample_stop"],
      where rt = sample_runtime and w = "(True, 0)" and intent = "sample_intent 1 ''l1''" and epoch = 1 and l = "''l1''"
      and i = "''d''"]
  show ?thesis by (simp add: sample_runtime_def sample_intent_def Let_def)
qed

end
