(* ===== verification/AgentProcesses.thy ===== *)
theory AgentProcesses
  imports AgentStarts
begin

text \<open>
  The Agent processes of a daemon: \<open>packages/daemon/src/agent-runtime/agent-process-manager.ts\<close> and the
  status machine of \<open>agent-state-machine.ts\<close>. Preparing the workspace, the provider that creates a
  session and a session's disposal are outcomes given to the operation; an operation that waits is split
  where it waits. The manager is the process behind an Agent's control, whose laws it gives: with them,
  the control never launches a second process.
\<close>

subsection \<open>The externally visible status\<close>

datatype agent_status = Active | Inactive

datatype agent_state_event = RuntimeReady | RuntimeReleased | RuntimeStopped | Deactivate

definition transition :: "agent_state_event \<Rightarrow> agent_status" where
  "transition event = (if event = Deactivate \<or> event = RuntimeStopped then Inactive else Active)"

subsection \<open>The manager\<close>

record server_launch =
  sl_requestId :: string
  sl_controlEpoch :: int
  sl_launchId :: string

record 'c restart_config =
  rg_config :: 'c
  rg_sessionId :: "string option"
  rg_serverLaunch :: "server_launch option"

text \<open>A session object is a number; the next one made gets the next number.\<close>

record 'c process_manager =
  pm_runtimes :: "(string, nat) js_map"
  pm_restartConfigs :: "(string, 'c restart_config) js_map"
  pm_states :: "(string, agent_status) js_map"
  pm_stopping :: "string list"
  pm_launchClientSeq :: "(string, int) js_map"
  pm_nextSession :: nat

datatype process_error = IsStopping | AlreadyActive | PreparationFailed | CreationFailed | DisposalFailed

datatype creation = Created | Rejected | CleanupFailed

definition change_state :: "string \<Rightarrow> agent_state_event \<Rightarrow> 'c process_manager \<Rightarrow> 'c process_manager" where
  "change_state agentId event m = m\<lparr>pm_states := map_set (pm_states m) agentId (transition event)\<rparr>"

definition status :: "'c process_manager \<Rightarrow> string \<Rightarrow> agent_status" where
  "status m agentId = get_or (pm_states m) agentId Inactive"

definition session :: "'c process_manager \<Rightarrow> string \<Rightarrow> nat option" where
  "session m agentId = map_get (pm_runtimes m) agentId"

definition start_check :: "string \<Rightarrow> 'c process_manager \<Rightarrow> process_error option" where
  "start_check agentId m =
     (if agentId \<in> set (pm_stopping m) then Some IsStopping
      else if map_get (pm_runtimes m) agentId \<noteq> None then Some AlreadyActive else None)"

definition start_created ::
  "string \<Rightarrow> 'c \<Rightarrow> string option \<Rightarrow> creation \<Rightarrow> 'c process_manager \<Rightarrow> (process_error + nat) \<times> 'c process_manager"
where
  "start_created agentId config sessionId created m =
     (case created of
        Rejected \<Rightarrow> (Inl CreationFailed, m)
      | CleanupFailed \<Rightarrow> (Inl CreationFailed, m\<lparr>pm_stopping := set_add agentId (pm_stopping m)\<rparr>)
      | Created \<Rightarrow>
          let s = pm_nextSession m
          in (Inr s, (change_state agentId RuntimeReady m)\<lparr>
            pm_restartConfigs := map_set (pm_restartConfigs m) agentId
              \<lparr>rg_config = config, rg_sessionId = sessionId, rg_serverLaunch = None\<rparr>,
            pm_runtimes := map_set (pm_runtimes m) agentId s, pm_nextSession := s + 1\<rparr>))"

definition start_process ::
  "string \<Rightarrow> 'c \<Rightarrow> string option \<Rightarrow> bool \<Rightarrow> creation \<Rightarrow> 'c process_manager \<Rightarrow> (process_error + nat) \<times> 'c process_manager"
where
  "start_process agentId config sessionId prepared created m =
     (case start_check agentId m of
        Some e \<Rightarrow> (Inl e, m)
      | None \<Rightarrow> if \<not> prepared then (Inl PreparationFailed, m) else start_created agentId config sessionId created m)"

text \<open>The process of a session exited on its own.\<close>

definition session_exited :: "string \<Rightarrow> nat \<Rightarrow> 'c process_manager \<Rightarrow> 'c process_manager" where
  "session_exited agentId s m =
     (if map_get (pm_runtimes m) agentId \<noteq> Some s \<or> agentId \<in> set (pm_stopping m) then m
      else change_state agentId RuntimeReleased (m\<lparr>pm_runtimes := map_delete (pm_runtimes m) agentId\<rparr>))"

definition forget_launch :: "string \<Rightarrow> 'c process_manager \<Rightarrow> 'c process_manager" where
  "forget_launch agentId m = change_state agentId Deactivate
     (m\<lparr>pm_restartConfigs := map_delete (pm_restartConfigs m) agentId,
        pm_launchClientSeq := map_delete (pm_launchClientSeq m) agentId\<rparr>)"

text \<open>Until the disposal, and after it: a session whose disposal failed keeps its Agent stopping.\<close>

definition stop_begins :: "string \<Rightarrow> 'c process_manager \<Rightarrow> (process_error + nat option) \<times> 'c process_manager" where
  "stop_begins agentId m =
     (if agentId \<in> set (pm_stopping m) then (Inl IsStopping, m)
      else case map_get (pm_runtimes m) agentId of
          None \<Rightarrow> (Inr None, forget_launch agentId m)
        | Some s \<Rightarrow> (Inr (Some s), m\<lparr>pm_stopping := set_add agentId (pm_stopping m)\<rparr>))"

definition stop_disposed :: "string \<Rightarrow> nat \<Rightarrow> 'c process_manager \<Rightarrow> 'c process_manager" where
  "stop_disposed agentId s m = forget_launch agentId
     (m\<lparr>pm_runtimes := (if map_get (pm_runtimes m) agentId = Some s then map_delete (pm_runtimes m) agentId
          else pm_runtimes m),
        pm_stopping := set_del agentId (pm_stopping m)\<rparr>)"

definition stop_process :: "string \<Rightarrow> bool \<Rightarrow> 'c process_manager \<Rightarrow> process_error option \<times> 'c process_manager" where
  "stop_process agentId disposed m =
     (case stop_begins agentId m of
        (Inl e, m1) \<Rightarrow> (Some e, m1)
      | (Inr None, m1) \<Rightarrow> (None, m1)
      | (Inr (Some s), m1) \<Rightarrow> if disposed then (None, stop_disposed agentId s m1) else (Some DisposalFailed, m1))"

definition rememberServerLaunch :: "string \<Rightarrow> server_launch \<Rightarrow> 'c process_manager \<Rightarrow> 'c process_manager" where
  "rememberServerLaunch agentId launch m =
     (case map_get (pm_restartConfigs m) agentId of
        None \<Rightarrow> m
      | Some g \<Rightarrow> m\<lparr>pm_restartConfigs := map_set (pm_restartConfigs m) agentId (g\<lparr>rg_serverLaunch := Some launch\<rparr>)\<rparr>)"

definition serverLaunch :: "'c process_manager \<Rightarrow> string \<Rightarrow> server_launch option" where
  "serverLaunch m agentId = (case map_get (pm_restartConfigs m) agentId of None \<Rightarrow> None | Some g \<Rightarrow> rg_serverLaunch g)"

definition recordClientSeq :: "string \<Rightarrow> int \<Rightarrow> 'c process_manager \<Rightarrow> 'c process_manager" where
  "recordClientSeq agentId n m = m\<lparr>pm_launchClientSeq := map_set (pm_launchClientSeq m) agentId n\<rparr>"

definition lastClientSeq :: "'c process_manager \<Rightarrow> string \<Rightarrow> int" where
  "lastClientSeq m agentId = get_or (pm_launchClientSeq m) agentId 0"

text \<open>Every running process is stopped; when all could be, everything else is forgotten.\<close>

definition shutdown_processes :: "(string \<Rightarrow> bool) \<Rightarrow> 'c process_manager \<Rightarrow> bool \<times> 'c process_manager" where
  "shutdown_processes disposes m =
     (let (ok, m1) = fold (\<lambda>a (ok, m). case stop_process a (disposes a) m of (e, m') \<Rightarrow> (ok \<and> e = None, m'))
            (map_keys (pm_runtimes m)) (True, m)
      in if \<not> ok then (False, m1)
         else (True, m1\<lparr>pm_restartConfigs := [], pm_launchClientSeq := [],
           pm_states := map (\<lambda>(a, x). (a, transition Deactivate)) (pm_states m1)\<rparr>))"

definition no_processes :: "'c process_manager" where
  "no_processes = \<lparr>pm_runtimes = [], pm_restartConfigs = [], pm_states = [], pm_stopping = [],
     pm_launchClientSeq = [], pm_nextSession = 0\<rparr>"


subsection \<open>What a running Agent has\<close>

text \<open>A running Agent can be woken again, and is Active; session numbers are not reused.\<close>

definition manager_ok :: "'c process_manager \<Rightarrow> bool" where
  "manager_ok m \<longleftrightarrow> (\<forall>a s. map_get (pm_runtimes m) a = Some s \<longrightarrow>
     map_get (pm_restartConfigs m) a \<noteq> None \<and> status m a = Active \<and> s < pm_nextSession m)"

lemma manager_okD: "manager_ok m \<Longrightarrow> map_get (pm_runtimes m) a = Some s \<Longrightarrow>
    map_get (pm_restartConfigs m) a \<noteq> None \<and> status m a = Active \<and> s < pm_nextSession m"
  by (simp add: manager_ok_def)

lemma manager_ok_start:
  assumes "manager_ok m"
  shows "manager_ok (snd (start_process a config sid prepared created m))"
  using assms
  by (cases created)
    (auto simp: start_process_def start_check_def start_created_def manager_ok_def change_state_def status_def
      transition_def Let_def less_SucI)

lemma manager_ok_exit: "manager_ok m \<Longrightarrow> manager_ok (session_exited a s m)"
  by (auto simp: session_exited_def manager_ok_def change_state_def status_def transition_def)

lemma manager_ok_forget:
  "manager_ok m \<Longrightarrow> map_get (pm_runtimes m) a = None \<Longrightarrow> manager_ok (forget_launch a m)"
  by (auto simp: forget_launch_def manager_ok_def change_state_def status_def)

lemma manager_ok_stop:
  assumes "manager_ok m"
  shows "manager_ok (snd (stop_process a disposed m))"
proof -
  have disposed: "manager_ok (stop_disposed a s m1)" if "manager_ok m1" "map_get (pm_runtimes m1) a = Some s" for s m1
    unfolding stop_disposed_def by (rule manager_ok_forget) (use that in \<open>auto simp: manager_ok_def status_def\<close>)
  have stopping: "manager_ok (m\<lparr>pm_stopping := x\<rparr>)" for x using assms by (simp add: manager_ok_def status_def)
  show ?thesis
    using assms disposed [OF stopping] stopping manager_ok_forget
    by (auto simp: stop_process_def stop_begins_def split: option.split)
qed

lemma stopped_is_gone:
  "stop_process a disposed m = (None, m') \<Longrightarrow> session m' a = None"
  by (auto simp: stop_process_def stop_begins_def stop_disposed_def forget_launch_def change_state_def session_def
      split: if_splits option.splits)

lemma failed_start_is_gone:
  "start_process a config sid prepared created m = (Inl e, m') \<Longrightarrow> session m a = None \<Longrightarrow> session m' a = None"
  by (auto simp: start_process_def start_check_def start_created_def session_def Let_def split: if_splits creation.splits)

subsection \<open>What the control relies on\<close>

text \<open>
  A process whose stop is confirmed is gone, and a launch that asks for a new native session, like the
  notice that the old one is gone, leaves no process behind.
\<close>

locale agent_process =
  fixes rt :: "'w agent_runtime"
  assumes stop_ends: "rt_stop rt w = (Inr found, w') \<Longrightarrow> \<not> rt_running rt w'"
    and recovery_ends: "rt_launch rt intent l replaced reason w = (Inl (SessionRecovery code), w') \<Longrightarrow>
      \<not> rt_running rt w \<Longrightarrow> \<not> rt_running rt w'"
    and invalidation_keeps: "rt_running rt (rt_invalidate rt intent l sid why w) = rt_running rt w"
begin

definition single :: "'w control \<Rightarrow> bool" where
  "single c \<longleftrightarrow> (\<forall>x \<in> set (launches (ac_log c)). \<not> snd (snd x))"

lemma single_cong: "launches (ac_log c') = launches (ac_log c) \<Longrightarrow> single c \<Longrightarrow> single c'"
  by (simp add: single_def)

lemma single_call:
  assumes "call_launch rt sc intent l replaced reason c = (result, c')" "\<not> rt_running rt (ac_world c)" "single c"
  shows "single c'" "result = Inl (SessionRecovery code) \<Longrightarrow> \<not> rt_running rt (ac_world c')"
proof -
  show "single c'" using call_launch_frame(5) [OF assms(1)] assms(2,3) by (simp add: single_def)
  show "\<not> rt_running rt (ac_world c')" if "result = Inl (SessionRecovery code)"
    using assms(1,2) that recovery_ends by (auto simp: call_launch_def split: prod.splits)
qed

lemma single_launch:
  assumes "launch_or_recreate rt sc intent l c = (result, c')" "\<not> rt_running rt (ac_world c)" "single c"
  shows "single c'"
proof -
  obtain first c1 where one: "call_launch rt sc intent l None None c = (first, c1)" by fastforce
  note f = single_call [OF one assms(2,3)]
  show ?thesis
  proof (cases "\<exists>code replaced. first = Inl (SessionRecovery code) \<and> in_sessionId intent = Some replaced \<and> replaced \<noteq> ''''")
    case False
    then have "c' = c1" using assms(1) one
      by (auto simp: launch_or_recreate_def split: sum.splits launch_error.splits option.splits if_splits)
    with f(1) show ?thesis by simp
  next
    case True
    then obtain code replaced where e: "first = Inl (SessionRecovery code)" "in_sessionId intent = Some replaced"
      "replaced \<noteq> ''''" by blast
    let ?c2 = "case invalidation code of None \<Rightarrow> c1
      | Some reason \<Rightarrow> c1\<lparr>ac_world := rt_invalidate rt intent l replaced reason (ac_world c1)\<rparr>"
    have "call_launch rt sc (intent\<lparr>in_sessionId := None, in_sessionMode := Some CreateSession\<rparr>) l
        (Some replaced) (invalidation code) ?c2 = (result, c')"
      using assms one e by (simp add: launch_or_recreate_def Let_def)
    moreover have "\<not> rt_running rt (ac_world ?c2)" "single ?c2"
      using f(1) f(2) [OF e(1)] invalidation_keeps by (simp_all add: single_def split: option.split)
    ultimately show ?thesis by (rule single_call)
  qed
qed

lemma single_attempt:
  assumes "\<not> rt_running rt (ac_world c)" "single c"
  shows "single (snd (attemptStart rt intent sc rec l n c))"
proof -
  let ?r = "starting_record (ac_instanceId c) sc l rec"
  obtain result c1 where one: "launch_or_recreate rt sc intent l (write_record ?r c) = (result, c1)" by fastforce
  have "single c1" by (rule single_launch [OF one]) (use assms in \<open>simp_all add: single_def\<close>)
  moreover have "launches (ac_log (snd (attemptStart rt intent sc rec l n c))) = launches (ac_log c1)"
    unfolding attemptStart_def starting_record_def [symmetric] Let_def one prod.case
    by (auto simp: scheduleLaunchRetry_def lb_recordFailure_def Let_def split: sum.split prod.split)
  ultimately show ?thesis by (simp add: single_def)
qed

lemma single_retry:
  assumes "single c"
  shows "single (snd (retry_run rt retry c))"
proof -
  have "single (onLaunchSucceeded a c)" for a by (rule single_cong [OF _ assms]) simp
  with assms show ?thesis by (auto simp: retry_run_def single_attempt split: option.split)
qed

lemma single_admitted:
  assumes "single c"
  shows "single (snd (admitted_start rt intent sc c))"
proof -
  have new: "single (snd (launch_new rt intent sc l c1))" if "\<not> rt_running rt (ac_world c1)" "single c1" for l c1
    using that by (simp add: launch_new_def single_attempt)
  have refuse: "single (snd (refuse_start sc code e c))" for code e
    using assms by (simp add: refuse_start_def single_def)
  have rebind: "single (snd (rebindRunning rt r sc intent l c))" for r l
    using assms by (simp add: rebindRunning_def single_def case_prod_unfold Let_def split: sum.split)
  have go: "single (snd (admitted_start rt intent sc c))" if l: "in_launchId intent = Some l" "l \<noteq> ''''" for l
  proof (cases "running_process rt sc intent c")
    case NoProcess
    then have "\<not> rt_running rt (ac_world c)" by (auto simp: running_process_def Let_def split: if_splits option.splits)
    with NoProcess l new assms show ?thesis by (simp add: admitted_start_def)
  next
    case OtherSession
    obtain stopped w where s: "rt_stop rt (ac_world c) = (stopped, w)" by fastforce
    have c1: "single ((log_event StopCalled c)\<lparr>ac_world := w\<rparr>)" using assms by (simp add: single_def)
    show ?thesis
    proof (cases stopped)
      case (Inr found)
      from stop_ends [OF s [unfolded Inr]] have "\<not> rt_running rt (ac_world ((log_event StopCalled c)\<lparr>ac_world := w\<rparr>))" by simp
      with new [OF this c1] OtherSession l s Inr show ?thesis by (simp add: admitted_start_def Let_def)
    qed (use OtherSession l s c1 in \<open>simp add: admitted_start_def Let_def\<close>)
  qed (use l refuse rebind assms in \<open>simp_all add: admitted_start_def split: option.split\<close>)
  show ?thesis
  proof (cases "in_launchId intent")
    case None
    with refuse show ?thesis by (simp add: admitted_start_def)
  next
    case (Some l)
    with go [OF Some] refuse show ?thesis by (cases "l = ''''") (simp_all add: admitted_start_def)
  qed
qed

lemma repair_log: "ac_log (repairStaleRecord rt c) = ac_log c"
  using repair_cases [of rt c] by auto

lemma single_start:
  assumes "single c"
  shows "single (snd (start_run rt intent known c))"
proof -
  let ?c = "repairStaleRecord rt c"
  have c: "single ?c" using assms by (simp add: single_def repair_log)
  then have d: "single (reset_failures (in_agentId intent) (clearLaunchRetry ?c))" by (simp add: single_def)
  have replay: "single (snd (replay_start rt intent sc r x ?c))" for sc r x
    using c by (simp add: replay_start_def single_def case_prod_unfold Let_def)
  show ?thesis using assms c replay single_admitted [OF c] single_admitted [OF d]
    by (auto simp: start_run_def Let_def split: option.split)
qed

lemma single_run_op: "single c \<Longrightarrow> single (run_op rt q c)"
proof (cases q)
  case (StopOp sc known)
  assume "single c"
  then have "single (snd (stop_run rt sc known c))"
    by (auto simp: stop_run_def accepted_stop_def single_def repair_log Let_def case_prod_unfold split: option.split)
  with StopOp show ?thesis by (simp add: single_def)
next
  case (ResetOp sc)
  assume "single c"
  then have "single (snd (reset_run rt sc c))"
    by (auto simp: reset_run_def single_def repair_log Let_def case_prod_unfold split: option.split)
  with ResetOp show ?thesis by (simp add: single_def)
next
  case (StartOp intent known)
  assume "single c"
  from single_start [OF this] StartOp show ?thesis by (simp add: single_def)
next
  case (RetryOp retry)
  assume "single c"
  from single_retry [OF this] RetryOp show ?thesis by (simp add: single_def)
qed (auto simp: exit_run_def woken_run_def session_update_def replay_run_def session_replay_def single_def Let_def
    split: option.split)

lemma single_run:
  assumes "control_run rt c c'" "single c"
  shows "single c'"
  using assms
proof (induction rule: control_run.induct)
  case (one_more c c' c'')
  then have "single c'" by simp
  with one_more(2) show ?case
  proof (cases rule: control_step.cases)
    case (called call)
    with \<open>single c'\<close> show ?thesis by (cases call) (simp_all add: single_def enqueue_def beginStartRun_def)
  next
    case (runs q qs)
    with single_run_op [of "c'\<lparr>ac_queue := qs\<rparr>" q] \<open>single c'\<close> show ?thesis by (simp add: single_def)
  qed (use \<open>single c'\<close> in \<open>simp_all add: single_def timer_fires_def enqueue_def beginStartRun_def dispose_def\<close>)
qed simp

end

subsection \<open>The manager behind the control\<close>

text \<open>How each call of the manager turns out, in the order of the calls.\<close>

record process_env =
  pe_prepared :: "nat \<Rightarrow> bool"
  pe_creates :: "nat \<Rightarrow> creation"
  pe_recovery :: "nat \<Rightarrow> recovery_code option"
  pe_disposes :: "nat \<Rightarrow> bool"
  pe_identity :: "nat \<Rightarrow> session_identity option"
  pe_succeeds :: "nat \<Rightarrow> bool"

type_synonym process_world = "string process_manager \<times> nat"

definition manager_launch :: "process_env \<Rightarrow> string \<Rightarrow> start_intent \<Rightarrow> process_world \<Rightarrow>
    (launch_error + session_identity option) \<times> process_world" where
  "manager_launch env a intent w =
     (let (m, n) = w in
      case start_process a (in_provider intent) (in_sessionId intent) (pe_prepared env n) (pe_creates env n) m of
        (Inl e, m') \<Rightarrow> (Inl (case pe_recovery env n of
            Some code \<Rightarrow> if e = CreationFailed then SessionRecovery code else OtherLaunchError
          | None \<Rightarrow> OtherLaunchError), (m', n + 1))
      | (Inr s, m') \<Rightarrow> (Inr (pe_identity env n), (m', n + 1)))"

definition manager_runtime :: "process_env \<Rightarrow> string \<Rightarrow> process_world agent_runtime" where
  "manager_runtime env a =
     \<lparr>rt_running = (\<lambda>(m, n). session m a \<noteq> None),
      rt_stop = (\<lambda>(m, n). case stop_process a (pe_disposes env n) m of
          (Some e, m') \<Rightarrow> (Inl (), (m', n + 1))
        | (None, m') \<Rightarrow> (Inr (pe_identity env n), (m', n + 1))),
      rt_launch = (\<lambda>intent l replaced reason w. manager_launch env a intent w),
      rt_wake = (\<lambda>intent (m, n). (pe_succeeds env n, (m, n + 1))),
      rt_invalidate = (\<lambda>intent l sid why w. w),
      rt_rebind = (\<lambda>intent l (m, n). ((if pe_succeeds env n then Inr (pe_identity env n) else Inl ()), (m, n + 1))),
      rt_clearWorkspace = (\<lambda>(m, n). (pe_succeeds env n, (m, n + 1))),
      rt_now = (\<lambda>w. 0)\<rparr>"

interpretation managed: agent_process "manager_runtime env a" for env a
proof
  fix w w' found
  assume "rt_stop (manager_runtime env a) w = (Inr found, w')"
  then show "\<not> rt_running (manager_runtime env a) w'"
    by (auto simp: manager_runtime_def stopped_is_gone split: prod.splits option.splits)
next
  fix intent l replaced reason w code w'
  assume "rt_launch (manager_runtime env a) intent l replaced reason w = (Inl (SessionRecovery code), w')"
    and "\<not> rt_running (manager_runtime env a) w"
  then show "\<not> rt_running (manager_runtime env a) w'"
    by (auto simp: manager_runtime_def manager_launch_def dest: failed_start_is_gone split: prod.splits sum.splits)
next
  show "rt_running (manager_runtime env a) (rt_invalidate (manager_runtime env a) intent l sid why w) =
      rt_running (manager_runtime env a) w" for intent l sid why w
    by (simp add: manager_runtime_def)
qed

text \<open>
  C4: an Agent never gets a second process: with the daemon's process manager behind the control, in any
  interleaving of its calls and retry timers, and however sessions are created, disposed of or exit,
  every launch is made at a moment when no process of the Agent runs.
\<close>

theorem no_second_process:
  assumes "control_run (manager_runtime env a) (new_control i w) c"
    and "Launched epoch l running \<in> set (ac_log c)"
  shows "\<not> running"
proof -
  have "managed.single (new_control i w)" by (simp add: managed.single_def new_control_def)
  from managed.single_run [OF assms(1) this]
  have single: "\<forall>x \<in> set (launches (ac_log c)). \<not> snd (snd x)" by (simp add: managed.single_def)
  have "(epoch, l, running) \<in> set (launches es)" if "Launched epoch l running \<in> set es" for es
    using that by (induction es rule: launches.induct) auto
  with single assms(2) show ?thesis by fastforce
qed

definition sample_env :: process_env where
  "sample_env = \<lparr>pe_prepared = (\<lambda>n. True), pe_creates = (\<lambda>n. Created), pe_recovery = (\<lambda>n. None),
     pe_disposes = (\<lambda>n. True), pe_identity = (\<lambda>n. None), pe_succeeds = (\<lambda>n. True)\<rparr>"

theorem no_second_process_witness:
  "\<exists>running. Launched 1 ''l1'' running \<in>
      set (ac_log (serve (manager_runtime sample_env ''a'') (StartCall (sample_intent 1 ''l1''))
        (new_control ''d'' (no_processes, 0)))) \<and> \<not> running"
proof -
  let ?c = "serve (manager_runtime sample_env ''a'') (StartCall (sample_intent 1 ''l1'')) (new_control ''d'' (no_processes, 0))"
  have "\<exists>e \<in> set (ac_log ?c). \<exists>running. e = Launched 1 ''l1'' running"
  proof -
    have "Launched 1 ''l1'' False \<in> set (ac_log ?c)" by code_simp
    then show ?thesis by blast
  qed
  then obtain running where "Launched 1 ''l1'' running \<in> set (ac_log ?c)" by blast
  with no_second_process [OF serve_run] show ?thesis by blast
qed

end
