(* ===== verification/WorkspaceBindings.thy ===== *)
theory WorkspaceBindings
  imports SeenExactSeqs
begin

text \<open>
  The registry of a Computer's Workspaces: a binding with its restart and upgrade records, from
  \<open>packages/daemon/src/supervisor/machine-supervisor.ts\<close>, the file that keeps them
  (\<open>binding-store.ts\<close>), and the configuration a Workspace process is given (\<open>run-supervisor.ts\<close>). A
  registry read from disk is a parsed JSON value; reading it gives typed bindings, so of the store's
  checks those on the JSON type of a field are in the parser and the others in \<open>validateBindings\<close>,
  which a save runs as well. Fields the store does not check and nothing reads are left out.
\<close>

subsection \<open>Bindings\<close>

datatype restart_phase = RestartStopping | RestartStarting

record restart_progress =
  rp_requestId :: string
  rp_phase :: restart_phase
  rp_previousInstanceId :: "string option"

datatype takeover = ByStop | ByConfigure

datatype restart_result =
    RestartCompleted (rr_requestId: string) (rr_instanceId: string)
  | RestartCancelled (rr_requestId: string) (rr_by: "takeover option")

datatype upgrade_state = UpgradePending | UpgradeSucceeded | UpgradeFailed | UpgradeAcknowledged

record upgrade_terminal =
  ut_version :: "string option"
  ut_error :: "string option"
  ut_errorCode :: "string option"
  ut_at :: int

record upgrade_operation =
  uo_requestId :: string
  uo_expectedVersion :: string
  uo_state :: upgrade_state
  uo_requestedAt :: int
  uo_terminal :: "upgrade_terminal option"

datatype lifecycle_operation = StartOperation | RestartOperation | StopOperation | ConfigureOperation

record lifecycle_failure =
  lf_operation :: lifecycle_operation
  lf_message :: string
  lf_at :: int

record daemon_config =
  cf_workspaceId :: string
  cf_computerId :: string
  cf_workspaceRoot :: string
  cf_serverHttpUrl :: "string option"

record managed_binding = daemon_config +
  mb_enabled :: bool
  mb_restart :: "restart_progress option"
  mb_restartResults :: "restart_result list option"
  mb_upgradeRequestIds :: "string list option"
  mb_upgradeRequests :: "(string \<times> string) list option"
  mb_upgradeOperations :: "upgrade_operation list option"
  mb_lastFailure :: "lifecycle_failure option"

definition UPGRADE_OPERATION_HISTORY :: nat where
  "UPGRADE_OPERATION_HISTORY = 128"



subsection \<open>Receipts of restarts\<close>

definition results_of :: "managed_binding \<Rightarrow> restart_result list" where
  "results_of b = (case mb_restartResults b of None \<Rightarrow> [] | Some rs \<Rightarrow> rs)"

definition appendRestartResult :: "managed_binding \<Rightarrow> restart_result \<Rightarrow> restart_result list" where
  "appendRestartResult b r = keep_newest 128 (results_of b @ [r])"

definition cancelledRestartResults :: "managed_binding \<Rightarrow> takeover \<Rightarrow> restart_result list option" where
  "cancelledRestartResults b taken =
     (case mb_restart b of
        None \<Rightarrow> mb_restartResults b
      | Some p \<Rightarrow> Some (appendRestartResult b (RestartCancelled (rp_requestId p) (Some taken))))"

definition stopped :: "managed_binding \<Rightarrow> managed_binding" where
  "stopped b =
     (if \<not> mb_enabled b \<and> mb_restart b = None then b
      else b\<lparr>mb_enabled := False, mb_restart := None, mb_restartResults := cancelledRestartResults b ByStop\<rparr>)"

definition result_for :: "string \<Rightarrow> managed_binding \<Rightarrow> restart_result option" where
  "result_for requestId b = find (\<lambda>r. rr_requestId r = requestId) (results_of b)"

subsection \<open>The store's checks\<close>

text \<open>For evaluation.\<close>

lemma pred_option_code [code]: "pred_option P None \<longleftrightarrow> True" "pred_option P (Some x) \<longleftrightarrow> P x"
  by simp_all

definition natural :: "int \<Rightarrow> bool" where
  "natural n \<longleftrightarrow> is_safe_integer n \<and> n \<ge> 0"

definition is_text :: "string \<Rightarrow> bool" where
  "is_text s \<longleftrightarrow> s \<noteq> ''''"

definition validLastFailure :: "lifecycle_failure \<Rightarrow> bool" where
  "validLastFailure f \<longleftrightarrow> is_text (lf_message f) \<and> natural (lf_at f)"

definition valid_restart :: "restart_progress \<Rightarrow> bool" where
  "valid_restart p \<longleftrightarrow> is_text (rp_requestId p) \<and> pred_option is_text (rp_previousInstanceId p)"

definition valid_result :: "restart_result \<Rightarrow> bool" where
  "valid_result r \<longleftrightarrow> is_text (rr_requestId r) \<and>
     (case r of RestartCompleted _ i \<Rightarrow> is_text i | RestartCancelled _ _ \<Rightarrow> True)"

definition valid_terminal :: "upgrade_terminal \<Rightarrow> bool" where
  "valid_terminal t \<longleftrightarrow> natural (ut_at t) \<and> pred_option is_text (ut_version t) \<and> pred_option is_text (ut_error t)"

definition valid_operation :: "upgrade_operation \<Rightarrow> bool" where
  "valid_operation u \<longleftrightarrow> is_text (uo_requestId u) \<and> is_text (uo_expectedVersion u) \<and> natural (uo_requestedAt u) \<and>
     (case uo_state u of
        UpgradePending \<Rightarrow> uo_terminal u = None
      | UpgradeAcknowledged \<Rightarrow> pred_option valid_terminal (uo_terminal u)
      | _ \<Rightarrow> (case uo_terminal u of None \<Rightarrow> False | Some t \<Rightarrow> valid_terminal t))"

definition pending_operations :: "upgrade_operation list \<Rightarrow> upgrade_operation list" where
  "pending_operations us = filter (\<lambda>u. uo_state u = UpgradePending) us"

definition validateUpgradeOperations :: "upgrade_operation list \<Rightarrow> bool" where
  "validateUpgradeOperations us \<longleftrightarrow> length us \<le> UPGRADE_OPERATION_HISTORY \<and> list_all valid_operation us \<and>
     distinct (map uo_requestId us) \<and> length (pending_operations us) \<le> 1"

definition valid_results :: "managed_binding \<Rightarrow> bool" where
  "valid_results b \<longleftrightarrow> length (results_of b) \<le> 128 \<and> list_all valid_result (results_of b) \<and>
     distinct (map rr_requestId (results_of b)) \<and>
     (case mb_restart b of None \<Rightarrow> True
      | Some p \<Rightarrow> mb_enabled b \<and> valid_restart p \<and> rp_requestId p \<notin> rr_requestId ` set (results_of b))"

definition valid_legacy :: "managed_binding \<Rightarrow> bool" where
  "valid_legacy b \<longleftrightarrow>
     pred_option (\<lambda>xs. length xs \<le> 128 \<and> list_all is_text xs \<and> distinct xs) (mb_upgradeRequestIds b) \<and>
     pred_option (\<lambda>xs. length xs \<le> 128 \<and> list_all (\<lambda>(i, v). is_text i \<and> is_text v) xs \<and> distinct (map fst xs))
       (mb_upgradeRequests b)"

definition valid_binding :: "managed_binding \<Rightarrow> bool" where
  "valid_binding b \<longleftrightarrow> is_text (cf_workspaceId b) \<and> is_text (cf_computerId b) \<and> is_text (cf_workspaceRoot b) \<and>
     valid_results b \<and> pred_option validLastFailure (mb_lastFailure b) \<and> valid_legacy b \<and>
     pred_option validateUpgradeOperations (mb_upgradeOperations b)"

definition validateBindings :: "managed_binding list \<Rightarrow> bool" where
  "validateBindings bs \<longleftrightarrow> list_all valid_binding bs \<and> distinct (map cf_workspaceId bs)"

subsection \<open>The file\<close>

text \<open>A field that may be absent: \<open>None\<close> when it is there and malformed.\<close>

definition optional :: "(json \<Rightarrow> 'a option) \<Rightarrow> json option \<Rightarrow> 'a option option" where
  "optional f v = (case v of None \<Rightarrow> Some None | Some j \<Rightarrow> map_option Some (f j))"

definition json_list :: "(json \<Rightarrow> 'a option) \<Rightarrow> json \<Rightarrow> 'a list option" where
  "json_list f v = (case v of JArr xs \<Rightarrow> those (map f xs) | _ \<Rightarrow> None)"

definition as_object :: "((string \<times> json) list \<Rightarrow> 'a option) \<Rightarrow> json \<Rightarrow> 'a option" where
  "as_object f v = (case v of JObj kvs \<Rightarrow> f kvs | _ \<Rightarrow> None)"

definition as_text :: "json \<Rightarrow> string option" where
  "as_text v = json_str (Some v)"

definition or_null :: "string option \<Rightarrow> json" where
  "or_null v = (case v of None \<Rightarrow> JNull | Some s \<Rightarrow> JStr s)"

definition text_or_null :: "json option \<Rightarrow> string option option" where
  "text_or_null v = (case v of Some JNull \<Rightarrow> Some None | Some (JStr s) \<Rightarrow> Some (Some s) | _ \<Rightarrow> None)"

fun phase_text :: "restart_phase \<Rightarrow> string" where
  "phase_text RestartStopping = ''stopping''"
| "phase_text RestartStarting = ''starting''"

fun takeover_text :: "takeover \<Rightarrow> string" where
  "takeover_text ByStop = ''stop''"
| "takeover_text ByConfigure = ''configure''"

fun state_text :: "upgrade_state \<Rightarrow> string" where
  "state_text UpgradePending = ''pending''"
| "state_text UpgradeSucceeded = ''succeeded''"
| "state_text UpgradeFailed = ''failed''"
| "state_text UpgradeAcknowledged = ''acknowledged''"

fun operation_text :: "lifecycle_operation \<Rightarrow> string" where
  "operation_text StartOperation = ''start''"
| "operation_text RestartOperation = ''restart''"
| "operation_text StopOperation = ''stop''"
| "operation_text ConfigureOperation = ''configure''"

text \<open>The word of a list that a JSON value spells.\<close>

definition word_of :: "('a \<Rightarrow> string) \<Rightarrow> 'a list \<Rightarrow> json option \<Rightarrow> 'a option" where
  "word_of f xs v = find (\<lambda>x. v = Some (JStr (f x))) xs"

definition restart_json :: "restart_progress \<Rightarrow> json" where
  "restart_json p = JObj [(''requestId'', JStr (rp_requestId p)), (''phase'', JStr (phase_text (rp_phase p))),
     (''previousInstanceId'', or_null (rp_previousInstanceId p))]"

definition parse_restart :: "json \<Rightarrow> restart_progress option" where
  "parse_restart = as_object (\<lambda>kvs.
     case (json_str (field kvs ''requestId''), word_of phase_text [RestartStopping, RestartStarting] (field kvs ''phase''),
       text_or_null (field kvs ''previousInstanceId'')) of
       (Some i, Some p, Some previous) \<Rightarrow>
         Some \<lparr>rp_requestId = i, rp_phase = p, rp_previousInstanceId = previous\<rparr>
     | _ \<Rightarrow> None)"

definition result_json :: "restart_result \<Rightarrow> json" where
  "result_json r = (case r of
     RestartCompleted i inst \<Rightarrow>
       JObj [(''requestId'', JStr i), (''status'', JStr ''completed''), (''instanceId'', JStr inst)]
   | RestartCancelled i by \<Rightarrow>
       JObj ([(''requestId'', JStr i), (''status'', JStr ''cancelled'')] @
         opt_field ''by'' (\<lambda>x. JStr (takeover_text x)) by))"

definition parse_result :: "json \<Rightarrow> restart_result option" where
  "parse_result = as_object (\<lambda>kvs.
     case json_str (field kvs ''requestId'') of
       None \<Rightarrow> None
     | Some i \<Rightarrow>
         if field kvs ''status'' = Some (JStr ''cancelled'')
         then map_option (RestartCancelled i)
           (optional (\<lambda>j. word_of takeover_text [ByStop, ByConfigure] (Some j)) (field kvs ''by''))
         else if field kvs ''status'' = Some (JStr ''completed'')
         then map_option (RestartCompleted i) (json_str (field kvs ''instanceId''))
         else None)"

definition terminal_json :: "upgrade_terminal \<Rightarrow> json" where
  "terminal_json t = JObj (opt_field ''version'' JStr (ut_version t) @ opt_field ''error'' JStr (ut_error t) @
     opt_field ''errorCode'' JStr (ut_errorCode t) @ [(''at'', JNum (ut_at t))])"

definition parse_terminal :: "json \<Rightarrow> upgrade_terminal option" where
  "parse_terminal = as_object (\<lambda>kvs.
     case (optional as_text (field kvs ''version''), optional as_text (field kvs ''error''),
       json_num (field kvs ''at'')) of
       (Some v, Some e, Some at) \<Rightarrow> Some \<lparr>ut_version = v, ut_error = e,
         ut_errorCode = json_str (field kvs ''errorCode''), ut_at = at\<rparr>
     | _ \<Rightarrow> None)"

definition operation_json :: "upgrade_operation \<Rightarrow> json" where
  "operation_json u = JObj ([(''requestId'', JStr (uo_requestId u)), (''expectedVersion'', JStr (uo_expectedVersion u)),
     (''state'', JStr (state_text (uo_state u))), (''requestedAt'', JNum (uo_requestedAt u))] @
     opt_field ''terminal'' terminal_json (uo_terminal u))"

definition parse_operation :: "json \<Rightarrow> upgrade_operation option" where
  "parse_operation = as_object (\<lambda>kvs.
     case (json_str (field kvs ''requestId''), json_str (field kvs ''expectedVersion''),
       word_of state_text [UpgradePending, UpgradeSucceeded, UpgradeFailed, UpgradeAcknowledged] (field kvs ''state''),
       json_num (field kvs ''requestedAt''), optional parse_terminal (field kvs ''terminal'')) of
       (Some i, Some v, Some s, Some at, Some t) \<Rightarrow> Some \<lparr>uo_requestId = i, uo_expectedVersion = v,
         uo_state = s, uo_requestedAt = at, uo_terminal = t\<rparr>
     | _ \<Rightarrow> None)"

definition failure_json :: "lifecycle_failure \<Rightarrow> json" where
  "failure_json f = JObj [(''operation'', JStr (operation_text (lf_operation f))),
     (''message'', JStr (lf_message f)), (''at'', JNum (lf_at f))]"

definition parse_failure :: "json \<Rightarrow> lifecycle_failure option" where
  "parse_failure = as_object (\<lambda>kvs.
     case (word_of operation_text [StartOperation, RestartOperation, StopOperation, ConfigureOperation]
         (field kvs ''operation''),
       json_str (field kvs ''message''), json_num (field kvs ''at'')) of
       (Some p, Some m, Some at) \<Rightarrow> Some \<lparr>lf_operation = p, lf_message = m, lf_at = at\<rparr>
     | _ \<Rightarrow> None)"

text \<open>A malformed diagnostic is dropped rather than refused (\<open>dropMalformedLastFailures\<close>).\<close>

definition read_failure :: "json option \<Rightarrow> lifecycle_failure option" where
  "read_failure v = (case v of None \<Rightarrow> None | Some j \<Rightarrow>
     (case parse_failure j of None \<Rightarrow> None | Some f \<Rightarrow> if validLastFailure f then Some f else None))"

definition request_json :: "string \<times> string \<Rightarrow> json" where
  "request_json r = JObj [(''requestId'', JStr (fst r)), (''expectedVersion'', JStr (snd r))]"

definition parse_request :: "json \<Rightarrow> (string \<times> string) option" where
  "parse_request = as_object (\<lambda>kvs.
     case (json_str (field kvs ''requestId''), json_str (field kvs ''expectedVersion'')) of
       (Some i, Some v) \<Rightarrow> Some (i, v) | _ \<Rightarrow> None)"

definition binding_json :: "managed_binding \<Rightarrow> json" where
  "binding_json b = JObj (
     [(''workspaceId'', JStr (cf_workspaceId b)), (''computerId'', JStr (cf_computerId b)),
      (''workspaceRoot'', JStr (cf_workspaceRoot b))] @
     opt_field ''serverHttpUrl'' JStr (cf_serverHttpUrl b) @
     [(''enabled'', JBool (mb_enabled b))] @
     opt_field ''restart'' restart_json (mb_restart b) @
     opt_field ''restartResults'' (\<lambda>rs. JArr (map result_json rs)) (mb_restartResults b) @
     opt_field ''upgradeRequestIds'' (\<lambda>xs. JArr (map JStr xs)) (mb_upgradeRequestIds b) @
     opt_field ''upgradeRequests'' (\<lambda>xs. JArr (map request_json xs)) (mb_upgradeRequests b) @
     opt_field ''upgradeOperations'' (\<lambda>xs. JArr (map operation_json xs)) (mb_upgradeOperations b) @
     opt_field ''lastFailure'' failure_json (mb_lastFailure b))"

definition parse_binding :: "json \<Rightarrow> managed_binding option" where
  "parse_binding = as_object (\<lambda>kvs.
     case (json_str (field kvs ''workspaceId''), json_str (field kvs ''computerId''),
       json_str (field kvs ''workspaceRoot''), field kvs ''enabled'',
       optional parse_restart (field kvs ''restart''),
       optional (json_list parse_result) (field kvs ''restartResults''),
       optional (json_list as_text) (field kvs ''upgradeRequestIds''),
       optional (json_list parse_request) (field kvs ''upgradeRequests''),
       optional (json_list parse_operation) (field kvs ''upgradeOperations'')) of
       (Some w, Some c, Some r, Some (JBool enabled), Some restart, Some results, Some ids, Some requests,
         Some operations) \<Rightarrow>
         Some \<lparr>cf_workspaceId = w, cf_computerId = c, cf_workspaceRoot = r,
           cf_serverHttpUrl = json_str (field kvs ''serverHttpUrl''), mb_enabled = enabled, mb_restart = restart,
           mb_restartResults = results, mb_upgradeRequestIds = ids, mb_upgradeRequests = requests,
           mb_upgradeOperations = operations, mb_lastFailure = read_failure (field kvs ''lastFailure'')\<rparr>
     | _ \<Rightarrow> None)"

definition registry_json :: "managed_binding list \<Rightarrow> json" where
  "registry_json bs = JArr (map binding_json bs)"

subsection \<open>Loading and saving\<close>

definition migrateLegacyUpgradeRequests :: "int \<Rightarrow> managed_binding \<Rightarrow> managed_binding" where
  "migrateLegacyUpgradeRequests now b =
     (case mb_upgradeRequests b of
        None \<Rightarrow> b
      | Some requests \<Rightarrow>
          if requests = [] then b
          else let old = (case mb_upgradeOperations b of None \<Rightarrow> [] | Some us \<Rightarrow> us);
                   new = filter (\<lambda>(i, v). i \<notin> uo_requestId ` set old) requests
            in b\<lparr>mb_upgradeRequests := None,
                 mb_upgradeOperations := Some (keep_newest UPGRADE_OPERATION_HISTORY
                   (old @ map (\<lambda>(i, v). \<lparr>uo_requestId = i, uo_expectedVersion = v, uo_state = UpgradePending,
                      uo_requestedAt = now, uo_terminal = None\<rparr>) new))\<rparr>)"

text \<open>
  \<open>origin\<close> is the origin of a URL, \<open>None\<close> for one that does not parse; without an expected server every
  binding passes.
\<close>

definition environment_ok :: "(string \<Rightarrow> string option) \<Rightarrow> string option \<Rightarrow> managed_binding list \<Rightarrow> bool" where
  "environment_ok origin expected bs =
     (case expected of
        None \<Rightarrow> True
      | Some e \<Rightarrow> e = '''' \<or> list_all (\<lambda>b. case cf_serverHttpUrl b of
          None \<Rightarrow> False
        | Some u \<Rightarrow> u \<noteq> '''' \<and> origin u \<noteq> None \<and> origin u = origin e) bs)"

type_synonym registry_file = "json option"

text \<open>\<open>None\<close> is a load that throws: a file that cannot be read, does not parse, or is not a registry.\<close>

definition load_bindings ::
  "(string \<Rightarrow> string option) \<Rightarrow> string option \<Rightarrow> int \<Rightarrow> registry_file \<Rightarrow> managed_binding list option"
where
  "load_bindings origin expected now f =
     (case f of
        None \<Rightarrow> Some []
      | Some v \<Rightarrow>
          (case json_list parse_binding v of
             None \<Rightarrow> None
           | Some bs \<Rightarrow> if validateBindings bs \<and> environment_ok origin expected bs
               then Some (map (migrateLegacyUpgradeRequests now) bs) else None))"

text \<open>
  What the disk does with a save: nothing fails, it fails with the old file in place, or it fails
  after the rename. A registry that is refused never reaches the disk.
\<close>

datatype disk_outcome = DiskWrites | DiskFails | DiskFailsAfterRename

definition save_bindings ::
  "(string \<Rightarrow> string option) \<Rightarrow> string option \<Rightarrow> disk_outcome \<Rightarrow> managed_binding list \<Rightarrow> registry_file \<Rightarrow>
   bool \<times> registry_file"
where
  "save_bindings origin expected disk bs f =
     (if \<not> (validateBindings bs \<and> environment_ok origin expected bs) then (False, f)
      else case disk of
        DiskWrites \<Rightarrow> (True, Some (registry_json bs))
      | DiskFails \<Rightarrow> (False, f)
      | DiskFailsAfterRename \<Rightarrow> (False, Some (registry_json bs)))"

subsection \<open>What a Workspace process is told\<close>

record child_config = daemon_config +
  cc_lastFailure :: "lifecycle_failure option"
  cc_restartRequestIds :: "string list"
  cc_upgradeRequestIds :: "string list"
  cc_upgradeExpectedVersions :: "(string, string) js_map"
  cc_upgradeOperations :: "upgrade_operation list"

definition completed_ids :: "restart_result list \<Rightarrow> string list" where
  "completed_ids rs = map rr_requestId (filter (\<lambda>r. is_RestartCompleted r) rs)"

definition buildChildConfig :: "managed_binding \<Rightarrow> child_config" where
  "buildChildConfig b =
     (let starting = (case mb_restart b of
            Some p \<Rightarrow> if rp_phase p = RestartStarting then [rp_requestId p] else [] | None \<Rightarrow> []);
          operations = keep_newest 128 (filter (\<lambda>u. uo_state u \<noteq> UpgradeAcknowledged)
            (case mb_upgradeOperations b of None \<Rightarrow> [] | Some us \<Rightarrow> us))
      in \<lparr>cf_workspaceId = cf_workspaceId b, cf_computerId = cf_computerId b, cf_workspaceRoot = cf_workspaceRoot b,
          cf_serverHttpUrl = cf_serverHttpUrl b, cc_lastFailure = mb_lastFailure b,
          cc_restartRequestIds = keep_newest 128 (completed_ids (results_of b) @ starting),
          cc_upgradeRequestIds = map uo_requestId operations,
          cc_upgradeExpectedVersions =
            fold (\<lambda>u m. map_set m (uo_requestId u) (uo_expectedVersion u)) operations [],
          cc_upgradeOperations = operations\<rparr>)"

subsection \<open>Reading back a saved registry\<close>

lemma those_map_Some: "(\<And>x. x \<in> set xs \<Longrightarrow> f x = Some (g x)) \<Longrightarrow> those (map f xs) = Some (map g xs)"
  by (induction xs) auto

lemma json_list_written:
  assumes "\<And>x. x \<in> set xs \<Longrightarrow> f (g x) = Some x"
  shows "json_list f (JArr (map g xs)) = Some xs"
  using those_map_Some [of xs "f \<circ> g" "\<lambda>x. x"] assms by (simp add: json_list_def)

lemma optional_simps [simp]: "optional f None = Some None" "optional f (Some j) = map_option Some (f j)"
  by (simp_all add: optional_def)

lemma word_of_phase [simp]:
  "word_of phase_text [RestartStopping, RestartStarting] (Some (JStr (phase_text p))) = Some p"
  by (cases p) (simp_all add: word_of_def)

lemma word_of_takeover [simp]:
  "word_of takeover_text [ByStop, ByConfigure] (Some (JStr (takeover_text t))) = Some t"
  by (cases t) (simp_all add: word_of_def)

lemma word_of_state [simp]:
  "word_of state_text [UpgradePending, UpgradeSucceeded, UpgradeFailed, UpgradeAcknowledged]
     (Some (JStr (state_text s))) = Some s"
  by (cases s) (simp_all add: word_of_def)

lemma word_of_operation [simp]:
  "word_of operation_text [StartOperation, RestartOperation, StopOperation, ConfigureOperation]
     (Some (JStr (operation_text x))) = Some x"
  by (cases x) (simp_all add: word_of_def)

lemma parse_restart_written [simp]: "parse_restart (restart_json p) = Some p"
  by (cases "rp_previousInstanceId p")
    (simp_all add: parse_restart_def restart_json_def as_object_def text_or_null_def or_null_def)

lemma parse_result_written [simp]: "parse_result (result_json r) = Some r"
proof (cases r)
  case (RestartCancelled i t)
  then show ?thesis
    by (cases t) (simp_all add: parse_result_def result_json_def as_object_def opt_field_def)
qed (simp add: parse_result_def result_json_def as_object_def)

lemma parse_terminal_written [simp]: "parse_terminal (terminal_json t) = Some t"
  by (cases "ut_version t"; cases "ut_error t"; cases "ut_errorCode t")
    (simp_all add: parse_terminal_def terminal_json_def as_object_def opt_field_def as_text_def)

lemma parse_operation_written [simp]: "parse_operation (operation_json u) = Some u"
  by (cases "uo_terminal u") (simp_all add: parse_operation_def operation_json_def as_object_def opt_field_def)

lemma read_failure_written [simp]: "validLastFailure f \<Longrightarrow> read_failure (Some (failure_json f)) = Some f"
  by (cases f) (simp add: read_failure_def parse_failure_def failure_json_def as_object_def)

lemma parse_request_written [simp]: "parse_request (request_json r) = Some r"
  by (simp add: parse_request_def request_json_def as_object_def)

lemma lists_written [simp]:
  "json_list parse_result (JArr (map result_json rs)) = Some rs"
  "json_list as_text (JArr (map JStr xs)) = Some xs"
  "json_list parse_request (JArr (map request_json qs)) = Some qs"
  "json_list parse_operation (JArr (map operation_json us)) = Some us"
  by (auto intro!: json_list_written simp: as_text_def)

lemma field_opt_app: "field (opt_field k' f v @ ys) k = (if k = k' \<and> v \<noteq> None then Some (f (the v)) else field ys k)"
  by (cases v) (auto simp: opt_field_def)

lemma parse_binding_written:
  assumes "pred_option validLastFailure (mb_lastFailure b)"
  shows "parse_binding (binding_json b) = Some b"
proof -
  have opt: "(if v \<noteq> None then Some (h (the v)) else None) = map_option h v" for v :: "'x option" and h :: "'x \<Rightarrow> 'y"
    by (cases v) auto
  have failure: "read_failure (map_option failure_json (mb_lastFailure b)) = mb_lastFailure b"
    using assms by (cases "mb_lastFailure b") (simp_all add: read_failure_def [of None])
  show ?thesis
    by (cases b; cases "mb_restart b"; cases "mb_restartResults b"; cases "mb_upgradeRequestIds b";
        cases "mb_upgradeRequests b"; cases "mb_upgradeOperations b"; cases "cf_serverHttpUrl b")
      (use failure in \<open>simp_all add: parse_binding_def binding_json_def as_object_def field_opt_app field_opt_field\<close>)
qed

subsection \<open>The receipts stay valid\<close>

lemma keep_newest_list_all: "list_all P xs \<Longrightarrow> list_all P (keep_newest n xs)"
  using set_keep_newest [of n xs] by (auto simp: list_all_iff)

lemma keep_newest_distinct: "distinct (map f xs) \<Longrightarrow> distinct (map f (keep_newest n xs))"
  by (simp add: keep_newest_def drop_map [symmetric])

lemma keep_newest_last: "0 < n \<Longrightarrow> r \<in> set (keep_newest n (xs @ [r]))"
  by (simp add: keep_newest_snoc_mem)

lemma results_of_update [simp]:
  "results_of (b\<lparr>mb_restartResults := Some rs\<rparr>) = rs"
  "results_of (b\<lparr>mb_enabled := e\<rparr>) = results_of b"
  "results_of (b\<lparr>mb_restart := p\<rparr>) = results_of b"
  "results_of (b\<lparr>mb_upgradeOperations := us\<rparr>) = results_of b"
  "results_of (b\<lparr>mb_lastFailure := l\<rparr>) = results_of b"
  by (simp_all add: results_of_def)

text \<open>A receipt for a request that has none yet.\<close>

lemma valid_append:
  assumes "valid_results b" "valid_result r" "rr_requestId r \<notin> rr_requestId ` set (results_of b)"
  shows "length (appendRestartResult b r) \<le> 128" "list_all valid_result (appendRestartResult b r)"
    "distinct (map rr_requestId (appendRestartResult b r))" "r \<in> set (appendRestartResult b r)"
    "set (appendRestartResult b r) \<subseteq> insert r (set (results_of b))"
  using assms set_keep_newest [of 128 "results_of b @ [r]"]
  by (auto simp: appendRestartResult_def valid_results_def keep_newest_snoc_mem
    intro!: keep_newest_list_all keep_newest_distinct)

lemma valid_restart_taken:
  assumes "valid_binding b"
  shows "pred_option (\<lambda>rs. length rs \<le> 128 \<and> list_all valid_result rs \<and> distinct (map rr_requestId rs))
    (cancelledRestartResults b taken)"
proof (cases "mb_restart b")
  case None
  then show ?thesis using assms
    by (auto simp: cancelledRestartResults_def valid_binding_def valid_results_def results_of_def option.pred_set
      split: option.splits)
next
  case (Some p)
  then have "valid_results b" "is_text (rp_requestId p)" "rp_requestId p \<notin> rr_requestId ` set (results_of b)"
    using assms by (auto simp: valid_binding_def valid_results_def valid_restart_def)
  from valid_append [OF this(1), of "RestartCancelled (rp_requestId p) (Some taken)"] this Some show ?thesis
    by (simp add: cancelledRestartResults_def valid_result_def)
qed

lemma valid_binding_stopped: "valid_binding b \<Longrightarrow> valid_binding (stopped b)"
  using valid_restart_taken [of b ByStop]
  by (auto simp: stopped_def valid_binding_def valid_results_def valid_legacy_def results_of_def option.pred_set
    split: option.splits)

lemma stopped_simps [simp]:
  "cf_workspaceId (stopped b) = cf_workspaceId b" "mb_enabled (stopped b) = False" "mb_restart (stopped b) = None"
  "mb_upgradeOperations (stopped b) = mb_upgradeOperations b" "mb_upgradeRequests (stopped b) = mb_upgradeRequests b"
  by (auto simp: stopped_def)

lemma stopped_idem [simp]: "stopped (stopped b) = stopped b"
  by (simp add: stopped_def)

subsection \<open>A save is atomic\<close>

definition settled_legacy :: "managed_binding \<Rightarrow> bool" where
  "settled_legacy b \<longleftrightarrow> mb_upgradeRequests b = None \<or> mb_upgradeRequests b = Some []"

lemma settled_legacy_migrate [simp]: "settled_legacy b \<Longrightarrow> migrateLegacyUpgradeRequests now b = b"
  by (auto simp: settled_legacy_def migrateLegacyUpgradeRequests_def)

lemma migrate_settles [simp]: "settled_legacy (migrateLegacyUpgradeRequests now b)"
  by (auto simp: settled_legacy_def migrateLegacyUpgradeRequests_def Let_def split: option.splits)

lemma load_written:
  assumes "validateBindings bs" "environment_ok origin e bs" "list_all settled_legacy bs"
  shows "load_bindings origin e now (Some (registry_json bs)) = Some bs"
proof -
  have "json_list parse_binding (registry_json bs) = Some bs"
    using assms(1) unfolding registry_json_def
    by (intro json_list_written parse_binding_written) (auto simp: validateBindings_def list_all_iff valid_binding_def)
  moreover have "map (migrateLegacyUpgradeRequests now) bs = bs"
    using assms(3) by (auto simp: list_all_iff intro: map_idI)
  ultimately show ?thesis using assms(1,2) by (simp add: load_bindings_def)
qed

text \<open>
  C27: A save of the registry is all or nothing, whatever the disk does: what is loaded afterwards is the
  saved registry, binding for binding, when the save returns, and either that or what was loaded
  before when it throws. A registry that breaks a check never reaches the file.
\<close>
theorem registry_save_is_atomic:
  assumes "save_bindings origin e disk bs f = (ok, f')" "list_all settled_legacy bs"
  shows "if ok then load_bindings origin e now f' = Some bs
    else load_bindings origin e now f' \<in> {Some bs, load_bindings origin e now f} \<and>
      (\<not> validateBindings bs \<longrightarrow> f' = f)"
  using assms load_written [of bs origin e now]
  by (auto simp: save_bindings_def split: if_splits disk_outcome.splits)

definition sample_binding :: managed_binding where
  "sample_binding = \<lparr>cf_workspaceId = ''w'', cf_computerId = ''c'', cf_workspaceRoot = ''/root'', cf_serverHttpUrl = None,
     mb_enabled = True, mb_restart = Some \<lparr>rp_requestId = ''r1'', rp_phase = RestartStarting, rp_previousInstanceId = None\<rparr>,
     mb_restartResults = Some [RestartCancelled ''r0'' (Some ByStop)], mb_upgradeRequestIds = None,
     mb_upgradeRequests = None, mb_upgradeOperations = Some [\<lparr>uo_requestId = ''u1'', uo_expectedVersion = ''2.0'',
       uo_state = UpgradePending, uo_requestedAt = 5, uo_terminal = None\<rparr>], mb_lastFailure = None\<rparr>"

lemmas registry_checks = validateBindings_def valid_binding_def valid_results_def valid_restart_def valid_result_def
  valid_legacy_def validateUpgradeOperations_def valid_operation_def valid_terminal_def validLastFailure_def
  pending_operations_def results_of_def is_text_def natural_def is_safe_integer_def MAX_SAFE_INTEGER_def
  UPGRADE_OPERATION_HISTORY_def

lemma sample_binding_valid: "validateBindings [sample_binding]" "settled_legacy sample_binding"
  by (simp_all add: sample_binding_def registry_checks settled_legacy_def)

theorem registry_save_is_atomic_witness:
  "\<exists>f'. save_bindings (\<lambda>u. Some u) None DiskFailsAfterRename [sample_binding] None = (False, f') \<and>
    load_bindings (\<lambda>u. Some u) None 0 f' \<in> {Some [sample_binding], Some []}"
proof -
  have saved: "save_bindings (\<lambda>u. Some u) None DiskFailsAfterRename [sample_binding] None =
      (False, Some (registry_json [sample_binding]))"
    using sample_binding_valid by (simp add: save_bindings_def environment_ok_def)
  have before: "load_bindings (\<lambda>u. Some u) None 0 None = Some []" by (simp add: load_bindings_def)
  show ?thesis
    using registry_save_is_atomic [OF saved, of 0] sample_binding_valid saved before by simp
qed

end
