(* ===== verification/WorkspaceHealth.thy ===== *)
theory WorkspaceHealth
  imports DaemonPrelude
begin

text \<open>
  The health of one Workspace process: the journal of
  \<open>packages/daemon/src/supervisor/workspace-health-journal.ts\<close>, the decision at boot of
  \<open>workspace-runner-guard.ts\<close>, and the parking of \<open>workspace-parking.ts\<close>. The file is its parsed JSON, or
  absent when it is missing or does not parse. An operation that writes is given whether the disk lets
  it; \<open>None\<close> is the write that throws. Instants are milliseconds, and \<open>since\<close> is the instant whose ISO
  text the code gives. Logging is left out.
\<close>

definition WORKSPACE_HEALTH_CRASH_WINDOW_MS :: int where
  "WORKSPACE_HEALTH_CRASH_WINDOW_MS = 60000"

definition WORKSPACE_HEALTH_DEGRADED_THRESHOLD :: nat where
  "WORKSPACE_HEALTH_DEGRADED_THRESHOLD = 3"

definition CRASH_LOOP_REASON :: string where
  "CRASH_LOOP_REASON = ''this Workspace exited unexpectedly '' @ digits_of WORKSPACE_HEALTH_DEGRADED_THRESHOLD @
     '' times within '' @ digits_of (nat (WORKSPACE_HEALTH_CRASH_WINDOW_MS div 1000)) @ ''s''"

subsection \<open>The record\<close>

datatype rejection_reason = WorkspaceDeleted | ComputerUnlinked

fun reason_text :: "rejection_reason \<Rightarrow> string" where
  "reason_text WorkspaceDeleted = ''workspace_deleted''"
| "reason_text ComputerUnlinked = ''computer_unlinked''"

definition rejection_of :: "json option \<Rightarrow> rejection_reason option" where
  "rejection_of v =
     (if v = Some (JStr ''workspace_deleted'') then Some WorkspaceDeleted
      else if v = Some (JStr ''computer_unlinked'') then Some ComputerUnlinked else None)"

lemma rejection_of_text [simp]: "rejection_of (Some (JStr (reason_text r))) = Some r"
  by (cases r) (simp_all add: rejection_of_def)

datatype health_state =
    HealthOk
  | Degraded string int int
  | Parked rejection_reason int

record health_record =
  hr_live :: bool
  hr_crashes :: "int list"
  hr_terminal :: "(string \<times> int) option"
  hr_degraded :: "(int \<times> int) option"
  hr_parked :: "(rejection_reason \<times> int) option"

definition EMPTY_RECORD :: health_record where
  "EMPTY_RECORD = \<lparr>hr_live = False, hr_crashes = [], hr_terminal = None, hr_degraded = None, hr_parked = None\<rparr>"

definition pruneWindow :: "int list \<Rightarrow> int \<Rightarrow> int list" where
  "pruneWindow crashes now = filter (\<lambda>t. now - t < WORKSPACE_HEALTH_CRASH_WINDOW_MS) crashes"

subsection \<open>The file\<close>

definition latch_json :: "string \<Rightarrow> ('a \<Rightarrow> json) \<Rightarrow> 'a \<times> int \<Rightarrow> json" where
  "latch_json k f v = JObj [(k, f (fst v)), (''at'', JNum (snd v))]"

definition health_json :: "health_record \<Rightarrow> json" where
  "health_json r = JObj (
     [(''schemaVersion'', JNum 1), (''live'', JBool (hr_live r)), (''crashes'', JArr (map JNum (hr_crashes r)))] @
     opt_field ''terminal'' (latch_json ''reason'' JStr) (hr_terminal r) @
     opt_field ''degraded'' (latch_json ''crashCount'' JNum) (hr_degraded r) @
     opt_field ''parked'' (latch_json ''reason'' (\<lambda>x. JStr (reason_text x))) (hr_parked r))"

text \<open>An optional latch: \<open>None\<close> when it is malformed, \<open>Some None\<close> when it is absent.\<close>

definition read_latch :: "(json option \<Rightarrow> 'a option) \<Rightarrow> string \<Rightarrow> json option \<Rightarrow> ('a \<times> int) option option" where
  "read_latch f k v =
     (case v of
        None \<Rightarrow> Some None
      | Some (JObj kvs) \<Rightarrow>
          (case (f (field kvs k), json_num (field kvs ''at'')) of
             (Some x, Some at) \<Rightarrow> Some (Some (x, at)) | _ \<Rightarrow> None)
      | _ \<Rightarrow> None)"

definition json_numbers :: "json option \<Rightarrow> int list option" where
  "json_numbers v =
     (case v of
        Some (JArr xs) \<Rightarrow> if list_all (\<lambda>x. json_num (Some x) \<noteq> None) xs
          then Some (map (\<lambda>x. the (json_num (Some x))) xs) else None
      | _ \<Rightarrow> None)"

definition valid_health :: "json \<Rightarrow> health_record option" where
  "valid_health v =
     (case v of
        JObj kvs \<Rightarrow>
          (case (field kvs ''live'', json_numbers (field kvs ''crashes''),
               read_latch json_str ''reason'' (field kvs ''terminal''),
               read_latch json_num ''crashCount'' (field kvs ''degraded''),
               read_latch rejection_of ''reason'' (field kvs ''parked'')) of
             (Some (JBool live), Some crashes, Some terminal, Some degraded, Some parked) \<Rightarrow>
               if field kvs ''schemaVersion'' = Some (JNum 1)
               then Some \<lparr>hr_live = live, hr_crashes = crashes, hr_terminal = terminal,
                 hr_degraded = degraded, hr_parked = parked\<rparr>
               else None
           | _ \<Rightarrow> None)
      | _ \<Rightarrow> None)"

type_synonym health_file = "json option"

definition read_health :: "health_file \<Rightarrow> health_record" where
  "read_health f = (case f of None \<Rightarrow> EMPTY_RECORD
     | Some v \<Rightarrow> (case valid_health v of None \<Rightarrow> EMPTY_RECORD | Some r \<Rightarrow> r))"

definition write_health :: "bool \<Rightarrow> health_record \<Rightarrow> health_file option" where
  "write_health ok r = (if ok then Some (Some (health_json r)) else None)"

subsection \<open>Operations\<close>

definition recordStart :: "bool \<Rightarrow> health_file \<Rightarrow> health_file option" where
  "recordStart ok f = write_health ok (read_health f\<lparr>hr_live := True\<rparr>)"

definition recordGracefulStop :: "bool \<Rightarrow> health_file \<Rightarrow> health_file option" where
  "recordGracefulStop ok f = write_health ok (read_health f\<lparr>hr_live := False\<rparr>)"

definition wasLeftRunning :: "health_file \<Rightarrow> bool" where
  "wasLeftRunning f \<longleftrightarrow> hr_live (read_health f)"

definition crashed_at :: "int \<Rightarrow> int \<Rightarrow> health_record \<Rightarrow> health_record" where
  "crashed_at at now r =
     (let crashes = pruneWindow (hr_crashes r @ [at]) now
      in r\<lparr>hr_crashes := crashes,
           hr_degraded := (if length crashes \<ge> WORKSPACE_HEALTH_DEGRADED_THRESHOLD
             then Some (int (length crashes), at) else hr_degraded r)\<rparr>)"

definition recordCrash :: "bool \<Rightarrow> int \<Rightarrow> int \<Rightarrow> health_file \<Rightarrow> health_file option" where
  "recordCrash ok at now f =
     (let r = read_health f
      in if hr_terminal r \<noteq> None \<or> hr_degraded r \<noteq> None then Some f
         else write_health ok (crashed_at at now r))"

definition markTerminal :: "bool \<Rightarrow> string \<Rightarrow> int \<Rightarrow> health_file \<Rightarrow> health_file option" where
  "markTerminal ok reason now f = write_health ok (read_health f\<lparr>hr_terminal := Some (reason, now)\<rparr>)"

definition markParked :: "bool \<Rightarrow> rejection_reason \<Rightarrow> int \<Rightarrow> health_file \<Rightarrow> health_file option" where
  "markParked ok reason now f = write_health ok (read_health f\<lparr>hr_parked := Some (reason, now)\<rparr>)"

definition clear_latches :: "health_record \<Rightarrow> health_record" where
  "clear_latches r = r\<lparr>hr_crashes := [], hr_terminal := None, hr_degraded := None\<rparr>"

definition clearParked :: "bool \<Rightarrow> health_file \<Rightarrow> health_file option" where
  "clearParked ok f = write_health ok (clear_latches (read_health f)\<lparr>hr_parked := None\<rparr>)"

definition clear_health :: "bool \<Rightarrow> health_file \<Rightarrow> health_file option" where
  "clear_health ok f = write_health ok (clear_latches (read_health f))"

definition health_of :: "int \<Rightarrow> health_record \<Rightarrow> health_state" where
  "health_of now r =
     (case hr_parked r of
        Some (reason, at) \<Rightarrow> Parked reason at
      | None \<Rightarrow> (case hr_terminal r of
          Some (reason, at) \<Rightarrow> Degraded reason (int (length (pruneWindow (hr_crashes r) now))) at
        | None \<Rightarrow> (case hr_degraded r of
            Some (crashCount, at) \<Rightarrow> Degraded CRASH_LOOP_REASON crashCount at
          | None \<Rightarrow> HealthOk)))"

definition health :: "int \<Rightarrow> health_file \<Rightarrow> health_state" where
  "health now f = health_of now (read_health f)"

subsection \<open>The decision at boot\<close>

datatype guard_outcome =
    Proceed
  | ExitDegraded string int int
  | ExitParked rejection_reason int

definition guardWorkspaceRunnerStart :: "bool \<Rightarrow> int \<Rightarrow> health_file \<Rightarrow> (guard_outcome \<times> health_file) option" where
  "guardWorkspaceRunnerStart ok now f =
     (let proceed = (\<lambda>f. map_option (Pair Proceed) (recordStart ok f))
      in case health now f of
           Parked reason since \<Rightarrow> Some (ExitParked reason since, f)
         | Degraded reason crashCount since \<Rightarrow> Some (ExitDegraded reason crashCount since, f)
         | HealthOk \<Rightarrow>
             if wasLeftRunning f then
               (case recordCrash ok now now f of
                  None \<Rightarrow> None
                | Some f1 \<Rightarrow> (case health now f1 of
                    Degraded reason crashCount since \<Rightarrow> Some (ExitDegraded reason crashCount since, f1)
                  | _ \<Rightarrow> proceed f1))
             else proceed f)"


subsection \<open>Parking\<close>

text \<open>
  One process's answer to a refusal for good. The connection's state is what its handshake reports;
  \<open>pk_parking\<close> is the reason of the park under way, \<open>pk_written\<close> that its journal entry is on disk,
  \<open>pk_failed\<close> that writing it failed, \<open>pk_bound\<close> that the process's shutdown exists, and
  \<open>pk_shutdowns\<close> counts its calls. Writing the journal and shutting down are steps of their own.
\<close>

datatype cloud_connection = Connecting "string option" | Connected | NotConnected string

datatype run_result = RunReady | RunRefused rejection_reason | RunFailed string

record parking =
  pk_connection :: cloud_connection
  pk_parking :: "rejection_reason option"
  pk_written :: bool
  pk_failed :: bool
  pk_bound :: bool
  pk_shutdowns :: nat
  pk_journal :: health_file

definition new_parking :: "health_file \<Rightarrow> parking" where
  "new_parking f = \<lparr>pk_connection = Connecting None, pk_parking = None, pk_written = False, pk_failed = False,
     pk_bound = False, pk_shutdowns = 0, pk_journal = f\<rparr>"

definition cloudConnection :: "string option \<Rightarrow> parking \<Rightarrow> cloud_connection" where
  "cloudConnection failure p =
     (case pk_connection p of
        NotConnected e \<Rightarrow> NotConnected e
      | c \<Rightarrow> (case failure of None \<Rightarrow> c | Some e \<Rightarrow> if e = '''' then c else Connecting (Some e)))"

definition park :: "rejection_reason \<Rightarrow> parking \<Rightarrow> parking" where
  "park reason p = (if pk_parking p = None then p\<lparr>pk_parking := Some reason\<rparr> else p)"

definition start_begins :: "parking \<Rightarrow> parking" where
  "start_begins p = p\<lparr>pk_connection := Connecting None\<rparr>"

definition start_ends :: "run_result \<Rightarrow> parking \<Rightarrow> parking" where
  "start_ends r p =
     (case r of
        RunReady \<Rightarrow> p\<lparr>pk_connection := Connected\<rparr>
      | RunRefused reason \<Rightarrow> park reason p
      | RunFailed e \<Rightarrow> p\<lparr>pk_connection := NotConnected e\<rparr>)"

definition unconfigured :: "parking \<Rightarrow> parking" where
  "unconfigured p = p\<lparr>pk_connection := NotConnected ''no Workspace is configured''\<rparr>"

definition shut_down :: "parking \<Rightarrow> parking" where
  "shut_down p = (if pk_written p \<and> pk_bound p then p\<lparr>pk_shutdowns := pk_shutdowns p + 1\<rparr> else p)"

text \<open>The rest of \<open>#park\<close> once \<open>markParked\<close> has settled.\<close>

definition park_written :: "bool \<Rightarrow> int \<Rightarrow> parking \<Rightarrow> parking" where
  "park_written ok now p =
     (case pk_parking p of
        None \<Rightarrow> p
      | Some reason \<Rightarrow>
          if pk_written p \<or> pk_failed p then p
          else case markParked ok reason now (pk_journal p) of
              None \<Rightarrow> p\<lparr>pk_failed := True\<rparr>
            | Some f \<Rightarrow> shut_down (p\<lparr>pk_written := True, pk_journal := f\<rparr>))"

definition bindShutdown :: "parking \<Rightarrow> parking" where
  "bindShutdown p = (if pk_bound p then p else shut_down (p\<lparr>pk_bound := True\<rparr>))"

inductive parking_step :: "parking \<Rightarrow> parking \<Rightarrow> bool" where
  begins: "parking_step p (start_begins p)"
| ends: "parking_step p (start_ends r p)"
| unconfigures: "parking_step p (unconfigured p)"
| parks: "parking_step p (park reason p)"
| writes: "parking_step p (park_written ok now p)"
| binds: "parking_step p (bindShutdown p)"

subsection \<open>Reading back what was written\<close>

lemma read_latch_absent [simp]: "read_latch f k None = Some None"
  by (simp add: read_latch_def)

lemma read_latch_written:
  assumes "\<And>x. f (Some (g x)) = Some x" "k \<noteq> ''at''"
  shows "read_latch f k (Some (latch_json k g v)) = Some (Some v)"
  using assms by (auto simp: read_latch_def latch_json_def)

lemmas latches_written = read_latch_written [of json_str JStr] read_latch_written [of json_num JNum]
  read_latch_written [of rejection_of "\<lambda>x. JStr (reason_text x)"]

lemma json_numbers_written [simp]: "json_numbers (Some (JArr (map JNum xs))) = Some xs"
  by (simp add: json_numbers_def list_all_iff o_def)

lemma valid_health_written [simp]: "valid_health (health_json r) = Some r"
  by (cases r; cases "hr_terminal r"; cases "hr_degraded r"; cases "hr_parked r")
    (simp_all add: valid_health_def health_json_def opt_field_def latches_written)

lemma write_read_health [simp]: "write_health ok r = Some f \<Longrightarrow> read_health f = r"
  by (auto simp: write_health_def read_health_def split: if_splits)

lemma write_health_ok [simp]: "write_health True r = Some (Some (health_json r))" "write_health False r = None"
  by (simp_all add: write_health_def)

lemma read_health_written [simp]: "read_health (Some (health_json r)) = r"
  by (simp add: read_health_def)

subsection \<open>What a boot decides\<close>

definition latched :: "health_record \<Rightarrow> bool" where
  "latched r \<longleftrightarrow> hr_parked r \<noteq> None \<or> hr_terminal r \<noteq> None \<or> hr_degraded r \<noteq> None"

lemma health_ok_iff: "health now f = HealthOk \<longleftrightarrow> \<not> latched (read_health f)"
  by (auto simp: health_def health_of_def latched_def split: option.splits)

lemma guard_latched:
  assumes "latched (read_health f)"
  shows "\<exists>o'. guardWorkspaceRunnerStart ok now f = Some (o', f) \<and> o' \<noteq> Proceed"
  using assms health_ok_iff [of now f]
  by (auto simp: guardWorkspaceRunnerStart_def Let_def split: health_state.splits)

lemma pruneWindow_now: "pruneWindow (crashes @ [now]) now = pruneWindow crashes now @ [now]"
  by (simp add: pruneWindow_def WORKSPACE_HEALTH_CRASH_WINDOW_MS_def)

text \<open>
  C23: A healthy Workspace that boots and finds its predecessor did not stop cleanly counts one crash.
  It stops itself, latched as degraded with the reason of a crash loop, exactly when two earlier
  crashes lie within the last minute; otherwise it proceeds and marks itself live, keeping only the
  crashes within that minute.
\<close>
theorem third_crash_in_a_minute_stops_the_workspace:
  assumes "health now f = HealthOk"
  defines "recent \<equiv> (if wasLeftRunning f then pruneWindow (hr_crashes (read_health f)) now @ [now]
    else hr_crashes (read_health f))"
  shows "\<exists>f'. guardWorkspaceRunnerStart True now f =
      Some (if wasLeftRunning f \<and> length recent \<ge> 3
        then ExitDegraded CRASH_LOOP_REASON (int (length recent)) now else Proceed, f') \<and>
    read_health f' = (read_health f)\<lparr>hr_live := True, hr_crashes := recent,
      hr_degraded := (if wasLeftRunning f \<and> length recent \<ge> 3 then Some (int (length recent), now) else None)\<rparr>"
proof -
  let ?r = "read_health f"
  have latches: "hr_parked ?r = None" "hr_terminal ?r = None" "hr_degraded ?r = None"
    using assms(1) unfolding health_ok_iff latched_def by blast+
  show ?thesis
  proof (cases "wasLeftRunning f")
    case False
    then show ?thesis using assms(1) latches
      by (cases ?r) (simp add: guardWorkspaceRunnerStart_def recent_def recordStart_def)
  next
    case True
    let ?f = "Some (health_json (crashed_at now now ?r))"
    have crash: "recordCrash True now now f = Some ?f"
      using latches by (simp add: recordCrash_def)
    have read: "crashed_at now now ?r = ?r\<lparr>hr_crashes := recent,
        hr_degraded := (if length recent \<ge> 3 then Some (int (length recent), now) else None)\<rparr>"
      using True latches by (simp add: crashed_at_def recent_def pruneWindow_now WORKSPACE_HEALTH_DEGRADED_THRESHOLD_def)
    have live: "hr_live ?r" using True by (simp add: wasLeftRunning_def)
    show ?thesis using assms(1) True crash read latches live
      by (cases ?r) (auto simp: guardWorkspaceRunnerStart_def recordStart_def health_def health_of_def)
  qed
qed

theorem third_crash_in_a_minute_stops_the_workspace_witness:
  "let f = Some (health_json \<lparr>hr_live = True, hr_crashes = [1000, 30000], hr_terminal = None,
      hr_degraded = None, hr_parked = None\<rparr>)
   in health 50000 f = HealthOk \<and>
     (\<exists>f'. guardWorkspaceRunnerStart True 50000 f = Some (ExitDegraded CRASH_LOOP_REASON 3 50000, f'))"
proof -
  let ?f = "Some (health_json \<lparr>hr_live = True, hr_crashes = [1000, 30000], hr_terminal = None,
      hr_degraded = None, hr_parked = None\<rparr>)"
  have ok: "health 50000 ?f = HealthOk" by (simp add: health_def health_of_def)
  show ?thesis
    using third_crash_in_a_minute_stops_the_workspace [OF ok]
    by (auto simp: ok wasLeftRunning_def pruneWindow_def WORKSPACE_HEALTH_CRASH_WINDOW_MS_def Let_def)
qed

subsection \<open>A latch outlasts every restart\<close>

text \<open>What a Workspace's own processes do to its journal; only the operator's commands clear a latch.\<close>

inductive own_write :: "health_file \<Rightarrow> health_file \<Rightarrow> bool" where
  boots: "guardWorkspaceRunnerStart ok now f = Some (o', f') \<Longrightarrow> own_write f f'"
| starts: "recordStart ok f = Some f' \<Longrightarrow> own_write f f'"
| stops: "recordGracefulStop ok f = Some f' \<Longrightarrow> own_write f f'"
| crashes: "recordCrash ok at now f = Some f' \<Longrightarrow> own_write f f'"
| ends_for_good: "markTerminal ok reason now f = Some f' \<Longrightarrow> own_write f f'"
| parks: "markParked ok reason' now f = Some f' \<Longrightarrow> own_write f f'"

definition keeps_latches :: "health_record \<Rightarrow> health_record \<Rightarrow> bool" where
  "keeps_latches r r' \<longleftrightarrow> (latched r \<longrightarrow> latched r') \<and> (hr_parked r \<noteq> None \<longrightarrow> hr_parked r' \<noteq> None)"

lemma keeps_latches_refl [simp]: "keeps_latches r r"
  by (simp add: keeps_latches_def)

lemma write_keeps:
  assumes "write_health ok r = Some f'" "keeps_latches (read_health f) r"
  shows "keeps_latches (read_health f) (read_health f')"
  using assms write_read_health [OF assms(1)] by simp

lemma recordStart_keeps: "recordStart ok f = Some f' \<Longrightarrow> keeps_latches (read_health f) (read_health f')"
  by (erule write_keeps [OF recordStart_def [symmetric, THEN trans]])
    (simp add: keeps_latches_def latched_def)

lemma recordCrash_keeps:
  assumes "recordCrash ok at now f = Some f'"
  shows "keeps_latches (read_health f) (read_health f')"
proof (cases "hr_terminal (read_health f) \<noteq> None \<or> hr_degraded (read_health f) \<noteq> None")
  case True
  then show ?thesis using assms by (auto simp: recordCrash_def Let_def)
next
  case False
  then have "write_health ok (crashed_at at now (read_health f)) = Some f'"
    using assms by (auto simp: recordCrash_def Let_def)
  then show ?thesis
    by (rule write_keeps) (use False in \<open>auto simp: keeps_latches_def latched_def crashed_at_def Let_def\<close>)
qed

lemma guard_keeps:
  assumes "guardWorkspaceRunnerStart ok now f = Some (o', f')"
  shows "keeps_latches (read_health f) (read_health f')"
proof (cases "latched (read_health f)")
  case True
  then show ?thesis using guard_latched [OF True, of ok now] assms by auto
next
  case False
  then show ?thesis by (auto simp: keeps_latches_def latched_def)
qed

lemma own_write_keeps: "own_write f f' \<Longrightarrow> keeps_latches (read_health f) (read_health f')"
proof (induction rule: own_write.induct)
  case (stops ok f f')
  then show ?case by (auto simp: recordGracefulStop_def keeps_latches_def latched_def dest!: write_read_health)
next
  case (ends_for_good ok reason now f f')
  then show ?case by (auto simp: markTerminal_def keeps_latches_def latched_def dest!: write_read_health)
next
  case (parks ok reason' now f f')
  then show ?case by (auto simp: markParked_def keeps_latches_def latched_def dest!: write_read_health)
qed (auto intro: recordStart_keeps recordCrash_keeps guard_keeps)

lemma own_writes_keep: "own_write\<^sup>*\<^sup>* f f' \<Longrightarrow> keeps_latches (read_health f) (read_health f')"
  by (induction rule: rtranclp_induct) (auto simp: keeps_latches_def dest!: own_write_keeps)

text \<open>
  C24: Once a Workspace is latched, by a crash loop, a terminal condition or a park, no number of its own
  restarts, crashes and shutdowns ever lets it proceed again, however much later: every boot exits
  and changes nothing. An operator's clear lifts a crash loop and a terminal condition, and a park
  stays; only attaching the Workspace again lifts a park.
\<close>
theorem latch_is_lifted_by_the_operator_only:
  assumes "own_write\<^sup>*\<^sup>* f f'" "latched (read_health f)"
  shows "(\<exists>o'. guardWorkspaceRunnerStart ok now f' = Some (o', f') \<and> o' \<noteq> Proceed) \<and>
    (\<forall>g. clear_health True f' = Some g \<longrightarrow>
      (hr_parked (read_health f) \<noteq> None \<longrightarrow> hr_parked (read_health g) \<noteq> None) \<and>
      (hr_parked (read_health f') = None \<longrightarrow> \<not> latched (read_health g))) \<and>
    (\<forall>g. clearParked True f' = Some g \<longrightarrow> \<not> latched (read_health g))"
proof (intro conjI allI impI)
  have keeps: "keeps_latches (read_health f) (read_health f')" using own_writes_keep [OF assms(1)] .
  then show "\<exists>o'. guardWorkspaceRunnerStart ok now f' = Some (o', f') \<and> o' \<noteq> Proceed"
    using assms(2) by (intro guard_latched) (simp add: keeps_latches_def)
  fix g
  show "hr_parked (read_health g) \<noteq> None"
    if "clear_health True f' = Some g" "hr_parked (read_health f) \<noteq> None"
    using that keeps by (auto simp: clear_health_def keeps_latches_def clear_latches_def)
  show "\<not> latched (read_health g)" if "clear_health True f' = Some g" "hr_parked (read_health f') = None"
    using that by (auto simp: clear_health_def latched_def clear_latches_def)
  show "\<not> latched (read_health g)" if "clearParked True f' = Some g"
    using that by (auto simp: clearParked_def latched_def clear_latches_def)
qed

definition crash_looped :: health_file where
  "crash_looped = Some (health_json \<lparr>hr_live = True, hr_crashes = [1000, 30000, 50000], hr_terminal = None,
     hr_degraded = Some (3, 50000), hr_parked = None\<rparr>)"

theorem latch_is_lifted_by_the_operator_only_witness:
  "own_write\<^sup>*\<^sup>* crash_looped crash_looped \<and> latched (read_health crash_looped) \<and>
   (\<exists>o'. guardWorkspaceRunnerStart True 900000 crash_looped = Some (o', crash_looped) \<and> o' \<noteq> Proceed)"
proof -
  have latched: "latched (read_health crash_looped)" by (simp add: latched_def crash_looped_def)
  show ?thesis
    using latch_is_lifted_by_the_operator_only [OF rtranclp.rtrancl_refl latched, of True 900000] latched by blast
qed

subsection \<open>A parked process\<close>

definition parking_ok :: "parking \<Rightarrow> bool" where
  "parking_ok p \<longleftrightarrow>
     (pk_written p \<longrightarrow> hr_parked (read_health (pk_journal p)) \<noteq> None \<and> pk_parking p \<noteq> None \<and> \<not> pk_failed p) \<and>
     pk_shutdowns p = (if pk_written p \<and> pk_bound p then 1 else 0)"

lemma parking_step_ok: "parking_step p p' \<Longrightarrow> parking_ok p \<Longrightarrow> parking_ok p'"
  by (induction rule: parking_step.induct)
    (auto simp: parking_ok_def start_begins_def start_ends_def unconfigured_def park_def park_written_def
      bindShutdown_def shut_down_def markParked_def write_health_def split: run_result.splits option.splits if_splits)

lemma parking_run_ok: "parking_step\<^sup>*\<^sup>* (new_parking f) p \<Longrightarrow> parking_ok p"
  by (induction rule: rtranclp_induct) (auto simp: parking_ok_def new_parking_def dest: parking_step_ok)

text \<open>
  C25: Whatever order a Workspace process's connect attempts, refusals, journal writes and its shutdown's
  hand-over come in, it shuts itself down for a refusal at most once, and only after the park is on
  disk: from then on every boot of the Workspace exits as parked. And it does shut down once the
  park is written and the shutdown exists.
\<close>
theorem park_is_on_disk_before_the_shutdown:
  assumes "parking_step\<^sup>*\<^sup>* (new_parking f) p"
  shows "pk_shutdowns p = (if pk_written p \<and> pk_bound p then 1 else 0) \<and>
    (pk_shutdowns p > 0 \<longrightarrow> (\<exists>reason since.
      guardWorkspaceRunnerStart ok now (pk_journal p) = Some (ExitParked reason since, pk_journal p)))"
  using parking_run_ok [OF assms]
  by (auto simp: parking_ok_def guardWorkspaceRunnerStart_def health_def health_of_def Let_def split: if_splits)

definition parked_run :: parking where
  "parked_run = park_written True 5000 (bindShutdown (start_ends (RunRefused WorkspaceDeleted) (new_parking None)))"

theorem park_is_on_disk_before_the_shutdown_witness:
  "parking_step\<^sup>*\<^sup>* (new_parking None) parked_run \<and> pk_shutdowns parked_run = 1 \<and>
   (\<exists>reason since. guardWorkspaceRunnerStart True 9000 (pk_journal parked_run) =
     Some (ExitParked reason since, pk_journal parked_run))"
proof -
  have run: "parking_step\<^sup>*\<^sup>* (new_parking None) parked_run"
    unfolding parked_run_def
    by (rule rtranclp.rtrancl_into_rtrancl, rule rtranclp.rtrancl_into_rtrancl,
        rule rtranclp.rtrancl_into_rtrancl, rule rtranclp.rtrancl_refl)
      (rule parking_step.intros)+
  have "pk_shutdowns parked_run = 1"
    by (simp add: parked_run_def park_written_def bindShutdown_def start_ends_def park_def new_parking_def
      shut_down_def markParked_def)
  then show ?thesis using park_is_on_disk_before_the_shutdown [OF run, of True 9000] run by simp
qed

end
