(* ===== verification/RunnerHold.thy ===== *)
theory RunnerHold
  imports WorkspaceHealth
begin

text \<open>
  The bounded waits of the supervisor: the runner hold of
  \<open>packages/daemon/src/supervisor/runner-hold.ts\<close>, and the wait for a started Workspace's first cloud
  connect in \<open>workspace-start-outcome.ts\<close>. Both ask and sleep in a loop that only the clock ends, so each
  is a partial function, \<open>None\<close> when it never returns; the theorems show that a clock that advances
  with the sleeps ends it. The world the loop asks is of any type. Logging is left out.
\<close>

definition RUNNER_HOLD_MS :: int where
  "RUNNER_HOLD_MS = 30000"

definition RUNNER_HOLD_POLL_MS :: int where
  "RUNNER_HOLD_POLL_MS = 250"

subsection \<open>The hold\<close>

text \<open>A busy Agent is its Workspace id, its own id and what it is doing.\<close>

type_synonym busy_agent = "string \<times> string \<times> string"

record hold_snapshot =
  hs_busyAgents :: "busy_agent list"
  hs_unreachableWorkspaceIds :: "string list"

record hold_outcome = hold_snapshot +
  ho_quiescent :: bool
  ho_elapsedMs :: int

record 'w hold_port =
  hp_hold :: "'w \<Rightarrow> (string + hold_snapshot) \<times> 'w"
  hp_now :: "'w \<Rightarrow> int"
  hp_sleep :: "int \<Rightarrow> 'w \<Rightarrow> 'w"
  hp_aborted :: "'w \<Rightarrow> bool"

definition outcome_of :: "hold_snapshot \<Rightarrow> bool \<Rightarrow> int \<Rightarrow> hold_outcome" where
  "outcome_of sn quiescent elapsedMs = \<lparr>hs_busyAgents = hs_busyAgents sn,
     hs_unreachableWorkspaceIds = hs_unreachableWorkspaceIds sn, ho_quiescent = quiescent, ho_elapsedMs = elapsedMs\<rparr>"

text \<open>One round: an answer, or the snapshot and the world the next round starts from.\<close>

datatype ('a, 'b) round = Answer 'a | Again 'b

definition hold_round ::
  "'w hold_port \<Rightarrow> int \<Rightarrow> int \<Rightarrow> int \<Rightarrow> hold_snapshot \<times> 'w \<Rightarrow> (hold_outcome \<times> 'w, hold_snapshot \<times> 'w) round"
where
  "hold_round port holdMs pollMs startedAt = (\<lambda>(previous, w).
     case hp_hold port w of
       (Inl _, w1) \<Rightarrow>
         Answer (outcome_of (previous\<lparr>hs_busyAgents := []\<rparr>) True (hp_now port w1 - startedAt), w1)
     | (Inr sn, w1) \<Rightarrow>
         (let elapsed = hp_now port w1 - startedAt in
          if hs_busyAgents sn = [] then Answer (outcome_of sn True elapsed, w1)
          else if hp_aborted port w1 then Answer (outcome_of sn False elapsed, w1)
          else if elapsed \<ge> holdMs then Answer (outcome_of sn False elapsed, w1)
          else Again (sn, hp_sleep port pollMs w1)))"

partial_function (option) rounds :: "('s \<Rightarrow> ('a, 's) round) \<Rightarrow> 's \<Rightarrow> 'a option" where
  "rounds f s = (case f s of Answer a \<Rightarrow> Some a | Again s' \<Rightarrow> rounds f s')"

definition nothing_held :: hold_snapshot where
  "nothing_held = \<lparr>hs_busyAgents = [], hs_unreachableWorkspaceIds = []\<rparr>"

definition holdRunnersUntilQuiescent :: "'w hold_port \<Rightarrow> int \<Rightarrow> int \<Rightarrow> 'w \<Rightarrow> (hold_outcome \<times> 'w) option" where
  "holdRunnersUntilQuiescent port holdMs pollMs w =
     rounds (hold_round port holdMs pollMs (hp_now port w)) (nothing_held, w)"

text \<open>The same wait with a bound on its rounds, for those that compute with it.\<close>

fun bounded_rounds :: "nat \<Rightarrow> ('s \<Rightarrow> ('a, 's) round) \<Rightarrow> 's \<Rightarrow> 'a option" where
  "bounded_rounds 0 f s = None"
| "bounded_rounds (Suc n) f s = (case f s of Answer a \<Rightarrow> Some a | Again s' \<Rightarrow> bounded_rounds n f s')"

lemma bounded_rounds_mono: "bounded_rounds n f s = Some a \<Longrightarrow> n \<le> m \<Longrightarrow> bounded_rounds m f s = Some a"
proof (induction n arbitrary: s m)
  case (Suc n)
  then show ?case by (cases m) (auto split: round.splits)
qed simp

lemma bounded_rounds_run: "bounded_rounds n f s = Some a \<Longrightarrow> rounds f s = Some a"
proof (induction n arbitrary: s)
  case (Suc n)
  then show ?case by (subst rounds.simps) (auto split: round.splits)
qed simp

text \<open>
  A measure in the clock that grows with every further round bounds the rounds.
\<close>

lemma rounds_end:
  assumes later: "\<And>s s'. I s \<Longrightarrow> f s = Again s' \<Longrightarrow> I s' \<and> m s + d \<le> m s' \<and> m s < limit"
    and "0 < d" "I s" "limit - m s \<le> int n * d"
  shows "\<exists>a. bounded_rounds (Suc n) f s = Some a"
  using assms(3,4)
proof (induction n arbitrary: s)
  case 0
  then show ?case using later [of s] assms(2) by (cases "f s") fastforce+
next
  case (Suc n)
  show ?case
  proof (cases "f s")
    case (Again s')
    with later [OF Suc.prems(1)] have "I s'" "m s + d \<le> m s'" by auto
    moreover then have "limit - m s' \<le> int n * d" using Suc.prems(2) by (simp add: algebra_simps)
    ultimately show ?thesis using Suc.IH [of s'] Again by simp
  qed simp
qed

lemma bounded_rounds_answer: "bounded_rounds n f s = Some a \<Longrightarrow> \<exists>s'. f s' = Answer a"
  by (induction n arbitrary: s) (auto split: round.splits)

lemma hold_round_again:
  "hold_round port holdMs pollMs t (sn, w) = Again s' \<longleftrightarrow>
   (\<exists>sn' w1. hp_hold port w = (Inr sn', w1) \<and> hs_busyAgents sn' \<noteq> [] \<and> \<not> hp_aborted port w1 \<and>
     hp_now port w1 - t < holdMs \<and> s' = (sn', hp_sleep port pollMs w1))"
  by (auto simp: hold_round_def Let_def split: prod.splits sum.splits)

lemma hold_round_answer:
  "hold_round port holdMs pollMs t s = Answer (out, w1) \<Longrightarrow>
   (ho_quiescent out \<longleftrightarrow> hs_busyAgents out = []) \<and>
   (\<not> ho_quiescent out \<longrightarrow> hp_aborted port w1 \<or> ho_elapsedMs out \<ge> holdMs)"
  by (cases s) (auto simp: hold_round_def outcome_of_def Let_def split: prod.splits sum.splits if_splits)

text \<open>
  C26: When the clock does not go back while a Workspace is asked and a sleep lasts at least as long as it
  was asked to, the runner hold returns, after at most one round more than its bound holds polls (121
  rounds of the default bounds). It answers quiescent exactly when it reports no busy Agent, which
  includes a hold that could not be asked, and otherwise only because it was aborted or the bound
  has passed.
\<close>
theorem runner_hold_ends:
  assumes asked: "\<And>w. hp_now port w \<le> hp_now port (snd (hp_hold port w))"
    and slept: "\<And>w. hp_now port w + pollMs \<le> hp_now port (hp_sleep port pollMs w)"
    and poll: "0 < pollMs" and bound: "holdMs \<le> int n * pollMs"
  shows "\<exists>out w'. holdRunnersUntilQuiescent port holdMs pollMs w = Some (out, w') \<and>
    bounded_rounds (Suc n) (hold_round port holdMs pollMs (hp_now port w)) (nothing_held, w) = Some (out, w') \<and>
    (ho_quiescent out \<longleftrightarrow> hs_busyAgents out = []) \<and>
    (\<not> ho_quiescent out \<longrightarrow> hp_aborted port w' \<or> ho_elapsedMs out \<ge> holdMs)"
proof -
  let ?f = "hold_round port holdMs pollMs (hp_now port w)"
  let ?limit = "hp_now port w + holdMs"
  have "\<exists>a. bounded_rounds (Suc n) ?f (nothing_held, w) = Some a"
  proof (rule rounds_end [where I = "\<lambda>s. True" and m = "\<lambda>s. hp_now port (snd s)" and d = pollMs and limit = ?limit])
    fix s s'
    assume "?f s = Again s'"
    then obtain sn w0 sn' w1 where s: "s = (sn, w0)" "hp_hold port w0 = (Inr sn', w1)"
      "hp_now port w1 - hp_now port w < holdMs" "s' = (sn', hp_sleep port pollMs w1)"
      by (cases s) (auto simp: hold_round_again)
    then show "True \<and> hp_now port (snd s) + pollMs \<le> hp_now port (snd s') \<and> hp_now port (snd s) < ?limit"
      using asked [of w0] slept [of w1] by simp
  qed (use poll bound in auto)
  then obtain out w' where run: "bounded_rounds (Suc n) ?f (nothing_held, w) = Some (out, w')" by auto
  from bounded_rounds_answer [OF this] obtain s where "?f s = Answer (out, w')" ..
  from hold_round_answer [OF this] run bounded_rounds_run [OF run] show ?thesis
    by (auto simp: holdRunnersUntilQuiescent_def)
qed

text \<open>A Workspace whose Agent goes idle after ten seconds, with the clock as its world.\<close>

definition idle_after :: "int \<Rightarrow> int hold_port" where
  "idle_after ms = \<lparr>hp_hold = (\<lambda>w. (Inr \<lparr>hs_busyAgents = (if w < ms then [(''w'', ''a'', ''tool'')] else []),
      hs_unreachableWorkspaceIds = []\<rparr>, w)),
    hp_now = (\<lambda>w. w), hp_sleep = (\<lambda>ms w. w + ms), hp_aborted = (\<lambda>w. False)\<rparr>"

theorem runner_hold_ends_witness:
  "\<exists>out w'. holdRunnersUntilQuiescent (idle_after 10000) RUNNER_HOLD_MS RUNNER_HOLD_POLL_MS 0 = Some (out, w') \<and>
    (ho_quiescent out \<longleftrightarrow> hs_busyAgents out = [])"
proof -
  have "\<exists>out w'. holdRunnersUntilQuiescent (idle_after 10000) RUNNER_HOLD_MS RUNNER_HOLD_POLL_MS 0 = Some (out, w') \<and>
    bounded_rounds (Suc 120) (hold_round (idle_after 10000) RUNNER_HOLD_MS RUNNER_HOLD_POLL_MS
      (hp_now (idle_after 10000) 0)) (nothing_held, 0) = Some (out, w') \<and>
    (ho_quiescent out \<longleftrightarrow> hs_busyAgents out = []) \<and>
    (\<not> ho_quiescent out \<longrightarrow> hp_aborted (idle_after 10000) w' \<or> ho_elapsedMs out \<ge> RUNNER_HOLD_MS)"
    by (rule runner_hold_ends) (simp_all add: idle_after_def RUNNER_HOLD_MS_def RUNNER_HOLD_POLL_MS_def)
  then show ?thesis by blast
qed

subsection \<open>Waiting for a Workspace's first connect\<close>

definition POLL_MS :: int where
  "POLL_MS = 50"

datatype connection_state = CloudConnecting | CloudConnected | CloudNotConnected

record 'w start_port =
  sp_parkReason :: "string \<Rightarrow> 'w \<Rightarrow> rejection_reason option"
  sp_cloudConnection :: "string \<Rightarrow> 'w \<Rightarrow> (connection_state \<times> string option) option \<times> 'w"
  sp_now :: "'w \<Rightarrow> int"
  sp_sleep :: "int \<Rightarrow> 'w \<Rightarrow> 'w"

text \<open>What watching one Workspace ends with: the reason of its park, or where its connect stands.\<close>

type_synonym watch_answer = "rejection_reason + connection_state \<times> string option"

definition watch_round :: "'w start_port \<Rightarrow> string \<Rightarrow> int \<Rightarrow> 'w \<Rightarrow> (watch_answer \<times> 'w, 'w) round" where
  "watch_round port workspaceId deadline w =
     (let (connection, w1) = sp_cloudConnection port workspaceId w in
      case connection of
        Some (CloudConnected, e) \<Rightarrow> Answer (Inr (CloudConnected, e), w1)
      | Some (CloudNotConnected, e) \<Rightarrow> Answer (Inr (CloudNotConnected, e), w1)
      | _ \<Rightarrow>
          (case sp_parkReason port workspaceId w1 of
             Some reason \<Rightarrow> Answer (Inl reason, w1)
           | None \<Rightarrow>
               if sp_now port w1 \<ge> deadline
               then Answer (Inr (CloudConnecting, case connection of Some (_, e) \<Rightarrow> e | None \<Rightarrow> None), w1)
               else Again (sp_sleep port POLL_MS w1)))"

definition watch :: "'w start_port \<Rightarrow> string \<Rightarrow> int \<Rightarrow> 'w \<Rightarrow> (watch_answer \<times> 'w) option" where
  "watch port workspaceId deadline = rounds (watch_round port workspaceId deadline)"

text \<open>
  What the command answers from the watches of its Workspaces, which run side by side: the first park
  in their order refuses it.
\<close>

fun awaitCloudConnections :: "(string \<times> watch_answer) list \<Rightarrow>
  (string \<times> rejection_reason) + (string \<times> connection_state \<times> string option) list"
where
  "awaitCloudConnections [] = Inr []"
| "awaitCloudConnections ((w, Inl reason) # rest) = Inl (w, reason)"
| "awaitCloudConnections ((w, Inr answer) # rest) =
     (case awaitCloudConnections rest of Inl e \<Rightarrow> Inl e | Inr os \<Rightarrow> Inr ((w, answer) # os))"

lemma watch_ends:
  assumes asked: "\<And>w. sp_now port w \<le> sp_now port (snd (sp_cloudConnection port ws w))"
    and slept: "\<And>w. sp_now port w + POLL_MS \<le> sp_now port (sp_sleep port POLL_MS w)"
  shows "\<exists>a w'. watch port ws deadline w = Some (a, w') \<and>
    (a = Inr (CloudConnecting, e) \<longrightarrow> sp_now port w' \<ge> deadline)"
proof -
  let ?f = "watch_round port ws deadline"
  have later: "sp_now port w + POLL_MS \<le> sp_now port w' \<and> sp_now port w < deadline" if "?f w = Again w'" for w w'
    using that asked [of w] slept [of "snd (sp_cloudConnection port ws w)"]
    by (auto simp: watch_round_def Let_def split: prod.splits option.splits connection_state.splits if_splits)
  have "\<exists>a. bounded_rounds (Suc (nat (deadline - sp_now port w))) ?f w = Some a"
    by (rule rounds_end [where I = "\<lambda>s. True" and m = "sp_now port" and d = POLL_MS and limit = deadline])
      (use later in \<open>auto simp: POLL_MS_def\<close>)
  then obtain a w' where run: "bounded_rounds (Suc (nat (deadline - sp_now port w))) ?f w = Some (a, w')" by auto
  from bounded_rounds_answer [OF this] obtain s where "?f s = Answer (a, w')" ..
  then have "a = Inr (CloudConnecting, e) \<longrightarrow> sp_now port w' \<ge> deadline"
    by (auto simp: watch_round_def Let_def split: prod.splits option.splits connection_state.splits if_splits)
  with bounded_rounds_run [OF run] show ?thesis by (auto simp: watch_def)
qed

end
