(* ===== verification/MachineSupervisor.thy ===== *)
theory MachineSupervisor
  imports WorkspaceBindings RunnerHold
begin

text \<open>
  The supervisor of a Computer's Workspaces: \<open>packages/daemon/src/supervisor/machine-supervisor.ts\<close>.
  Lifecycle work runs one at a time from a queue. A request does its part before the queue at once: a
  stop or configure supersedes the start and restart work requested before it and aborts the one
  under way, and a stop is persisted before its turn. So requests are handled between work and at
  every point where the work under way waits: \<open>mc_arrivals\<close> are the batches of requests that arrive at
  those points, in order, and every theorem is over all of them. A stop's intent is set and written in
  one step; nothing reads the registry in between. The operating system, the Workspace processes, the
  health journals, the store and the clock are functions over a world of any type. Logging is left
  out.
\<close>

subsection \<open>Commands, requests and work\<close>

datatype machine_command = DoStart | DoStop | DoRestart

fun operation_of :: "machine_command \<Rightarrow> lifecycle_operation" where
  "operation_of DoStart = StartOperation"
| "operation_of DoStop = StopOperation"
| "operation_of DoRestart = RestartOperation"

datatype lifecycle_error =
    Superseded string takeover "lifecycle_operation option"
  | ParkedWorkspace string rejection_reason
  | LaunchesPaused
  | NotRegistered
  | UnfinishedRestart string
  | NotReplaced
  | VersionRequired
  | VersionConflict
  | OperationPending string
  | PendingNotAcknowledged
  | RecoveryIncomplete "string list"
  | StoreFailed
  | UndefinedRestart
  | EndlessHold
  | PortFailed string

text \<open>A request says whether its deadline passes before its work has ended.\<close>

datatype request =
    CommandRequest machine_command "string option" "string option" bool
  | ConfigureRequest daemon_config bool
  | PauseRequest
  | ResumeRequest
  | ReconcileRequest
  | RecoverRequest bool
  | ShutdownRequest
  | SnapshotRequest
  | RecordUpgradeRequest string string string
  | CompleteUpgradeRequest string string upgrade_state upgrade_terminal
  | AcknowledgeUpgradeRequest string string

text \<open>
  Queued work: a command with its sequence, the Workspaces it was requested for and whether the
  intent of a stop was written.
\<close>

record command_work =
  cw_command :: machine_command
  cw_workspaceId :: "string option"
  cw_requestId :: "string option"
  cw_sequence :: nat
  cw_requested :: "string list"
  cw_intentWritten :: bool
  cw_late :: bool

datatype work =
    CommandWork command_work
  | ConfigureWork daemon_config bool
  | FailureWork lifecycle_operation "string list" string
  | ResumeWork
  | ReconcileWork
  | RecoverWork bool
  | ShutdownWork
  | SnapshotWork
  | RecordUpgradeWork string string string
  | CompleteUpgradeWork string string upgrade_state upgrade_terminal
  | AcknowledgeUpgradeWork string string

datatype work_answer = StartedAnswer "string list" | BoolAnswer bool | NoAnswer

text \<open>History: the calls to the processes, the registries saved, and how work ended.\<close>

datatype machine_event =
    StartCalled string
  | StopCalled string
  | Saved "managed_binding list"
  | Ended work "lifecycle_error + work_answer"

record command_progress =
  pg_targets :: "string list option"
  pg_done :: nat
  pg_started :: "string list"
  pg_refused :: "lifecycle_error option"
  pg_superseded :: "lifecycle_error option"

definition no_progress :: command_progress where
  "no_progress = \<lparr>pg_targets = None, pg_done = 0, pg_started = [], pg_refused = None, pg_superseded = None\<rparr>"

text \<open>
  \<open>mc_inFlight\<close> is what aborted the work tracked for a Workspace, if anything did; \<open>mc_progress\<close> and
  \<open>mc_marked\<close> belong to the work under way.
\<close>

record 'w machine =
  mc_bindings :: "managed_binding list"
  mc_instances :: "(string, string) js_map"
  mc_inFlight :: "(string, takeover option) js_map"
  mc_sequence :: nat
  mc_supersededAt :: "(string, nat \<times> takeover) js_map"
  mc_underWay :: "(string, nat) js_map"
  mc_stopIntents :: "(string, nat) js_map"
  mc_paused :: bool
  mc_reloadRequired :: bool
  mc_queue :: "work list"
  mc_arrivals :: "request list list"
  mc_progress :: command_progress
  mc_marked :: "string list"
  mc_log :: "machine_event list"
  mc_world :: 'w

text \<open>
  The ports. A start is told what aborted its signal by the time it answers. \<open>sv_settle\<close> is
  \<open>settlePendingUpgrade\<close>, \<open>None\<close> also when it throws; \<open>sv_message\<close> is the text of an error.
\<close>

record 'w supervisor_ports =
  sv_load :: "'w \<Rightarrow> managed_binding list option"
  sv_save :: "managed_binding list \<Rightarrow> 'w \<Rightarrow> bool \<times> 'w"
  sv_start :: "managed_binding \<Rightarrow> takeover option \<Rightarrow> 'w \<Rightarrow> (lifecycle_error + string) \<times> 'w"
  sv_stop :: "managed_binding \<Rightarrow> 'w \<Rightarrow> (lifecycle_error + unit) \<times> 'w"
  sv_instance :: "managed_binding \<Rightarrow> 'w \<Rightarrow> (lifecycle_error + string option) \<times> 'w"
  sv_hold :: "managed_binding \<Rightarrow> 'w \<Rightarrow> (string + hold_snapshot) \<times> 'w"
  sv_release :: "managed_binding \<Rightarrow> 'w \<Rightarrow> 'w"
  sv_clearHealth :: "managed_binding \<Rightarrow> 'w \<Rightarrow> (lifecycle_error + unit) \<times> 'w"
  sv_parkedReason :: "managed_binding \<Rightarrow> 'w \<Rightarrow> rejection_reason option"
  sv_clearParked :: "managed_binding \<Rightarrow> 'w \<Rightarrow> (lifecycle_error + unit) \<times> 'w"
  sv_settle :: "string \<Rightarrow> string \<Rightarrow> int \<Rightarrow> 'w \<Rightarrow> (upgrade_state \<times> upgrade_terminal) option \<times> 'w"
  sv_now :: "'w \<Rightarrow> int"
  sv_sleep :: "int \<Rightarrow> 'w \<Rightarrow> 'w"
  sv_uuid :: "'w \<Rightarrow> string \<times> 'w"
  sv_message :: "lifecycle_error \<Rightarrow> string"

subsection \<open>Actions\<close>

type_synonym ('w, 'a) action = "'w machine \<Rightarrow> (lifecycle_error + 'a) \<times> 'w machine"

definition give :: "'a \<Rightarrow> ('w, 'a) action" where
  "give a s = (Inr a, s)"

definition throw :: "lifecycle_error \<Rightarrow> ('w, 'a) action" where
  "throw e s = (Inl e, s)"

definition andthen :: "('w, 'a) action \<Rightarrow> ('a \<Rightarrow> ('w, 'b) action) \<Rightarrow> ('w, 'b) action" where
  "andthen m f s = (case m s of (Inl e, s1) \<Rightarrow> (Inl e, s1) | (Inr a, s1) \<Rightarrow> f a s1)"

definition rescue :: "('w, 'a) action \<Rightarrow> (lifecycle_error \<Rightarrow> ('w, 'a) action) \<Rightarrow> ('w, 'a) action" where
  "rescue m h s = (case m s of (Inl e, s1) \<Rightarrow> h e s1 | (Inr a, s1) \<Rightarrow> (Inr a, s1))"

definition lastly :: "('w, 'a) action \<Rightarrow> ('w machine \<Rightarrow> 'w machine) \<Rightarrow> ('w, 'a) action" where
  "lastly m g s = (case m s of (r, s1) \<Rightarrow> (r, g s1))"

definition modify :: "('w machine \<Rightarrow> 'w machine) \<Rightarrow> ('w, unit) action" where
  "modify g s = (Inr (), g s)"

definition gets :: "('w machine \<Rightarrow> 'a) \<Rightarrow> ('w, 'a) action" where
  "gets g s = (Inr (g s), s)"

definition whenever :: "bool \<Rightarrow> ('w, unit) action \<Rightarrow> ('w, unit) action" where
  "whenever c m = (if c then m else give ())"

subsection \<open>State updates\<close>

definition log_event :: "machine_event \<Rightarrow> 'w machine \<Rightarrow> 'w machine" where
  "log_event e s = s\<lparr>mc_log := e # mc_log s\<rparr>"

definition find_binding :: "'w machine \<Rightarrow> string \<Rightarrow> managed_binding option" where
  "find_binding s i = find (\<lambda>b. cf_workspaceId b = i) (mc_bindings s)"

definition upsert_binding :: "managed_binding \<Rightarrow> managed_binding list \<Rightarrow> managed_binding list" where
  "upsert_binding b bs =
     (let other = (\<lambda>x. cf_workspaceId x \<noteq> cf_workspaceId b)
      in takeWhile other bs @ [b] @ filter other (dropWhile other bs))"

text \<open>An empty Workspace id is as good as none.\<close>

definition scope_id :: "string option \<Rightarrow> string option" where
  "scope_id w = (if w = Some '''' then None else w)"

definition command_targets :: "machine_command \<Rightarrow> string option \<Rightarrow> 'w machine \<Rightarrow> managed_binding list" where
  "command_targets c w s = filter (\<lambda>b. (scope_id w = None \<or> Some (cf_workspaceId b) = w) \<and>
     \<not> (c = DoRestart \<and> scope_id w = None \<and> \<not> mb_enabled b)) (mc_bindings s)"

definition abort_work :: "takeover \<Rightarrow> string \<Rightarrow> 'w machine \<Rightarrow> 'w machine" where
  "abort_work taken i s =
     (case map_get (mc_inFlight s) i of
        Some None \<Rightarrow> s\<lparr>mc_inFlight := map_set (mc_inFlight s) i (Some taken)\<rparr>
      | _ \<Rightarrow> s)"

definition supersede_one :: "takeover \<Rightarrow> nat \<Rightarrow> string \<Rightarrow> 'w machine \<Rightarrow> 'w machine" where
  "supersede_one taken n i s =
     abort_work taken i (s\<lparr>mc_supersededAt := map_set (mc_supersededAt s) i (n, taken)\<rparr>)"

definition supersede :: "string list \<Rightarrow> takeover \<Rightarrow> 'w machine \<Rightarrow> nat \<times> 'w machine" where
  "supersede ids taken s =
     (let n = mc_sequence s + 1 in (n, fold (supersede_one taken n) ids (s\<lparr>mc_sequence := n\<rparr>)))"

definition mark_one :: "string \<Rightarrow> 'w machine \<Rightarrow> 'w machine" where
  "mark_one i s = s\<lparr>mc_underWay := map_set (mc_underWay s) i (get_or (mc_underWay s) i 0 + 1)\<rparr>"

definition unmark_one :: "string \<Rightarrow> 'w machine \<Rightarrow> 'w machine" where
  "unmark_one i s =
     (let n = get_or (mc_underWay s) i 1 - 1
      in s\<lparr>mc_underWay := (if n > 0 then map_set (mc_underWay s) i n else map_delete (mc_underWay s) i)\<rparr>)"

text \<open>A mark of the work under way ends once: when its Workspace is handled, or with the work.\<close>

definition settle_mark :: "string \<Rightarrow> 'w machine \<Rightarrow> 'w machine" where
  "settle_mark i s =
     (if i \<in> set (mc_marked s) then unmark_one i (s\<lparr>mc_marked := set_del i (mc_marked s)\<rparr>) else s)"

definition settle_all :: "'w machine \<Rightarrow> 'w machine" where
  "settle_all s = fold settle_mark (mc_marked s) s"

subsection \<open>Store writes\<close>

definition store_bindings :: "'w supervisor_ports \<Rightarrow> managed_binding list \<Rightarrow> ('w, unit) action" where
  "store_bindings rt next s =
     (let (ok, w) = sv_save rt next (mc_world s); s1 = s\<lparr>mc_world := w\<rparr>
      in if ok then (Inr (), log_event (Saved next) (s1\<lparr>mc_bindings := next\<rparr>))
         else (Inl StoreFailed, s1\<lparr>mc_reloadRequired := True\<rparr>))"

definition reload_if_required :: "'w supervisor_ports \<Rightarrow> ('w, unit) action" where
  "reload_if_required rt s =
     (if \<not> mc_reloadRequired s then (Inr (), s)
      else case sv_load rt (mc_world s) of
          None \<Rightarrow> (Inl StoreFailed, s)
        | Some bs \<Rightarrow> (Inr (), s\<lparr>mc_bindings := bs, mc_reloadRequired := False\<rparr>))"

definition release_intents :: "string list \<Rightarrow> nat \<Rightarrow> 'w machine \<Rightarrow> 'w machine" where
  "release_intents ids n s = s\<lparr>mc_stopIntents :=
     filter (\<lambda>(i, m). \<not> (i \<in> set ids \<and> m = n)) (mc_stopIntents s)\<rparr>"

definition persist_intent :: "'w supervisor_ports \<Rightarrow> string list \<Rightarrow> nat \<Rightarrow> 'w machine \<Rightarrow> bool \<times> 'w machine" where
  "persist_intent rt ids n s0 =
     (let s = s0\<lparr>mc_stopIntents := fold (\<lambda>i m. map_set m i n) ids (mc_stopIntents s0)\<rparr>
      in case andthen (reload_if_required rt) (\<lambda>_ s. store_bindings rt
           (map (\<lambda>b. if has (mc_stopIntents s) (cf_workspaceId b) then stopped b else b) (mc_bindings s)) s) s of
           (Inl _, s1) \<Rightarrow> (False, release_intents ids n s1)
         | (Inr _, s1) \<Rightarrow> (True, s1))"

subsection \<open>Requests\<close>

definition enqueue_work :: "work \<Rightarrow> 'w machine \<Rightarrow> 'w machine" where
  "enqueue_work w s = s\<lparr>mc_queue := mc_queue s @ [w]\<rparr>"

definition request_command ::
  "'w supervisor_ports \<Rightarrow> machine_command \<Rightarrow> string option \<Rightarrow> string option \<Rightarrow> bool \<Rightarrow> 'w machine \<Rightarrow> 'w machine"
where
  "request_command rt c w requestId late s =
     (let requested = map cf_workspaceId (command_targets c w s);
          cw = (\<lambda>n ok. \<lparr>cw_command = c, cw_workspaceId = w, cw_requestId = requestId, cw_sequence = n,
            cw_requested = requested, cw_intentWritten = ok, cw_late = late\<rparr>)
      in if c = DoStop
         then let (n, s1) = supersede requested ByStop s; (ok, s2) = persist_intent rt requested n s1
           in enqueue_work (CommandWork (cw n ok)) s2
         else let n = mc_sequence s + 1; s1 = fold mark_one (remdups requested) (s\<lparr>mc_sequence := n\<rparr>)
           in enqueue_work (CommandWork (cw n True)) s1)"

fun receive :: "'w supervisor_ports \<Rightarrow> request \<Rightarrow> 'w machine \<Rightarrow> 'w machine" where
  "receive rt (CommandRequest c w requestId late) s = request_command rt c w requestId late s"
| "receive rt (ConfigureRequest config late) s =
     enqueue_work (ConfigureWork config late)
       (mark_one (cf_workspaceId config) (snd (supersede [cf_workspaceId config] ByConfigure s)))"
| "receive rt PauseRequest s = s\<lparr>mc_paused := True\<rparr>"
| "receive rt ResumeRequest s = enqueue_work ResumeWork s"
| "receive rt ReconcileRequest s = enqueue_work ReconcileWork s"
| "receive rt (RecoverRequest paused) s = enqueue_work (RecoverWork paused) s"
| "receive rt ShutdownRequest s = enqueue_work ShutdownWork s"
| "receive rt SnapshotRequest s = enqueue_work SnapshotWork s"
| "receive rt (RecordUpgradeRequest w i v) s = enqueue_work (RecordUpgradeWork w i v) s"
| "receive rt (CompleteUpgradeRequest w i st t) s = enqueue_work (CompleteUpgradeWork w i st t) s"
| "receive rt (AcknowledgeUpgradeRequest w i) s = enqueue_work (AcknowledgeUpgradeWork w i) s"

text \<open>The work under way waits: the next batch of requests is handled before it goes on.\<close>

definition await :: "'w supervisor_ports \<Rightarrow> 'w machine \<Rightarrow> 'w machine" where
  "await rt s =
     (case mc_arrivals s of
        [] \<Rightarrow> s
      | batch # later \<Rightarrow> fold (receive rt) batch (s\<lparr>mc_arrivals := later\<rparr>))"

subsection \<open>Waiting calls\<close>

definition refresh :: "'w supervisor_ports \<Rightarrow> ('w, unit) action" where
  "refresh rt = lastly (reload_if_required rt) (await rt)"

definition saveBinding :: "'w supervisor_ports \<Rightarrow> managed_binding \<Rightarrow> ('w, managed_binding) action" where
  "saveBinding rt b s =
     (let stored = (if has (mc_stopIntents s) (cf_workspaceId b) then stopped b else b)
      in lastly (andthen (store_bindings rt (upsert_binding stored (mc_bindings s))) (\<lambda>_. give stored)) (await rt) s)"

definition clearFailure :: "'w supervisor_ports \<Rightarrow> string \<Rightarrow> ('w, unit) action" where
  "clearFailure rt i s =
     (case find_binding s i of
        None \<Rightarrow> (Inr (), s)
      | Some b \<Rightarrow> if mb_lastFailure b = None then (Inr (), s)
          else andthen (saveBinding rt (b\<lparr>mb_lastFailure := None\<rparr>)) (\<lambda>_. give ()) s)"

text \<open>A call to a port that changes the world, or throws.\<close>

definition call :: "'w supervisor_ports \<Rightarrow> ('w \<Rightarrow> (lifecycle_error + 'a) \<times> 'w) \<Rightarrow> ('w, 'a) action" where
  "call rt f s0 = (let s = await rt s0; (r, w) = f (mc_world s) in (r, s\<lparr>mc_world := w\<rparr>))"

definition aborted :: "string \<Rightarrow> 'w machine \<Rightarrow> takeover option" where
  "aborted i s = (case map_get (mc_inFlight s) i of Some taken \<Rightarrow> taken | None \<Rightarrow> None)"

definition throwIfAborted :: "string \<Rightarrow> ('w, unit) action" where
  "throwIfAborted i s = (case aborted i s of
     Some taken \<Rightarrow> (Inl (Superseded i taken None), s) | None \<Rightarrow> (Inr (), s))"

definition call_start :: "'w supervisor_ports \<Rightarrow> managed_binding \<Rightarrow> ('w, string) action" where
  "call_start rt b s0 =
     (let i = cf_workspaceId b; s = await rt (log_event (StartCalled i) s0);
          (r, w) = sv_start rt b (aborted i s) (mc_world s)
      in (r, s\<lparr>mc_world := w\<rparr>))"

definition stop_workspace :: "'w supervisor_ports \<Rightarrow> managed_binding \<Rightarrow> ('w, unit) action" where
  "stop_workspace rt b =
     andthen (modify (log_event (StopCalled (cf_workspaceId b)))) (\<lambda>_.
     andthen (call rt (sv_stop rt b)) (\<lambda>_.
     modify (\<lambda>s. s\<lparr>mc_instances := map_delete (mc_instances s) (cf_workspaceId b)\<rparr>)))"

definition adopted :: "'w supervisor_ports \<Rightarrow> managed_binding \<Rightarrow> ('w, string option) action" where
  "adopted rt b s =
     (case map_get (mc_instances s) (cf_workspaceId b) of
        None \<Rightarrow> (Inr None, s)
      | Some expected \<Rightarrow>
          if expected = '''' then (Inr None, s)
          else andthen (call rt (sv_instance rt b))
            (\<lambda>current. give (if current = Some expected then Some expected else None)) s)"

definition start_workspace :: "'w supervisor_ports \<Rightarrow> managed_binding \<Rightarrow> ('w, string) action" where
  "start_workspace rt b =
     (let i = cf_workspaceId b in
      andthen (adopted rt b) (\<lambda>known. case known of
        Some instance_id \<Rightarrow> give instance_id
      | None \<Rightarrow>
          andthen (modify (\<lambda>s. s\<lparr>mc_instances := map_delete (mc_instances s) i\<rparr>)) (\<lambda>_.
          andthen (throwIfAborted i) (\<lambda>_.
          andthen (call_start rt b) (\<lambda>instance_id.
          andthen (modify (\<lambda>s. s\<lparr>mc_instances := map_set (mc_instances s) i instance_id\<rparr>)) (\<lambda>_.
          give instance_id))))))"

definition track :: "string \<Rightarrow> ('w, 'a) action \<Rightarrow> ('w, 'a) action" where
  "track i run s = lastly run (\<lambda>s. s\<lparr>mc_inFlight := map_delete (mc_inFlight s) i\<rparr>)
     (s\<lparr>mc_inFlight := map_set (mc_inFlight s) i None\<rparr>)"

subsection \<open>Restarts\<close>

definition HOLD_ROUNDS :: nat where
  "HOLD_ROUNDS = nat (RUNNER_HOLD_MS div RUNNER_HOLD_POLL_MS) + 1"

definition restart_hold :: "'w supervisor_ports \<Rightarrow> managed_binding \<Rightarrow> 'w machine hold_port" where
  "restart_hold rt b = \<lparr>
     hp_hold = (\<lambda>s0. let s = await rt s0; (r, w) = sv_hold rt b (mc_world s) in (r, s\<lparr>mc_world := w\<rparr>)),
     hp_now = (\<lambda>s. sv_now rt (mc_world s)),
     hp_sleep = (\<lambda>ms s0. let s = await rt s0 in s\<lparr>mc_world := sv_sleep rt ms (mc_world s)\<rparr>),
     hp_aborted = (\<lambda>s. aborted (cf_workspaceId b) s \<noteq> None)\<rparr>"

text \<open>
  Only the log reads the hold's outcome. A clock that advances with the sleeps ends it within
  \<open>HOLD_ROUNDS\<close> rounds; \<open>EndlessHold\<close> stands for a hold that does not return.
\<close>

definition hold_runners :: "'w supervisor_ports \<Rightarrow> managed_binding \<Rightarrow> ('w, unit) action" where
  "hold_runners rt b s =
     (let port = restart_hold rt b
      in case bounded_rounds HOLD_ROUNDS (hold_round port RUNNER_HOLD_MS RUNNER_HOLD_POLL_MS (hp_now port s))
          (nothing_held, s) of
        Some (_, s1) \<Rightarrow> (Inr (), s1)
      | None \<Rightarrow> (Inl EndlessHold, s))"

definition replace_old :: "'w supervisor_ports \<Rightarrow> managed_binding \<Rightarrow> string option \<Rightarrow> ('w, unit) action" where
  "replace_old rt b current =
     andthen (whenever (current \<noteq> None) (hold_runners rt b)) (\<lambda>_.
     andthen (throwIfAborted (cf_workspaceId b)) (\<lambda>_.
     rescue (stop_workspace rt b) (\<lambda>e.
       andthen (whenever (current \<noteq> None) (call rt (\<lambda>w. (Inr (), sv_release rt b w)))) (\<lambda>_. throw e))))"

definition stopping_phase ::
  "'w supervisor_ports \<Rightarrow> managed_binding \<Rightarrow> restart_progress \<Rightarrow> ('w, managed_binding) action"
where
  "stopping_phase rt b p =
     (if rp_phase p = RestartStopping then
        andthen (call rt (sv_instance rt b)) (\<lambda>current.
        andthen (whenever (current = None \<or> current = rp_previousInstanceId p) (replace_old rt b current)) (\<lambda>_.
        saveBinding rt (b\<lparr>mb_restart := Some (p\<lparr>rp_phase := RestartStarting\<rparr>)\<rparr>)))
      else give b)"

definition advanceRestart :: "'w supervisor_ports \<Rightarrow> managed_binding \<Rightarrow> ('w, unit) action" where
  "advanceRestart rt b0 =
     (case mb_restart b0 of
        None \<Rightarrow> throw UndefinedRestart
      | Some p \<Rightarrow>
          andthen (stopping_phase rt b0 p) (\<lambda>b.
          andthen (start_workspace rt b) (\<lambda>instance_id.
          if Some instance_id = rp_previousInstanceId p then throw NotReplaced
          else andthen (saveBinding rt (b\<lparr>mb_restart := None,
              mb_restartResults := Some (appendRestartResult b (RestartCompleted (rp_requestId p) instance_id))\<rparr>))
            (\<lambda>_. give ()))))"

subsection \<open>Commands\<close>

definition new_restart ::
  "'w supervisor_ports \<Rightarrow> managed_binding \<Rightarrow> string \<Rightarrow> ('w, unit) action"
where
  "new_restart rt b requestId =
     andthen (call rt (sv_instance rt b)) (\<lambda>previous.
     andthen (saveBinding rt (b\<lparr>mb_enabled := True, mb_restart := Some \<lparr>rp_requestId = requestId,
       rp_phase = RestartStopping, rp_previousInstanceId = previous\<rparr>\<rparr>))
     (advanceRestart rt))"

text \<open>False for a restart this request already completed.\<close>

definition restart_for_operator ::
  "'w supervisor_ports \<Rightarrow> managed_binding \<Rightarrow> string \<Rightarrow> ('w, bool) action"
where
  "restart_for_operator rt b i =
     (case result_for i b of
        Some (RestartCancelled _ taken) \<Rightarrow>
          throw (Superseded (cf_workspaceId b) (case taken of None \<Rightarrow> ByStop | Some t \<Rightarrow> t) (Some RestartOperation))
      | Some (RestartCompleted _ _) \<Rightarrow> give False
      | None \<Rightarrow>
          (case mb_restart b of
             Some p \<Rightarrow> if rp_requestId p \<noteq> i then throw (UnfinishedRestart (cf_workspaceId b))
               else andthen (advanceRestart rt b) (\<lambda>_. give True)
           | None \<Rightarrow> andthen (new_restart rt b i) (\<lambda>_. give True)))"

definition startForOperator ::
  "'w supervisor_ports \<Rightarrow> machine_command \<Rightarrow> managed_binding \<Rightarrow> string option \<Rightarrow> ('w, bool) action"
where
  "startForOperator rt c b requestId =
     andthen (call rt (sv_clearHealth rt b)) (\<lambda>_.
     if c = DoRestart then
       andthen (case requestId of Some i \<Rightarrow> give i
         | None \<Rightarrow> (\<lambda>s. let (i, w) = sv_uuid rt (mc_world s) in (Inr i, s\<lparr>mc_world := w\<rparr>)))
       (restart_for_operator rt b)
     else if mb_restart b \<noteq> None then andthen (advanceRestart rt b) (\<lambda>_. give True)
     else andthen (saveBinding rt (b\<lparr>mb_enabled := True\<rparr>)) (\<lambda>b'.
       andthen (start_workspace rt b') (\<lambda>_. give True)))"

definition refuse_first :: "lifecycle_error \<Rightarrow> 'w machine \<Rightarrow> 'w machine" where
  "refuse_first e s = s\<lparr>mc_progress := (mc_progress s)\<lparr>pg_refused :=
     (case pg_refused (mc_progress s) of None \<Rightarrow> Some e | old \<Rightarrow> old)\<rparr>\<rparr>"

definition supersede_first :: "lifecycle_error \<Rightarrow> 'w machine \<Rightarrow> 'w machine" where
  "supersede_first e s = s\<lparr>mc_progress := (mc_progress s)\<lparr>pg_superseded :=
     (case pg_superseded (mc_progress s) of None \<Rightarrow> Some e | old \<Rightarrow> old)\<rparr>\<rparr>"

definition add_started :: "string \<Rightarrow> 'w machine \<Rightarrow> 'w machine" where
  "add_started i s = s\<lparr>mc_progress := (mc_progress s)\<lparr>pg_started := pg_started (mc_progress s) @ [i]\<rparr>\<rparr>"

text \<open>A queued restart that was superseded is recorded like one taken over while it ran.\<close>

definition record_taken :: "'w supervisor_ports \<Rightarrow> command_work \<Rightarrow> managed_binding \<Rightarrow> takeover \<Rightarrow> ('w, unit) action" where
  "record_taken rt cw b taken =
     (case cw_requestId cw of
        None \<Rightarrow> give ()
      | Some i \<Rightarrow>
          if cw_command cw = DoRestart \<and> i \<noteq> '''' \<and> map_option rp_requestId (mb_restart b) \<noteq> Some i \<and>
             result_for i b = None
          then andthen (saveBinding rt (b\<lparr>mb_restartResults :=
              Some (appendRestartResult b (RestartCancelled i (Some taken)))\<rparr>)) (\<lambda>_. give ())
          else give ())"

definition run_started :: "'w supervisor_ports \<Rightarrow> command_work \<Rightarrow> managed_binding \<Rightarrow> ('w, unit) action" where
  "run_started rt cw b =
     (let i = cf_workspaceId b in
      rescue
        (andthen (track i (startForOperator rt (cw_command cw) b (cw_requestId cw))) (\<lambda>started.
         andthen (whenever started (modify (add_started i))) (\<lambda>_.
         clearFailure rt i)))
        (\<lambda>e. case e of
           ParkedWorkspace _ _ \<Rightarrow> modify (refuse_first e)
         | Superseded _ taken _ \<Rightarrow>
             modify (supersede_first (Superseded i taken (Some (operation_of (cw_command cw)))))
         | _ \<Rightarrow> throw e))"

definition run_start :: "'w supervisor_ports \<Rightarrow> command_work \<Rightarrow> managed_binding \<Rightarrow> ('w, unit) action" where
  "run_start rt cw b =
     (let i = cf_workspaceId b in
      andthen (call rt (\<lambda>w. (Inr (sv_parkedReason rt b w), w))) (\<lambda>parked. case parked of
        Some reason \<Rightarrow>
          whenever (scope_id (cw_workspaceId cw) \<noteq> None \<or> mb_enabled b) (modify (refuse_first (ParkedWorkspace i reason)))
      | None \<Rightarrow> (\<lambda>s. case map_get (mc_supersededAt s) i of
            Some (n, taken) \<Rightarrow>
              if n > cw_sequence cw
              then andthen (modify (supersede_first (Superseded i taken (Some (operation_of (cw_command cw))))))
                (\<lambda>_. record_taken rt cw b taken) s
              else run_started rt cw b s
          | None \<Rightarrow> run_started rt cw b s)))"

definition run_stop :: "'w supervisor_ports \<Rightarrow> managed_binding \<Rightarrow> ('w, unit) action" where
  "run_stop rt b0 =
     andthen (saveBinding rt (stopped b0)) (\<lambda>b.
     andthen (stop_workspace rt b) (\<lambda>_.
     clearFailure rt (cf_workspaceId b0)))"

definition target_done :: "string \<Rightarrow> 'w machine \<Rightarrow> 'w machine" where
  "target_done i s = settle_mark i (s\<lparr>mc_progress := (mc_progress s)\<lparr>pg_done := pg_done (mc_progress s) + 1\<rparr>\<rparr>)"

fun run_targets :: "'w supervisor_ports \<Rightarrow> command_work \<Rightarrow> managed_binding list \<Rightarrow> ('w, unit) action" where
  "run_targets rt cw [] = give ()"
| "run_targets rt cw (b # bs) =
     andthen (if cw_command cw = DoStop then run_stop rt b else run_start rt cw b) (\<lambda>_.
     andthen (modify (target_done (cf_workspaceId b))) (\<lambda>_.
     run_targets rt cw bs))"

definition assertMutable :: "('w, unit) action" where
  "assertMutable s = (if mc_paused s then (Inl LaunchesPaused, s) else (Inr (), s))"

definition command_answer :: "('w, work_answer) action" where
  "command_answer s =
     (case (pg_refused (mc_progress s), pg_superseded (mc_progress s)) of
        (Some e, _) \<Rightarrow> (Inl e, s)
      | (None, Some e) \<Rightarrow> (Inl e, s)
      | (None, None) \<Rightarrow> (Inr (StartedAnswer (pg_started (mc_progress s))), s))"

definition assertRegistered :: "string option \<Rightarrow> ('w, unit) action" where
  "assertRegistered w s =
     (case scope_id w of
        None \<Rightarrow> (Inr (), s)
      | Some i \<Rightarrow> if find_binding s i = None then (Inl NotRegistered, s) else (Inr (), s))"

definition run_command :: "'w supervisor_ports \<Rightarrow> command_work \<Rightarrow> ('w, work_answer) action" where
  "run_command rt cw =
     andthen (whenever (\<not> cw_intentWritten cw) (throw StoreFailed)) (\<lambda>_.
     andthen assertMutable (\<lambda>_.
     andthen (refresh rt) (\<lambda>_.
     andthen (assertRegistered (cw_workspaceId cw)) (\<lambda>_.
     andthen (gets (command_targets (cw_command cw) (cw_workspaceId cw))) (\<lambda>targets.
     andthen (modify (\<lambda>s. s\<lparr>mc_progress := (mc_progress s)
       \<lparr>pg_targets := Some (map cf_workspaceId targets)\<rparr>\<rparr>)) (\<lambda>_.
     andthen (run_targets rt cw targets) (\<lambda>_. command_answer)))))))"

text \<open>What a command answers when its deadline comes first, read from its progress.\<close>

definition unhandled :: "command_work \<Rightarrow> command_progress \<Rightarrow> string list" where
  "unhandled cw p = drop (pg_done p) (case pg_targets p of None \<Rightarrow> cw_requested cw | Some ids \<Rightarrow> ids)"

definition early_answer :: "command_work \<Rightarrow> command_progress \<Rightarrow> lifecycle_error + string list \<times> string list" where
  "early_answer cw p =
     (case (pg_refused p, pg_superseded p) of
        (Some e, _) \<Rightarrow> Inl e
      | (None, Some e) \<Rightarrow> Inl e
      | (None, None) \<Rightarrow> Inr (pg_started p, unhandled cw p))"

subsection \<open>Configure\<close>

definition configured_binding :: "daemon_config \<Rightarrow> managed_binding option \<Rightarrow> managed_binding" where
  "configured_binding config previous =
     \<lparr>cf_workspaceId = cf_workspaceId config, cf_computerId = cf_computerId config,
      cf_workspaceRoot = cf_workspaceRoot config, cf_serverHttpUrl = cf_serverHttpUrl config,
      mb_enabled = True, mb_restart = None,
      mb_restartResults = (case previous of None \<Rightarrow> None | Some p \<Rightarrow> cancelledRestartResults p ByConfigure),
      mb_upgradeRequestIds = None, mb_upgradeRequests = None, mb_upgradeOperations = None, mb_lastFailure = None\<rparr>"

definition run_configure :: "'w supervisor_ports \<Rightarrow> daemon_config \<Rightarrow> ('w, work_answer) action" where
  "run_configure rt config =
     (let i = cf_workspaceId config in
      andthen assertMutable (\<lambda>_.
      andthen (refresh rt) (\<lambda>_.
      andthen (gets (\<lambda>s. find_binding s i)) (\<lambda>previous.
      andthen (case previous of None \<Rightarrow> give () | Some b \<Rightarrow> stop_workspace rt b) (\<lambda>_.
      let b = configured_binding config previous in
      andthen (call rt (sv_clearParked rt b)) (\<lambda>_.
      andthen (saveBinding rt b) (\<lambda>_.
      andthen (track i (start_workspace rt b)) (\<lambda>_.
      andthen (clearFailure rt i) (\<lambda>_. give NoAnswer)))))))))"

subsection \<open>Recovery and the other operations\<close>

definition reconcile_enabled :: "'w supervisor_ports \<Rightarrow> managed_binding \<Rightarrow> ('w, unit) action" where
  "reconcile_enabled rt b =
     (let i = cf_workspaceId b in
      andthen (call rt (\<lambda>w. (Inr (sv_parkedReason rt b w), w))) (\<lambda>parked.
      if parked \<noteq> None then give ()
      else andthen
        (if mb_restart b \<noteq> None then track i (advanceRestart rt b)
         else andthen (track i (start_workspace rt b)) (\<lambda>_. give ()))
        (\<lambda>_. clearFailure rt i)))"

definition reconcile_one :: "'w supervisor_ports \<Rightarrow> string \<Rightarrow> ('w, unit) action" where
  "reconcile_one rt i s =
     (case find_binding s i of
        None \<Rightarrow> (Inl UndefinedRestart, s)
      | Some b \<Rightarrow>
          if \<not> mb_enabled b then andthen (stop_workspace rt b) (\<lambda>_. clearFailure rt i) s
          else reconcile_enabled rt b s)"

text \<open>The ids whose recovery failed; a registry that cannot be read ends the whole of it.\<close>

fun reconcile_all :: "'w supervisor_ports \<Rightarrow> string list \<Rightarrow> string list \<Rightarrow> ('w, unit) action" where
  "reconcile_all rt [] failures =
     (if failures = [] then give () else throw (RecoveryIncomplete failures))"
| "reconcile_all rt (i # ids) failures =
     andthen (refresh rt) (\<lambda>_.
     andthen (rescue (andthen (reconcile_one rt i) (\<lambda>_. give True)) (\<lambda>_. give False)) (\<lambda>recovered.
     reconcile_all rt ids (if recovered then failures else failures @ [i])))"

definition reconcileBindings :: "'w supervisor_ports \<Rightarrow> ('w, work_answer) action" where
  "reconcileBindings rt =
     andthen (gets (\<lambda>s. map cf_workspaceId (mc_bindings s))) (\<lambda>ids.
     andthen (reconcile_all rt ids []) (\<lambda>_. give NoAnswer))"

text \<open>The Coordinator recovers before it takes requests: none arrives while the registry is read.\<close>

definition run_recover :: "'w supervisor_ports \<Rightarrow> bool \<Rightarrow> ('w, work_answer) action" where
  "run_recover rt paused s =
     (case sv_load rt (mc_world s) of
        None \<Rightarrow> (Inl StoreFailed, s)
      | Some bs \<Rightarrow>
          (let s1 = s\<lparr>mc_bindings := bs, mc_reloadRequired := False, mc_paused := paused\<rparr>
           in if paused then (Inr NoAnswer, s1) else reconcileBindings rt s1))"

definition run_reconcile :: "'w supervisor_ports \<Rightarrow> ('w, work_answer) action" where
  "run_reconcile rt s =
     (if mc_paused s then (Inr NoAnswer, s) else andthen (refresh rt) (\<lambda>_. reconcileBindings rt) s)"

definition run_resume :: "'w supervisor_ports \<Rightarrow> ('w, work_answer) action" where
  "run_resume rt =
     andthen (modify (\<lambda>s. s\<lparr>mc_paused := False\<rparr>)) (\<lambda>_.
     andthen (refresh rt) (\<lambda>_. reconcileBindings rt))"

fun stop_all :: "'w supervisor_ports \<Rightarrow> managed_binding list \<Rightarrow> ('w, unit) action" where
  "stop_all rt [] = give ()"
| "stop_all rt (b # bs) = andthen (stop_workspace rt b) (\<lambda>_. stop_all rt bs)"

definition run_shutdown :: "'w supervisor_ports \<Rightarrow> ('w, work_answer) action" where
  "run_shutdown rt = andthen (gets mc_bindings) (\<lambda>bs. andthen (stop_all rt bs) (\<lambda>_. give NoAnswer))"

definition record_failure ::
  "'w supervisor_ports \<Rightarrow> lifecycle_operation \<Rightarrow> string \<Rightarrow> string \<Rightarrow> ('w, unit) action"
where
  "record_failure rt p m i s =
     (case find_binding s i of
        None \<Rightarrow> (Inr (), s)
      | Some b \<Rightarrow> andthen (saveBinding rt (b\<lparr>mb_lastFailure := Some
          \<lparr>lf_operation = p, lf_message = take 500 m, lf_at = sv_now rt (mc_world s)\<rparr>\<rparr>)) (\<lambda>_. give ()) s)"

fun record_failures ::
  "'w supervisor_ports \<Rightarrow> lifecycle_operation \<Rightarrow> string \<Rightarrow> string list \<Rightarrow> ('w, unit) action"
where
  "record_failures rt p m [] = give ()"
| "record_failures rt p m (i # ids) = andthen (record_failure rt p m i) (\<lambda>_. record_failures rt p m ids)"

subsection \<open>Upgrade operations\<close>

definition operations_of :: "managed_binding \<Rightarrow> upgrade_operation list" where
  "operations_of b = (case mb_upgradeOperations b of None \<Rightarrow> [] | Some us \<Rightarrow> us)"

definition operation_for :: "string \<Rightarrow> managed_binding \<Rightarrow> upgrade_operation option" where
  "operation_for requestId b = find (\<lambda>u. uo_requestId u = requestId) (operations_of b)"

definition with_operation ::
  "string \<Rightarrow> (upgrade_operation \<Rightarrow> upgrade_operation) \<Rightarrow> upgrade_operation list \<Rightarrow> upgrade_operation list"
where
  "with_operation requestId f us = map (\<lambda>u. if uo_requestId u = requestId then f u else u) us"

definition settled_by :: "upgrade_state \<Rightarrow> upgrade_terminal \<Rightarrow> upgrade_operation \<Rightarrow> upgrade_operation" where
  "settled_by st t u = u\<lparr>uo_state := st, uo_terminal := Some t\<rparr>"

definition acknowledged_operation :: "upgrade_operation \<Rightarrow> upgrade_operation" where
  "acknowledged_operation u = u\<lparr>uo_state := UpgradeAcknowledged\<rparr>"

definition open_operation :: "string \<Rightarrow> string \<Rightarrow> int \<Rightarrow> upgrade_operation" where
  "open_operation requestId version now = \<lparr>uo_requestId = requestId, uo_expectedVersion = version,
     uo_state = UpgradePending, uo_requestedAt = now, uo_terminal = None\<rparr>"

text \<open>The operations a new one is added to: a pending one must be settled by what it left behind.\<close>

definition settle_blocker ::
  "'w supervisor_ports \<Rightarrow> string \<Rightarrow> upgrade_operation list \<Rightarrow> ('w, upgrade_operation list) action"
where
  "settle_blocker rt w us =
     (case pending_operations us of
        [] \<Rightarrow> give us
      | p # _ \<Rightarrow>
          andthen (call rt (\<lambda>world. let (r, world') = sv_settle rt w (uo_requestId p) (uo_requestedAt p) world
            in (Inr r, world'))) (\<lambda>settlement. case settlement of
              None \<Rightarrow> throw (OperationPending (uo_requestId p))
            | Some (st, t) \<Rightarrow> give (with_operation (uo_requestId p) (settled_by st t) us)))"

definition save_operations ::
  "'w supervisor_ports \<Rightarrow> managed_binding \<Rightarrow> upgrade_operation list \<Rightarrow> ('w, work_answer) action"
where
  "save_operations rt b us = andthen (saveBinding rt (b\<lparr>mb_upgradeOperations := Some us\<rparr>)) (\<lambda>_. give (BoolAnswer True))"

definition open_upgrade ::
  "'w supervisor_ports \<Rightarrow> managed_binding \<Rightarrow> string \<Rightarrow> string \<Rightarrow> ('w, work_answer) action"
where
  "open_upgrade rt b requestId version =
     (if version = '''' then throw VersionRequired
      else case operation_for requestId b of
        Some u \<Rightarrow> if uo_expectedVersion u \<noteq> version then throw VersionConflict else give (BoolAnswer False)
      | None \<Rightarrow>
          andthen (settle_blocker rt (cf_workspaceId b) (operations_of b)) (\<lambda>us.
          andthen (gets (\<lambda>s. sv_now rt (mc_world s))) (\<lambda>now.
          save_operations rt b (keep_newest UPGRADE_OPERATION_HISTORY (us @ [open_operation requestId version now])))))"

definition recordUpgrade ::
  "'w supervisor_ports \<Rightarrow> string \<Rightarrow> string \<Rightarrow> string \<Rightarrow> ('w, work_answer) action"
where
  "recordUpgrade rt w requestId version =
     andthen assertMutable (\<lambda>_.
     andthen (refresh rt) (\<lambda>_.
     andthen (gets (\<lambda>s. find_binding s w)) (\<lambda>found. case found of
       None \<Rightarrow> throw NotRegistered
     | Some b \<Rightarrow> open_upgrade rt b requestId version)))"

definition completeUpgrade ::
  "'w supervisor_ports \<Rightarrow> string \<Rightarrow> string \<Rightarrow> upgrade_state \<Rightarrow> upgrade_terminal \<Rightarrow> ('w, work_answer) action"
where
  "completeUpgrade rt w requestId st t =
     andthen (refresh rt) (\<lambda>_.
     andthen (gets (\<lambda>s. find_binding s w)) (\<lambda>found. case found of
       None \<Rightarrow> give (BoolAnswer False)
     | Some b \<Rightarrow> (case operation_for requestId b of
         None \<Rightarrow> give (BoolAnswer False)
       | Some u \<Rightarrow>
           if uo_state u \<noteq> UpgradePending then give (BoolAnswer False)
           else save_operations rt b (with_operation requestId (settled_by st t) (operations_of b)))))"

definition acknowledgeUpgrade :: "'w supervisor_ports \<Rightarrow> string \<Rightarrow> string \<Rightarrow> ('w, work_answer) action" where
  "acknowledgeUpgrade rt w requestId =
     andthen (refresh rt) (\<lambda>_.
     andthen (gets (\<lambda>s. find_binding s w)) (\<lambda>found. case found of
       None \<Rightarrow> give (BoolAnswer False)
     | Some b \<Rightarrow> (case operation_for requestId b of
         None \<Rightarrow> give (BoolAnswer False)
       | Some u \<Rightarrow>
           if uo_state u = UpgradeAcknowledged then give (BoolAnswer True)
           else if uo_state u = UpgradePending then throw PendingNotAcknowledged
           else save_operations rt b (with_operation requestId acknowledged_operation (operations_of b)))))"

subsection \<open>The queue\<close>

fun perform :: "'w supervisor_ports \<Rightarrow> work \<Rightarrow> ('w, work_answer) action" where
  "perform rt (CommandWork cw) = run_command rt cw"
| "perform rt (ConfigureWork config late) = run_configure rt config"
| "perform rt (FailureWork p ids m) =
     andthen (refresh rt) (\<lambda>_. andthen (record_failures rt p m ids) (\<lambda>_. give NoAnswer))"
| "perform rt ResumeWork = run_resume rt"
| "perform rt ReconcileWork = run_reconcile rt"
| "perform rt (RecoverWork paused) = run_recover rt paused"
| "perform rt ShutdownWork = run_shutdown rt"
| "perform rt SnapshotWork = andthen (refresh rt) (\<lambda>_. give NoAnswer)"
| "perform rt (RecordUpgradeWork w i v) = recordUpgrade rt w i v"
| "perform rt (CompleteUpgradeWork w i st t) = completeUpgrade rt w i st t"
| "perform rt (AcknowledgeUpgradeWork w i) = acknowledgeUpgrade rt w i"

text \<open>The marks and intents that end with the work, whatever its outcome.\<close>

fun marks_of :: "work \<Rightarrow> string list" where
  "marks_of (CommandWork cw) = (if cw_command cw = DoStop then [] else remdups (cw_requested cw))"
| "marks_of (ConfigureWork config late) = [cf_workspaceId config]"
| "marks_of _ = []"

fun work_over :: "work \<Rightarrow> 'w machine \<Rightarrow> 'w machine" where
  "work_over (CommandWork cw) s = (if cw_command cw = DoStop
     then release_intents (cw_requested cw) (cw_sequence cw) (settle_all s) else settle_all s)"
| "work_over _ s = settle_all s"

text \<open>A failure nobody waits for any more is recorded by work of its own (\<open>#failedAfterAnswer\<close>).\<close>

definition expected_failure :: "lifecycle_error \<Rightarrow> bool" where
  "expected_failure e \<longleftrightarrow> (case e of ParkedWorkspace _ _ \<Rightarrow> True | Superseded _ _ _ \<Rightarrow> True | _ \<Rightarrow> False)"

definition failure_message :: "'w supervisor_ports \<Rightarrow> lifecycle_operation \<Rightarrow> lifecycle_error \<Rightarrow> string" where
  "failure_message rt p e = (if sv_message rt e \<noteq> '''' then sv_message rt e
     else ''The '' @ operation_text p @ '' failed without a reason; the Computer log has the details.'')"

fun failed_after_answer :: "'w supervisor_ports \<Rightarrow> work \<Rightarrow> lifecycle_error + work_answer \<Rightarrow> 'w machine \<Rightarrow> 'w machine" where
  "failed_after_answer rt (CommandWork cw) (Inl e) s =
     (if cw_late cw \<and> cw_intentWritten cw \<and> \<not> expected_failure e
      then enqueue_work (FailureWork (operation_of (cw_command cw)) (unhandled cw (mc_progress s))
        (failure_message rt (operation_of (cw_command cw)) e)) s
      else s)"
| "failed_after_answer rt (ConfigureWork config late) (Inl e) s =
     (if late \<and> \<not> expected_failure e
      then enqueue_work (FailureWork ConfigureOperation [cf_workspaceId config]
        (failure_message rt ConfigureOperation e)) s
      else s)"
| "failed_after_answer rt _ _ s = s"

definition run_work :: "'w supervisor_ports \<Rightarrow> work \<Rightarrow> 'w machine \<Rightarrow> 'w machine" where
  "run_work rt w s =
     (let (r, s1) = perform rt w (s\<lparr>mc_progress := no_progress, mc_marked := marks_of w\<rparr>)
      in failed_after_answer rt w r (work_over w (log_event (Ended w r) s1)))"

definition run_head :: "'w supervisor_ports \<Rightarrow> request list list \<Rightarrow> 'w machine \<Rightarrow> 'w machine" where
  "run_head rt arrivals s =
     (case mc_queue s of
        [] \<Rightarrow> s
      | w # rest \<Rightarrow> (run_work rt w (s\<lparr>mc_queue := rest, mc_arrivals := arrivals\<rparr>))\<lparr>mc_arrivals := []\<rparr>)"

text \<open>What an operator reads: whether start or restart work of a Workspace is under way.\<close>

definition in_flight :: "'w machine \<Rightarrow> string \<Rightarrow> bool" where
  "in_flight s i \<longleftrightarrow> map_get (mc_inFlight s) i \<noteq> None \<or> get_or (mc_underWay s) i 0 > 0"

text \<open>
  A run: requests within \<open>allowed\<close> come, the head of the queue runs with whatever of them arrives
  meanwhile, and the world moves by itself within \<open>moves\<close>.
\<close>

inductive machine_step ::
  "'w supervisor_ports \<Rightarrow> ('w \<Rightarrow> 'w \<Rightarrow> bool) \<Rightarrow> (request \<Rightarrow> bool) \<Rightarrow> 'w machine \<Rightarrow> 'w machine \<Rightarrow> bool"
  for rt moves allowed where
  requested: "allowed q \<Longrightarrow> machine_step rt moves allowed s (receive rt q s)"
| worked: "mc_queue s = w # rest \<Longrightarrow> list_all (list_all allowed) arrivals \<Longrightarrow>
    machine_step rt moves allowed s (run_head rt arrivals s)"
| moved: "moves (mc_world s) world \<Longrightarrow> machine_step rt moves allowed s (s\<lparr>mc_world := world\<rparr>)"

definition new_machine :: "'w \<Rightarrow> 'w machine" where
  "new_machine w = \<lparr>mc_bindings = [], mc_instances = [], mc_inFlight = [], mc_sequence = 0, mc_supersededAt = [],
     mc_underWay = [], mc_stopIntents = [], mc_paused = False, mc_reloadRequired = False, mc_queue = [],
     mc_arrivals = [], mc_progress = no_progress, mc_marked = [], mc_log = [], mc_world = w\<rparr>"

end
