(* ===== verification/MachineInvariants.thy ===== *)
theory MachineInvariants
  imports MachineSupervisor
begin

text \<open>
  What every work of the supervisor keeps, whatever arrives while it waits. The contract of such an
  invariant is a locale: it is stable under the requests that arrive, the ports, the bookkeeping and a
  save of the bindings it admits; then each operation keeps it. The ports' laws are a locale too: a
  saved registry is the one loaded, and a parked Workspace stays parked until it is configured.
\<close>

subsection \<open>Actions that keep a predicate\<close>

definition keeps :: "('w machine \<Rightarrow> bool) \<Rightarrow> ('w, 'a) action \<Rightarrow> bool" where
  "keeps P m \<longleftrightarrow> (\<forall>s. P s \<longrightarrow> P (snd (m s)))"

text \<open>It also says what holds of the value given.\<close>

definition gives :: "('w machine \<Rightarrow> bool) \<Rightarrow> ('w, 'a) action \<Rightarrow> ('a \<Rightarrow> bool) \<Rightarrow> bool" where
  "gives P m Q \<longleftrightarrow> (\<forall>s. P s \<longrightarrow> P (snd (m s)) \<and> (\<forall>a. fst (m s) = Inr a \<longrightarrow> Q a))"

named_theorems keeping

lemma keepsI: "(\<And>s. P s \<Longrightarrow> P (snd (m s))) \<Longrightarrow> keeps P m"
  by (simp add: keeps_def)

lemma keeps_at: "keeps P m \<Longrightarrow> P s \<Longrightarrow> P (snd (m s))"
  by (simp add: keeps_def)

lemma givesI: "(\<And>s. P s \<Longrightarrow> P (snd (m s))) \<Longrightarrow> (\<And>s a. P s \<Longrightarrow> fst (m s) = Inr a \<Longrightarrow> Q a) \<Longrightarrow> gives P m Q"
  by (simp add: gives_def)

lemma gives_keeps: "gives P m Q \<Longrightarrow> keeps P m"
  by (simp add: gives_def keeps_def)

lemma gives_any: "keeps P m \<Longrightarrow> gives P m (\<lambda>a. True)"
  by (simp add: gives_def keeps_def)

lemma gives_weaken: "gives P m Q \<Longrightarrow> (\<And>a. Q a \<Longrightarrow> R a) \<Longrightarrow> gives P m R"
  by (auto simp: gives_def)

lemma keeps_give [keeping]: "keeps P (give a)"
  by (simp add: keeps_def give_def)

lemma keeps_throw [keeping]: "keeps P (throw e)"
  by (simp add: keeps_def throw_def)

lemma keeps_gets [keeping]: "keeps P (gets g)"
  by (simp add: keeps_def gets_def)

lemma andthen_gives:
  assumes "gives P m Q" "\<And>a. Q a \<Longrightarrow> keeps P (f a)"
  shows "keeps P (andthen m f)"
proof (rule keepsI)
  fix s assume "P s"
  then show "P (snd (andthen m f s))"
    using assms(1) assms(2) [THEN keeps_at]
    by (cases "m s"; cases "fst (m s)") (fastforce simp: andthen_def gives_def)+
qed

lemma keeps_andthen [keeping]: "keeps P m \<Longrightarrow> (\<And>a. keeps P (f a)) \<Longrightarrow> keeps P (andthen m f)"
  by (rule andthen_gives [OF gives_any]) auto

lemma andthen_gives_to:
  assumes "gives P m Q" "\<And>a. Q a \<Longrightarrow> gives P (f a) R"
  shows "gives P (andthen m f) R"
proof (rule givesI)
  fix s assume P: "P s"
  then show "P (snd (andthen m f s))"
    using andthen_gives [OF assms(1), of f] assms(2) by (blast intro: gives_keeps keeps_at)
  fix a assume "fst (andthen m f s) = Inr a"
  then show "R a" using P assms
    by (cases "m s"; cases "fst (m s)") (fastforce simp: andthen_def gives_def)+
qed

lemma keeps_rescue [keeping]:
  assumes "keeps P m" "\<And>e. keeps P (h e)" shows "keeps P (rescue m h)"
proof (rule keepsI)
  fix s assume "P s"
  then show "P (snd (rescue m h s))" using assms [THEN keeps_at]
    by (cases "m s"; cases "fst (m s)") (fastforce simp: rescue_def)+
qed

lemma keeps_lastly [keeping]: "keeps P m \<Longrightarrow> (\<And>s. P s \<Longrightarrow> P (g s)) \<Longrightarrow> keeps P (lastly m g)"
  by (auto simp: keeps_def lastly_def split: prod.splits)

lemma keeps_modify [keeping]: "(\<And>s. P s \<Longrightarrow> P (g s)) \<Longrightarrow> keeps P (modify g)"
  by (simp add: keeps_def modify_def)

lemma keeps_whenever [keeping]: "(c \<Longrightarrow> keeps P m) \<Longrightarrow> keeps P (whenever c m)"
  by (simp add: whenever_def keeps_give)

lemma keeps_if [keeping]: "(c \<Longrightarrow> keeps P m) \<Longrightarrow> (\<not> c \<Longrightarrow> keeps P n) \<Longrightarrow> keeps P (if c then m else n)"
  by simp

lemma keeps_option [keeping]: "(x = None \<Longrightarrow> keeps P m) \<Longrightarrow> (\<And>a. x = Some a \<Longrightarrow> keeps P (f a)) \<Longrightarrow>
    keeps P (case x of None \<Rightarrow> m | Some a \<Rightarrow> f a)"
  by (cases x) simp_all

subsection \<open>The contract\<close>

text \<open>The moves of the world behind the ports other than a start, a park lifted, and the store.\<close>

inductive port_moves :: "'w supervisor_ports \<Rightarrow> 'w \<Rightarrow> 'w \<Rightarrow> bool" for rt w where
  by_stop: "port_moves rt w (snd (sv_stop rt b w))"
| by_instance: "port_moves rt w (snd (sv_instance rt b w))"
| by_hold: "port_moves rt w (snd (sv_hold rt b w))"
| by_release: "port_moves rt w (sv_release rt b w)"
| by_clearHealth: "port_moves rt w (snd (sv_clearHealth rt b w))"
| by_settle: "port_moves rt w (snd (sv_settle rt i j n w))"
| by_sleep: "port_moves rt w (sv_sleep rt n w)"
| by_uuid: "port_moves rt w (snd (sv_uuid rt w))"
| by_nothing: "port_moves rt w w"

lemma find_bindingD: "find_binding s i = Some b \<Longrightarrow> b \<in> set (mc_bindings s) \<and> cf_workspaceId b = i"
  by (auto simp: find_binding_def find_Some_iff)

locale machine_invariant =
  fixes rt :: "'w supervisor_ports" and P :: "'w machine \<Rightarrow> bool" and ok :: "managed_binding \<Rightarrow> bool"
    and may_start :: "string \<Rightarrow> bool"
  assumes arrived: "P s \<Longrightarrow> P (await rt s)"
    and saved: "P s \<Longrightarrow> ok b \<Longrightarrow>
      P (snd (store_bindings rt (upsert_binding (if has (mc_stopIntents s) (cf_workspaceId b) then stopped b else b)
        (mc_bindings s)) s))"
    and reloaded: "P s \<Longrightarrow> P (snd (reload_if_required rt s))"
    and moved: "P s \<Longrightarrow> port_moves rt (mc_world s) w \<Longrightarrow> P (s\<lparr>mc_world := w\<rparr>)"
    and started: "P s \<Longrightarrow> may_start (cf_workspaceId b) \<Longrightarrow> P (s\<lparr>mc_world := snd (sv_start rt b taken (mc_world s))\<rparr>)"
    and unparked: "P s \<Longrightarrow> may_start (cf_workspaceId b) \<Longrightarrow> P (s\<lparr>mc_world := snd (sv_clearParked rt b (mc_world s))\<rparr>)"
    and start_logged: "P s \<Longrightarrow> may_start i \<Longrightarrow> P (log_event (StartCalled i) s)"
    and stop_logged: "P s \<Longrightarrow> P (log_event (StopCalled i) s)"
    and internal: "P (s\<lparr>mc_instances := x1\<rparr>) = P s" "P (s\<lparr>mc_inFlight := x2\<rparr>) = P s" "P (s\<lparr>mc_progress := x3\<rparr>) = P s"
      "P (s\<lparr>mc_marked := x4\<rparr>) = P s" "P (s\<lparr>mc_underWay := x5\<rparr>) = P s" "P (s\<lparr>mc_paused := x6\<rparr>) = P s"
    and recovered: "P s \<Longrightarrow> sv_load rt (mc_world s) = Some bs \<Longrightarrow> P (s\<lparr>mc_bindings := bs, mc_reloadRequired := False\<rparr>)"
    and found: "P s \<Longrightarrow> b \<in> set (mc_bindings s) \<Longrightarrow> ok b"
    and ok_stopped: "ok b \<Longrightarrow> ok (stopped b)"
    and ok_kept: "ok b \<Longrightarrow> ok (b\<lparr>mb_lastFailure := x7\<rparr>)" "ok b \<Longrightarrow> ok (b\<lparr>mb_upgradeOperations := x8\<rparr>)"
      "ok b \<Longrightarrow> ok (b\<lparr>mb_restartResults := x9\<rparr>)"
    and ok_enabled: "may_start (cf_workspaceId b) \<Longrightarrow> ok b"
    and admitted: "P s \<Longrightarrow> ok b \<Longrightarrow> mb_enabled b \<Longrightarrow> sv_parkedReason rt b (mc_world s) = None \<Longrightarrow>
      may_start (cf_workspaceId b)"
begin

lemma keeps_await: "keeps P m \<Longrightarrow> keeps P (lastly m (await rt))"
  by (rule keeps_lastly) (auto intro: arrived)

lemma keeps_refresh [keeping]: "keeps P (refresh rt)"
  unfolding refresh_def by (intro keeps_await keepsI) (rule reloaded)

lemma gives_saveBinding:
  assumes "ok b"
  shows "gives P (saveBinding rt b) (\<lambda>b'. ok b' \<and> cf_workspaceId b' = cf_workspaceId b)"
proof (rule givesI)
  fix s assume P: "P s"
  let ?b = "if has (mc_stopIntents s) (cf_workspaceId b) then stopped b else b"
  let ?m = "store_bindings rt (upsert_binding ?b (mc_bindings s))"
  have "P (snd (?m s))" by (rule saved [OF P assms])
  then show "P (snd (saveBinding rt b s))"
    by (cases "?m s"; cases "fst (?m s)") (auto simp: saveBinding_def lastly_def andthen_def give_def intro!: arrived)
  fix b' assume "fst (saveBinding rt b s) = Inr b'"
  then have "b' = ?b"
    by (cases "?m s"; cases "fst (?m s)") (auto simp: saveBinding_def lastly_def andthen_def give_def)
  then show "ok b' \<and> cf_workspaceId b' = cf_workspaceId b" using assms ok_stopped by simp
qed

lemmas keeps_saveBinding = gives_saveBinding [THEN gives_keeps]

text \<open>A binding of the registry may be saved again.\<close>

lemma keeps_found:
  assumes "\<And>b. cf_workspaceId b = i \<Longrightarrow> ok b \<Longrightarrow> keeps P (f b)" "keeps P m"
  shows "keeps P (\<lambda>s. case find_binding s i of None \<Rightarrow> m s | Some b \<Rightarrow> f b s)"
proof (rule keepsI)
  fix s assume P: "P s"
  show "P (snd (case find_binding s i of None \<Rightarrow> m s | Some b \<Rightarrow> f b s))"
  proof (cases "find_binding s i")
    case (Some b)
    then have "b \<in> set (mc_bindings s)" "cf_workspaceId b = i" by (auto dest: find_bindingD)
    then show ?thesis using assms(1) [THEN keeps_at, OF _ _ P] found [OF P] Some by simp
  qed (use keeps_at [OF assms(2) P] in simp)
qed

lemma gives_found: "gives P (gets (\<lambda>s. find_binding s i)) (\<lambda>x. \<forall>b. x = Some b \<longrightarrow> ok b \<and> cf_workspaceId b = i)"
  by (rule givesI) (auto simp: gets_def dest!: find_bindingD intro: found)

lemma keeps_clearFailure [keeping]: "keeps P (clearFailure rt i)"
proof -
  have "keeps P (\<lambda>s. case find_binding s i of None \<Rightarrow> (Inr (), s)
      | Some b \<Rightarrow> (if mb_lastFailure b = None then give ()
          else andthen (saveBinding rt (b\<lparr>mb_lastFailure := None\<rparr>)) (\<lambda>_. give ())) s)"
  proof (rule keeps_found)
    show "keeps P (\<lambda>s. (Inr (), s))" by (simp add: keeps_def)
  qed (intro keeping keeps_saveBinding ok_kept)
  moreover have "clearFailure rt i = (\<lambda>s. case find_binding s i of None \<Rightarrow> (Inr (), s)
      | Some b \<Rightarrow> (if mb_lastFailure b = None then give ()
          else andthen (saveBinding rt (b\<lparr>mb_lastFailure := None\<rparr>)) (\<lambda>_. give ())) s)"
    by (auto simp: clearFailure_def give_def fun_eq_iff split: option.splits)
  ultimately show ?thesis by simp
qed

lemma keeps_call:
  assumes "\<And>s. P s \<Longrightarrow> P (s\<lparr>mc_world := snd (f (mc_world s))\<rparr>)"
  shows "keeps P (call rt f)"
proof (rule keepsI)
  fix s assume "P s"
  then have "P ((await rt s)\<lparr>mc_world := snd (f (mc_world (await rt s)))\<rparr>)" by (intro assms arrived)
  then show "P (snd (call rt f s))" by (simp add: call_def Let_def split_def)
qed

lemma keeps_port [keeping]:
  "keeps P (call rt (sv_stop rt b))" "keeps P (call rt (sv_instance rt b))" "keeps P (call rt (sv_clearHealth rt b))"
  "keeps P (call rt (\<lambda>w. (Inr (), sv_release rt b w)))"
  by (auto intro!: keeps_call moved port_moves.intros)

lemma keeps_parkedReason: "keeps P (call rt (\<lambda>w. (Inr (g w), w)))"
  by (auto intro!: keeps_call)

lemma keeps_stop_workspace [keeping]: "keeps P (stop_workspace rt b)"
  unfolding stop_workspace_def by (intro keeping) (auto simp: internal stop_logged)

lemma keeps_throwIfAborted [keeping]: "keeps P (throwIfAborted i)"
  by (auto simp: keeps_def throwIfAborted_def split: option.splits)

lemma keeps_track [keeping]: "keeps P m \<Longrightarrow> keeps P (track i m)"
  unfolding track_def by (rule keepsI) (simp add: lastly_def split_def internal keeps_at)

lemma keeps_adopted [keeping]: "keeps P (adopted rt b)"
proof -
  have "keeps P (andthen (call rt (sv_instance rt b)) (\<lambda>current. give (if current = Some e then Some e else None)))" for e
    by (intro keeping)
  then show ?thesis by (auto simp: keeps_def adopted_def split: option.splits)
qed

lemma keeps_call_start:
  assumes "may_start (cf_workspaceId b)"
  shows "keeps P (call_start rt b)"
proof (rule keepsI)
  fix s assume "P s"
  then have "P (await rt (log_event (StartCalled (cf_workspaceId b)) s))" using assms by (intro arrived start_logged)
  from started [OF this assms] show "P (snd (call_start rt b s))"
    by (simp add: call_start_def Let_def split_def)
qed

lemma keeps_start_workspace [keeping]:
  assumes "may_start (cf_workspaceId b)"
  shows "keeps P (start_workspace rt b)"
  unfolding start_workspace_def Let_def using assms
  by (intro keeping keeps_call_start) (auto simp: internal)

text \<open>The hold of a restart only asks, sleeps and waits.\<close>

lemma bounded_rounds_keep:
  assumes "\<And>s s'. Q s \<Longrightarrow> f s = Again s' \<Longrightarrow> Q s'" "\<And>s a. Q s \<Longrightarrow> f s = Answer a \<Longrightarrow> R a"
  shows "bounded_rounds n f s = Some a \<Longrightarrow> Q s \<Longrightarrow> R a"
  using assms by (induction n arbitrary: s) (auto split: round.splits)

lemma keeps_hold_runners [keeping]: "keeps P (hold_runners rt b)"
proof (rule keepsI)
  fix s assume P: "P s"
  let ?port = "restart_hold rt b"
  let ?f = "hold_round ?port RUNNER_HOLD_MS RUNNER_HOLD_POLL_MS (hp_now ?port s)"
  have asked: "P (snd (hp_hold ?port s'))" if "P s'" for s'
    using moved [OF arrived [OF that] port_moves.by_hold] by (simp add: restart_hold_def Let_def split_def)
  have slept: "P (hp_sleep ?port ms s')" if "P s'" for ms s'
    using moved [OF arrived [OF that] port_moves.by_sleep] by (simp add: restart_hold_def Let_def)
  have "P (snd a)" if "bounded_rounds HOLD_ROUNDS ?f (nothing_held, s) = Some a" for a
  proof (rule bounded_rounds_keep [where Q = "\<lambda>x. P (snd x)" and R = "\<lambda>a. P (snd a)", OF _ _ that])
    fix x x' assume "P (snd x)" "?f x = Again x'"
    then show "P (snd x')" using asked slept by (cases x) (auto simp: hold_round_again, metis snd_conv)
  next
    fix x a assume "P (snd x)" "?f x = Answer a"
    then show "P (snd a)" using asked [of "snd x"]
      by (cases x) (auto simp: hold_round_def Let_def split: prod.splits sum.splits if_splits)
  qed (simp add: P)
  then show "P (snd (hold_runners rt b s))" using P
    by (fastforce simp: hold_runners_def Let_def split: option.splits)
qed

lemma keeps_replace_old [keeping]: "keeps P (replace_old rt b current)"
  unfolding replace_old_def by (intro keeping)

lemma gives_stopping_phase:
  assumes "may_start (cf_workspaceId b)"
  shows "gives P (stopping_phase rt b p) (\<lambda>b'. cf_workspaceId b' = cf_workspaceId b)"
proof -
  have saved: "gives P (saveBinding rt (b\<lparr>mb_restart := x\<rparr>)) (\<lambda>b'. cf_workspaceId b' = cf_workspaceId b)" for x
  proof (rule gives_weaken [OF gives_saveBinding])
    show "ok (b\<lparr>mb_restart := x\<rparr>)" by (rule ok_enabled) (simp add: assms)
  qed auto
  show ?thesis
  proof (cases "rp_phase p = RestartStopping")
    case True
    have "gives P (andthen (call rt (sv_instance rt b)) (\<lambda>current.
        andthen (whenever (current = None \<or> current = rp_previousInstanceId p) (replace_old rt b current)) (\<lambda>_.
        saveBinding rt (b\<lparr>mb_restart := Some (p\<lparr>rp_phase := RestartStarting\<rparr>)\<rparr>))))
      (\<lambda>b'. cf_workspaceId b' = cf_workspaceId b)"
    proof (rule andthen_gives_to [OF gives_any])
      show "keeps P (call rt (sv_instance rt b))" by (rule keeping)
    qed (rule andthen_gives_to [OF gives_any saved], rule keeps_whenever, rule keeps_replace_old)
    then show ?thesis using True by (simp add: stopping_phase_def)
  next
    case False
    then show ?thesis by (simp add: stopping_phase_def gives_def give_def)
  qed
qed

lemma keeps_advanceRestart [keeping]:
  assumes "may_start (cf_workspaceId b)"
  shows "keeps P (advanceRestart rt b)"
proof (cases "mb_restart b")
  case (Some p)
  then show ?thesis unfolding advanceRestart_def
    by (simp, intro andthen_gives [OF gives_stopping_phase [OF assms]] keeping keeps_saveBinding)
      (auto intro: ok_enabled simp: assms)
qed (simp add: advanceRestart_def keeps_throw)

lemma keeps_new_restart [keeping]:
  assumes "may_start (cf_workspaceId b)"
  shows "keeps P (new_restart rt b i)"
  unfolding new_restart_def
proof (rule keeps_andthen)
  show "keeps P (call rt (sv_instance rt b))" by (rule keeping)
  fix previous
  let ?b = "b\<lparr>mb_enabled := True, mb_restart := Some \<lparr>rp_requestId = i, rp_phase = RestartStopping,
    rp_previousInstanceId = previous\<rparr>\<rparr>"
  show "keeps P (andthen (saveBinding rt ?b) (advanceRestart rt))"
    by (rule andthen_gives [OF gives_saveBinding]) (auto intro: ok_enabled keeping simp: assms)
qed

lemma keeps_startForOperator:
  assumes "may_start (cf_workspaceId b)"
  shows "keeps P (startForOperator rt c b requestId)"
proof -
  have restart: "keeps P (restart_for_operator rt b i)" for i
    unfolding restart_for_operator_def using assms
    by (auto intro!: keeping split: option.splits restart_result.splits)
  have uuid: "keeps P (\<lambda>s. let (i, w) = sv_uuid rt (mc_world s) in (Inr i, s\<lparr>mc_world := w\<rparr>))"
    using moved [OF _ port_moves.by_uuid] by (auto simp: keeps_def Let_def split_def)
  have start: "keeps P (andthen (saveBinding rt (b\<lparr>mb_enabled := True\<rparr>)) (\<lambda>b'.
      andthen (start_workspace rt b') (\<lambda>_. give True)))"
    by (rule andthen_gives [OF gives_saveBinding]) (auto intro!: ok_enabled keeping simp: assms)
  show ?thesis unfolding startForOperator_def using assms
    by (intro keeping restart start uuid)
qed

lemma keeps_progress [keeping]:
  "keeps P (modify (refuse_first e))" "keeps P (modify (supersede_first e))" "keeps P (modify (add_started i))"
  by (auto intro!: keeping simp: refuse_first_def supersede_first_def add_started_def internal)

lemma settle_mark_keeps: "P s \<Longrightarrow> P (settle_mark i s)"
  by (simp add: settle_mark_def unmark_one_def Let_def internal)

lemma settle_all_keeps: "P s \<Longrightarrow> P (settle_all s)"
proof -
  have "P s \<Longrightarrow> P (fold settle_mark is s)" for "is"
    by (induction "is" arbitrary: s) (simp_all add: settle_mark_keeps)
  then show "P s \<Longrightarrow> P (settle_all s)" by (simp add: settle_all_def)
qed

lemma keeps_run_started:
  assumes "may_start (cf_workspaceId b)"
  shows "keeps P (run_started rt cw b)"
proof -
  have handler: "keeps P (case e of ParkedWorkspace _ _ \<Rightarrow> modify (refuse_first e)
      | Superseded _ taken _ \<Rightarrow> modify (supersede_first (Superseded i taken (Some (operation_of (cw_command cw)))))
      | _ \<Rightarrow> throw e)" for e i
    by (cases e) (auto intro: keeping)
  show ?thesis unfolding run_started_def Let_def
    by (intro keeps_rescue handler keeping keeps_startForOperator assms)
qed

text \<open>A binding whose process may be started whenever its Workspace is not parked.\<close>

definition admissible :: "managed_binding \<Rightarrow> bool" where
  "admissible b \<longleftrightarrow> ok b \<and> (\<forall>s. P s \<longrightarrow> sv_parkedReason rt b (mc_world s) = None \<longrightarrow> may_start (cf_workspaceId b))"

lemma gives_parkedReason:
  "gives P (call rt (\<lambda>w. (Inr (sv_parkedReason rt b w), w)))
     (\<lambda>parked. admissible b \<longrightarrow> parked = None \<longrightarrow> may_start (cf_workspaceId b))"
  by (rule givesI) (auto simp: call_def Let_def admissible_def intro: arrived)

lemma keeps_record_taken [keeping]: "ok b \<Longrightarrow> keeps P (record_taken rt cw b taken)"
  unfolding record_taken_def by (intro keeping keeps_saveBinding ok_kept)

lemma keeps_run_start:
  assumes "admissible b"
  shows "keeps P (run_start rt cw b)"
  unfolding run_start_def Let_def
proof (rule andthen_gives [OF gives_parkedReason])
  fix parked :: "rejection_reason option"
  assume parked: "admissible b \<longrightarrow> parked = None \<longrightarrow> may_start (cf_workspaceId b)"
  show "keeps P (case parked of
      Some reason \<Rightarrow> whenever (scope_id (cw_workspaceId cw) \<noteq> None \<or> mb_enabled b)
        (modify (refuse_first (ParkedWorkspace (cf_workspaceId b) reason)))
    | None \<Rightarrow> (\<lambda>s. case map_get (mc_supersededAt s) (cf_workspaceId b) of
          Some (n, taken) \<Rightarrow>
            if n > cw_sequence cw
            then andthen (modify (supersede_first (Superseded (cf_workspaceId b) taken
              (Some (operation_of (cw_command cw)))))) (\<lambda>_. record_taken rt cw b taken) s
            else run_started rt cw b s
        | None \<Rightarrow> run_started rt cw b s))"
  proof (cases parked)
    case None
    then have started: "keeps P (run_started rt cw b)" using parked assms by (intro keeps_run_started) simp
    have taken: "keeps P (andthen (modify (supersede_first e)) (\<lambda>_. record_taken rt cw b t))" for e t
      using assms by (intro keeping) (simp add: admissible_def)
    show ?thesis using None started taken
      by (auto simp: keeps_def split: option.splits)
  qed (auto intro: keeping)
qed

lemma keeps_run_stop [keeping]: "ok b \<Longrightarrow> keeps P (run_stop rt b)"
  unfolding run_stop_def
  by (rule andthen_gives [OF gives_saveBinding]) (auto intro!: ok_stopped keeping)

lemma keeps_run_targets:
  assumes "\<And>b. b \<in> set bs \<Longrightarrow> if cw_command cw = DoStop then ok b else admissible b"
  shows "keeps P (run_targets rt cw bs)"
  using assms
proof (induction bs)
  case (Cons b bs)
  have "keeps P (modify (target_done (cf_workspaceId b)))"
    by (rule keeps_modify) (simp add: target_done_def settle_mark_keeps internal)
  moreover have "keeps P (if cw_command cw = DoStop then run_stop rt b else run_start rt cw b)"
    using Cons.prems [of b] by (auto intro: keeps_run_stop keeps_run_start)
  ultimately show ?case using Cons by (auto intro!: keeps_andthen)
qed (simp add: keeps_give)

lemma keeps_assertMutable [keeping]: "keeps P assertMutable"
  by (auto simp: keeps_def assertMutable_def)

lemma keeps_run_command:
  assumes "\<And>b. ok b \<Longrightarrow> scope_id (cw_workspaceId cw) = None \<or> Some (cf_workspaceId b) = cw_workspaceId cw \<Longrightarrow>
    cw_command cw = DoStop \<or> admissible b"
  shows "keeps P (run_command rt cw)"
proof -
  let ?ok = "\<lambda>b. if cw_command cw = DoStop then ok b else admissible b"
  have targets: "gives P (gets (command_targets (cw_command cw) (cw_workspaceId cw))) (\<lambda>bs. \<forall>b \<in> set bs. ?ok b)"
    using assms by (intro givesI) (auto simp: gets_def command_targets_def dest: found)
  have tail: "keeps P (andthen (gets (command_targets (cw_command cw) (cw_workspaceId cw))) (\<lambda>targets.
     andthen (modify (\<lambda>s. s\<lparr>mc_progress := (mc_progress s)
       \<lparr>pg_targets := Some (map cf_workspaceId targets)\<rparr>\<rparr>)) (\<lambda>_.
     andthen (run_targets rt cw targets) (\<lambda>_. command_answer))))"
  proof (rule andthen_gives [OF targets])
    fix targets assume "\<forall>b \<in> set targets. ?ok b"
    then have "keeps P (run_targets rt cw targets)" by (intro keeps_run_targets) simp
    then show "keeps P (andthen (modify (\<lambda>s. s\<lparr>mc_progress := (mc_progress s)
        \<lparr>pg_targets := Some (map cf_workspaceId targets)\<rparr>\<rparr>)) (\<lambda>_.
      andthen (run_targets rt cw targets) (\<lambda>_. command_answer)))"
      by (intro keeps_andthen keeps_modify) (auto simp: internal keeps_def command_answer_def split: option.splits)
  qed
  have registered: "keeps P (assertRegistered w)" for w
    by (auto simp: keeps_def assertRegistered_def split: option.splits)
  show ?thesis unfolding run_command_def
    by (rule keeps_andthen [OF keeps_whenever [OF keeps_throw]], rule keeps_andthen [OF keeps_assertMutable],
        rule keeps_andthen [OF keeps_refresh], rule keeps_andthen [OF registered], rule tail)
qed

lemma keeps_run_configure:
  assumes "may_start (cf_workspaceId config)"
  shows "keeps P (run_configure rt config)"
proof -
  have start: "may_start (cf_workspaceId (configured_binding config previous))" for previous
    using assms by (simp add: configured_binding_def)
  have clear: "keeps P (call rt (sv_clearParked rt (configured_binding config previous)))" for previous
    using start by (intro keeps_call unparked)
  show ?thesis unfolding run_configure_def Let_def
    by (intro clear keeps_saveBinding keeping ok_enabled start assms)
qed

lemma keeps_reconcile_enabled:
  assumes "admissible b"
  shows "keeps P (reconcile_enabled rt b)"
  unfolding reconcile_enabled_def Let_def
proof (rule andthen_gives [OF gives_parkedReason])
  fix parked :: "rejection_reason option"
  assume "admissible b \<longrightarrow> parked = None \<longrightarrow> may_start (cf_workspaceId b)"
  then have "parked = None \<Longrightarrow> may_start (cf_workspaceId b)" using assms by simp
  then show "keeps P (if parked \<noteq> None then give ()
      else andthen
        (if mb_restart b \<noteq> None then track (cf_workspaceId b) (advanceRestart rt b)
         else andthen (track (cf_workspaceId b) (start_workspace rt b)) (\<lambda>_. give ()))
        (\<lambda>_. clearFailure rt (cf_workspaceId b)))"
    by (auto intro!: keeping)
qed

lemma keeps_reconcile_one [keeping]: "keeps P (reconcile_one rt i)"
proof -
  have "keeps P (\<lambda>s. case find_binding s i of None \<Rightarrow> (Inl UndefinedRestart, s)
    | Some b \<Rightarrow> (if \<not> mb_enabled b then andthen (stop_workspace rt b) (\<lambda>_. clearFailure rt i)
        else reconcile_enabled rt b) s)"
  proof (rule keeps_found)
    fix b assume "ok b"
    then show "keeps P (if \<not> mb_enabled b then andthen (stop_workspace rt b) (\<lambda>_. clearFailure rt i)
        else reconcile_enabled rt b)"
      by (auto intro!: keeping keeps_reconcile_enabled simp: admissible_def intro: admitted)
  qed (simp add: keeps_def)
  then show ?thesis by (simp add: reconcile_one_def [abs_def] if_distribR cong: option.case_cong)
qed

lemma keeps_reconcile_all [keeping]: "keeps P (reconcile_all rt ids failures)"
  by (induction ids arbitrary: failures) (auto intro!: keeping)

lemma keeps_reconcileBindings [keeping]: "keeps P (reconcileBindings rt)"
  unfolding reconcileBindings_def by (intro keeping)

lemma keeps_run_recover [keeping]: "keeps P (run_recover rt paused)"
proof (rule keepsI)
  fix s assume P: "P s"
  have "P (s\<lparr>mc_bindings := bs, mc_reloadRequired := False, mc_paused := paused\<rparr>)"
    if "sv_load rt (mc_world s) = Some bs" for bs
    using recovered [OF P that] internal(6) by simp
  then show "P (snd (run_recover rt paused s))"
    using P keeps_at [OF keeps_reconcileBindings] by (auto simp: run_recover_def Let_def split: option.splits)
qed

lemma keeps_stop_all [keeping]: "keeps P (stop_all rt bs)"
  by (induction bs) (auto intro!: keeping)

lemma keeps_record_failure [keeping]: "keeps P (record_failure rt p m i)"
proof -
  have "keeps P (\<lambda>s. case find_binding s i of None \<Rightarrow> (Inr (), s)
    | Some b \<Rightarrow> (\<lambda>s. andthen (saveBinding rt (b\<lparr>mb_lastFailure := Some
        \<lparr>lf_operation = p, lf_message = take 500 m, lf_at = sv_now rt (mc_world s)\<rparr>\<rparr>)) (\<lambda>_. give ()) s) s)"
  proof (rule keeps_found)
    fix b assume "ok b"
    then have "keeps P (andthen (saveBinding rt (b\<lparr>mb_lastFailure := Some f\<rparr>)) (\<lambda>_. give ()))" for f
      by (intro keeping keeps_saveBinding ok_kept)
    then show "keeps P (\<lambda>s. andthen (saveBinding rt (b\<lparr>mb_lastFailure := Some
        \<lparr>lf_operation = p, lf_message = take 500 m, lf_at = sv_now rt (mc_world s)\<rparr>\<rparr>)) (\<lambda>_. give ()) s)"
      by (simp add: keeps_def)
  qed (simp add: keeps_def)
  then show ?thesis by (simp add: record_failure_def [abs_def])
qed

lemma keeps_record_failures [keeping]: "keeps P (record_failures rt p m ids)"
  by (induction ids) (auto intro!: keeping)

lemma keeps_save_operations [keeping]: "ok b \<Longrightarrow> keeps P (save_operations rt b us)"
  unfolding save_operations_def by (intro keeping keeps_saveBinding ok_kept)

lemma keeps_settle_blocker [keeping]: "keeps P (settle_blocker rt w us)"
proof -
  have port: "keeps P (call rt (\<lambda>world. let (r, world') = sv_settle rt w i n world in (Inr r, world')))" for i n
    using moved [OF _ port_moves.by_settle] by (intro keeps_call) (simp add: Let_def split_def)
  have rest: "keeps P (case settlement of None \<Rightarrow> throw e | Some (st, t) \<Rightarrow> give (g st t))"
    for settlement :: "(upgrade_state \<times> upgrade_terminal) option" and e
      and g :: "upgrade_state \<Rightarrow> upgrade_terminal \<Rightarrow> upgrade_operation list"
    by (auto intro: keeping split: option.splits)
  show ?thesis unfolding settle_blocker_def
    by (cases "pending_operations us")
      (simp_all only: list.case keeps_give, intro keeps_andthen [OF port] rest)
qed

lemma keeps_operation:
  assumes "keeps P m" "\<And>b. ok b \<Longrightarrow> keeps P (f b)"
  shows "keeps P (andthen (gets (\<lambda>s. find_binding s w)) (\<lambda>found. case found of None \<Rightarrow> m | Some b \<Rightarrow> f b))"
  by (rule andthen_gives [OF gives_found]) (auto intro!: keeping assms)

lemma keeps_upgrades [keeping]:
  "keeps P (recordUpgrade rt w i v)" "keeps P (completeUpgrade rt w i st t)" "keeps P (acknowledgeUpgrade rt w i)"
proof -
  have "keeps P (open_upgrade rt b i v)" if "ok b" for b
    unfolding open_upgrade_def using that by (intro keeping)
  then show "keeps P (recordUpgrade rt w i v)"
    unfolding recordUpgrade_def by (intro keeps_andthen keeps_assertMutable keeps_refresh keeps_operation keeps_throw)
  show "keeps P (completeUpgrade rt w i st t)"
    unfolding completeUpgrade_def by (intro keeps_andthen [OF keeps_refresh] keeps_operation keeping)
  show "keeps P (acknowledgeUpgrade rt w i)"
    unfolding acknowledgeUpgrade_def by (intro keeps_andthen [OF keeps_refresh] keeps_operation keeping)
qed

definition suits :: "work \<Rightarrow> bool" where
  "suits w = (case w of
     CommandWork cw \<Rightarrow> cw_command cw = DoStop \<or>
       (\<forall>b. ok b \<longrightarrow> scope_id (cw_workspaceId cw) = None \<or> Some (cf_workspaceId b) = cw_workspaceId cw \<longrightarrow> admissible b)
   | ConfigureWork config late \<Rightarrow> may_start (cf_workspaceId config)
   | _ \<Rightarrow> True)"

lemma keeps_perform:
  assumes "suits w"
  shows "keeps P (perform rt w)"
proof (cases w)
  case (CommandWork cw)
  then have "keeps P (run_command rt cw)" using assms
    by (intro keeps_run_command) (auto simp: suits_def)
  then show ?thesis using CommandWork by simp
next
  case (ConfigureWork config late)
  then show ?thesis using assms keeps_run_configure by (simp add: suits_def)
next
  case ReconcileWork
  then show ?thesis by (auto simp: keeps_def run_reconcile_def
      intro: keeps_at [OF keeps_andthen [OF keeps_refresh keeps_reconcileBindings]])
next
  case ResumeWork
  then show ?thesis unfolding run_resume_def perform.simps by (auto intro!: keeping simp: run_resume_def internal)
qed (auto intro!: keeping simp: run_shutdown_def)

lemma perform_started:
  assumes "P s" "suits w"
  shows "P (snd (perform rt w (s\<lparr>mc_progress := no_progress, mc_marked := marks_of w\<rparr>)))"
  using keeps_at [OF keeps_perform [OF assms(2)]] assms(1) internal(3,4) by simp

text \<open>A work keeps the invariant when what follows it does: its entry in the log, the intents it releases
  and the failure it leaves to be recorded.\<close>

lemma run_work_keeps:
  assumes "P s" "suits w" "\<And>r s. P s \<Longrightarrow> P (log_event (Ended w r) s)"
    "\<And>ids n s. P s \<Longrightarrow> P (release_intents ids n s)" "\<And>p ids m s. P s \<Longrightarrow> P (enqueue_work (FailureWork p ids m) s)"
  shows "P (run_work rt w s)"
proof -
  obtain r s1 where run: "perform rt w (s\<lparr>mc_progress := no_progress, mc_marked := marks_of w\<rparr>) = (r, s1)"
    by fastforce
  have "P s1" using perform_started [OF assms(1,2)] run by simp
  then have "P (settle_all (log_event (Ended w r) s1))" by (intro settle_all_keeps assms(3))
  then have "P (work_over w (log_event (Ended w r) s1))" by (cases w) (auto intro: assms(4))
  moreover have "P (failed_after_answer rt w r s')" if "P s'" for s'
    using that by (induction rt w r s' rule: failed_after_answer.induct) (auto intro: assms(5))
  ultimately show ?thesis by (simp add: run_work_def run Let_def)
qed

end

end
