(* ===== verification/MachineProperties.thy ===== *)
theory MachineProperties
  imports MachineInvariants
begin

text \<open>
  What the supervisor guarantees over every run: a Workspace that was stopped stays stopped until it is
  started, restarted or configured again, and a parked Workspace is not started until it is configured.
\<close>

subsection \<open>Laws of the ports\<close>

definition stays_down :: "string \<Rightarrow> managed_binding \<Rightarrow> bool" where
  "stays_down i b \<longleftrightarrow> (cf_workspaceId b = i \<longrightarrow> \<not> mb_enabled b \<and> mb_restart b = None)"

definition down_in :: "string \<Rightarrow> managed_binding list \<Rightarrow> bool" where
  "down_in i bs \<longleftrightarrow> (\<forall>b \<in> set bs. stays_down i b)"

definition load_down :: "'w supervisor_ports \<Rightarrow> string \<Rightarrow> 'w \<Rightarrow> bool" where
  "load_down rt i w \<longleftrightarrow> (\<forall>bs. sv_load rt w = Some bs \<longrightarrow> down_in i bs)"

definition is_parked :: "'w supervisor_ports \<Rightarrow> string \<Rightarrow> 'w \<Rightarrow> bool" where
  "is_parked rt i w \<longleftrightarrow> (\<forall>b. cf_workspaceId b = i \<longrightarrow> sv_parkedReason rt b w \<noteq> None)"

text \<open>
  The store gives back what was saved; a save that fails leaves what was there before or what was
  saved. Nothing else changes the registry, and nothing but clearing a Workspace's park lifts it.
\<close>

locale supervised =
  fixes rt :: "'w supervisor_ports"
  assumes load_saved: "sv_save rt bs w = (took, w') \<Longrightarrow> down_in i bs \<Longrightarrow> took \<or> load_down rt i w \<Longrightarrow> load_down rt i w'"
    and load_moved: "port_moves rt w w' \<Longrightarrow> load_down rt i w \<Longrightarrow> load_down rt i w'"
    and load_started: "load_down rt i w \<Longrightarrow> load_down rt i (snd (sv_start rt b taken w))"
    and load_cleared: "load_down rt i w \<Longrightarrow> load_down rt i (snd (sv_clearParked rt b w))"
    and parked_saved: "is_parked rt i w \<Longrightarrow> is_parked rt i (snd (sv_save rt bs w))"
    and parked_moved: "port_moves rt w w' \<Longrightarrow> is_parked rt i w \<Longrightarrow> is_parked rt i w'"
    and parked_started: "is_parked rt i w \<Longrightarrow> is_parked rt i (snd (sv_start rt b taken w))"
    and parked_cleared: "is_parked rt i w \<Longrightarrow> cf_workspaceId b \<noteq> i \<Longrightarrow> is_parked rt i (snd (sv_clearParked rt b w))"

subsection \<open>Requests that leave a Workspace alone\<close>

fun leaves_alone :: "string \<Rightarrow> request \<Rightarrow> bool" where
  "leaves_alone i (CommandRequest c w r late) \<longleftrightarrow> scope_id w \<noteq> None \<and> w \<noteq> Some i"
| "leaves_alone i (ConfigureRequest config late) \<longleftrightarrow> cf_workspaceId config \<noteq> i"
| "leaves_alone i _ \<longleftrightarrow> True"

fun quiet :: "string \<Rightarrow> work \<Rightarrow> bool" where
  "quiet i (CommandWork cw) \<longleftrightarrow> scope_id (cw_workspaceId cw) \<noteq> None \<and> cw_workspaceId cw \<noteq> Some i \<and>
     i \<notin> set (cw_requested cw)"
| "quiet i (ConfigureWork config late) \<longleftrightarrow> cf_workspaceId config \<noteq> i"
| "quiet i _ \<longleftrightarrow> True"

definition starts :: "string \<Rightarrow> machine_event list \<Rightarrow> nat" where
  "starts i log = length (filter (\<lambda>e. e = StartCalled i) log)"

lemma starts_log [simp]: "starts i (mc_log (log_event e s)) = (if e = StartCalled i then 1 else 0) + starts i (mc_log s)"
  by (simp add: starts_def log_event_def)

lemma log_event_simps [simp]:
  "mc_bindings (log_event e s) = mc_bindings s" "mc_world (log_event e s) = mc_world s"
  "mc_arrivals (log_event e s) = mc_arrivals s" "mc_stopIntents (log_event e s) = mc_stopIntents s"
  "mc_queue (log_event e s) = mc_queue s" "mc_reloadRequired (log_event e s) = mc_reloadRequired s"
  by (simp_all add: log_event_def)

text \<open>
  What stopping a Workspace establishes: it is down in the registry and on disk, only requests that
  leave it alone arrive, and \<open>Q\<close> holds of its intent, the queue and how often it was started.
\<close>

definition calm :: "'w supervisor_ports \<Rightarrow> string \<Rightarrow> (nat option \<Rightarrow> work list \<Rightarrow> nat \<Rightarrow> bool) \<Rightarrow> 'w machine \<Rightarrow> bool" where
  "calm rt i Q s \<longleftrightarrow> down_in i (mc_bindings s) \<and> load_down rt i (mc_world s) \<and>
     list_all (list_all (leaves_alone i)) (mc_arrivals s) \<and>
     Q (map_get (mc_stopIntents s) i) (mc_queue s) (starts i (mc_log s))"

definition takes_quiet :: "string \<Rightarrow> (nat option \<Rightarrow> work list \<Rightarrow> nat \<Rightarrow> bool) \<Rightarrow> bool" where
  "takes_quiet i Q \<longleftrightarrow> (\<forall>n q k w. Q n q k \<longrightarrow> quiet i w \<longrightarrow> Q n (q @ [w]) k)"

lemma down_in_simps: "down_in i [] " "down_in i (b # bs) \<longleftrightarrow> stays_down i b \<and> down_in i bs"
  by (simp_all add: down_in_def)

lemma down_in_upsert: "down_in i bs \<Longrightarrow> stays_down i b \<Longrightarrow> down_in i (upsert_binding b bs)"
  by (auto simp: down_in_def upsert_binding_def Let_def dest!: set_takeWhileD set_dropWhileD)

lemma stays_down_stopped [simp]: "stays_down i (stopped b)"
  by (simp add: stays_down_def)

lemma calm_enqueue: "takes_quiet i Q \<Longrightarrow> quiet i w \<Longrightarrow> calm rt i Q s \<Longrightarrow> calm rt i Q (enqueue_work w s)"
  by (simp add: calm_def enqueue_work_def takes_quiet_def)

text \<open>The bookkeeping of a request outside the registry, the world, the queue, the log and the intents.\<close>

lemma calm_frame:
  assumes "mc_bindings s' = mc_bindings s" "mc_world s' = mc_world s" "mc_arrivals s' = mc_arrivals s"
    "map_get (mc_stopIntents s') i = map_get (mc_stopIntents s) i" "mc_queue s' = mc_queue s"
    "starts i (mc_log s') = starts i (mc_log s)"
  shows "calm rt i Q s' \<longleftrightarrow> calm rt i Q s"
  using assms by (simp add: calm_def)

lemma supersede_one_frame [simp]:
  "mc_bindings (supersede_one t n j s) = mc_bindings s" "mc_world (supersede_one t n j s) = mc_world s"
  "mc_arrivals (supersede_one t n j s) = mc_arrivals s" "mc_stopIntents (supersede_one t n j s) = mc_stopIntents s"
  "mc_queue (supersede_one t n j s) = mc_queue s" "mc_log (supersede_one t n j s) = mc_log s"
  by (simp_all add: supersede_one_def abort_work_def split: option.splits)

lemma fold_supersede_frame [simp]:
  "mc_bindings (fold (supersede_one t n) ids s) = mc_bindings s" "mc_world (fold (supersede_one t n) ids s) = mc_world s"
  "mc_arrivals (fold (supersede_one t n) ids s) = mc_arrivals s"
  "mc_stopIntents (fold (supersede_one t n) ids s) = mc_stopIntents s"
  "mc_queue (fold (supersede_one t n) ids s) = mc_queue s" "mc_log (fold (supersede_one t n) ids s) = mc_log s"
  by (induction ids arbitrary: s) simp_all

lemma supersede_frame [simp]:
  "mc_bindings (snd (supersede ids t s)) = mc_bindings s" "mc_world (snd (supersede ids t s)) = mc_world s"
  "mc_arrivals (snd (supersede ids t s)) = mc_arrivals s" "mc_stopIntents (snd (supersede ids t s)) = mc_stopIntents s"
  "mc_queue (snd (supersede ids t s)) = mc_queue s" "mc_log (snd (supersede ids t s)) = mc_log s"
  by (simp_all add: supersede_def Let_def)

lemma mark_frame [simp]:
  "mc_bindings (mark_one j s) = mc_bindings s" "mc_world (mark_one j s) = mc_world s"
  "mc_arrivals (mark_one j s) = mc_arrivals s" "mc_stopIntents (mark_one j s) = mc_stopIntents s"
  "mc_queue (mark_one j s) = mc_queue s" "mc_log (mark_one j s) = mc_log s"
  by (simp_all add: mark_one_def)

lemma fold_mark_frame [simp]:
  "mc_bindings (fold mark_one ids s) = mc_bindings s" "mc_world (fold mark_one ids s) = mc_world s"
  "mc_arrivals (fold mark_one ids s) = mc_arrivals s" "mc_stopIntents (fold mark_one ids s) = mc_stopIntents s"
  "mc_queue (fold mark_one ids s) = mc_queue s" "mc_log (fold mark_one ids s) = mc_log s"
  by (induction ids arbitrary: s) simp_all

lemma release_other: "i \<notin> A \<Longrightarrow> map_get (filter (\<lambda>(j, m). \<not> (j \<in> A \<and> m = n)) xs) i = map_get xs i"
  by (induction xs) auto

lemma release_intents_other [simp]:
  "i \<notin> set ids \<Longrightarrow> map_get (mc_stopIntents (release_intents ids n s)) i = map_get (mc_stopIntents s) i"
  using release_other [of i "set ids" n "mc_stopIntents s"] by (simp add: release_intents_def)

lemma calm_bookkeeping [simp]:
  "calm rt i Q (mark_one j s) = calm rt i Q s" "calm rt i Q (snd (supersede ids t s)) = calm rt i Q s"
  "calm rt i Q (s\<lparr>mc_paused := x\<rparr>) = calm rt i Q s"
  by (rule calm_frame; simp)+

lemma release_intents_frame [simp]:
  "mc_bindings (release_intents ids n s) = mc_bindings s" "mc_world (release_intents ids n s) = mc_world s"
  "mc_arrivals (release_intents ids n s) = mc_arrivals s" "mc_queue (release_intents ids n s) = mc_queue s"
  "mc_log (release_intents ids n s) = mc_log s" "mc_reloadRequired (release_intents ids n s) = mc_reloadRequired s"
  by (simp_all add: release_intents_def)

lemma fold_set_other [simp]: "i \<notin> set ids \<Longrightarrow> map_get (fold (\<lambda>j m. map_set m j n) ids m) i = map_get m i"
  by (induction ids arbitrary: m) simp_all

lemma requested_other:
  assumes "scope_id w \<noteq> None" "w \<noteq> Some i"
  shows "i \<notin> set (map cf_workspaceId (command_targets c w s))"
  using assms by (auto simp: command_targets_def scope_id_def split: if_splits)

context supervised
begin

lemma calm_store:
  assumes "calm rt i Q s" "down_in i bs"
  shows "calm rt i Q (snd (store_bindings rt bs s))"
proof (cases "sv_save rt bs (mc_world s)")
  case (Pair took w)
  have "load_down rt i w" using load_saved [OF Pair] assms by (simp add: calm_def)
  then show ?thesis using assms Pair by (simp add: calm_def store_bindings_def Let_def)
qed

lemma calm_reload: "calm rt i Q s \<Longrightarrow> calm rt i Q (snd (reload_if_required rt s))"
  by (auto simp: calm_def reload_if_required_def load_down_def split: option.splits)

lemma calm_saved:
  assumes "calm rt i Q s" "stays_down i (if has (mc_stopIntents s) (cf_workspaceId b) then stopped b else b)"
  shows "calm rt i Q (snd (store_bindings rt (upsert_binding
    (if has (mc_stopIntents s) (cf_workspaceId b) then stopped b else b) (mc_bindings s)) s))"
proof (rule calm_store)
  show "calm rt i Q s" by (rule assms)
  have "down_in i (mc_bindings s)" using assms(1) by (simp add: calm_def)
  then show "down_in i (upsert_binding (if has (mc_stopIntents s) (cf_workspaceId b) then stopped b else b) (mc_bindings s))"
    using assms(2) by (rule down_in_upsert)
qed

lemma calm_persist:
  assumes "calm rt i Q s" "i \<notin> set ids"
  shows "calm rt i Q (snd (persist_intent rt ids n s))"
proof -
  let ?s = "s\<lparr>mc_stopIntents := fold (\<lambda>i m. map_set m i n) ids (mc_stopIntents s)\<rparr>"
  let ?store = "\<lambda>s. store_bindings rt (map (\<lambda>b. if has (mc_stopIntents s) (cf_workspaceId b) then stopped b else b)
    (mc_bindings s)) s"
  have "calm rt i Q ?s" using assms by (simp add: calm_def)
  then have reloaded: "calm rt i Q (snd (reload_if_required rt ?s))" by (rule calm_reload)
  have stored: "calm rt i Q (snd (?store s'))" if "calm rt i Q s'" for s'
  proof (rule calm_store [OF that])
    show "down_in i (map (\<lambda>b. if has (mc_stopIntents s') (cf_workspaceId b) then stopped b else b) (mc_bindings s'))"
      using that by (auto simp: calm_def down_in_def)
  qed
  obtain r s1 where run: "andthen (reload_if_required rt) (\<lambda>_. ?store) ?s = (r, s1)" by fastforce
  have "calm rt i Q (snd (andthen (reload_if_required rt) (\<lambda>_. ?store) ?s))"
    using reloaded stored [of "snd (reload_if_required rt ?s)"]
    by (cases "reload_if_required rt ?s"; cases "fst (reload_if_required rt ?s)") (simp_all add: andthen_def)
  then have calm: "calm rt i Q s1" by (simp only: run snd_conv)
  have released: "calm rt i Q (release_intents ids n s1) = calm rt i Q s1"
    using assms(2) by (intro calm_frame) simp_all
  have "snd (persist_intent rt ids n s) = (case r of Inl _ \<Rightarrow> release_intents ids n s1 | Inr _ \<Rightarrow> s1)"
    using run by (simp add: persist_intent_def Let_def split: sum.splits)
  then show ?thesis using calm released by (cases r) simp_all
qed

lemma calm_receive:
  assumes "calm rt i Q s" "leaves_alone i q" "takes_quiet i Q"
  shows "calm rt i Q (receive rt q s)"
proof (cases q)
  case (CommandRequest c w r late)
  have other: "i \<notin> set (map cf_workspaceId (command_targets c w s))"
    using assms(2) CommandRequest by (intro requested_other) auto
  show ?thesis
  proof (cases "c = DoStop")
    case True
    let ?ids = "map cf_workspaceId (command_targets c w s)"
    have "calm rt i Q (snd (supersede ?ids ByStop s))" using assms(1) by (simp add: calm_def)
    from calm_persist [OF this other] show ?thesis using True CommandRequest assms other
      by (auto simp: request_command_def Let_def split_def intro!: calm_enqueue)
  next
    case False
    let ?s = "fold mark_one (remdups (map cf_workspaceId (command_targets c w s))) (s\<lparr>mc_sequence := mc_sequence s + 1\<rparr>)"
    have "calm rt i Q ?s" using assms(1) by (simp add: calm_def)
    then show ?thesis using False CommandRequest assms other
      by (auto simp: request_command_def Let_def intro!: calm_enqueue)
  qed
next
  case (ConfigureRequest config late)
  then show ?thesis using assms by (auto intro!: calm_enqueue)
qed (use assms in \<open>auto intro!: calm_enqueue\<close>)

lemma calm_await:
  assumes "calm rt i Q s" "takes_quiet i Q"
  shows "calm rt i Q (await rt s)"
proof -
  have "calm rt i Q (fold (receive rt) qs s')" if "calm rt i Q s'" "list_all (leaves_alone i) qs" for qs s'
    using that by (induction qs arbitrary: s') (auto intro: calm_receive assms(2))
  moreover have "calm rt i Q (s\<lparr>mc_arrivals := later\<rparr>)" "list_all (leaves_alone i) batch"
    if "mc_arrivals s = batch # later" for batch later
    using assms(1) that by (auto simp: calm_def)
  ultimately show ?thesis using assms(1) by (auto simp: await_def split: list.splits)
qed

end

subsection \<open>Four invariants of any work\<close>

text \<open>The stop of a Workspace waits its turn, or has it: its intent is in place.\<close>

definition releases :: "string \<Rightarrow> nat \<Rightarrow> work \<Rightarrow> bool" where
  "releases i n w \<longleftrightarrow> (\<exists>cw. w = CommandWork cw \<and> cw_command cw = DoStop \<and> i \<in> set (cw_requested cw) \<and> cw_sequence cw = n)"

definition waits :: "string \<Rightarrow> nat \<Rightarrow> work list \<Rightarrow> bool" where
  "waits i n q \<longleftrightarrow> (\<exists>before w after. q = before @ w # after \<and> releases i n w \<and>
     list_all (\<lambda>w. \<not> releases i n w) before \<and> list_all (quiet i) after)"

definition stop_held :: "string \<Rightarrow> nat \<Rightarrow> bool \<Rightarrow> nat option \<Rightarrow> work list \<Rightarrow> nat \<Rightarrow> bool" where
  "stop_held i n running m q k \<longleftrightarrow> m = Some n \<and> (if running then list_all (quiet i) q else waits i n q)"

text \<open>It has had its turn: only work that leaves the Workspace alone is queued, and it is not started.\<close>

definition stop_done :: "string \<Rightarrow> nat \<Rightarrow> nat option \<Rightarrow> work list \<Rightarrow> nat \<Rightarrow> bool" where
  "stop_done i k m q k' \<longleftrightarrow> list_all (quiet i) q \<and> k' = k"

lemma takes_quiet_stop [simp]: "takes_quiet i (stop_held i n running)" "takes_quiet i (stop_done i k)"
  by (fastforce simp: takes_quiet_def stop_held_def stop_done_def waits_def)+

lemma calm_stop_logged: "calm rt i Q s \<Longrightarrow> calm rt i Q (log_event (StopCalled j) s)"
  by (simp add: calm_def)

lemma calm_internal:
  "calm rt i Q (s\<lparr>mc_instances := x1\<rparr>) = calm rt i Q s" "calm rt i Q (s\<lparr>mc_inFlight := x2\<rparr>) = calm rt i Q s"
  "calm rt i Q (s\<lparr>mc_progress := x3\<rparr>) = calm rt i Q s" "calm rt i Q (s\<lparr>mc_marked := x4\<rparr>) = calm rt i Q s"
  "calm rt i Q (s\<lparr>mc_underWay := x5\<rparr>) = calm rt i Q s"
  by (simp_all add: calm_def)

context supervised
begin

lemma calm_world: "calm rt i Q s \<Longrightarrow> load_down rt i w \<Longrightarrow> calm rt i Q (s\<lparr>mc_world := w\<rparr>)"
  by (simp add: calm_def)

lemma calm_load: "calm rt i Q s \<Longrightarrow> load_down rt i (mc_world s)"
  by (simp add: calm_def)

lemma calm_recovered:
  "calm rt i Q s \<Longrightarrow> sv_load rt (mc_world s) = Some bs \<Longrightarrow> calm rt i Q (s\<lparr>mc_bindings := bs, mc_reloadRequired := False\<rparr>)"
  by (auto simp: calm_def load_down_def)

end

lemma stays_down_cong: "cf_workspaceId b' = cf_workspaceId b \<Longrightarrow> mb_enabled b' = mb_enabled b \<Longrightarrow>
    mb_restart b' = mb_restart b \<Longrightarrow> stays_down i b \<Longrightarrow> stays_down i b'"
  by (simp add: stays_down_def)

lemma held_intent: "calm rt i (stop_held i n running) s \<Longrightarrow> has (mc_stopIntents s) i"
  by (simp add: calm_def stop_held_def has_def)

sublocale supervised < held: machine_invariant rt "calm rt i (stop_held i n running)" "\<lambda>b. True" "\<lambda>j. True"
  for i n running
proof unfold_locales
  fix s b assume P: "calm rt i (stop_held i n running) s"
  have "stays_down i (if has (mc_stopIntents s) (cf_workspaceId b) then stopped b else b)"
    using held_intent [OF P] by (auto simp: stays_down_def)
  from calm_saved [OF P this] show "calm rt i (stop_held i n running) (snd (store_bindings rt (upsert_binding
    (if has (mc_stopIntents s) (cf_workspaceId b) then stopped b else b) (mc_bindings s)) s))" .
next
  fix s j assume "calm rt i (stop_held i n running) s"
  then show "calm rt i (stop_held i n running) (log_event (StartCalled j) s)"
    by (simp add: calm_def stop_held_def)
qed (auto intro: calm_await calm_reload calm_world calm_load load_moved load_started load_cleared calm_stop_logged
    calm_recovered simp: calm_internal)

sublocale supervised < free: machine_invariant rt "calm rt i (stop_done i k)" "stays_down i" "\<lambda>j. j \<noteq> i"
  for i k
proof unfold_locales
  fix s b assume P: "calm rt i (stop_done i k) s" and "stays_down i b"
  then have "stays_down i (if has (mc_stopIntents s) (cf_workspaceId b) then stopped b else b)" by simp
  from calm_saved [OF P this] show "calm rt i (stop_done i k) (snd (store_bindings rt (upsert_binding
    (if has (mc_stopIntents s) (cf_workspaceId b) then stopped b else b) (mc_bindings s)) s))" .
next
  fix s j assume "calm rt i (stop_done i k) s" "j \<noteq> i"
  then show "calm rt i (stop_done i k) (log_event (StartCalled j) s)"
    by (simp add: calm_def stop_done_def)
next
  fix s b assume "calm rt i (stop_done i k) s" "b \<in> set (mc_bindings s)"
  then show "stays_down i b" by (simp add: calm_def down_in_def)
qed (auto intro: calm_await calm_reload calm_world calm_load load_moved load_started load_cleared calm_stop_logged
    calm_recovered stays_down_cong simp: calm_internal stays_down_def)

subsection \<open>Stopped\<close>

lemma ended_keeps:
  assumes "takes_quiet i Q" "calm rt i Q s"
  shows "calm rt i Q (failed_after_answer rt w r s)"
  using assms by (induction rt w r s rule: failed_after_answer.induct) (auto intro: calm_enqueue)

context supervised
begin

lemma calm_ended: "calm rt i Q (log_event (Ended w r) s) = calm rt i Q s"
  by (simp add: calm_def)

lemma free_run_work:
  assumes "calm rt i (stop_done i k) s" "quiet i w"
  shows "calm rt i (stop_done i k) (run_work rt w s)"
proof -
  have suits: "free.suits i k w"
  proof (cases w)
    case (CommandWork cw)
    then show ?thesis using assms(2)
      by (auto simp: free.suits_def free.admissible_def)
  qed (use assms(2) in \<open>auto simp: free.suits_def\<close>)
  show ?thesis
    by (rule free.run_work_keeps [OF assms(1) suits])
      (auto simp: calm_ended calm_def stop_done_def enqueue_work_def)
qed

lemma held_perform:
  assumes "calm rt i (stop_held i n running) s"
  shows "calm rt i (stop_held i n running) (snd (perform rt w (s\<lparr>mc_progress := no_progress, mc_marked := marks_of w\<rparr>)))"
proof -
  have "held.suits i n running w"
    by (cases w) (auto simp: held.suits_def held.admissible_def)
  from held.perform_started [OF assms this] show ?thesis .
qed

end

lemma release_same: "\<not> (i \<in> A \<and> m = n) \<Longrightarrow> map_get xs i = Some m \<Longrightarrow>
    map_get (filter (\<lambda>(j, k). \<not> (j \<in> A \<and> k = n)) xs) i = Some m"
  by (induction xs) auto

lemma release_intents_same: "\<not> (i \<in> set ids \<and> m = n) \<Longrightarrow> map_get (mc_stopIntents s) i = Some m \<Longrightarrow>
    map_get (mc_stopIntents (release_intents ids n s)) i = Some m"
  using release_same [of i "set ids" m n "mc_stopIntents s"] by (simp add: release_intents_def)

context supervised
begin

lemma held_ended:
  assumes "calm rt i (stop_held i n False) s" "\<not> releases i n w"
  shows "calm rt i (stop_held i n False) (work_over w s)"
proof -
  have settled: "calm rt i (stop_held i n False) (settle_all s)" by (rule held.settle_all_keeps [OF assms(1)])
  show ?thesis
  proof (cases w)
    case (CommandWork cw)
    have "calm rt i (stop_held i n False) (release_intents (cw_requested cw) (cw_sequence cw) s')"
      if "calm rt i (stop_held i n False) s'" "cw_command cw = DoStop" for s'
      using that assms(2) CommandWork
      by (auto simp: calm_def stop_held_def releases_def intro!: release_intents_same)
    then show ?thesis using settled CommandWork by simp
  qed (use settled in simp_all)
qed

lemma held_run_other:
  assumes "calm rt i (stop_held i n False) s" "\<not> releases i n w"
  shows "calm rt i (stop_held i n False) (run_work rt w s)"
proof -
  obtain r s1 where run: "perform rt w (s\<lparr>mc_progress := no_progress, mc_marked := marks_of w\<rparr>) = (r, s1)"
    by fastforce
  have "calm rt i (stop_held i n False) s1" using held_perform [OF assms(1)] run by (metis snd_conv)
  then show ?thesis using assms(2)
    by (auto simp: run_work_def run Let_def calm_ended intro!: ended_keeps held_ended)
qed

lemma held_run_stop:
  assumes "calm rt i (stop_held i n True) s"
  shows "\<exists>k. calm rt i (stop_done i k) (run_work rt w s)"
proof -
  obtain r s1 where run: "perform rt w (s\<lparr>mc_progress := no_progress, mc_marked := marks_of w\<rparr>) = (r, s1)"
    by fastforce
  have "calm rt i (stop_held i n True) s1" using held_perform [OF assms] run by (metis snd_conv)
  then have "calm rt i (stop_done i (starts i (mc_log s1))) (log_event (Ended w r) s1)"
    by (simp add: calm_def stop_held_def stop_done_def)
  from free.settle_all_keeps [OF this]
  have "calm rt i (stop_done i (starts i (mc_log s1))) (work_over w (log_event (Ended w r) s1))"
    by (cases w) (auto simp: calm_def stop_done_def)
  then have "calm rt i (stop_done i (starts i (mc_log s1))) (run_work rt w s)"
    by (auto simp: run_work_def run Let_def intro: ended_keeps)
  then show ?thesis ..
qed

text \<open>What holds between works after a stop of the Workspace was written.\<close>

definition after_stop :: "string \<Rightarrow> nat \<Rightarrow> 'w machine \<Rightarrow> bool" where
  "after_stop i n s \<longleftrightarrow> calm rt i (stop_held i n False) s \<or> (\<exists>k. calm rt i (stop_done i k) s)"

lemma calm_arrivals: "calm rt i Q s \<Longrightarrow> list_all (list_all (leaves_alone i)) batches \<Longrightarrow> calm rt i Q (s\<lparr>mc_arrivals := batches\<rparr>)"
  by (simp add: calm_def)

lemma done_step:
  assumes "machine_step rt moves (leaves_alone i) s s'" "calm rt i (stop_done i k) s"
    and world: "\<And>w w'. moves w w' \<Longrightarrow> load_down rt i w \<Longrightarrow> load_down rt i w'"
  shows "calm rt i (stop_done i k) s'"
  using assms(1,2)
proof cases
  case (requested q)
  then show ?thesis using assms(2) by (auto intro: calm_receive)
next
  case (worked w rest arrivals)
  have "calm rt i (stop_done i k) (s\<lparr>mc_queue := rest, mc_arrivals := arrivals\<rparr>)" "quiet i w"
    using assms(2) worked by (simp_all add: calm_def stop_done_def)
  from free_run_work [OF this] show ?thesis using worked by (simp add: run_head_def calm_arrivals)
next
  case (moved w)
  then show ?thesis using assms(2) world by (auto intro: calm_world calm_load)
qed

lemma held_step:
  assumes "machine_step rt moves (leaves_alone i) s s'" "calm rt i (stop_held i n False) s"
    and world: "\<And>w w'. moves w w' \<Longrightarrow> load_down rt i w \<Longrightarrow> load_down rt i w'"
  shows "after_stop i n s'"
  using assms(1,2)
proof cases
  case (requested q)
  then show ?thesis using assms(2) by (auto simp: after_stop_def intro: calm_receive)
next
  case (worked w rest arrivals)
  from assms(2) obtain before v after where q: "mc_queue s = before @ v # after" "releases i n v"
    "list_all (\<lambda>w. \<not> releases i n w) before" "list_all (quiet i) after"
    by (auto simp: calm_def stop_held_def waits_def)
  show ?thesis
  proof (cases before)
    case Nil
    then have "calm rt i (stop_held i n True) (s\<lparr>mc_queue := rest, mc_arrivals := arrivals\<rparr>)"
      using assms(2) worked q by (simp add: calm_def stop_held_def)
    from held_run_stop [OF this, of w] obtain k
      where "calm rt i (stop_done i k) (run_work rt w (s\<lparr>mc_queue := rest, mc_arrivals := arrivals\<rparr>))" ..
    from calm_arrivals [OF this, of "[]"] worked show ?thesis
      by (auto simp: after_stop_def run_head_def)
  next
    case (Cons w0 before')
    then have "waits i n rest" "\<not> releases i n w" using q worked by (auto simp: waits_def)
    then have "calm rt i (stop_held i n False) (s\<lparr>mc_queue := rest, mc_arrivals := arrivals\<rparr>)"
      using assms(2) worked by (simp add: calm_def stop_held_def)
    from held_run_other [OF this \<open>\<not> releases i n w\<close>] worked show ?thesis
      by (auto simp: after_stop_def run_head_def intro: calm_arrivals)
  qed
next
  case (moved w)
  then show ?thesis using assms(2) world by (auto simp: after_stop_def intro: calm_world calm_load)
qed

lemma after_stop_run:
  assumes "(machine_step rt moves (leaves_alone i))\<^sup>*\<^sup>* s s'" "after_stop i n s"
    and world: "\<And>w w'. moves w w' \<Longrightarrow> load_down rt i w \<Longrightarrow> load_down rt i w'"
  shows "after_stop i n s'"
  using assms(1,2)
  by (induction rule: rtranclp_induct) (auto simp: after_stop_def intro: done_step [OF _ _ world]
    dest: held_step [OF _ _ world])

lemma done_run:
  assumes "(machine_step rt moves (leaves_alone i))\<^sup>*\<^sup>* s s'" "calm rt i (stop_done i k) s"
    and world: "\<And>w w'. moves w w' \<Longrightarrow> load_down rt i w \<Longrightarrow> load_down rt i w'"
  shows "calm rt i (stop_done i k) s'"
  using assms(1,2) by (induction rule: rtranclp_induct) (auto intro: done_step [OF _ _ world])

end

subsection \<open>Sequences\<close>

definition sequences_ok :: "'w machine \<Rightarrow> bool" where
  "sequences_ok s \<longleftrightarrow> (\<forall>cw. CommandWork cw \<in> set (mc_queue s) \<longrightarrow> cw_sequence cw \<le> mc_sequence s)"

lemma store_frame [simp]:
  "mc_queue (snd (store_bindings rt bs s)) = mc_queue s" "mc_sequence (snd (store_bindings rt bs s)) = mc_sequence s"
  "mc_arrivals (snd (store_bindings rt bs s)) = mc_arrivals s"
  "mc_stopIntents (snd (store_bindings rt bs s)) = mc_stopIntents s"
  by (simp_all add: store_bindings_def Let_def log_event_def split: prod.splits)

lemma reload_frame [simp]:
  "mc_queue (snd (reload_if_required rt s)) = mc_queue s" "mc_sequence (snd (reload_if_required rt s)) = mc_sequence s"
  "mc_arrivals (snd (reload_if_required rt s)) = mc_arrivals s"
  "mc_stopIntents (snd (reload_if_required rt s)) = mc_stopIntents s"
  by (simp_all add: reload_if_required_def split: option.splits)

lemma andthen_frame:
  assumes "\<And>s. g (snd (m s)) = g s" "\<And>a s. g (snd (f a s)) = g s"
  shows "g (snd (andthen m f s)) = g s"
  using assms(1) [of s] assms(2) by (cases "m s"; cases "fst (m s)") (auto simp: andthen_def)

definition write_intents :: "'w supervisor_ports \<Rightarrow> ('w, unit) action" where
  "write_intents rt = andthen (reload_if_required rt) (\<lambda>_ s. store_bindings rt
     (map (\<lambda>b. if has (mc_stopIntents s) (cf_workspaceId b) then stopped b else b) (mc_bindings s)) s)"

lemma persist_intent_alt: "persist_intent rt ids n s0 =
    (let s = s0\<lparr>mc_stopIntents := fold (\<lambda>i m. map_set m i n) ids (mc_stopIntents s0)\<rparr>
     in case write_intents rt s of (Inl _, s1) \<Rightarrow> (False, release_intents ids n s1) | (Inr _, s1) \<Rightarrow> (True, s1))"
  by (simp add: persist_intent_def write_intents_def)

lemma write_intents_frame [simp]:
  "mc_queue (snd (write_intents rt s)) = mc_queue s" "mc_sequence (snd (write_intents rt s)) = mc_sequence s"
  "mc_arrivals (snd (write_intents rt s)) = mc_arrivals s" "mc_stopIntents (snd (write_intents rt s)) = mc_stopIntents s"
  unfolding write_intents_def by (rule andthen_frame; simp)+

lemma persist_frame [simp]:
  "mc_queue (snd (persist_intent rt ids n s)) = mc_queue s" "mc_sequence (snd (persist_intent rt ids n s)) = mc_sequence s"
  "mc_arrivals (snd (persist_intent rt ids n s)) = mc_arrivals s"
proof -
  let ?s = "s\<lparr>mc_stopIntents := fold (\<lambda>i m. map_set m i n) ids (mc_stopIntents s)\<rparr>"
  obtain r s1 where run: "write_intents rt ?s = (r, s1)" by fastforce
  then have "mc_queue s1 = mc_queue s" "mc_sequence s1 = mc_sequence s" "mc_arrivals s1 = mc_arrivals s"
    using write_intents_frame [of rt ?s] by simp_all
  then show "mc_queue (snd (persist_intent rt ids n s)) = mc_queue s"
    "mc_sequence (snd (persist_intent rt ids n s)) = mc_sequence s"
    "mc_arrivals (snd (persist_intent rt ids n s)) = mc_arrivals s"
    using run by (cases r; simp add: persist_intent_alt Let_def release_intents_def)+
qed

lemma fold_supersede_sequence [simp]: "mc_sequence (fold (supersede_one t n) ids s) = mc_sequence s"
  by (induction ids arbitrary: s) (simp_all add: supersede_one_def abort_work_def split: option.splits)

lemma supersede_sequence [simp]:
  "mc_sequence (snd (supersede ids t s)) = mc_sequence s + 1" "fst (supersede ids t s) = mc_sequence s + 1"
  by (simp_all add: supersede_def Let_def)

lemma fold_mark_sequence [simp]: "mc_sequence (fold mark_one ids s) = mc_sequence s"
  by (induction ids arbitrary: s) (simp_all add: mark_one_def)

lemma receive_frame:
  "mc_arrivals (receive rt q s) = mc_arrivals s" "mc_sequence s \<le> mc_sequence (receive rt q s)"
  "set (mc_queue (receive rt q s)) \<subseteq> set (mc_queue s) \<union>
    {w. \<forall>cw. w = CommandWork cw \<longrightarrow> cw_sequence cw \<le> mc_sequence (receive rt q s)}"
  by (cases q; auto simp: request_command_def enqueue_work_def Let_def split_def mark_one_def)+

lemma sequences_receive: "sequences_ok s \<Longrightarrow> sequences_ok (receive rt q s)"
  using receive_frame(2,3) [where s = s and rt = rt and q = q] unfolding sequences_ok_def by (blast intro: order_trans)

lemma sequences_await: "sequences_ok s \<Longrightarrow> sequences_ok (await rt s)"
proof -
  have "sequences_ok s \<Longrightarrow> sequences_ok (fold (receive rt) qs s)" for qs s
    by (induction qs arbitrary: s) (auto intro: sequences_receive)
  then show "sequences_ok s \<Longrightarrow> sequences_ok (await rt s)"
    by (auto simp: await_def sequences_ok_def split: list.splits)
qed

interpretation sequenced: machine_invariant rt sequences_ok "\<lambda>b. True" "\<lambda>j. True" for rt
  by unfold_locales (simp_all add: sequences_await, simp_all add: sequences_ok_def log_event_def)

lemma sequences_run_work: "sequences_ok s \<Longrightarrow> sequences_ok (run_work rt w s)"
  by (rule sequenced.run_work_keeps)
    (auto simp: sequences_ok_def sequenced.suits_def sequenced.admissible_def log_event_def release_intents_def
      enqueue_work_def split: work.splits)

lemma machine_step_ok:
  assumes "machine_step rt moves allowed s s'" "sequences_ok s \<and> mc_arrivals s = []"
  shows "sequences_ok s' \<and> mc_arrivals s' = []"
  using assms
proof cases
  case (requested q)
  then show ?thesis using assms(2) by (simp add: sequences_receive receive_frame)
next
  case (worked w rest arrivals)
  have "sequences_ok (s\<lparr>mc_queue := rest, mc_arrivals := arrivals\<rparr>)"
    using assms(2) worked by (simp add: sequences_ok_def)
  then have "sequences_ok (run_work rt w (s\<lparr>mc_queue := rest, mc_arrivals := arrivals\<rparr>))"
    by (rule sequences_run_work)
  then show ?thesis using worked by (simp add: run_head_def sequences_ok_def)
next
  case (moved w)
  then show ?thesis using assms(2) by (simp add: sequences_ok_def)
qed

lemma machine_run_ok:
  "(machine_step rt moves allowed)\<^sup>*\<^sup>* (new_machine w) s \<Longrightarrow> sequences_ok s \<and> mc_arrivals s = []"
  by (induction rule: rtranclp_induct)
    (simp add: new_machine_def sequences_ok_def, metis machine_step_ok)

subsection \<open>A stop is for good\<close>

lemma map_get_fold_set: "i \<in> set ids \<Longrightarrow> map_get (fold (\<lambda>j m. map_set m j n) ids m) i = Some n"
proof (induction ids arbitrary: m)
  case (Cons j ids)
  then show ?case using fold_set_other [of i ids n "map_set m j n"] by (cases "i \<in> set ids") auto
qed simp

context supervised
begin

lemma written_intents:
  assumes "write_intents rt s = (Inr u, s1)" "has (mc_stopIntents s) i"
  shows "down_in i (mc_bindings s1) \<and> load_down rt i (mc_world s1)"
proof -
  obtain r s0 where reload: "reload_if_required rt s = (r, s0)" by fastforce
  let ?bs = "map (\<lambda>b. if has (mc_stopIntents s0) (cf_workspaceId b) then stopped b else b) (mc_bindings s0)"
  obtain took w where saved: "sv_save rt ?bs (mc_world s0) = (took, w)" by fastforce
  have "has (mc_stopIntents s0) i" using reload_frame(4) [of rt s] reload assms(2) by (simp add: has_def)
  then have down: "down_in i ?bs" by (auto simp: down_in_def stays_down_def)
  have s1: "s1 = log_event (Saved ?bs) (s0\<lparr>mc_world := w, mc_bindings := ?bs\<rparr>)" "took"
    using assms(1) reload saved
    by (auto simp: write_intents_def andthen_def store_bindings_def Let_def split: sum.splits if_splits)
  show ?thesis using load_saved [OF saved down] down s1 by simp
qed

lemma stop_written:
  assumes "sequences_ok s" "mc_arrivals s = []" "i \<in> set (map cf_workspaceId (command_targets DoStop w s))"
    and s1: "s1 = receive rt (CommandRequest DoStop w r late) s" 
    and written: "last (mc_queue s1) = CommandWork cw" "cw_intentWritten cw"
  shows "after_stop i (mc_sequence s + 1) s1"
proof -
  let ?ids = "map cf_workspaceId (command_targets DoStop w s)" and ?n = "mc_sequence s + 1"
  let ?s = "snd (supersede ?ids ByStop s)"
  let ?si = "?s\<lparr>mc_stopIntents := fold (\<lambda>i m. map_set m i ?n) ?ids (mc_stopIntents ?s)\<rparr>"
  obtain res s0 where run: "write_intents rt ?si = (res, s0)" by fastforce
  let ?cw = "\<lparr>cw_command = DoStop, cw_workspaceId = w, cw_requestId = r, cw_sequence = ?n, cw_requested = ?ids,
    cw_intentWritten = fst (persist_intent rt ?ids ?n ?s), cw_late = late\<rparr>"
  have s1_eq: "s1 = enqueue_work (CommandWork ?cw) (snd (persist_intent rt ?ids ?n ?s))"
    using s1 by (simp add: request_command_def Let_def split_def)
  have intents: "map_get (mc_stopIntents s0) i = Some ?n"
    using run write_intents_frame(4) [of rt ?si] assms(3) map_get_fold_set [of i ?ids ?n] by simp
  have ok: "\<exists>u. res = Inr u"
  proof (rule ccontr)
    assume "\<not> ?thesis"
    then obtain e where "res = Inl e" by (cases res) auto
    then have "\<not> fst (persist_intent rt ?ids ?n ?s)" using run by (simp add: persist_intent_alt Let_def)
    then show False using written s1_eq by (auto simp: enqueue_work_def)
  qed
  then obtain u where res: "res = Inr u" ..
  have "has (mc_stopIntents ?si) i" using assms(3) map_get_fold_set [of i ?ids ?n] by (simp add: has_def)
  from written_intents [OF run [unfolded res] this]
  have down: "down_in i (mc_bindings s0)" "load_down rt i (mc_world s0)" by auto
  have persisted: "snd (persist_intent rt ?ids ?n ?s) = s0" using run res by (simp add: persist_intent_alt Let_def)
  have queue: "mc_queue s0 = mc_queue s" "mc_arrivals s0 = []"
    using run write_intents_frame(1,3) [of rt ?si] assms(2) by simp_all
  have "waits i ?n (mc_queue s @ [CommandWork ?cw])"
    unfolding waits_def
  proof (intro exI conjI)
    show "mc_queue s @ [CommandWork ?cw] = mc_queue s @ CommandWork ?cw # []" by simp
    show "releases i ?n (CommandWork ?cw)" using assms(3) by (simp add: releases_def)
    show "list_all (\<lambda>w. \<not> releases i ?n w) (mc_queue s)"
      using assms(1) by (fastforce simp: sequences_ok_def releases_def list_all_iff)
  qed simp
  then have "calm rt i (stop_held i ?n False) s1"
    unfolding s1_eq persisted using down intents queue by (simp add: calm_def stop_held_def enqueue_work_def)
  then show ?thesis by (simp add: after_stop_def)
qed

lemma stop_is_for_good:
  assumes "sequences_ok s" "mc_arrivals s = []" "i \<in> set (map cf_workspaceId (command_targets DoStop w s))"
    "s1 = receive rt (CommandRequest DoStop w r late) s" "last (mc_queue s1) = CommandWork cw" "cw_intentWritten cw"
    and run: "(machine_step rt moves (leaves_alone i))\<^sup>*\<^sup>* s1 s2"
    and world: "\<And>w w'. moves w w' \<Longrightarrow> load_down rt i w \<Longrightarrow> load_down rt i w'"
  shows "down_in i (mc_bindings s2) \<and> load_down rt i (mc_world s2) \<and>
    (\<not> (\<exists>v \<in> set (mc_queue s2). releases i (mc_sequence s + 1) v) \<longrightarrow>
      (\<forall>s3. (machine_step rt moves (leaves_alone i))\<^sup>*\<^sup>* s2 s3 \<longrightarrow> starts i (mc_log s3) = starts i (mc_log s2)))"
proof -
  have "after_stop i (mc_sequence s + 1) s2"
    by (rule after_stop_run [OF run stop_written [OF assms(1-6)] world])
  then consider "calm rt i (stop_held i (mc_sequence s + 1) False) s2" | k where "calm rt i (stop_done i k) s2"
    by (auto simp: after_stop_def)
  then show ?thesis
  proof cases
    case 1
    then show ?thesis by (auto simp: calm_def stop_held_def waits_def)
  next
    case 2
    have "starts i (mc_log s3) = k" if "(machine_step rt moves (leaves_alone i))\<^sup>*\<^sup>* s2 s3" for s3
      using done_run [OF that 2 world] by (simp add: calm_def stop_done_def)
    with 2 show ?thesis by (auto simp: calm_def stop_done_def)
  qed
qed

end

subsection \<open>Parked\<close>

fun no_configure :: "string \<Rightarrow> request \<Rightarrow> bool" where
  "no_configure i (ConfigureRequest config late) \<longleftrightarrow> cf_workspaceId config \<noteq> i"
| "no_configure i _ \<longleftrightarrow> True"

fun never_configures :: "string \<Rightarrow> work \<Rightarrow> bool" where
  "never_configures i (ConfigureWork config late) \<longleftrightarrow> cf_workspaceId config \<noteq> i"
| "never_configures i _ \<longleftrightarrow> True"

definition stays_parked :: "'w supervisor_ports \<Rightarrow> string \<Rightarrow> nat \<Rightarrow> 'w machine \<Rightarrow> bool" where
  "stays_parked rt i k s \<longleftrightarrow> is_parked rt i (mc_world s) \<and> list_all (list_all (no_configure i)) (mc_arrivals s) \<and>
     list_all (never_configures i) (mc_queue s) \<and> starts i (mc_log s) = k"

context supervised
begin

lemma parked_store: "stays_parked rt i k s \<Longrightarrow> stays_parked rt i k (snd (store_bindings rt bs s))"
  using parked_saved [of i "mc_world s" bs]
  by (auto simp: stays_parked_def store_bindings_def Let_def split: prod.splits)

lemma parked_reload: "stays_parked rt i k (snd (reload_if_required rt s)) = stays_parked rt i k s"
  by (simp add: stays_parked_def reload_if_required_def split: option.splits)

lemma parked_intents:
  assumes "stays_parked rt i k s"
  shows "stays_parked rt i k (snd (write_intents rt s))"
proof -
  obtain r s1 where reload: "reload_if_required rt s = (r, s1)" by fastforce
  then have "stays_parked rt i k s1" using assms parked_reload [of i k s] by simp
  from this parked_store [OF this] show ?thesis
    by (cases r) (simp_all add: write_intents_def andthen_def reload)
qed

lemma parked_persist:
  assumes "stays_parked rt i k s"
  shows "stays_parked rt i k (snd (persist_intent rt ids n s))"
proof -
  let ?s = "s\<lparr>mc_stopIntents := fold (\<lambda>i m. map_set m i n) ids (mc_stopIntents s)\<rparr>"
  obtain r s1 where run: "write_intents rt ?s = (r, s1)" by fastforce
  have "stays_parked rt i k ?s" using assms by (simp add: stays_parked_def)
  then have "stays_parked rt i k s1" using parked_intents [of i k ?s] run by simp
  then show ?thesis using run by (cases r) (simp_all add: persist_intent_alt Let_def stays_parked_def)
qed

lemma parked_enqueue: "stays_parked rt i k s \<Longrightarrow> never_configures i w \<Longrightarrow> stays_parked rt i k (enqueue_work w s)"
  by (simp add: stays_parked_def enqueue_work_def)

lemma parked_bookkeeping [simp]:
  "stays_parked rt i k (mark_one j s) = stays_parked rt i k s"
  "stays_parked rt i k (fold mark_one js s) = stays_parked rt i k s"
  "stays_parked rt i k (snd (supersede ids t s)) = stays_parked rt i k s"
  "stays_parked rt i k (s\<lparr>mc_paused := x\<rparr>) = stays_parked rt i k s"
  "stays_parked rt i k (s\<lparr>mc_sequence := n\<rparr>) = stays_parked rt i k s"
  by (simp_all add: stays_parked_def)

lemma parked_receive: "stays_parked rt i k s \<Longrightarrow> no_configure i q \<Longrightarrow> stays_parked rt i k (receive rt q s)"
  by (cases q) (auto intro!: parked_enqueue parked_persist simp: request_command_def Let_def split_def)

lemma parked_await:
  assumes "stays_parked rt i k s"
  shows "stays_parked rt i k (await rt s)"
proof -
  have "stays_parked rt i k (fold (receive rt) qs s')" if "stays_parked rt i k s'" "list_all (no_configure i) qs" for qs s'
    using that by (induction qs arbitrary: s') (auto intro: parked_receive)
  moreover have "stays_parked rt i k (s\<lparr>mc_arrivals := later\<rparr>)" "list_all (no_configure i) batch"
    if "mc_arrivals s = batch # later" for batch later
    using assms that by (auto simp: stays_parked_def)
  ultimately show ?thesis using assms by (auto simp: await_def split: list.splits)
qed

end

sublocale supervised < parked: machine_invariant rt "stays_parked rt i k" "\<lambda>b. True" "\<lambda>j. j \<noteq> i" for i k
proof unfold_locales
  fix s b assume "stays_parked rt i k s" "sv_parkedReason rt b (mc_world s) = None"
  then show "cf_workspaceId b \<noteq> i" by (auto simp: stays_parked_def is_parked_def)
qed (auto intro: parked_await parked_store parked_moved parked_started parked_cleared simp: parked_reload,
    auto simp: stays_parked_def intro: parked_moved parked_started parked_cleared)

context supervised
begin

lemma parked_run_work:
  assumes "stays_parked rt i k s" "never_configures i w"
  shows "stays_parked rt i k (run_work rt w s)"
proof -
  have "parked.suits i k w" using assms(2)
    by (cases w) (auto simp: parked.suits_def parked.admissible_def stays_parked_def is_parked_def)
  then show ?thesis
    by (rule parked.run_work_keeps [OF assms(1)]) (auto simp: stays_parked_def enqueue_work_def)
qed

lemma parked_step:
  assumes "machine_step rt moves (no_configure i) s s'" "stays_parked rt i k s"
    and world: "\<And>w w'. moves w w' \<Longrightarrow> is_parked rt i w \<Longrightarrow> is_parked rt i w'"
  shows "stays_parked rt i k s'"
  using assms(1,2)
proof cases
  case (requested q)
  then show ?thesis using assms(2) by (auto intro: parked_receive)
next
  case (worked w rest arrivals)
  have "stays_parked rt i k (s\<lparr>mc_queue := rest, mc_arrivals := arrivals\<rparr>)" "never_configures i w"
    using assms(2) worked by (simp_all add: stays_parked_def)
  from parked_run_work [OF this] show ?thesis using worked by (simp add: run_head_def stays_parked_def)
next
  case (moved w)
  then show ?thesis using assms(2) world by (auto simp: stays_parked_def)
qed

lemma parked_run:
  assumes "(machine_step rt moves (no_configure i))\<^sup>*\<^sup>* s s'" "stays_parked rt i k s"
    and world: "\<And>w w'. moves w w' \<Longrightarrow> is_parked rt i w \<Longrightarrow> is_parked rt i w'"
  shows "stays_parked rt i k s'"
  using assms(1,2) by (induction rule: rtranclp_induct) (auto intro: parked_step [OF _ _ world])

end

end
