(* ===== verification/Coordinator.thy ===== *)
theory Coordinator
  imports MachineProperties
begin

text \<open>
  The Coordinator that runs the supervisor, \<open>packages/daemon/src/supervisor/run-supervisor.ts\<close>: the ports it
  gives the supervisor over the registry file and the Workspaces' health journals. The processes
  behind it are functions over a world of their own; a process may park its Workspace between
  calls. The supervisor's guarantees are stated over these ports.
\<close>

subsection \<open>The ports\<close>

record 'p coordinator_world =
  kw_file :: registry_file
  kw_disk :: "disk_outcome list"
  kw_health :: "string \<Rightarrow> health_file"
  kw_process :: 'p

text \<open>
  \<open>pe_start\<close> is the rest of a start once the health was read: the unit started, its handshake awaited.
  \<open>pe_parks\<close> are the Workspaces whose processes wrote a park since the last call.
\<close>

record 'p process_env =
  pe_start :: "child_config \<Rightarrow> takeover option \<Rightarrow> 'p \<Rightarrow> (lifecycle_error + string) \<times> 'p"
  pe_stop :: "managed_binding \<Rightarrow> 'p \<Rightarrow> (lifecycle_error + unit) \<times> 'p"
  pe_instance :: "managed_binding \<Rightarrow> 'p \<Rightarrow> (lifecycle_error + string option) \<times> 'p"
  pe_hold :: "managed_binding \<Rightarrow> 'p \<Rightarrow> (string + hold_snapshot) \<times> 'p"
  pe_release :: "managed_binding \<Rightarrow> 'p \<Rightarrow> 'p"
  pe_settle :: "string \<Rightarrow> string \<Rightarrow> int \<Rightarrow> 'p \<Rightarrow> (upgrade_state \<times> upgrade_terminal) option \<times> 'p"
  pe_now :: "'p \<Rightarrow> int"
  pe_sleep :: "int \<Rightarrow> 'p \<Rightarrow> 'p"
  pe_uuid :: "'p \<Rightarrow> string \<times> 'p"
  pe_parks :: "'p \<Rightarrow> (string \<times> rejection_reason) list"
  pe_message :: "lifecycle_error \<Rightarrow> string"

definition park_journal :: "int \<Rightarrow> string \<times> rejection_reason \<Rightarrow> (string \<Rightarrow> health_file) \<Rightarrow> string \<Rightarrow> health_file" where
  "park_journal now p h = (case markParked True (snd p) now (h (fst p)) of None \<Rightarrow> h | Some f \<Rightarrow> h(fst p := f))"

text \<open>The processes have moved on to \<open>p\<close>, and some have parked meanwhile.\<close>

definition process_moves :: "'p process_env \<Rightarrow> 'p \<Rightarrow> 'p coordinator_world \<Rightarrow> 'p coordinator_world" where
  "process_moves env p k = k\<lparr>kw_process := p, kw_health := fold (park_journal (pe_now env p)) (pe_parks env p) (kw_health k)\<rparr>"

definition port_of :: "'p process_env \<Rightarrow> ('p \<Rightarrow> 'a \<times> 'p) \<Rightarrow> 'p coordinator_world \<Rightarrow> 'a \<times> 'p coordinator_world" where
  "port_of env f k = (let (r, p) = f (kw_process k) in (r, process_moves env p k))"

definition next_disk :: "'p coordinator_world \<Rightarrow> disk_outcome \<times> 'p coordinator_world" where
  "next_disk k = (case kw_disk k of [] \<Rightarrow> (DiskWrites, k) | d # ds \<Rightarrow> (d, k\<lparr>kw_disk := ds\<rparr>))"

definition health_now :: "'p process_env \<Rightarrow> 'p coordinator_world \<Rightarrow> string \<Rightarrow> health_state" where
  "health_now env k i = health (pe_now env (kw_process k)) (kw_health k i)"

definition start_process_of ::
  "'p process_env \<Rightarrow> managed_binding \<Rightarrow> takeover option \<Rightarrow> 'p coordinator_world \<Rightarrow>
   (lifecycle_error + string) \<times> 'p coordinator_world"
where
  "start_process_of env b taken k =
     (case health_now env k (cf_workspaceId b) of
        Degraded reason _ _ \<Rightarrow> (Inl (PortFailed reason), k)
      | _ \<Rightarrow> port_of env (pe_start env (buildChildConfig b) taken) k)"

definition parkReason :: "'p process_env \<Rightarrow> managed_binding \<Rightarrow> 'p coordinator_world \<Rightarrow> rejection_reason option" where
  "parkReason env b k =
     (case health_now env k (cf_workspaceId b) of Parked reason _ \<Rightarrow> Some reason | _ \<Rightarrow> None)"

definition journal_write ::
  "(bool \<Rightarrow> health_file \<Rightarrow> health_file option) \<Rightarrow> string \<Rightarrow> 'p coordinator_world \<Rightarrow>
   (lifecycle_error + unit) \<times> 'p coordinator_world"
where
  "journal_write f i k0 =
     (let (disk, k) = next_disk k0
      in case f (disk = DiskWrites) (kw_health k i) of
          None \<Rightarrow> (Inl StoreFailed, k)
        | Some h \<Rightarrow> (Inr (), k\<lparr>kw_health := (kw_health k)(i := h)\<rparr>))"

definition registry_save ::
  "(string \<Rightarrow> string option) \<Rightarrow> string option \<Rightarrow> managed_binding list \<Rightarrow> 'p coordinator_world \<Rightarrow>
   bool \<times> 'p coordinator_world"
where
  "registry_save origin expected bs k0 =
     (let (disk, k) = next_disk k0; (took, f) = save_bindings origin expected disk bs (kw_file k)
      in (took, k\<lparr>kw_file := f\<rparr>))"

definition coordinator_ports ::
  "(string \<Rightarrow> string option) \<Rightarrow> string option \<Rightarrow> 'p process_env \<Rightarrow> 'p coordinator_world supervisor_ports"
where
  "coordinator_ports origin expected env = \<lparr>
     sv_load = (\<lambda>k. load_bindings origin expected (pe_now env (kw_process k)) (kw_file k)),
     sv_save = registry_save origin expected,
     sv_start = start_process_of env,
     sv_stop = (\<lambda>b. port_of env (pe_stop env b)),
     sv_instance = (\<lambda>b. port_of env (pe_instance env b)),
     sv_hold = (\<lambda>b. port_of env (pe_hold env b)),
     sv_release = (\<lambda>b k. process_moves env (pe_release env b (kw_process k)) k),
     sv_clearHealth = (\<lambda>b. journal_write clear_health (cf_workspaceId b)),
     sv_parkedReason = parkReason env,
     sv_clearParked = (\<lambda>b. journal_write clearParked (cf_workspaceId b)),
     sv_settle = (\<lambda>i j n. port_of env (pe_settle env i j n)),
     sv_now = (\<lambda>k. pe_now env (kw_process k)),
     sv_sleep = (\<lambda>ms k. process_moves env (pe_sleep env ms (kw_process k)) k),
     sv_uuid = port_of env (pe_uuid env),
     sv_message = pe_message env\<rparr>"

text \<open>The processes move by themselves.\<close>

definition processes_move :: "'p process_env \<Rightarrow> 'p coordinator_world \<Rightarrow> 'p coordinator_world \<Rightarrow> bool" where
  "processes_move env k k' \<longleftrightarrow> (\<exists>p. k' = process_moves env p k)"

subsection \<open>Their laws\<close>

lemma parkReason_iff: "parkReason env b k \<noteq> None \<longleftrightarrow> hr_parked (read_health (kw_health k (cf_workspaceId b))) \<noteq> None"
  by (auto simp: parkReason_def health_now_def health_def health_of_def split: option.splits)

definition journal_parked :: "string \<Rightarrow> (string \<Rightarrow> health_file) \<Rightarrow> bool" where
  "journal_parked i h \<longleftrightarrow> hr_parked (read_health (h i)) \<noteq> None"

lemma is_parked_iff: "is_parked (coordinator_ports origin expected env) i k \<longleftrightarrow> journal_parked i (kw_health k)"
proof
  assume "is_parked (coordinator_ports origin expected env) i k"
  then have "sv_parkedReason (coordinator_ports origin expected env) (sample_binding\<lparr>cf_workspaceId := i\<rparr>) k \<noteq> None"
    by (simp add: is_parked_def)
  then show "journal_parked i (kw_health k)"
    using parkReason_iff [of env "sample_binding\<lparr>cf_workspaceId := i\<rparr>" k]
    by (simp add: coordinator_ports_def journal_parked_def)
next
  assume parked: "journal_parked i (kw_health k)"
  have "sv_parkedReason (coordinator_ports origin expected env) b k \<noteq> None" if "cf_workspaceId b = i" for b
    using parkReason_iff [of env b k] parked that by (simp add: coordinator_ports_def journal_parked_def)
  then show "is_parked (coordinator_ports origin expected env) i k" by (simp add: is_parked_def)
qed

lemma fold_park_parked: "journal_parked i h \<Longrightarrow> journal_parked i (fold (park_journal now) ps h)"
proof (induction ps arbitrary: h)
  case (Cons p ps)
  then have "journal_parked i (park_journal now p h)"
    by (auto simp: park_journal_def journal_parked_def markParked_def)
  then show ?case using Cons.IH by simp
qed simp

lemma process_moves_simps [simp]:
  "kw_file (process_moves env p k) = kw_file k" "kw_file (snd (port_of env f k)) = kw_file k"
  "kw_file (snd (journal_write g i k)) = kw_file k" "kw_file (snd (next_disk k)) = kw_file k"
  "kw_health (snd (next_disk k)) = kw_health k"
  "kw_file (snd (start_process_of env b taken k)) = kw_file k"
  by (auto simp: process_moves_def port_of_def journal_write_def next_disk_def start_process_of_def Let_def
    split: prod.splits list.splits option.splits health_state.splits)


text \<open>What a registry file leaves down is so whenever it is read: reading it only migrates upgrades.\<close>

definition file_down :: "(string \<Rightarrow> string option) \<Rightarrow> string option \<Rightarrow> string \<Rightarrow> registry_file \<Rightarrow> bool" where
  "file_down origin expected i f \<longleftrightarrow> (\<forall>now bs. load_bindings origin expected now f = Some bs \<longrightarrow> down_in i bs)"

lemma stays_down_migrate [simp]: "stays_down i (migrateLegacyUpgradeRequests now b) = stays_down i b"
  by (simp add: stays_down_def migrateLegacyUpgradeRequests_def Let_def split: option.splits)

lemma down_in_migrate [simp]: "down_in i (map (migrateLegacyUpgradeRequests now) bs) = down_in i bs"
  by (simp add: down_in_def)

lemma load_any_time:
  assumes "load_bindings origin expected now f = Some bs"
  shows "\<exists>bs'. load_bindings origin expected now' f = Some bs' \<and> (down_in i bs \<longleftrightarrow> down_in i bs')"
  using assms by (auto simp: load_bindings_def split: option.splits if_splits)

lemma load_down_iff: "load_down (coordinator_ports origin expected env) i k \<longleftrightarrow> file_down origin expected i (kw_file k)"
proof
  assume down: "load_down (coordinator_ports origin expected env) i k"
  show "file_down origin expected i (kw_file k)"
    unfolding file_down_def
  proof (intro allI impI)
    fix now bs assume "load_bindings origin expected now (kw_file k) = Some bs"
    from load_any_time [OF this, of "pe_now env (kw_process k)" i] down show "down_in i bs"
      by (auto simp: load_down_def coordinator_ports_def)
  qed
qed (simp add: load_down_def file_down_def coordinator_ports_def)

lemma saved_file_down:
  assumes "save_bindings origin expected disk bs f = (took, f')" "down_in i bs" "took \<or> file_down origin expected i f"
  shows "file_down origin expected i f'"
proof -
  have "down_in i bs'" if "validateBindings bs" "load_bindings origin expected now (Some (registry_json bs)) = Some bs'" for now bs'
  proof -
    have "json_list parse_binding (registry_json bs) = Some bs"
      using that(1) unfolding registry_json_def
      by (intro json_list_written parse_binding_written) (auto simp: validateBindings_def list_all_iff valid_binding_def)
    then show ?thesis using that(2) assms(2) by (auto simp: load_bindings_def split: if_splits)
  qed
  then show ?thesis using assms by (auto simp: save_bindings_def file_down_def split: if_splits disk_outcome.splits)
qed

lemma next_disk_eq: "next_disk k = (d, k') \<Longrightarrow> kw_file k' = kw_file k \<and> kw_health k' = kw_health k"
  using process_moves_simps(4,5) [of k] by simp

lemma journal_write_parked:
  assumes "journal_parked i (kw_health k)" "j \<noteq> i"
  shows "journal_parked i (kw_health (snd (journal_write g j k)))"
  using assms by (auto simp: journal_write_def journal_parked_def Let_def split: prod.splits option.splits dest!: next_disk_eq)

lemma cleared_health_parked:
  assumes "journal_parked i (kw_health k)"
  shows "journal_parked i (kw_health (snd (journal_write clear_health j k)))"
  using assms by (auto simp: journal_write_def journal_parked_def clear_health_def clear_latches_def Let_def
    split: prod.splits option.splits dest!: next_disk_eq)

lemma moved_parked: "journal_parked i (kw_health k) \<Longrightarrow> journal_parked i (kw_health (process_moves env p k))"
  by (simp add: process_moves_def fold_park_parked)

lemma port_parked: "journal_parked i (kw_health k) \<Longrightarrow> journal_parked i (kw_health (snd (port_of env f k)))"
  by (simp add: port_of_def moved_parked split: prod.splits)

lemma coordinator_moves:
  assumes "port_moves (coordinator_ports origin expected env) k k'"
  shows "kw_file k' = kw_file k \<and> (journal_parked i (kw_health k) \<longrightarrow> journal_parked i (kw_health k'))"
  using assms
  by cases (simp_all add: coordinator_ports_def moved_parked port_parked cleared_health_parked)

lemma coordinator_save:
  assumes "sv_save (coordinator_ports origin expected env) bs k = (took, k')"
  shows "kw_health k' = kw_health k \<and>
    (\<exists>disk. save_bindings origin expected disk bs (kw_file k) = (took, kw_file k'))"
  using assms by (auto simp: coordinator_ports_def registry_save_def Let_def split: prod.splits dest!: next_disk_eq)

lemma coordinator_load_moved:
  "port_moves (coordinator_ports origin expected env) k k' \<Longrightarrow> load_down (coordinator_ports origin expected env) i k \<Longrightarrow>
   load_down (coordinator_ports origin expected env) i k'"
  by (drule coordinator_moves [where i = i]) (simp add: load_down_iff)

lemma coordinator_parked_moved:
  "port_moves (coordinator_ports origin expected env) k k' \<Longrightarrow> is_parked (coordinator_ports origin expected env) i k \<Longrightarrow>
   is_parked (coordinator_ports origin expected env) i k'"
  by (drule coordinator_moves [where i = i]) (simp add: is_parked_iff)

lemma coordinator_start_file: "kw_file (snd (sv_start (coordinator_ports origin expected env) b taken k)) = kw_file k"
  by (simp add: coordinator_ports_def)

lemma coordinator_clear_file: "kw_file (snd (sv_clearParked (coordinator_ports origin expected env) b k)) = kw_file k"
  by (simp add: coordinator_ports_def)

lemma coordinator_parked_cleared:
  "is_parked (coordinator_ports origin expected env) i k \<Longrightarrow> cf_workspaceId b \<noteq> i \<Longrightarrow>
   is_parked (coordinator_ports origin expected env) i (snd (sv_clearParked (coordinator_ports origin expected env) b k))"
  unfolding is_parked_iff by (simp add: coordinator_ports_def journal_write_parked)

interpretation coordinator: supervised "coordinator_ports origin expected env" for origin expected env
proof unfold_locales
  fix bs i k took k'
  assume "sv_save (coordinator_ports origin expected env) bs k = (took, k')" "down_in i bs"
    "took \<or> load_down (coordinator_ports origin expected env) i k"
  then show "load_down (coordinator_ports origin expected env) i k'"
    using coordinator_save saved_file_down by (metis load_down_iff)
next
  fix i k bs
  assume "is_parked (coordinator_ports origin expected env) i k"
  then show "is_parked (coordinator_ports origin expected env) i (snd (sv_save (coordinator_ports origin expected env) bs k))"
    using coordinator_save [of origin expected env bs k] unfolding is_parked_iff by (metis prod.collapse)
next
  fix i k b taken
  assume "is_parked (coordinator_ports origin expected env) i k"
  then show "is_parked (coordinator_ports origin expected env) i (snd (sv_start (coordinator_ports origin expected env) b taken k))"
    unfolding is_parked_iff
    by (auto simp: coordinator_ports_def start_process_of_def port_parked split: health_state.splits)
qed (simp_all add: load_down_iff coordinator_start_file coordinator_clear_file coordinator_parked_cleared,
    auto intro: coordinator_parked_moved dest: coordinator_moves)

end
