(* ===== verification/SupervisorProperties.thy ===== *)
theory SupervisorProperties
  imports Coordinator
begin

text \<open>
  What the Coordinator guarantees of its Workspaces in every run, from the supervisor's invariants over
  the Coordinator's ports: a stop is for good, a park holds, and the registry on disk is never lost.
\<close>

subsection \<open>A computer to run on\<close>

text \<open>
  Its processes are a clock and the Workspaces that run, each with an instance named by the time it
  started; nothing parks, and no Agent is busy.
\<close>

definition sample_env :: "(nat \<times> string list) process_env" where
  "sample_env = \<lparr>
     pe_start = (\<lambda>config taken (t, ws). (Inr (digits_of t), (t + 1, cf_workspaceId config # ws))),
     pe_stop = (\<lambda>b (t, ws). (Inr (), (t + 1, filter (\<lambda>w. w \<noteq> cf_workspaceId b) ws))),
     pe_instance = (\<lambda>b (t, ws). (Inr (if cf_workspaceId b \<in> set ws then Some ''old'' else None), (t, ws))),
     pe_hold = (\<lambda>b p. (Inr nothing_held, p)),
     pe_release = (\<lambda>b p. p),
     pe_settle = (\<lambda>w i at p. (None, p)),
     pe_now = (\<lambda>p. int (fst p)),
     pe_sleep = (\<lambda>ms p. (fst p + nat ms, snd p)),
     pe_uuid = (\<lambda>p. (''uuid'', p)),
     pe_parks = (\<lambda>p. []),
     pe_message = (\<lambda>e. ''error'')\<rparr>"

definition sample_world :: "managed_binding list \<Rightarrow> (nat \<times> string list) coordinator_world" where
  "sample_world bs = \<lparr>kw_file = Some (registry_json bs), kw_disk = [], kw_health = (\<lambda>i. None), kw_process = (7, [])\<rparr>"

abbreviation sample_ports :: "(nat \<times> string list) coordinator_world supervisor_ports" where
  "sample_ports \<equiv> coordinator_ports (\<lambda>u. Some u) None sample_env"

definition plain_binding :: managed_binding where
  "plain_binding = \<lparr>cf_workspaceId = ''w'', cf_computerId = ''c'', cf_workspaceRoot = ''/root'', cf_serverHttpUrl = None,
     mb_enabled = True, mb_restart = None, mb_restartResults = None, mb_upgradeRequestIds = None,
     mb_upgradeRequests = None, mb_upgradeOperations = None, mb_lastFailure = None\<rparr>"

definition recovered :: "'p process_env \<Rightarrow> bool \<Rightarrow> 'p coordinator_world machine \<Rightarrow> 'p coordinator_world machine" where
  "recovered env paused s = run_head (coordinator_ports (\<lambda>u. Some u) None env) []
     (receive (coordinator_ports (\<lambda>u. Some u) None env) (RecoverRequest paused) s)"

definition sample_recovered :: "(nat \<times> string list) coordinator_world machine" where
  "sample_recovered = recovered sample_env False (new_machine (sample_world [plain_binding]))"


subsection \<open>Stopped and parked\<close>

lemma processes_move_down:
  "processes_move env k k' \<Longrightarrow> load_down (coordinator_ports origin expected env) i k \<Longrightarrow>
   load_down (coordinator_ports origin expected env) i k'"
  by (auto simp: processes_move_def load_down_iff)

lemma processes_move_parked:
  "processes_move env k k' \<Longrightarrow> is_parked (coordinator_ports origin expected env) i k \<Longrightarrow>
   is_parked (coordinator_ports origin expected env) i k'"
  by (auto simp: processes_move_def is_parked_iff intro: moved_parked)

lemma coordinator_stop:
  assumes "(machine_step (coordinator_ports origin expected env) (processes_move env) (\<lambda>q. True))\<^sup>*\<^sup>* (new_machine k) s"
    and "i \<in> set (map cf_workspaceId (command_targets DoStop w s))"
    and "s1 = receive (coordinator_ports origin expected env) (CommandRequest DoStop w r late) s"
    and "last (mc_queue s1) = CommandWork cw" "cw_intentWritten cw"
    and "(machine_step (coordinator_ports origin expected env) (processes_move env) (leaves_alone i))\<^sup>*\<^sup>* s1 s2"
  shows "down_in i (mc_bindings s2) \<and>
    (\<forall>now bs. load_bindings origin expected now (kw_file (mc_world s2)) = Some bs \<longrightarrow> down_in i bs) \<and>
    (\<not> (\<exists>v \<in> set (mc_queue s2). releases i (mc_sequence s + 1) v) \<longrightarrow>
      (\<forall>s3. (machine_step (coordinator_ports origin expected env) (processes_move env) (leaves_alone i))\<^sup>*\<^sup>* s2 s3 \<longrightarrow>
        starts i (mc_log s3) = starts i (mc_log s2)))"
proof -
  have ok: "sequences_ok s" "mc_arrivals s = []" using machine_run_ok [OF assms(1)] by simp_all
  show ?thesis
    by (rule coordinator.stop_is_for_good [OF ok assms(2-6), unfolded load_down_iff file_down_def])
      (auto simp: processes_move_def)
qed

text \<open>
  C5: A stop is for good. Whatever requests have come before, whatever arrives in the middle of the work
  under way, whatever the processes do, and even when the disk fails later: once a stop that targets a
  Workspace has been written, then for as long as only requests that leave the Workspace alone are
  taken, it is disabled with no restart in progress, both in memory and in whatever a new Coordinator
  would load from disk, although older work of the Workspace may still save it; and once no turn of
  that stop is left, its process is never started again, by queued starts, restarts, recoveries,
  resumes or reconciles.
\<close>
theorem stopped_workspace_stays_stopped:
  assumes "(machine_step (coordinator_ports origin expected env) (processes_move env) (\<lambda>q. True))\<^sup>*\<^sup>* (new_machine k) s"
    and "i \<in> set (map cf_workspaceId (command_targets DoStop w s))"
    and "s1 = receive (coordinator_ports origin expected env) (CommandRequest DoStop w r late) s"
    and "last (mc_queue s1) = CommandWork cw" "cw_intentWritten cw"
    and "(machine_step (coordinator_ports origin expected env) (processes_move env) (leaves_alone i))\<^sup>*\<^sup>* s1 s2"
  shows "down_in i (mc_bindings s2) \<and>
    (\<forall>now bs. load_bindings origin expected now (kw_file (mc_world s2)) = Some bs \<longrightarrow> down_in i bs) \<and>
    (\<not> (\<exists>v \<in> set (mc_queue s2). releases i (mc_sequence s + 1) v) \<longrightarrow>
      (\<forall>s3. (machine_step (coordinator_ports origin expected env) (processes_move env) (leaves_alone i))\<^sup>*\<^sup>* s2 s3 \<longrightarrow>
        starts i (mc_log s3) = starts i (mc_log s2)))"
  by (rule coordinator_stop [OF assms])

definition sample_stopping :: "(nat \<times> string list) coordinator_world machine" where
  "sample_stopping = receive sample_ports (CommandRequest DoStop None None False) sample_recovered"

definition sample_stopped :: "(nat \<times> string list) coordinator_world machine" where
  "sample_stopped = run_head sample_ports [[ResumeRequest]] sample_stopping"

definition sample_resumed :: "(nat \<times> string list) coordinator_world machine" where
  "sample_resumed = run_head sample_ports [] sample_stopped"

lemma sample_recovered_reached:
  "(machine_step sample_ports (processes_move sample_env) (\<lambda>q. True))\<^sup>*\<^sup>* (new_machine (sample_world [plain_binding]))
    sample_recovered"
proof -
  let ?s = "receive sample_ports (RecoverRequest False) (new_machine (sample_world [plain_binding]))"
  have queue: "mc_queue ?s = [RecoverWork False]" by (simp add: enqueue_work_def new_machine_def)
  have "machine_step sample_ports (processes_move sample_env) (\<lambda>q. True) (new_machine (sample_world [plain_binding])) ?s"
    by (rule machine_step.requested) simp
  moreover have "machine_step sample_ports (processes_move sample_env) (\<lambda>q. True) ?s (run_head sample_ports [] ?s)"
    by (rule machine_step.worked [OF queue]) simp
  ultimately show ?thesis unfolding sample_recovered_def recovered_def
    by (rule rtranclp.rtrancl_into_rtrancl [OF r_into_rtranclp])
qed

theorem stopped_workspace_stays_stopped_witness:
  "down_in ''w'' (mc_bindings sample_stopped) \<and> starts ''w'' (mc_log sample_stopped) = 1 \<and>
   starts ''w'' (mc_log sample_resumed) = starts ''w'' (mc_log sample_stopped)"
proof -
  have target: "''w'' \<in> set (map cf_workspaceId (command_targets DoStop None sample_recovered))" by code_simp
  have written: "last (mc_queue sample_stopping) = CommandWork \<lparr>cw_command = DoStop, cw_workspaceId = None,
      cw_requestId = None, cw_sequence = 1, cw_requested = [''w''], cw_intentWritten = True, cw_late = False\<rparr>"
    by code_simp
  have run: "(machine_step sample_ports (processes_move sample_env) (leaves_alone ''w''))\<^sup>*\<^sup>* sample_stopping sample_stopped"
  proof (rule r_into_rtranclp)
    have "mc_queue sample_stopping = [CommandWork \<lparr>cw_command = DoStop, cw_workspaceId = None,
      cw_requestId = None, cw_sequence = 1, cw_requested = [''w''], cw_intentWritten = True, cw_late = False\<rparr>]"
      by code_simp
    then show "machine_step sample_ports (processes_move sample_env) (leaves_alone ''w'') sample_stopping sample_stopped"
      unfolding sample_stopped_def by (rule machine_step.worked) simp
  qed
  have queue: "mc_queue sample_stopped = [ResumeWork]" by code_simp
  have over: "\<not> (\<exists>v \<in> set (mc_queue sample_stopped). releases ''w'' (mc_sequence sample_recovered + 1) v)"
    by (simp add: queue releases_def)
  have later: "(machine_step sample_ports (processes_move sample_env) (leaves_alone ''w''))\<^sup>*\<^sup>* sample_stopped sample_resumed"
    unfolding sample_resumed_def using machine_step.worked [OF queue, where arrivals = "[]"] by (simp add: r_into_rtranclp)
  have started: "starts ''w'' (mc_log sample_stopped) = 1" by code_simp
  show ?thesis
    using stopped_workspace_stays_stopped [OF sample_recovered_reached target sample_stopping_def written _ run] over later
      started by simp
qed


text \<open>
  C6: Once a Workspace is parked, because the cloud refused it for good, no start, restart, recovery,
  resume, reconcile, stop or upgrade starts its process or lifts the park, whatever else arrives in the
  middle of their work and whatever the processes do: only configuring it again does.
\<close>
theorem parked_workspace_is_not_started:
  assumes "hr_parked (read_health (kw_health (mc_world s) i)) \<noteq> None"
    and "mc_arrivals s = []" "list_all (never_configures i) (mc_queue s)"
    and "(machine_step (coordinator_ports origin expected env) (processes_move env) (no_configure i))\<^sup>*\<^sup>* s s'"
  shows "hr_parked (read_health (kw_health (mc_world s') i)) \<noteq> None \<and> starts i (mc_log s') = starts i (mc_log s)"
proof -
  let ?k = "starts i (mc_log s)"
  have "stays_parked (coordinator_ports origin expected env) i ?k s"
    using assms(1-3) by (simp add: stays_parked_def is_parked_iff journal_parked_def)
  from coordinator.parked_run [OF assms(4) this] processes_move_parked
  have "stays_parked (coordinator_ports origin expected env) i ?k s'" by metis
  then show ?thesis by (simp add: stays_parked_def is_parked_iff journal_parked_def)
qed

definition parked_machine :: "(nat \<times> string list) coordinator_world machine" where
  "parked_machine = recovered sample_env False (new_machine ((sample_world [plain_binding])\<lparr>kw_health :=
     (\<lambda>i. Some (health_json (EMPTY_RECORD\<lparr>hr_parked := Some (WorkspaceDeleted, 5)\<rparr>)))\<rparr>))"

definition parked_restart :: "(nat \<times> string list) coordinator_world machine" where
  "parked_restart = receive sample_ports (CommandRequest DoRestart (Some ''w'') (Some ''r1'') False) parked_machine"

theorem parked_workspace_is_not_started_witness:
  "starts ''w'' (mc_log (run_head sample_ports [[ResumeRequest]] parked_restart)) = starts ''w'' (mc_log parked_restart) \<and>
   mc_queue (run_head sample_ports [[ResumeRequest]] parked_restart) = [ResumeWork]"
proof -
  have parked: "hr_parked (read_health (kw_health (mc_world parked_restart) ''w'')) \<noteq> None" by code_simp
  have idle: "mc_arrivals parked_restart = []" by code_simp
  have queue: "mc_queue parked_restart = [CommandWork \<lparr>cw_command = DoRestart, cw_workspaceId = Some ''w'',
      cw_requestId = Some ''r1'', cw_sequence = 1, cw_requested = [''w''], cw_intentWritten = True, cw_late = False\<rparr>]"
    by code_simp
  have run: "(machine_step sample_ports (processes_move sample_env) (no_configure ''w''))\<^sup>*\<^sup>* parked_restart
      (run_head sample_ports [[ResumeRequest]] parked_restart)"
    by (rule r_into_rtranclp, rule machine_step.worked [OF queue]) simp
  have "mc_queue (run_head sample_ports [[ResumeRequest]] parked_restart) = [ResumeWork]" by code_simp
  then show ?thesis using parked_workspace_is_not_started [OF parked idle _ run] queue by simp
qed

end
