(* ===== verification/RegistrySafety.thy ===== *)
theory RegistrySafety
  imports SupervisorProperties
begin

text \<open>
  The registry of Workspaces under the supervisor: in every run of the Coordinator the file can be read
  again, and the supervisor works on what it holds.
\<close>

text \<open>The registry as the file holds it; reading it may migrate upgrade requests of an older format.\<close>

definition file_registry :: "registry_file \<Rightarrow> managed_binding list option" where
  "file_registry f = (case f of None \<Rightarrow> Some [] | Some v \<Rightarrow> json_list parse_binding v)"

definition on_disk :: "managed_binding list \<Rightarrow> registry_file \<Rightarrow> bool" where
  "on_disk bs f \<longleftrightarrow> (\<exists>raw now. file_registry f = Some raw \<and> (bs = raw \<or> bs = map (migrateLegacyUpgradeRequests now) raw))"

definition registry_safe ::
  "(string \<Rightarrow> string option) \<Rightarrow> string option \<Rightarrow> 'p coordinator_world machine \<Rightarrow> bool"
where
  "registry_safe origin expected s \<longleftrightarrow>
     (\<forall>now. load_bindings origin expected now (kw_file (mc_world s)) \<noteq> None) \<and>
     (mc_reloadRequired s \<or> on_disk (mc_bindings s) (kw_file (mc_world s)))"

lemma loaded_on_disk: "load_bindings origin expected now f = Some bs \<Longrightarrow> on_disk bs f"
  by (auto simp: load_bindings_def on_disk_def file_registry_def split: option.splits if_splits)

lemma saved_registry:
  assumes "save_bindings origin expected disk bs f = (took, f')" "\<forall>now. load_bindings origin expected now f \<noteq> None"
  shows "(\<forall>now. load_bindings origin expected now f' \<noteq> None) \<and> (took \<longrightarrow> on_disk bs f')"
proof -
  have "load_bindings origin expected now (Some (registry_json bs)) \<noteq> None \<and> on_disk bs (Some (registry_json bs))"
    if "validateBindings bs" "environment_ok origin expected bs" for now
  proof -
    have "json_list parse_binding (registry_json bs) = Some bs"
      using that(1) unfolding registry_json_def
      by (intro json_list_written parse_binding_written) (auto simp: validateBindings_def list_all_iff valid_binding_def)
    then show ?thesis using that by (auto simp: load_bindings_def on_disk_def file_registry_def)
  qed
  then show ?thesis using assms by (auto simp: save_bindings_def split: if_splits disk_outcome.splits)
qed

lemma registry_safe_cong:
  "kw_file (mc_world s') = kw_file (mc_world s) \<Longrightarrow> mc_bindings s' = mc_bindings s \<Longrightarrow>
   mc_reloadRequired s' = mc_reloadRequired s \<Longrightarrow> registry_safe origin expected s' = registry_safe origin expected s"
  by (simp add: registry_safe_def)

lemma registry_safe_stored:
  assumes "registry_safe origin expected s"
  shows "registry_safe origin expected (snd (store_bindings (coordinator_ports origin expected env) bs s))"
proof -
  obtain took k where save: "sv_save (coordinator_ports origin expected env) bs (mc_world s) = (took, k)" by fastforce
  then obtain disk where "save_bindings origin expected disk bs (kw_file (mc_world s)) = (took, kw_file k)"
    using coordinator_save by blast
  from saved_registry [OF this] assms save show ?thesis
    by (simp add: registry_safe_def store_bindings_def Let_def)
qed

lemma registry_safe_reloaded:
  assumes "registry_safe origin expected s"
  shows "registry_safe origin expected (snd (reload_if_required (coordinator_ports origin expected env) s))"
  using assms loaded_on_disk
  by (auto simp: registry_safe_def reload_if_required_def coordinator_ports_def split: option.splits)

lemma registry_safe_intents:
  assumes "registry_safe origin expected s"
  shows "registry_safe origin expected (snd (write_intents (coordinator_ports origin expected env) s))"
proof -
  let ?rt = "coordinator_ports origin expected env"
  obtain r s1 where reload: "reload_if_required ?rt s = (r, s1)" by fastforce
  then have "registry_safe origin expected s1" using registry_safe_reloaded [OF assms, of env] by simp
  from this registry_safe_stored [OF this] show ?thesis
    by (cases r) (simp_all add: write_intents_def andthen_def reload)
qed

lemma registry_safe_persisted:
  assumes "registry_safe origin expected s"
  shows "registry_safe origin expected (snd (persist_intent (coordinator_ports origin expected env) ids n s))"
proof -
  let ?rt = "coordinator_ports origin expected env"
  let ?s = "s\<lparr>mc_stopIntents := fold (\<lambda>i m. map_set m i n) ids (mc_stopIntents s)\<rparr>"
  obtain r s1 where run: "write_intents ?rt ?s = (r, s1)" by fastforce
  have "registry_safe origin expected ?s" using assms by (simp add: registry_safe_def)
  then have "registry_safe origin expected s1" using registry_safe_intents [of origin expected ?s env] run by simp
  then show ?thesis using run by (cases r) (simp_all add: persist_intent_alt Let_def registry_safe_def)
qed

lemma reload_flag_frame [simp]:
  "mc_reloadRequired (mark_one j s) = mc_reloadRequired s" "mc_reloadRequired (supersede_one t n j s) = mc_reloadRequired s"
  "mc_reloadRequired (fold mark_one js s) = mc_reloadRequired s"
  "mc_reloadRequired (fold (supersede_one t n) js s) = mc_reloadRequired s"
  "mc_reloadRequired (snd (supersede js t s)) = mc_reloadRequired s"
proof -
  show one: "mc_reloadRequired (mark_one j s) = mc_reloadRequired s" for j and s :: "'w machine"
    by (simp add: mark_one_def)
  show two: "mc_reloadRequired (supersede_one t n j s) = mc_reloadRequired s" for j n and s :: "'w machine"
    by (simp add: supersede_one_def abort_work_def split: option.splits)
  show "mc_reloadRequired (fold mark_one js s) = mc_reloadRequired s" by (induction js arbitrary: s) (simp_all add: one)
  have fold: "mc_reloadRequired (fold (supersede_one t n) js s) = mc_reloadRequired s" for n and s :: "'w machine"
    by (induction js arbitrary: s) (simp_all add: two)
  then show "mc_reloadRequired (fold (supersede_one t n) js s) = mc_reloadRequired s" .
  show "mc_reloadRequired (snd (supersede js t s)) = mc_reloadRequired s" by (simp add: supersede_def Let_def fold)
qed

lemma registry_safe_bookkeeping [simp]:
  "registry_safe origin expected (mark_one j s) = registry_safe origin expected s"
  "registry_safe origin expected (fold mark_one js s) = registry_safe origin expected s"
  "registry_safe origin expected (snd (supersede ids t s)) = registry_safe origin expected s"
  "registry_safe origin expected (s\<lparr>mc_paused := x\<rparr>) = registry_safe origin expected s"
  "registry_safe origin expected (s\<lparr>mc_sequence := m\<rparr>) = registry_safe origin expected s"
  "registry_safe origin expected (s\<lparr>mc_arrivals := later\<rparr>) = registry_safe origin expected s"
  "registry_safe origin expected (s\<lparr>mc_queue := q\<rparr>) = registry_safe origin expected s"
  "registry_safe origin expected (enqueue_work w s) = registry_safe origin expected s"
  "registry_safe origin expected (log_event e s) = registry_safe origin expected s"
  "registry_safe origin expected (release_intents ids n s) = registry_safe origin expected s"
  by (simp_all add: registry_safe_def enqueue_work_def)

lemma registry_safe_receive:
  "registry_safe origin expected s \<Longrightarrow> registry_safe origin expected (receive (coordinator_ports origin expected env) q s)"
  by (cases q) (auto intro!: registry_safe_persisted simp: request_command_def Let_def split_def)

lemma registry_safe_await:
  assumes "registry_safe origin expected s"
  shows "registry_safe origin expected (await (coordinator_ports origin expected env) s)"
proof -
  have "registry_safe origin expected s' \<Longrightarrow>
      registry_safe origin expected (fold (receive (coordinator_ports origin expected env)) qs s')" for qs s'
    by (induction qs arbitrary: s') (auto intro: registry_safe_receive)
  then show ?thesis using assms by (auto simp: await_def split: list.splits)
qed

interpretation kept: machine_invariant "coordinator_ports origin expected env" "registry_safe origin expected"
  "\<lambda>b. True" "\<lambda>j. True" for origin expected env
proof unfold_locales
  fix s bs
  assume "registry_safe origin expected s" "sv_load (coordinator_ports origin expected env) (mc_world s) = Some bs"
  then show "registry_safe origin expected (s\<lparr>mc_bindings := bs, mc_reloadRequired := False\<rparr>)"
    using loaded_on_disk by (auto simp: registry_safe_def coordinator_ports_def)
next
  fix s k
  assume "registry_safe origin expected s" "port_moves (coordinator_ports origin expected env) (mc_world s) k"
  then show "registry_safe origin expected (s\<lparr>mc_world := k\<rparr>)"
    by (auto simp: registry_safe_def dest!: coordinator_moves)
qed (auto intro: registry_safe_await registry_safe_stored registry_safe_reloaded
    simp: coordinator_start_file coordinator_clear_file, auto simp: registry_safe_def coordinator_start_file coordinator_clear_file)

lemma registry_safe_run_work:
  "registry_safe origin expected s \<Longrightarrow> registry_safe origin expected (run_work (coordinator_ports origin expected env) w s)"
  by (rule kept.run_work_keeps) (auto simp: kept.suits_def kept.admissible_def split: work.splits)

lemma registry_safe_step:
  assumes "machine_step (coordinator_ports origin expected env) (processes_move env) allowed s s'"
    "registry_safe origin expected s"
  shows "registry_safe origin expected s'"
  using assms
proof cases
  case (requested q)
  then show ?thesis using assms(2) by (simp add: registry_safe_receive)
next
  case (worked w rest arrivals)
  have "registry_safe origin expected (s\<lparr>mc_queue := rest, mc_arrivals := arrivals\<rparr>)" using assms(2) by simp
  from registry_safe_run_work [OF this] worked show ?thesis by (simp add: run_head_def)
next
  case (moved k)
  then show ?thesis using assms(2) by (auto simp: registry_safe_def processes_move_def)
qed

text \<open>What a Coordinator knows once it has recovered.\<close>

lemma registry_safe_recovered:
  assumes "load_bindings origin expected now (kw_file k) \<noteq> None"
  shows "registry_safe origin expected (run_head (coordinator_ports origin expected env) []
    (receive (coordinator_ports origin expected env) (RecoverRequest paused) (new_machine k)))"
proof -
  let ?rt = "coordinator_ports origin expected env"
  let ?s = "(new_machine k)\<lparr>mc_progress := no_progress, mc_marked := []\<rparr>"
  have loads: "load_bindings origin expected t (kw_file k) \<noteq> None" for t
    using assms load_any_time [of origin expected now "kw_file k" _ t] by fastforce
  then obtain bs where bs: "sv_load ?rt k = Some bs" by (auto simp: coordinator_ports_def)
  have "on_disk bs (kw_file k)" using bs loaded_on_disk by (auto simp: coordinator_ports_def)
  then have "registry_safe origin expected (?s\<lparr>mc_bindings := bs, mc_reloadRequired := False, mc_paused := paused\<rparr>)"
    using loads by (simp add: registry_safe_def new_machine_def)
  from this keeps_at [OF kept.keeps_reconcileBindings this]
  have "registry_safe origin expected (snd (run_recover ?rt paused ?s))"
    using bs by (cases paused) (simp_all add: run_recover_def new_machine_def Let_def)
  then obtain r s1 where run: "run_recover ?rt paused ?s = (r, s1)" and "registry_safe origin expected s1"
    by (metis prod.collapse)
  then have "registry_safe origin expected (settle_all (log_event (Ended (RecoverWork paused) r) s1))"
    by (intro kept.settle_all_keeps) simp
  then show ?thesis using run by (simp add: run_head_def run_work_def enqueue_work_def new_machine_def Let_def)
qed


text \<open>A stop whose write the disk breaks after the rename.\<close>

definition broken_disk :: "(nat \<times> string list) coordinator_world" where
  "broken_disk = (sample_world [plain_binding])\<lparr>kw_disk := [DiskFailsAfterRename]\<rparr>"

definition broken_stop :: "(nat \<times> string list) coordinator_world machine" where
  "broken_stop = receive sample_ports (CommandRequest DoStop None None False)
     (run_head sample_ports [] (receive sample_ports (RecoverRequest True) (new_machine broken_disk)))"


end
