(* ===== verification/SupervisorRuns.thy ===== *)
theory SupervisorRuns
  imports RegistrySafety
begin

subsection \<open>Actions that succeed\<close>

definition succeeds :: "('w, 'a) action \<Rightarrow> 'w machine \<Rightarrow> ('a \<Rightarrow> 'w machine \<Rightarrow> bool) \<Rightarrow> bool" where
  "succeeds m s Q \<longleftrightarrow> (\<exists>a s'. m s = (Inr a, s') \<and> Q a s')"

lemma succeeds_simps [simp]:
  "succeeds (give a) s Q \<longleftrightarrow> Q a s"
  "succeeds (gets g) s Q \<longleftrightarrow> Q (g s) s"
  "succeeds (modify h) s R \<longleftrightarrow> R () (h s)"
  by (simp_all add: succeeds_def give_def gets_def modify_def)

lemma succeeds_andthen [simp]: "succeeds (andthen m f) s Q \<longleftrightarrow> succeeds m s (\<lambda>a s'. succeeds (f a) s' Q)"
  by (cases "m s"; cases "fst (m s)") (auto simp: succeeds_def andthen_def)

lemma succeeds_rescue: "succeeds m s Q \<Longrightarrow> succeeds (rescue m h) s Q"
  by (auto simp: succeeds_def rescue_def)

lemma succeeds_track [simp]:
  "succeeds (track i m) s Q \<longleftrightarrow> succeeds m (s\<lparr>mc_inFlight := map_set (mc_inFlight s) i None\<rparr>)
     (\<lambda>a s'. Q a (s'\<lparr>mc_inFlight := map_delete (mc_inFlight s') i\<rparr>))"
  by (auto simp: succeeds_def track_def lastly_def split: prod.splits)

lemma succeeds_weaken: "succeeds m s Q \<Longrightarrow> (\<And>a s'. Q a s' \<Longrightarrow> R a s') \<Longrightarrow> succeeds m s R"
  by (auto simp: succeeds_def)

subsection \<open>A binding saved again\<close>

lemma set_upsert: "set (upsert_binding b bs) \<subseteq> insert b (set bs)"
  by (auto simp: upsert_binding_def Let_def dest!: set_takeWhileD set_dropWhileD)

lemma ids_upsert: "distinct (map cf_workspaceId bs) \<Longrightarrow> distinct (map cf_workspaceId (upsert_binding b bs))"
proof (induction bs)
  case (Cons x bs)
  show ?case
  proof (cases "cf_workspaceId x = cf_workspaceId b")
    case True
    then have "upsert_binding b (x # bs) = b # filter (\<lambda>y. cf_workspaceId y \<noteq> cf_workspaceId b) bs"
      by (simp add: upsert_binding_def Let_def)
    then show ?thesis using Cons.prems by (auto simp: distinct_map inj_on_def)
  next
    case False
    then have "upsert_binding b (x # bs) = x # upsert_binding b bs" by (simp add: upsert_binding_def Let_def)
    then show ?thesis using Cons False set_upsert [of b bs] by auto
  qed
qed (simp add: upsert_binding_def)

lemma valid_upsert: "validateBindings bs \<Longrightarrow> valid_binding b \<Longrightarrow> validateBindings (upsert_binding b bs)"
  using set_upsert [of b bs] ids_upsert [of bs b] by (auto simp: validateBindings_def list_all_iff)

lemma environment_upsert:
  assumes "environment_ok origin expected bs" "x \<in> set bs" "cf_serverHttpUrl x = cf_serverHttpUrl b"
  shows "environment_ok origin expected (upsert_binding b bs)"
proof (cases expected)
  case (Some e)
  let ?g = "\<lambda>b. case cf_serverHttpUrl b of None \<Rightarrow> False | Some u \<Rightarrow> u \<noteq> '''' \<and> origin u \<noteq> None \<and> origin u = origin e"
  have "?g b" if "e \<noteq> ''''" using that assms Some by (auto simp: environment_ok_def list_all_iff)
  then show ?thesis using assms(1) set_upsert [of b bs] Some by (auto simp: environment_ok_def list_all_iff)
qed (simp add: environment_ok_def)

lemma find_upsert [simp]: "find (\<lambda>x. cf_workspaceId x = cf_workspaceId b) (upsert_binding b bs) = Some b"
proof -
  have "find (\<lambda>x. cf_workspaceId x = cf_workspaceId b)
      (takeWhile (\<lambda>x. cf_workspaceId x \<noteq> cf_workspaceId b) bs @ b # cs) = Some b" for cs
    by (induction bs) auto
  then show ?thesis by (simp add: upsert_binding_def Let_def)
qed

lemma mem_upsert: "b \<in> set (upsert_binding b bs)"
  by (simp add: upsert_binding_def Let_def)

lemma valid_replaced:
  assumes "valid_binding b" "mb_restart b = Some p"
  shows "valid_binding (b\<lparr>mb_restart := Some (p\<lparr>rp_phase := RestartStarting\<rparr>)\<rparr>)"
  using assms by (auto simp: valid_binding_def valid_results_def valid_restart_def valid_legacy_def)

lemma valid_completed:
  assumes "valid_binding b" "mb_restart b = Some p" "inst \<noteq> ''''"
  shows "valid_binding (b\<lparr>mb_restart := None, mb_restartResults :=
    Some (appendRestartResult b (RestartCompleted (rp_requestId p) inst))\<rparr>)"
    "RestartCompleted (rp_requestId p) inst \<in> set (appendRestartResult b (RestartCompleted (rp_requestId p) inst))"
proof -
  have v: "valid_results b" "is_text (rp_requestId p)" "rp_requestId p \<notin> rr_requestId ` set (results_of b)"
    using assms by (auto simp: valid_binding_def valid_results_def valid_restart_def)
  then have r: "valid_result (RestartCompleted (rp_requestId p) inst)" using assms(3) by (simp add: valid_result_def is_text_def)
  from valid_append [OF v(1) r] v(3)
  show "valid_binding (b\<lparr>mb_restart := None, mb_restartResults :=
    Some (appendRestartResult b (RestartCompleted (rp_requestId p) inst))\<rparr>)"
    "RestartCompleted (rp_requestId p) inst \<in> set (appendRestartResult b (RestartCompleted (rp_requestId p) inst))"
    using assms(1) by (auto simp: valid_binding_def valid_results_def valid_legacy_def)
qed

subsection \<open>A Coordinator that nothing disturbs\<close>

text \<open>
  Nothing arrives, no stop waits, the disk writes, the Workspace is neither parked nor degraded, and
  its work is not aborted.
\<close>

definition smooth :: "string \<Rightarrow> 'p coordinator_world machine \<Rightarrow> bool" where
  "smooth i s \<longleftrightarrow> mc_arrivals s = [] \<and> mc_stopIntents s = [] \<and> kw_disk (mc_world s) = [] \<and>
     \<not> latched (read_health (kw_health (mc_world s) i)) \<and> aborted i s = None"

lemma smooth_await [simp]: "smooth i s \<Longrightarrow> await rt s = s"
  by (simp add: smooth_def await_def)

lemma smooth_simps [simp]:
  "smooth i (s\<lparr>mc_instances := x1\<rparr>) = smooth i s" "smooth i (log_event e s) = smooth i s"
  "smooth i s \<Longrightarrow> smooth i (s\<lparr>mc_world := (mc_world s)\<lparr>kw_process := p\<rparr>\<rparr>)"
  "smooth i s \<Longrightarrow> smooth i (s\<lparr>mc_inFlight := map_set m i None\<rparr>)"
  "smooth i s \<Longrightarrow> smooth i (s\<lparr>mc_inFlight := map_delete m i\<rparr>)"
  by (auto simp: smooth_def aborted_def log_event_def)


definition steady :: "string \<Rightarrow> managed_binding list \<Rightarrow> string option \<Rightarrow> 'p coordinator_world machine \<Rightarrow> bool" where
  "steady i bs x s \<longleftrightarrow> smooth i s \<and> mc_bindings s = bs \<and> map_get (mc_instances s) i = x"

text \<open>
  The processes answer every call, an instance that starts is named otherwise than \<open>old\<close>, none parks,
  and the clock does not go back and advances with the sleeps.
\<close>

definition answers :: "'p process_env \<Rightarrow> string option \<Rightarrow> bool" where
  "answers env old \<longleftrightarrow> (\<forall>b p. \<exists>p'. pe_stop env b p = (Inr (), p')) \<and>
     (\<forall>b p. \<exists>x p'. pe_instance env b p = (Inr x, p')) \<and>
     (\<forall>c t p. \<exists>x p'. pe_start env c t p = (Inr x, p') \<and> x \<noteq> '''' \<and> Some x \<noteq> old) \<and>
     (\<forall>p. pe_parks env p = []) \<and>
     (\<forall>b p. pe_now env p \<le> pe_now env (snd (pe_hold env b p))) \<and>
     (\<forall>ms p. pe_now env p + ms \<le> pe_now env (pe_sleep env ms p))"

lemma answers_parks: "answers env old \<Longrightarrow> process_moves env p k = k\<lparr>kw_process := p\<rparr>"
  by (simp add: answers_def process_moves_def)

lemma log_event_instances [simp]: "mc_instances (log_event e s) = mc_instances s"
  by (simp add: log_event_def)

lemma steady_moved: "steady i bs x s \<Longrightarrow> steady i bs x (s\<lparr>mc_world := (mc_world s)\<lparr>kw_process := p\<rparr>\<rparr>)"
  by (simp add: steady_def)

lemma steady_await [simp]: "steady i bs x s \<Longrightarrow> await rt s = s"
  unfolding steady_def by (rule smooth_await) (rule conjunct1)

lemma steady_port:
  assumes "steady i bs x s" "answers env old" "f (kw_process (mc_world s)) = (Inr a, p)"
  shows "succeeds (call rt (port_of env f)) s (\<lambda>r s'. r = a \<and> steady i bs x s')"
  using assms by (simp add: succeeds_def call_def port_of_def answers_parks steady_moved)

lemma coordinator_selectors:
  "sv_stop (coordinator_ports origin expected env) b = port_of env (pe_stop env b)"
  "sv_instance (coordinator_ports origin expected env) b = port_of env (pe_instance env b)"
  "sv_hold (coordinator_ports origin expected env) b = port_of env (pe_hold env b)"
  "sv_save (coordinator_ports origin expected env) = registry_save origin expected"
  "sv_parkedReason (coordinator_ports origin expected env) = parkReason env"
  "sv_now (coordinator_ports origin expected env) k = pe_now env (kw_process k)"
  "sv_sleep (coordinator_ports origin expected env) ms k = process_moves env (pe_sleep env ms (kw_process k)) k"
  by (simp_all add: coordinator_ports_def)

lemma succeeds_adopted: "map_get (mc_instances s) (cf_workspaceId b) = None \<Longrightarrow> succeeds (adopted rt b) s Q = Q None s"
  by (simp add: succeeds_def adopted_def)

lemma succeeds_unaborted: "aborted i s = None \<Longrightarrow> succeeds (throwIfAborted i) s Q = Q () s"
  by (simp add: succeeds_def throwIfAborted_def)

lemma aborted_instances [simp]: "aborted i (s\<lparr>mc_instances := x\<rparr>) = aborted i s"
  by (simp add: aborted_def)

lemma steady_instance:
  assumes "steady i bs x s" "answers env old"
  shows "succeeds (call (coordinator_ports origin expected env) (sv_instance (coordinator_ports origin expected env) b)) s
    (\<lambda>r. steady i bs x)"
proof -
  obtain r p where "pe_instance env b (kw_process (mc_world s)) = (Inr r, p)"
    using assms(2) unfolding answers_def by metis
  from steady_port [where f = "pe_instance env b" and rt = "coordinator_ports origin expected env", OF assms this]
  have "succeeds (call (coordinator_ports origin expected env) (port_of env (pe_instance env b))) s (\<lambda>r. steady i bs x)"
    by (rule succeeds_weaken) simp
  then show ?thesis by (simp add: coordinator_selectors)
qed

lemma steady_stop:
  assumes "steady i bs x s" "answers env old" "cf_workspaceId b = i"
  shows "succeeds (stop_workspace (coordinator_ports origin expected env) b) s (\<lambda>r. steady i bs None)"
proof -
  have s: "steady i bs x (log_event (StopCalled i) s)" using assms(1) by (simp add: steady_def)
  obtain p where p: "pe_stop env b (kw_process (mc_world s)) = (Inr (), p)"
    using assms(2) unfolding answers_def by metis
  have "succeeds (call (coordinator_ports origin expected env) (port_of env (pe_stop env b))) (log_event (StopCalled i) s)
      (\<lambda>r s'. r = () \<and> steady i bs x s')"
    by (rule steady_port [OF s assms(2)]) (simp add: p)
  then have "succeeds (call (coordinator_ports origin expected env) (port_of env (pe_stop env b))) (log_event (StopCalled i) s)
      (\<lambda>r s'. steady i bs None (s'\<lparr>mc_instances := map_delete (mc_instances s') i\<rparr>))"
    by (rule succeeds_weaken) (simp add: steady_def)
  then show ?thesis using assms(3) by (simp add: stop_workspace_def coordinator_selectors)
qed

lemma steady_start:
  assumes "steady i bs None s" "answers env old" "cf_workspaceId b = i"
  shows "succeeds (start_workspace (coordinator_ports origin expected env) b) s
    (\<lambda>inst s'. inst \<noteq> '''' \<and> Some inst \<noteq> old \<and> steady i bs (Some inst) s')"
proof -
  let ?s = "log_event (StartCalled i) (s\<lparr>mc_instances := map_delete (mc_instances s) i\<rparr>)"
  have s: "steady i bs None ?s" using assms(1) by (simp add: steady_def)
  have ok: "health_now env (mc_world s) i = HealthOk" "aborted i ?s = None" "aborted i s = None"
    using assms(1) by (auto simp: steady_def smooth_def health_now_def health_ok_iff aborted_def log_event_def)
  obtain inst p where p: "pe_start env (buildChildConfig b) None (kw_process (mc_world s)) = (Inr inst, p)"
      "inst \<noteq> ''''" "Some inst \<noteq> old"
    using assms(2) unfolding answers_def by metis
  have "succeeds (call_start (coordinator_ports origin expected env) b) (s\<lparr>mc_instances := map_delete (mc_instances s) i\<rparr>)
      (\<lambda>r s'. r = inst \<and> steady i bs None s')"
    using s ok p assms(3) answers_parks [OF assms(2)] steady_moved [OF s, of p]
    by (simp add: succeeds_def call_start_def coordinator_ports_def start_process_of_def port_of_def Let_def)
  then have "succeeds (call_start (coordinator_ports origin expected env) b) (s\<lparr>mc_instances := map_delete (mc_instances s) i\<rparr>)
      (\<lambda>r s'. r \<noteq> '''' \<and> Some r \<noteq> old \<and> steady i bs (Some r) (s'\<lparr>mc_instances := map_set (mc_instances s') i r\<rparr>))"
    by (rule succeeds_weaken) (use p(2,3) in \<open>auto simp: steady_def\<close>)
  then show ?thesis using assms(1,3) ok(3)
    by (simp add: start_workspace_def Let_def succeeds_adopted steady_def succeeds_unaborted)
qed


lemma steady_held:
  assumes "steady i bs x s" "answers env old"
  shows "succeeds (hold_runners (coordinator_ports origin expected env) b) s (\<lambda>r. steady i bs x)"
proof -
  let ?port = "restart_hold (coordinator_ports origin expected env) b"
  let ?f = "hold_round ?port RUNNER_HOLD_MS RUNNER_HOLD_POLL_MS (hp_now ?port s)"
  have asked: "steady i bs x (snd (hp_hold ?port s')) \<and> hp_now ?port s' \<le> hp_now ?port (snd (hp_hold ?port s'))"
    if "steady i bs x s'" for s'
  proof -
    obtain r p where hold: "pe_hold env b (kw_process (mc_world s')) = (r, p)" by fastforce
    then have "pe_now env (kw_process (mc_world s')) \<le> pe_now env p"
      using assms(2) unfolding answers_def by (metis snd_conv)
    then show ?thesis using that hold answers_parks [OF assms(2)] steady_moved [OF that, of p]
      by (simp add: restart_hold_def coordinator_selectors port_of_def)
  qed
  have slept: "steady i bs x (hp_sleep ?port ms s') \<and> hp_now ?port s' + ms \<le> hp_now ?port (hp_sleep ?port ms s')"
    if "steady i bs x s'" for ms s'
  proof -
    have "pe_now env (kw_process (mc_world s')) + ms \<le> pe_now env (pe_sleep env ms (kw_process (mc_world s')))"
      using assms(2) unfolding answers_def by blast
    then show ?thesis using that answers_parks [OF assms(2)] steady_moved [OF that]
      by (simp add: restart_hold_def coordinator_selectors)
  qed
  have again: "steady i bs x (snd t') \<and> hp_now ?port (snd t) + RUNNER_HOLD_POLL_MS \<le> hp_now ?port (snd t') \<and>
      hp_now ?port (snd t) < hp_now ?port s + RUNNER_HOLD_MS"
    if "steady i bs x (snd t)" "?f t = Again t'" for t t'
  proof -
    obtain sn s0 where t: "t = (sn, s0)" by fastforce
    with that(2) obtain sn' s1 where round: "hp_hold ?port s0 = (Inr sn', s1)"
      "hp_now ?port s1 - hp_now ?port s < RUNNER_HOLD_MS" "t' = (sn', hp_sleep ?port RUNNER_HOLD_POLL_MS s1)"
      by (auto simp: hold_round_again)
    from asked [of s0] that(1) t round(1) have "steady i bs x s1" "hp_now ?port s0 \<le> hp_now ?port s1" by auto
    with slept [of s1 RUNNER_HOLD_POLL_MS] round t show ?thesis by auto
  qed
  have "\<exists>a. bounded_rounds (Suc 120) ?f (nothing_held, s) = Some a"
    by (rule rounds_end [where I = "\<lambda>t. steady i bs x (snd t)" and m = "\<lambda>t. hp_now ?port (snd t)"
        and limit = "hp_now ?port s + RUNNER_HOLD_MS" and d = RUNNER_HOLD_POLL_MS])
      (use again assms(1) in \<open>auto simp: RUNNER_HOLD_MS_def RUNNER_HOLD_POLL_MS_def\<close>)
  then obtain out s1 where run: "bounded_rounds (Suc 120) ?f (nothing_held, s) = Some (out, s1)" by auto
  have "steady i bs x (snd (out, s1))"
  proof (rule kept.bounded_rounds_keep [where Q = "\<lambda>t. steady i bs x (snd t)" and R = "\<lambda>a. steady i bs x (snd a)", OF _ _ run])
    fix t a assume "steady i bs x (snd t)" "?f t = Answer a"
    then show "steady i bs x (snd a)" using asked [of "snd t"]
      by (cases t) (auto simp: hold_round_def Let_def split: prod.splits sum.splits if_splits)
  qed (use again assms(1) in auto)
  moreover have "HOLD_ROUNDS = Suc 120" by (simp add: HOLD_ROUNDS_def RUNNER_HOLD_MS_def RUNNER_HOLD_POLL_MS_def)
  ultimately show ?thesis using run by (simp add: succeeds_def hold_runners_def Let_def)
qed

lemma steady_saved:
  assumes "steady i bs x s" "validateBindings (upsert_binding b bs)" "environment_ok origin expected (upsert_binding b bs)"
  shows "succeeds (saveBinding (coordinator_ports origin expected env) b) s
    (\<lambda>b' s'. b' = b \<and> steady i (upsert_binding b bs) x s')"
proof -
  let ?s = "log_event (Saved (upsert_binding b bs)) (s\<lparr>mc_world := (mc_world s)\<lparr>kw_file := Some (registry_json (upsert_binding b bs))\<rparr>,
    mc_bindings := upsert_binding b bs\<rparr>)"
  have disk: "kw_disk (mc_world s) = []" "mc_stopIntents s = []" "mc_bindings s = bs"
    using assms(1) by (simp_all add: steady_def smooth_def)
  then have "store_bindings (coordinator_ports origin expected env) (upsert_binding b bs) s = (Inr (), ?s)"
    using assms(2,3) by (simp add: store_bindings_def coordinator_selectors registry_save_def next_disk_def save_bindings_def Let_def)
  moreover have "steady i (upsert_binding b bs) x ?s"
    using assms(1) by (simp add: steady_def smooth_def log_event_def aborted_def)
  ultimately show ?thesis using disk
    by (simp add: succeeds_def saveBinding_def lastly_def andthen_def give_def has_def)
qed


subsection \<open>An unfinished restart\<close>

text \<open>A registry the store accepts, and a binding it may hold in place of one it holds.\<close>

definition fits :: "(string \<Rightarrow> string option) \<Rightarrow> string option \<Rightarrow> managed_binding list \<Rightarrow> managed_binding \<Rightarrow> bool" where
  "fits origin expected bs b \<longleftrightarrow> validateBindings bs \<and> environment_ok origin expected bs \<and> valid_binding b \<and>
     (\<exists>x \<in> set bs. cf_serverHttpUrl x = cf_serverHttpUrl b)"

lemma fits_upsert: "fits origin expected bs b \<Longrightarrow> fits origin expected (upsert_binding b bs) b"
  unfolding fits_def using valid_upsert [of bs b] environment_upsert [of origin expected bs _ b] mem_upsert [of b bs] by blast

lemma fits_valid: "fits origin expected bs b \<Longrightarrow> valid_binding b"
  by (simp add: fits_def)

lemma fits_again: "fits origin expected bs b \<Longrightarrow> valid_binding b' \<Longrightarrow> cf_serverHttpUrl b' = cf_serverHttpUrl b \<Longrightarrow>
    fits origin expected bs b'"
  by (simp add: fits_def)

lemma steady_save_fit:
  assumes "steady i bs x s" "fits origin expected bs b"
  shows "succeeds (saveBinding (coordinator_ports origin expected env) b) s
    (\<lambda>b' s'. b' = b \<and> steady i (upsert_binding b bs) x s')"
  using fits_upsert [OF assms(2)] by (intro steady_saved assms(1)) (simp_all add: fits_def)

lemma steady_stopping:
  assumes s: "steady i bs x s" and env: "answers env old" and b: "fits origin expected bs b" "cf_workspaceId b = i"
    "mb_restart b = Some p"
  shows "succeeds (stopping_phase (coordinator_ports origin expected env) b p) s
    (\<lambda>b' s'. (\<exists>bs' x'. steady i bs' x' s' \<and> fits origin expected bs' b' \<and> (x = None \<longrightarrow> x' = None)) \<and>
      cf_workspaceId b' = i \<and> mb_enabled b' = mb_enabled b \<and> results_of b' = results_of b \<and>
      mb_restart b' = Some (p\<lparr>rp_phase := RestartStarting\<rparr>))"
proof (cases "rp_phase p")
  case RestartStarting
  then have "p\<lparr>rp_phase := RestartStarting\<rparr> = p" by (cases p) simp
  then show ?thesis using RestartStarting s b by (auto simp: stopping_phase_def)
next
  case RestartStopping
  let ?rt = "coordinator_ports origin expected env"
  let ?b = "b\<lparr>mb_restart := Some (p\<lparr>rp_phase := RestartStarting\<rparr>)\<rparr>"
  have fit: "fits origin expected bs ?b"
    by (rule fits_again [OF b(1) valid_replaced [OF fits_valid [OF b(1)] b(3)]]) simp
  have saved: "succeeds (saveBinding ?rt ?b) s' (\<lambda>b' s''. b' = ?b \<and> steady i (upsert_binding ?b bs) x' s'')"
    if "steady i bs x' s'" for x' s'
    by (rule steady_save_fit [OF that fit])
  have replaced: "succeeds (whenever c (replace_old ?rt b current)) s' (\<lambda>_ s''. \<exists>x'. steady i bs x' s'' \<and> (x = None \<longrightarrow> x' = None))"
    if "steady i bs x s'" for c current s'
  proof -
    have held: "succeeds (whenever (current \<noteq> None) (hold_runners ?rt b)) s' (\<lambda>_. steady i bs x)"
      using steady_held [OF that env] that by (simp add: whenever_def)
    have stop: "succeeds (andthen (throwIfAborted (cf_workspaceId b)) (\<lambda>_. rescue (stop_workspace ?rt b) h)) s''
        (\<lambda>_ s3. \<exists>x'. steady i bs x' s3 \<and> (x = None \<longrightarrow> x' = None))" if "steady i bs x s''" for h s''
    proof -
      have "aborted (cf_workspaceId b) s'' = None" using that b(2) by (simp add: steady_def smooth_def)
      moreover have "succeeds (rescue (stop_workspace ?rt b) h) s'' (\<lambda>_ s3. \<exists>x'. steady i bs x' s3 \<and> (x = None \<longrightarrow> x' = None))"
        by (rule succeeds_rescue [OF succeeds_weaken [OF steady_stop [OF that env b(2)]]]) blast
      ultimately show ?thesis by (simp add: succeeds_unaborted)
    qed
    show ?thesis
    proof (cases c)
      case True
      have "succeeds (replace_old ?rt b current) s' (\<lambda>_ s''. \<exists>x'. steady i bs x' s'' \<and> (x = None \<longrightarrow> x' = None))"
        unfolding replace_old_def succeeds_andthen by (rule succeeds_weaken [OF held]) (use stop in simp)
      then show ?thesis using True by (simp add: whenever_def)
    qed (use that in \<open>auto simp: whenever_def\<close>)
  qed
  let ?Q = "\<lambda>b' s'. (\<exists>bs' x'. steady i bs' x' s' \<and> fits origin expected bs' b' \<and> (x = None \<longrightarrow> x' = None)) \<and>
      cf_workspaceId b' = i \<and> mb_enabled b' = mb_enabled b \<and> results_of b' = results_of b \<and>
      mb_restart b' = Some (p\<lparr>rp_phase := RestartStarting\<rparr>)"
  have last: "succeeds (saveBinding ?rt ?b) s' ?Q" if "steady i bs x' s'" "x = None \<longrightarrow> x' = None" for x' s'
    by (rule succeeds_weaken [OF saved [OF that(1)]]) (use that b fits_upsert [OF fit] RestartStopping in auto)
  have rest: "succeeds (andthen (whenever c (replace_old ?rt b current)) (\<lambda>_. saveBinding ?rt ?b)) s' ?Q"
    if "steady i bs x s'" for c current s'
    unfolding succeeds_andthen by (rule succeeds_weaken [OF replaced [OF that]]) (elim exE conjE, rule last)
  have "succeeds (andthen (call ?rt (sv_instance ?rt b)) (\<lambda>current.
      andthen (whenever (current = None \<or> current = rp_previousInstanceId p) (replace_old ?rt b current)) (\<lambda>_. saveBinding ?rt ?b))) s ?Q"
    unfolding succeeds_andthen [where m = "call _ _"]
    by (rule succeeds_weaken [OF steady_instance [OF s env]]) (rule rest)
  then show ?thesis using RestartStopping by (simp add: stopping_phase_def)
qed


definition finished :: "string \<Rightarrow> restart_progress \<Rightarrow> managed_binding \<Rightarrow> string \<Rightarrow> 'p coordinator_world machine \<Rightarrow> bool" where
  "finished i p b inst s \<longleftrightarrow> find_binding s i = Some b \<and> mb_enabled b \<and> mb_restart b = None \<and>
     RestartCompleted (rp_requestId p) inst \<in> set (results_of b) \<and> map_get (mc_instances s) i = Some inst \<and>
     Some inst \<noteq> rp_previousInstanceId p"

lemma steady_advanced:
  assumes s: "steady i bs None s" and env: "answers env (rp_previousInstanceId p)"
    and b: "fits origin expected bs b" "cf_workspaceId b = i" "mb_restart b = Some p" "mb_enabled b"
  shows "succeeds (advanceRestart (coordinator_ports origin expected env) b) s
    (\<lambda>_ s'. \<exists>bs' b' inst. steady i bs' (Some inst) s' \<and> fits origin expected bs' b' \<and> finished i p b' inst s')"
    (is "succeeds _ _ ?Q")
proof -
  let ?rt = "coordinator_ports origin expected env"
  let ?done = "\<lambda>b inst. b\<lparr>mb_restart := None, mb_restartResults :=
    Some (appendRestartResult b (RestartCompleted (rp_requestId p) inst))\<rparr>"
  have last: "succeeds (andthen (saveBinding ?rt (?done b' inst)) (\<lambda>_. give ())) s' ?Q"
    if at_start: "steady i bs' (Some inst) s'" "fits origin expected bs' b'" "cf_workspaceId b' = i" "mb_enabled b'"
      "mb_restart b' = Some (p\<lparr>rp_phase := RestartStarting\<rparr>)" "inst \<noteq> ''''" "Some inst \<noteq> rp_previousInstanceId p"
    for bs' b' inst s'
  proof -
    from valid_completed [OF fits_valid [OF at_start(2)] at_start(5,6)]
    have v: "valid_binding (?done b' inst)"
      "RestartCompleted (rp_requestId p) inst \<in> set (appendRestartResult b' (RestartCompleted (rp_requestId p) inst))"
      by simp_all
    have fit: "fits origin expected bs' (?done b' inst)" by (rule fits_again [OF at_start(2) v(1)]) simp
    have id: "cf_workspaceId (?done b' inst) = i" using at_start(3) by simp
    have "?Q () s''" if "steady i (upsert_binding (?done b' inst) bs') (Some inst) s''" for s''
    proof -
      have "find_binding s'' i = Some (?done b' inst)"
        using that find_upsert [of "?done b' inst" bs'] id by (simp add: steady_def find_binding_def)
      then have "finished i p (?done b' inst) inst s''"
        using that at_start v by (simp add: finished_def steady_def)
      then show ?thesis using that fits_upsert [OF fit] by blast
    qed
    then show ?thesis
      by (simp only: succeeds_andthen succeeds_simps) (rule succeeds_weaken [OF steady_save_fit [OF at_start(1) fit]], simp)
  qed
  have start: "succeeds (andthen (start_workspace ?rt b') (\<lambda>inst.
      if Some inst = rp_previousInstanceId p then throw NotReplaced
      else andthen (saveBinding ?rt (?done b' inst)) (\<lambda>_. give ()))) s' ?Q"
    if "steady i bs' None s'" "fits origin expected bs' b'" "cf_workspaceId b' = i" "mb_enabled b'"
      "mb_restart b' = Some (p\<lparr>rp_phase := RestartStarting\<rparr>)" for bs' b' s'
    unfolding succeeds_andthen [where m = "start_workspace _ _"]
    by (rule succeeds_weaken [OF steady_start [OF that(1) env that(3)]]) (use last that in auto)
  have "succeeds (andthen (stopping_phase ?rt b p) (\<lambda>b. andthen (start_workspace ?rt b) (\<lambda>inst.
      if Some inst = rp_previousInstanceId p then throw NotReplaced
      else andthen (saveBinding ?rt (?done b inst)) (\<lambda>_. give ())))) s ?Q"
    unfolding succeeds_andthen [where m = "stopping_phase _ _ _"]
    by (rule succeeds_weaken [OF steady_stopping [OF s env b(1-3)]]) (use start b(4) in blast)
  then show ?thesis using b(3) by (simp add: advanceRestart_def)
qed


lemma steady_cleared:
  assumes "steady i bs (Some inst) s" "fits origin expected bs b" "finished i p b inst s"
  shows "succeeds (clearFailure (coordinator_ports origin expected env) i) s (\<lambda>_ s'. \<exists>b'. finished i p b' inst s')"
proof (cases "mb_lastFailure b")
  case (Some l)
  let ?b = "b\<lparr>mb_lastFailure := None\<rparr>"
  have id: "cf_workspaceId ?b = i" using assms(3) by (auto simp: finished_def dest: find_bindingD)
  have "valid_binding ?b" using fits_valid [OF assms(2)]
    by (simp add: valid_binding_def valid_results_def valid_legacy_def split: option.splits)
  then have fit: "fits origin expected bs ?b" by (rule fits_again [OF assms(2)]) simp
  have "finished i p ?b inst s'" if "steady i (upsert_binding ?b bs) (Some inst) s'" for s'
    using that assms(3) find_upsert [of ?b bs] id by (simp add: finished_def steady_def find_binding_def)
  then have "succeeds (andthen (saveBinding (coordinator_ports origin expected env) ?b) (\<lambda>_. give ())) s
      (\<lambda>_ s'. \<exists>b'. finished i p b' inst s')"
    by (simp only: succeeds_andthen succeeds_simps) (rule succeeds_weaken [OF steady_save_fit [OF assms(1) fit]], blast)
  then show ?thesis using assms(3) Some by (simp add: succeeds_def clearFailure_def finished_def)
qed (use assms in \<open>auto simp: succeeds_def clearFailure_def finished_def\<close>)



text \<open>A Coordinator that died while the restart waited for the old instance to stop.\<close>

definition half_restarted :: managed_binding where
  "half_restarted = plain_binding\<lparr>mb_restart := Some \<lparr>rp_requestId = ''r1'', rp_phase = RestartStopping,
     rp_previousInstanceId = Some ''old''\<rparr>\<rparr>"

definition half_restarted_machine :: "(nat \<times> string list) coordinator_world machine" where
  "half_restarted_machine = (new_machine ((sample_world [half_restarted])\<lparr>kw_process := (7, [''w''])\<rparr>))
     \<lparr>mc_bindings := [half_restarted]\<rparr>"

lemma digits_of_last: "digits_of n \<noteq> [] \<and> last (digits_of n) \<in> set ''0123456789''"
proof -
  have "''0123456789'' ! (n mod 10) \<in> set ''0123456789''" by (rule nth_mem) simp
  moreover have "''0123456789'' ! n \<in> set ''0123456789''" if "n \<le> 9" using that by (intro nth_mem) simp
  ultimately show ?thesis by (subst (1 2) digits_of.simps) (simp del: set_simps)
qed

lemma sample_answers: "answers sample_env (Some ''old'')"
proof -
  have "digits_of n \<noteq> ''old''" for n using digits_of_last [of n] by auto
  then show ?thesis using digits_of_last by (simp add: answers_def sample_env_def split_beta)
qed


end
