(* ===== verification/SupervisorErrors.thy ===== *)
theory SupervisorErrors
  imports SupervisorRuns
begin

text \<open>
  What the supervisor answers when a request cannot simply be carried out: a restart sent again, a stop
  refused while launches are paused, a stop in the middle of a restart's first step, and a registry whose
  migrated upgrades it cannot write back.
\<close>

subsection \<open>A restart sent again\<close>

definition process_calls :: "machine_event list \<Rightarrow> machine_event list" where
  "process_calls log = filter (\<lambda>e. case e of StartCalled _ \<Rightarrow> True | StopCalled _ \<Rightarrow> True | _ \<Rightarrow> False) log"

definition untouched :: "machine_event list \<Rightarrow> string list \<Rightarrow> 'w machine \<Rightarrow> bool" where
  "untouched calls ids s \<longleftrightarrow> process_calls (mc_log s) = calls \<and> pg_started (mc_progress s) = ids"

lemma mark_progress [simp]: "mc_progress (mark_one j s) = mc_progress s" "mc_progress (supersede_one t n j s) = mc_progress s"
  by (simp_all add: mark_one_def supersede_one_def abort_work_def split: option.splits)

lemma fold_progress [simp]:
  "mc_progress (fold mark_one js s) = mc_progress s" "mc_progress (fold (supersede_one t n) js s) = mc_progress s"
  by (induction js arbitrary: s) simp_all

lemma untouched_bookkeeping [simp]:
  "untouched c k (mark_one j s) = untouched c k s" "untouched c k (fold mark_one js s) = untouched c k s"
  "untouched c k (snd (supersede ids t s)) = untouched c k s" "untouched c k (enqueue_work w s) = untouched c k s"
  "untouched c k (s\<lparr>mc_paused := x\<rparr>) = untouched c k s" "untouched c k (s\<lparr>mc_sequence := n\<rparr>) = untouched c k s"
  "untouched c k (s\<lparr>mc_arrivals := later\<rparr>) = untouched c k s" "untouched c k (s\<lparr>mc_world := w'\<rparr>) = untouched c k s"
  "untouched c k (s\<lparr>mc_inFlight := x2\<rparr>) = untouched c k s" "untouched c k (s\<lparr>mc_stopIntents := x3\<rparr>) = untouched c k s"
  "untouched c k (release_intents ids n s) = untouched c k s" "untouched c k (log_event (Saved bs) s) = untouched c k s"
  by (simp_all add: untouched_def enqueue_work_def release_intents_def log_event_def process_calls_def supersede_def Let_def)

lemma untouched_store: "untouched c k s \<Longrightarrow> untouched c k (snd (store_bindings rt bs s))"
  by (auto simp: store_bindings_def Let_def split: prod.splits) (simp_all add: untouched_def log_event_def process_calls_def)

lemma untouched_reload: "untouched c k s \<Longrightarrow> untouched c k (snd (reload_if_required rt s))"
  by (auto simp: reload_if_required_def untouched_def split: option.splits)

lemma untouched_persist:
  assumes "untouched c k s"
  shows "untouched c k (snd (persist_intent rt ids n s))"
proof -
  let ?s = "s\<lparr>mc_stopIntents := fold (\<lambda>i m. map_set m i n) ids (mc_stopIntents s)\<rparr>"
  obtain r s1 where run: "write_intents rt ?s = (r, s1)" by fastforce
  have "keeps (untouched c k) (write_intents rt)" unfolding write_intents_def
    by (intro keeps_andthen keepsI untouched_reload untouched_store)
  then have "untouched c k s1" using keeps_at [of "untouched c k" "write_intents rt" ?s] assms run by simp
  then show ?thesis using run by (cases r) (simp_all add: persist_intent_alt Let_def)
qed

lemma untouched_receive: "untouched c k s \<Longrightarrow> untouched c k (receive rt q s)"
  by (cases q) (auto intro!: untouched_persist simp: request_command_def Let_def split_def)

lemma untouched_await: "untouched c k s \<Longrightarrow> untouched c k (await rt s)"
proof -
  have "untouched c k s' \<Longrightarrow> untouched c k (fold (receive rt) qs s')" for qs s'
    by (induction qs arbitrary: s') (auto intro: untouched_receive)
  then show "untouched c k s \<Longrightarrow> untouched c k (await rt s)" by (auto simp: await_def split: list.splits)
qed

lemma untouched_call: "keeps (untouched c k) (call rt f)"
  by (rule keepsI) (simp add: call_def Let_def split_def untouched_await)

lemma untouched_save:
  fixes rt :: "'w supervisor_ports"
  shows "keeps (untouched c k) (saveBinding rt b)"
proof (rule keepsI)
  fix s :: "'w machine" assume s: "untouched c k s"
  have "keeps (untouched c k) (store_bindings rt bs)" for bs by (rule keepsI) (rule untouched_store)
  then have "keeps (untouched c k) (lastly (andthen (store_bindings rt bs) (\<lambda>_. give b')) (await rt))" for bs b'
    by (intro keeps_lastly keeps_andthen keeps_give untouched_await)
  from keeps_at [OF this s] show "untouched c k (snd (saveBinding rt b s))" unfolding saveBinding_def Let_def .
qed

lemma untouched_clear:
  fixes rt :: "'w supervisor_ports"
  shows "keeps (untouched c k) (clearFailure rt i)"
proof (rule keepsI)
  fix s :: "'w machine" assume s: "untouched c k s"
  have "keeps (untouched c k) (andthen (saveBinding rt b) (\<lambda>_. give ()))" for b
    by (intro keeping untouched_save)
  from keeps_at [OF this s] show "untouched c k (snd (clearFailure rt i s))"
    using s by (auto simp: clearFailure_def split: option.splits)
qed

lemma untouched_progress:
  "keeps (untouched c k) (modify (refuse_first e))" "keeps (untouched c k) (modify (supersede_first e))"
  by (auto intro!: keeps_modify simp: refuse_first_def supersede_first_def untouched_def)

lemma untouched_replay:
  fixes rt :: "'w supervisor_ports"
  assumes "result_for r b \<noteq> None"
  shows "gives (untouched c k) (track i (startForOperator rt DoRestart b (Some r))) (\<lambda>started. \<not> started)"
proof (rule givesI)
  have receipt: "gives (untouched c k) (restart_for_operator rt b r) (\<lambda>started. \<not> started)"
    using assms by (auto simp: restart_for_operator_def gives_def throw_def give_def
      split: option.splits restart_result.splits)
  have replay: "gives (untouched c k) (startForOperator rt DoRestart b (Some r)) (\<lambda>started. \<not> started)"
    unfolding startForOperator_def
    by (simp, intro andthen_gives_to [OF gives_any [OF untouched_call]] andthen_gives_to [where Q = "\<lambda>i. i = r"])
      (use receipt in \<open>auto simp: gives_def give_def\<close>)
  fix s' :: "'w machine" assume "untouched c k s'"
  then have "untouched c k (s'\<lparr>mc_inFlight := map_set (mc_inFlight s') i None\<rparr>)" by simp
  note run = replay [unfolded gives_def, rule_format, OF this]
  then show "untouched c k (snd (track i (startForOperator rt DoRestart b (Some r)) s'))"
    by (simp add: track_def lastly_def split_def)
  fix started assume "fst (track i (startForOperator rt DoRestart b (Some r)) s') = Inr started"
  then show "\<not> started" using run by (simp add: track_def lastly_def split_def)
qed

lemma untouched_run_started:
  assumes "cw_command cw = DoRestart" "cw_requestId cw = Some r" "result_for r b \<noteq> None"
  shows "keeps (untouched c k) (run_started rt cw b)"
  unfolding run_started_def Let_def assms(1,2)
proof (rule keeps_rescue)
  show "keeps (untouched c k) (andthen (track (cf_workspaceId b) (startForOperator rt DoRestart b (Some r)))
    (\<lambda>started. andthen (whenever started (modify (add_started (cf_workspaceId b)))) (\<lambda>_. clearFailure rt (cf_workspaceId b))))"
    by (rule andthen_gives [OF untouched_replay [OF assms(3)]]) (intro keeps_andthen keeps_whenever untouched_clear, simp)
qed (auto intro: untouched_progress keeps_throw split: lifecycle_error.splits)

text \<open>
  C22: A restart that has its receipt is never run again. When the command that carries its request id
  reaches a Workspace whose binding already holds a receipt of that request, completed or cancelled,
  then whatever arrives meanwhile and however the calls end, its turn calls for no start and no stop of
  any process, and the Workspace is not counted as started.
\<close>
theorem replayed_restart_touches_no_process:
  assumes "cw_command cw = DoRestart" "cw_requestId cw = Some r" "result_for r b \<noteq> None"
  shows "process_calls (mc_log (snd (run_start rt cw b s))) = process_calls (mc_log s) \<and>
    pg_started (mc_progress (snd (run_start rt cw b s))) = pg_started (mc_progress s)"
proof -
  let ?P = "untouched (process_calls (mc_log s)) (pg_started (mc_progress s))"
  have "keeps ?P (run_start rt cw b)"
    unfolding run_start_def Let_def
  proof (rule keeps_andthen [OF untouched_call])
    fix parked :: "rejection_reason option"
    have "keeps ?P (andthen (modify (supersede_first e)) (\<lambda>_. record_taken rt cw b t))" for e t
      unfolding record_taken_def by (intro keeping untouched_progress untouched_save)
    then show "keeps ?P (case parked of
        Some reason \<Rightarrow> whenever (scope_id (cw_workspaceId cw) \<noteq> None \<or> mb_enabled b)
          (modify (refuse_first (ParkedWorkspace (cf_workspaceId b) reason)))
      | None \<Rightarrow> (\<lambda>s. case map_get (mc_supersededAt s) (cf_workspaceId b) of
            Some (n, taken) \<Rightarrow>
              if n > cw_sequence cw
              then andthen (modify (supersede_first (Superseded (cf_workspaceId b) taken
                (Some (operation_of (cw_command cw)))))) (\<lambda>_. record_taken rt cw b taken) s
              else run_started rt cw b s
          | None \<Rightarrow> run_started rt cw b s))"
      using untouched_run_started [OF assms, of "process_calls (mc_log s)" "pg_started (mc_progress s)" rt]
      by (cases parked) (auto simp: keeps_def split: option.splits intro: keeps_at [OF keeps_whenever [OF untouched_progress(1)]])
  qed
  from keeps_at [OF this, of s] show ?thesis by (simp add: untouched_def)
qed

theorem replayed_restart_touches_no_process_witness:
  "process_calls (mc_log (snd (run_start sample_ports \<lparr>cw_command = DoRestart, cw_workspaceId = Some ''w'',
      cw_requestId = Some ''r0'', cw_sequence = 1, cw_requested = [''w''], cw_intentWritten = True, cw_late = False\<rparr>
      sample_binding (new_machine (sample_world [sample_binding]))))) = []"
proof -
  have receipt: "result_for ''r0'' sample_binding \<noteq> None" by code_simp
  show ?thesis
    using replayed_restart_touches_no_process [OF _ _ receipt, of "\<lparr>cw_command = DoRestart, cw_workspaceId = Some ''w'',
      cw_requestId = Some ''r0'', cw_sequence = 1, cw_requested = [''w''], cw_intentWritten = True, cw_late = False\<rparr>"
      sample_ports "new_machine (sample_world [sample_binding])"]
    by (simp add: new_machine_def process_calls_def)
qed

subsection \<open>A stop that is refused\<close>

lemma settle_all_log [simp]: "mc_log (settle_all t) = mc_log t"
proof -
  have "mc_log (fold settle_mark js t) = mc_log t" for js
    by (induction js arbitrary: t) (simp_all add: settle_mark_def unmark_one_def Let_def)
  then show ?thesis by (simp add: settle_all_def)
qed

lemma work_over_log [simp]: "mc_log (work_over v t) = mc_log t"
  by (cases v) (simp_all add: release_intents_def)

lemma failed_after_answer_log [simp]: "mc_log (failed_after_answer rt v res t) = mc_log t"
  by (induction rt v res t rule: failed_after_answer.induct) (simp_all add: enqueue_work_def)

lemma run_work_log:
  assumes "perform rt w (s\<lparr>mc_progress := no_progress, mc_marked := marks_of w\<rparr>) = (r, t)"
  shows "mc_log (run_work rt w s) = Ended w r # mc_log t"
  by (simp add: run_work_def assms log_event_def)


definition pausing :: "(nat \<times> string list) coordinator_world machine" where
  "pausing = receive sample_ports PauseRequest sample_stopping"


subsection \<open>A stop in the first step of a restart\<close>

text \<open>
  C39: A stop whose intent is in place when a new restart saves its first step does not supersede it: the
  save keeps the Workspace stopped and gives a binding without a restart, and the restart goes on with
  the restart it does not have, so it ends with a type error, or with the error of the save, never with
  the takeover the operator should see.
\<close>
theorem restart_stopped_in_its_first_step:
  assumes "call rt (sv_instance rt b) s = (Inr previous, s1)" "has (mc_stopIntents s1) (cf_workspaceId b)"
  shows "fst (new_restart rt b r s) \<in> {Inl UndefinedRestart, Inl StoreFailed}"
proof -
  let ?b = "b\<lparr>mb_enabled := True, mb_restart := Some \<lparr>rp_requestId = r, rp_phase = RestartStopping,
    rp_previousInstanceId = previous\<rparr>\<rparr>"
  have "fst (andthen (saveBinding rt ?b) (advanceRestart rt) s1) \<in> {Inl UndefinedRestart, Inl StoreFailed}"
    using assms(2)
    by (simp add: andthen_def saveBinding_def lastly_def store_bindings_def Let_def advanceRestart_def throw_def give_def
      split: prod.splits)
  then show ?thesis using assms(1) by (simp add: new_restart_def andthen_def)
qed

text \<open>Two Workspaces are restarted; the first is stopped while it is asked for its instance.\<close>

definition two_bindings :: "managed_binding list" where
  "two_bindings = [plain_binding, plain_binding\<lparr>cf_workspaceId := ''v''\<rparr>]"

definition restarting_both :: "(nat \<times> string list) coordinator_world machine" where
  "restarting_both = receive sample_ports (CommandRequest DoRestart None (Some ''r1'') False)
     ((new_machine (sample_world two_bindings))\<lparr>mc_bindings := two_bindings\<rparr>)"

definition restart_cut_short :: "(nat \<times> string list) coordinator_world machine" where
  "restart_cut_short = run_head sample_ports [[], [], [], [CommandRequest DoStop (Some ''w'') None False]] restarting_both"

theorem restart_stopped_in_its_first_step_witness:
  "fst (new_restart sample_ports plain_binding ''r1''
      ((new_machine (sample_world [plain_binding]))\<lparr>mc_bindings := [plain_binding],
        mc_arrivals := [[CommandRequest DoStop (Some ''w'') None False]]\<rparr>)) \<in> {Inl UndefinedRestart, Inl StoreFailed} \<and>
   hd (mc_log restart_cut_short) = Ended (hd (mc_queue restarting_both)) (Inl UndefinedRestart) \<and>
   starts ''v'' (mc_log restart_cut_short) = 0"
proof -
  let ?s = "(new_machine (sample_world [plain_binding]))\<lparr>mc_bindings := [plain_binding],
    mc_arrivals := [[CommandRequest DoStop (Some ''w'') None False]]\<rparr>"
  have asked: "fst (call sample_ports (sv_instance sample_ports plain_binding) ?s) = Inr None"
    "has (mc_stopIntents (snd (call sample_ports (sv_instance sample_ports plain_binding) ?s))) (cf_workspaceId plain_binding)"
    by code_simp+
  have "hd (mc_log restart_cut_short) = Ended (hd (mc_queue restarting_both)) (Inl UndefinedRestart) \<and>
      starts ''v'' (mc_log restart_cut_short) = 0"
    by code_simp
  then show ?thesis
    using restart_stopped_in_its_first_step [OF prod.expand [of _ "(Inr None, _)"], of sample_ports plain_binding ?s, OF _ asked(2)]
      asked(1) by simp
qed


subsection \<open>Upgrades migrated from an older registry\<close>

lemma pending_append: "pending_operations (us @ vs) = pending_operations us @ pending_operations vs"
  by (simp add: pending_operations_def)

lemma newest_suffix:
  assumes "length ys = m" "m \<le> n"
  shows "\<exists>us. keep_newest n (xs @ ys) = us @ ys"
  using assms by (auto simp: keep_newest_def)

lemma pending_settled:
  assumes "distinct (map uo_requestId us)" "list_all (\<lambda>u. uo_state u = UpgradePending) us"
  shows "length us \<le> Suc (length (pending_operations (with_operation j (settled_by st t) us)))"
  using assms
proof (induction us)
  case (Cons u us)
  show ?case
  proof (cases "uo_requestId u = j")
    case True
    then have "uo_requestId x \<noteq> j" if "x \<in> set us" for x using Cons.prems(1) that True
      by (metis distinct.simps(2) image_eqI list.map(2) set_map)
    then have "with_operation j (settled_by st t) us = us" by (simp add: with_operation_def map_idI)
    moreover have "pending_operations us = us" using Cons.prems by (simp add: pending_operations_def list_all_iff filter_id_conv)
    ultimately show ?thesis using True by (simp add: with_operation_def pending_operations_def)
  next
    case False
    then show ?thesis using Cons by (simp add: with_operation_def pending_operations_def)
  qed
qed simp


definition legacy_binding :: managed_binding where
  "legacy_binding = plain_binding\<lparr>mb_upgradeRequests := Some [(''u1'', ''1.1''), (''u2'', ''1.2''), (''u3'', ''1.3'')]\<rparr>"


end
