(* ===== verification/Spec2Isabelle.thy ===== *)
theory Spec2Isabelle
  imports DeliveryProperties RecoveryRace Mentions ReadProperties MentionProperties ReminderProperties AgentProcesses SupervisorErrors
begin

text \<open>
  A model of the coforge daemon and the part of its SDK that the daemon's decisions rest on.

  The daemon runs code agents on a computer and connects them to a server. The server delivers
  messages, tracked mentions and reminders to it, and asks it to start and stop Agents; an Agent
  reads and sends messages through it. The daemon keeps, for every Agent, what the server has
  delivered, what the Agent has been shown, which deliveries wait, the draft of a send it held back,
  the receipts of its reminders and the record of its last Start or Stop. On each computer one
  Coordinator supervises a daemon process per Workspace, which a person starts, stops, restarts,
  configures and upgrades from the command line. What must be right is: a
  delivery is acknowledged only when the daemon really holds it or the Agent was told; nothing shown
  is shown as new again, nor lost over a restart; a send the Agent composed without seeing newer
  messages is held and not issued; an ambiguous send is settled by its key and never issued blindly
  again; a reminder wakes an Agent for an accepted fire only and no more once it is acknowledged; an
  Agent never has two processes, and a Start or Stop is answered; a stopped Workspace stays stopped, a
  refused one stays parked, an interrupted restart is finished, and the registry is never lost.

  Sources are named below without their prefix: \<open>daemon/\<close> is \<open>packages/daemon/src/\<close> and \<open>sdk/\<close> is
  \<open>packages/coforge-sdk/src/internal/\<close>.

  \<^bold>\<open>Vocabulary.\<close>
  \<^item> \<open>DaemonPrelude\<close>: the insertion-ordered \<open>Map\<close> and \<open>Set\<close> of JavaScript as association lists
    (\<open>map_get\<close>, \<open>map_put\<close>, \<open>map_drop\<close>), the bounded maps that evict their oldest entry, JSON values,
    JavaScript strings, and the lemmas on them that every theory uses.
  \<^item> \<open>MessageTarget\<close> and \<open>Deliveries\<close> (\<open>sdk/index.ts\<close>, \<open>uuid.ts\<close>, \<open>message-sender.ts\<close>,
    \<open>agent-name.ts\<close>): the grammar of targets (a conversation, a channel, a thread of either) and of
    senders, and the delivery the server sends, in a field order that matches the wire type.
  \<^item> \<open>SeenExactSeqs\<close> (\<open>sdk/freshness-decision.ts\<close>): the sorted list of sequences seen above a
    frontier: normalisation, merge, and the binary search, which finds what a linear search finds in
    logarithmically many steps.

  \<^bold>\<open>What the Agent has been shown.\<close>
  \<^item> \<open>ConsumedSeqStore\<close> (\<open>daemon/persistence/agent-consumed-seq-store.ts\<close>, \<open>path-scope.ts\<close>): the durable
    cursor, its parser and printer as functions on JSON values, with the round trip and the resolution
    of target aliases. Locale \<open>cursor_port\<close>, interpreted as \<open>cursor_file\<close>.
  \<^item> \<open>AttentionIndex\<close> (\<open>daemon/daemon-runtime/agent-message-attention-index.ts\<close>): the frontier, the
    exact sequences, aliases, review order, pending sequences and pending window of one Agent, each
    operation with its durable write. \<open>AttentionPending\<close> and \<open>AttentionCursor\<close> hold the invariants of
    its two halves, \<open>AttentionProperties\<close> the properties over any run of operations.
  \<^item> \<open>InboxNotice\<close>: the rows and the text of a notice; \<open>AttentionDelivery\<close>: the handlers that turn a
    delivery into a notice and an acknowledgement, split at the points where the code awaits, over
    the \<open>DeliveryQueue\<close> (\<open>daemon/daemon-runtime/agent-delivery-queue.ts\<close>; locale \<open>hold_port\<close>,
    interpreted as \<open>dq\<close>). A notice in flight and a handler that waits for it are part of the state, so
    every interleaving of deliveries, notices, holds and restarts is a run. \<open>DeliveryProperties\<close> has
    the invariant of these runs and the properties of acknowledgements; \<open>RecoveryRace\<close> a run in which
    a recovery overwrites what happened while it waited.
  \<^item> \<open>MentionTracker\<close> and \<open>MentionProperties\<close> (\<open>daemon/daemon-runtime/mention-delivery-tracker.ts\<close>):
    the same for tracked mentions, with their reports to the server.
  \<^item> \<open>Mentions\<close> (\<open>sdk/mentions.ts\<close>): the grammar of mentions in a text as an independent
    specification and the scanner that implements it, code spans, stored tokens and resolution.

  \<^bold>\<open>What the Agent sends and reads.\<close>
  \<^item> \<open>MessageDrafts\<close> (\<open>daemon/persistence/agent-message-draft-store.ts\<close>,
    \<open>daemon-runtime/agent-inbox-state-machine.ts\<close>): the draft of a held send, in memory or on file.
    Locale \<open>draft_port\<close>, interpreted for both (\<open>memory_drafts\<close>, \<open>file_drafts\<close>).
  \<^item> \<open>InboxFreshness\<close> (\<open>agent-inbox-freshness.ts\<close>, \<open>agent-inbox-freshness-activity.ts\<close>): the decision
    to hold a send. \<open>SendSettlement\<close> (\<open>agent-send-settlement.ts\<close>, \<open>connection/agent-transport-error.ts\<close>):
    issuing one send and settling an ambiguous outcome, against an abstract specification of what may
    be issued again.
  \<^item> \<open>SendPipeline\<close> and \<open>MessageReads\<close> (\<open>agentMessage\<close>, \<open>#sendAgentMessage\<close>, \<open>#checkAgentMessages\<close>,
    \<open>#forwardAgentMessage\<close> of \<open>daemon/daemon-runtime/runtime.ts\<close>): the composition of index, drafts,
    decision and settlement; \<open>SendProperties\<close> and \<open>ReadProperties\<close> what it guarantees.

  \<^bold>\<open>Reminders.\<close>
  \<^item> \<open>Backoffs\<close> (\<open>daemon/agent-runtime/launch-failure-backoff.ts\<close>, \<open>runtime-error-recovery.ts\<close>): the
    retry bookkeeping. Locale \<open>doubling_delay\<close>, interpreted for the launch, runtime-error and reminder
    delays.
  \<^item> \<open>ReminderReceipts\<close> (\<open>daemon/persistence/reminder-receipt-store.ts\<close>; locale \<open>receipt_store\<close>,
    interpreted as \<open>receipt_file\<close>) and \<open>ReminderScheduler\<close>
    (\<open>daemon/agent-reminder/reminder-scheduler.ts\<close>): the receipts, the queue that serializes them, the
    timers and the calls. \<open>ReminderProperties\<close> states what a predicate on receipts must satisfy to hold
    of every receipt in any run (locale \<open>receipt_invariant\<close>) and interprets it four times.

  \<^bold>\<open>Agents and their processes.\<close>
  \<^item> \<open>AgentControl\<close> (\<open>daemon/agent-runtime/agent-control.ts\<close>, \<open>agent-runtime-state.ts\<close>,
    \<open>agent-session.ts\<close>): Start, Stop and workspace reset, the fence of epochs, launch retries and
    session recovery, as operations waiting in the Agent's queue. \<open>AgentControlProperties\<close> and
    \<open>AgentStarts\<close> hold its invariant and how operations end.
  \<^item> \<open>AgentProcesses\<close> (\<open>agent-process-manager.ts\<close>, \<open>agent-state-machine.ts\<close>): the bookkeeping of
    processes. What control relies on is the locale \<open>agent_process\<close>; its interpretation \<open>managed\<close>
    discharges it on the manager, and with it no Agent gets a second process.

  \<^bold>\<open>Workspaces of a computer\<close> (\<open>daemon/supervisor/\<close>).
  \<^item> \<open>WorkspaceHealth\<close> (\<open>workspace-health-journal.ts\<close>, \<open>workspace-runner-guard.ts\<close>,
    \<open>workspace-parking.ts\<close>): the journal in which a Workspace process records crashes, latches and its
    park, the decision at boot, and the steps of parking.
  \<^item> \<open>RunnerHold\<close> (\<open>runner-hold.ts\<close>, \<open>workspace-start-outcome.ts\<close>): the two polling loops, partial
    functions that a clock which advances with the sleeps ends.
  \<^item> \<open>WorkspaceBindings\<close> (\<open>binding-store.ts\<close>, the bindings of \<open>machine-supervisor.ts\<close>,
    \<open>buildChildConfig\<close> of \<open>run-supervisor.ts\<close>): the registry, its checks, file format and migration, and
    its save, which is atomic whatever the disk does.
  \<^item> \<open>MachineSupervisor\<close> (\<open>machine-supervisor.ts\<close>): a request acts before the queue at once, then
    its work waits its turn. Wherever the work under way awaits, the next batch of \<open>mc_arrivals\<close> is
    received, and the theorems are over all such batches, so over every interleaving.
    \<open>MachineInvariants\<close> proves once that every operation keeps an invariant of the contract
    \<open>machine_invariant\<close>; \<open>MachineProperties\<close> states what the ports promise as the locale \<open>supervised\<close>
    and derives three instances of the contract in it: a stop whose turn is to come (\<open>held\<close>), one that
    had it (\<open>free\<close>), and a park (\<open>parked\<close>).
  \<^item> \<open>Coordinator\<close> (\<open>run-supervisor.ts\<close>) interprets \<open>supervised\<close> for the ports the code builds from
    the registry file and the health journals. \<open>SupervisorProperties\<close>, \<open>RegistrySafety\<close>,
    \<open>SupervisorRuns\<close> and \<open>SupervisorErrors\<close> state what holds of every run of it: stops and parks, the
    registry against its file, the end of an interrupted restart, and the error paths.

  \<^bold>\<open>Bounds and recursion.\<close> All definitions but the two polling loops, which are partial functions, are
  total. The drain of a check stops after 50 rounds, as the
  code does, by a counter. A generation remembers 4096 deliveries and as many mentions, a cursor 2500
  exact sequences per target, a window 3 pending messages, a draft lives 10 minutes; a reminder is tried
  8 times or 15 minutes and its receipt kept 7 days; a launch is tried 7 times. These are the code's
  constants. The supervisor runs its hold with a fuel of the model's own, 121 rounds: \<open>runner_hold_ends\<close>
  shows that 30 seconds polled every 250 milliseconds need no more. All other loops are structural, or
  terminate by a measure.

  \<^bold>\<open>Parameters.\<close> The server and the transport answer by functions over a world of any type; the process
  behind an Agent is a record of such functions, and so are the units of the operating system behind
  a Workspace with their handshakes (\<open>process_env\<close>); the clock, the random jitter and whether the disk
  can be read or written are arguments of an operation; the digest of a fact (SHA-256), the order of
  \<open>localeCompare\<close> and whether the wire codecs take a receipt are functions given to the definitions.
  Identifiers of JavaScript objects (a generation, a session) are numbers.

  \<^bold>\<open>Numbers.\<close> JavaScript numbers that the code checks to be safe integers are \<open>int\<close> with that check
  written out; none of the modelled arithmetic leaves the safe range while those checks hold.

  \<^bold>\<open>Not modelled.\<close> The connection (\<open>daemon/connection/daemon-connection.ts\<close>, sockets and HTTP), the
  providers of code agents (\<open>daemon/code-agent/\<close>, child processes of third-party programs and their
  output), the host integrations (\<open>daemon-host/\<close>, \<open>platform/\<close> and the systemd, launchd and Windows
  units of \<open>daemon/supervisor/\<close>), the local RPC of the Coordinator with credentials, held upgrades and
  the receipts of upgrade jobs, the local proxy and RPC servers, the remaining decoders of the SDK, the command line, and the web application with its repositories over
  PostgreSQL. Of \<open>runtime.ts\<close> only the message operations are modelled. Logging and the texts of
  activities are left out.
\<close>

end
